(* ===== verification/Prelude.thy ===== *)
theory Prelude
  imports Complex_Main "HOL-Library.Char_ord" "HOL-Library.List_Lexorder"
    "HOL-Library.Product_Lexorder" "HOL-Library.Word"
begin

text \<open>
  Shared vocabulary of the development: results that may be an exception, the list view of an
  SQL table (filter, order, limit, update, upsert, delete), and the generic facts about keyed
  tables and keyset pagination that the components use.

  Conventions. Python \<^verbatim>\<open>int\<close> is \<^typ>\<open>int\<close>, \<^verbatim>\<open>float\<close> is \<^typ>\<open>real\<close> (exact
  arithmetic), \<^verbatim>\<open>str\<close> is \<^typ>\<open>string\<close> (its UTF-8 bytes, compared byte by byte as both
  SQLite's BINARY collation and Python's ordering of strings do), \<^verbatim>\<open>None\<close> is \<^const>\<open>None\<close>.
  A table is the list of its rows in rowid order.
\<close>

type_synonym byte = "8 word"
type_synonym bytes = "byte list"

section \<open>Results\<close>

text \<open>A computation that may raise is a sum: \<^const>\<open>Inl\<close> the exception, \<^const>\<open>Inr\<close> the value.\<close>

definition bind_res :: "'e + 'a \<Rightarrow> ('a \<Rightarrow> 'e + 'b) \<Rightarrow> 'e + 'b" where
  "bind_res m f = (case m of Inl e \<Rightarrow> Inl e | Inr x \<Rightarrow> f x)"

fun is_ok :: "'e + 'a \<Rightarrow> bool" where
  "is_ok (Inl e) = False"
| "is_ok (Inr x) = True"

text \<open>A loop whose body may raise stops at the first exception.\<close>

fun fold_res :: "('x \<Rightarrow> 's \<Rightarrow> 'e + 's) \<Rightarrow> 'x list \<Rightarrow> 's \<Rightarrow> 'e + 's" where
  "fold_res f [] s = Inr s"
| "fold_res f (x # xs) s = bind_res (f x s) (fold_res f xs)"

text \<open>A \<^verbatim>\<open>for\<close> loop whose body changes a state and may raise: the state reached is kept either way.\<close>

fun for_each :: "('x \<Rightarrow> 's \<Rightarrow> ('e + unit) \<times> 's) \<Rightarrow> 'x list \<Rightarrow> 's \<Rightarrow> ('e + unit) \<times> 's" where
  "for_each f [] s = (Inr (), s)"
| "for_each f (x # xs) s = (case f x s of (Inl e, s1) \<Rightarrow> (Inl e, s1) | (Inr _, s1) \<Rightarrow> for_each f xs s1)"

section \<open>Slices\<close>

text \<open>Python's \<^verbatim>\<open>xs[i:j]\<close>: negative indices count from the end, everything is clamped.\<close>

definition py_slice :: "int \<Rightarrow> int \<Rightarrow> 'a list \<Rightarrow> 'a list" where
  "py_slice i j xs =
     (let n = int (length xs);
          clamp = (\<lambda>k. if k < 0 then max 0 (k + n) else min k n);
          a = clamp i; b = clamp j
      in take (nat (b - a)) (drop (nat a) xs))"

text \<open>The chunks of a \<^verbatim>\<open>for start in range(0, len(xs), n)\<close> loop that takes \<^verbatim>\<open>xs[start:start + n]\<close>.\<close>

function slices :: "nat \<Rightarrow> 'a list \<Rightarrow> 'a list list" where
  "slices n xs = (if n = 0 \<or> xs = [] then [] else take n xs # slices n (drop n xs))"
  by pat_completeness auto
termination by (relation "measure (\<lambda>(n, xs). length xs)") auto

declare slices.simps [simp del]

lemma concat_slices: "0 < n \<Longrightarrow> concat (slices n xs) = xs"
proof (induction n xs rule: slices.induct)
  case (1 n xs)
  show ?case
  proof (cases "xs = []")
    case True
    then show ?thesis by (simp add: slices.simps [of n "[]"])
  next
    case False
    then show ?thesis using 1 by (simp add: slices.simps [of n xs])
  qed
qed

section \<open>Texts and dictionaries\<close>

definition lower_hex_digit :: "nat \<Rightarrow> char" where
  "lower_hex_digit n = char_of (if n < 10 then 48 + n else 87 + n)"

text \<open>
  \<^verbatim>\<open>repr\<close> of a string: double quotes only when that avoids escaping single ones; control characters
  are escaped, the bytes of other characters are kept (they are taken to be printable).
\<close>

definition py_repr :: "string \<Rightarrow> string" where
  "py_repr s =
     (let q = (if CHR 0x27 \<in> set s \<and> CHR 0x22 \<notin> set s then CHR 0x22 else CHR 0x27);
          esc = (\<lambda>c. let n = of_char c :: nat in
             if c = q \<or> c = CHR 0x5C then [CHR 0x5C, c]
             else if n = 9 then [CHR 0x5C, CHR ''t''] else if n = 10 then [CHR 0x5C, CHR ''n'']
             else if n = 13 then [CHR 0x5C, CHR ''r'']
             else if n < 32 \<or> n = 127
             then [CHR 0x5C, CHR ''x'', lower_hex_digit (n div 16), lower_hex_digit (n mod 16)] else [c])
      in q # concat (map esc s) @ [q])"

text \<open>\<^verbatim>\<open>str\<close> of an integer.\<close>

fun nat_digits :: "nat \<Rightarrow> string" where
  "nat_digits n = (if n < 10 then [char_of (48 + n)] else nat_digits (n div 10) @ [char_of (48 + n mod 10)])"

definition py_str_int :: "int \<Rightarrow> string" where
  "py_str_int n = (if n < 0 then CHR ''-'' # nat_digits (nat (- n)) else nat_digits (nat n))"

declare nat_digits.simps [simp del]

text \<open>A \<^verbatim>\<open>dict\<close> is its list of items in insertion order; assignment keeps the position of a present key.\<close>

fun dict_set :: "'k \<Rightarrow> 'v \<Rightarrow> ('k \<times> 'v) list \<Rightarrow> ('k \<times> 'v) list" where
  "dict_set k v [] = [(k, v)]"
| "dict_set k v ((k', v') # d) = (if k' = k then (k, v) # d else (k', v') # dict_set k v d)"

definition dict_of :: "('a \<Rightarrow> 'k) \<Rightarrow> ('a \<Rightarrow> 'v) \<Rightarrow> 'a list \<Rightarrow> ('k \<times> 'v) list" where
  "dict_of key val xs = fold (\<lambda>x. dict_set (key x) (val x)) xs []"

section \<open>SQL over lists of rows\<close>

text \<open>\<^verbatim>\<open>LIMIT n\<close>: a negative limit is no limit in SQLite.\<close>

definition sql_limit :: "int \<Rightarrow> 'r list \<Rightarrow> 'r list" where
  "sql_limit n rs = (if n < 0 then rs else take (nat n) rs)"

text \<open>\<^verbatim>\<open>UPDATE t SET f WHERE p\<close>, and the \<^verbatim>\<open>rowcount\<close> of a statement with that \<^verbatim>\<open>WHERE\<close>.\<close>

definition sql_update :: "('r \<Rightarrow> bool) \<Rightarrow> ('r \<Rightarrow> 'r) \<Rightarrow> 'r list \<Rightarrow> 'r list" where
  "sql_update p f rs = map (\<lambda>r. if p r then f r else r) rs"

definition sql_delete :: "('r \<Rightarrow> bool) \<Rightarrow> 'r list \<Rightarrow> 'r list" where
  "sql_delete p rs = filter (\<lambda>r. \<not> p r) rs"

definition rowcount :: "('r \<Rightarrow> bool) \<Rightarrow> 'r list \<Rightarrow> int" where
  "rowcount p rs = int (length (filter p rs))"

text \<open>
  \<^verbatim>\<open>INSERT ... ON CONFLICT(key) DO UPDATE SET upd\<close>: \<open>key\<close> is the primary key of the table,
  \<open>new\<close> the inserted row (\<^verbatim>\<open>excluded\<close>).
\<close>

definition sql_upsert :: "('r \<Rightarrow> 'k) \<Rightarrow> ('r \<Rightarrow> 'r) \<Rightarrow> 'r \<Rightarrow> 'r list \<Rightarrow> 'r list" where
  "sql_upsert key upd new rs =
     (if key new \<in> set (map key rs)
      then sql_update (\<lambda>r. key r = key new) upd rs else rs @ [new])"

text \<open>The row with a given key (\<^verbatim>\<open>fetchone\<close> on a primary-key lookup).\<close>

definition sql_get :: "('r \<Rightarrow> 'k) \<Rightarrow> 'k \<Rightarrow> 'r list \<Rightarrow> 'r option" where
  "sql_get key k rs = find (\<lambda>r. key r = k) rs"

text \<open>A fresh rowid: one past the largest, \<open>1\<close> in an empty table (no \<^verbatim>\<open>AUTOINCREMENT\<close>).\<close>

definition next_rowid :: "int list \<Rightarrow> int" where
  "next_rowid ids = (if ids = [] then 1 else Max (set ids) + 1)"


text \<open>
  A keyset-paginated read: each page takes up to \<open>n\<close> rows past the cursor in key order, the next
  cursor is the last key of the page, and a short page ends the loop.
\<close>

definition after :: "'k::linorder option \<Rightarrow> 'k \<Rightarrow> bool" where
  "after c k = (case c of None \<Rightarrow> True | Some l \<Rightarrow> l < k)"

definition keyset_page :: "('r \<Rightarrow> 'k::linorder) \<Rightarrow> int \<Rightarrow> 'r list \<Rightarrow> 'k option \<Rightarrow> 'r list" where
  "keyset_page key n rs c = sql_limit n (sort_key key (filter (\<lambda>r. after c (key r)) rs))"

lemma keyset_page_subset: "set (keyset_page key n rs c) \<subseteq> {r \<in> set rs. after c (key r)}"
  by (auto simp: keyset_page_def sql_limit_def dest: in_set_takeD)

lemma filter_after_shrinks:
  assumes "r \<in> set rs" and "after c (key r)"
  shows "length (filter (\<lambda>x. after (Some (key r)) (key x)) rs)
    < length (filter (\<lambda>x. after c (key x)) rs)"
proof -
  have sub: "set (filter (\<lambda>x. after (Some (key r)) (key x)) rs) \<subseteq> set (filter (\<lambda>x. after c (key x)) rs)"
    using assms(2) by (auto simp: after_def split: option.splits)
  have "filter (\<lambda>x. after (Some (key r)) (key x)) rs
      = filter (\<lambda>x. after (Some (key r)) (key x)) (filter (\<lambda>x. after c (key x)) rs)"
    using assms(2) by (auto simp: after_def split: option.splits intro: filter_cong)
  moreover have "r \<in> set (filter (\<lambda>x. after c (key x)) rs)"
    and "\<not> after (Some (key r)) (key r)"
    using assms by (auto simp: after_def)
  ultimately show ?thesis
    using length_filter_less by metis
qed

function keyset_pages ::
    "('r \<Rightarrow> 'k::linorder) \<Rightarrow> int \<Rightarrow> 'r list \<Rightarrow> 'k option \<Rightarrow> 'r list list" where
  "keyset_pages key n rs c =
     (let rows = keyset_page key n rs c
      in if rows = [] then []
         else rows # (if int (length rows) < n then []
                      else keyset_pages key n rs (Some (key (last rows)))))"
  by pat_completeness auto
termination
proof (relation "measure (\<lambda>(key, n, rs, c). length (filter (\<lambda>r. after c (key r)) rs))")
  fix key :: "'r \<Rightarrow> 'k::linorder" and n rs c x
  assume x: "x = keyset_page key n rs c" and ne: "x \<noteq> []"
  have "last x \<in> set rs" and "after c (key (last x))"
    using keyset_page_subset [of key n rs c] last_in_set [OF ne] x by auto
  then show "((key, n, rs, Some (key (last x))), key, n, rs, c)
      \<in> measure (\<lambda>(key, n, rs, c). length (filter (\<lambda>r. after c (key r)) rs))"
    by (simp add: filter_after_shrinks)
qed auto

declare keyset_pages.simps [simp del]

section \<open>Facts about results\<close>

named_theorems res_simps \<open>the result monad\<close>
named_theorems sql_simps \<open>lookups, key sets and updates of tables\<close>

lemma bind_res_simps [simp, res_simps]:
  "bind_res (Inl e) f = Inl e"
  "bind_res (Inr x) f = f x"
  by (simp_all add: bind_res_def)

lemma bind_res_Inr_iff: "bind_res m f = Inr y \<longleftrightarrow> (\<exists>x. m = Inr x \<and> f x = Inr y)"
  by (cases m) auto

lemma is_ok_iff: "is_ok m \<longleftrightarrow> (\<exists>x. m = Inr x)"
  by (cases m) auto

lemma fold_res_append: "fold_res f (xs @ ys) s = bind_res (fold_res f xs s) (fold_res f ys)"
proof (induction xs arbitrary: s)
  case Nil
  then show ?case by simp
next
  case (Cons x xs)
  then show ?case by (cases "f x s") auto
qed

text \<open>The loop rule: an invariant kept by every successful body holds of a successful loop.\<close>

lemma fold_res_invariant:
  assumes "fold_res f xs s = Inr t" and "I s"
    and "\<And>x s t. x \<in> set xs \<Longrightarrow> I s \<Longrightarrow> f x s = Inr t \<Longrightarrow> I t"
  shows "I t"
  using assms
proof (induction xs arbitrary: s)
  case Nil
  then show ?case by simp
next
  case (Cons x xs)
  then obtain u where u: "f x s = Inr u" "fold_res f xs u = Inr t"
    by (auto simp: bind_res_Inr_iff)
  have "I u" using Cons.prems(3) [of x s u] Cons.prems(2) u(1) by simp
  then show ?case using Cons.IH [OF u(2)] Cons.prems(3) by auto
qed

lemma fold_res_total:
  assumes "I s" and "\<And>x s. x \<in> set xs \<Longrightarrow> I s \<Longrightarrow> \<exists>t. f x s = Inr t \<and> I t"
  shows "\<exists>t. fold_res f xs s = Inr t \<and> I t"
  using assms
proof (induction xs arbitrary: s)
  case Nil
  then show ?case by simp
next
  case (Cons x xs)
  then obtain u where "f x s = Inr u" "I u" by (meson list.set_intros(1))
  then show ?case using Cons by auto
qed

section \<open>Facts about slices\<close>

lemma py_slice_subset: "set (py_slice i j xs) \<subseteq> set xs"
  by (auto simp: py_slice_def Let_def dest: in_set_takeD in_set_dropD)

lemma py_slice_in:
  assumes "0 \<le> i" and "0 \<le> n" and "i + n \<le> int (length xs)"
  shows "py_slice i (i + n) xs = take (nat n) (drop (nat i) xs)"
  using assms by (simp add: py_slice_def Let_def min_def)

lemma py_slice_append:
  assumes "0 \<le> i" and "0 \<le> n" and "i + n \<le> int (length xs)"
  shows "py_slice i (i + n) (xs @ ys) = py_slice i (i + n) xs"
proof -
  have "nat n - (length xs - nat i) = 0" using assms by simp
  then show ?thesis using assms by (simp add: py_slice_in)
qed

lemma py_slice_middle: "py_slice (int (length xs)) (int (length xs) + int (length ys)) (xs @ ys @ zs) = ys"
  by (simp add: py_slice_in)

section \<open>Facts about tables\<close>

lemma sql_limit_subset: "set (sql_limit n rs) \<subseteq> set rs"
  by (auto simp: sql_limit_def dest: in_set_takeD)

lemma sql_limit_append_rest: "\<exists>ys. rs = sql_limit n rs @ ys"
  by (auto simp: sql_limit_def intro: exI [of _ "drop (nat n) rs"])

lemma length_sql_limit: "0 \<le> n \<Longrightarrow> int (length (sql_limit n rs)) \<le> n"
  by (simp add: sql_limit_def)

lemma sql_limit_short: "int (length (sql_limit n rs)) < n \<Longrightarrow> sql_limit n rs = rs"
  by (auto simp: sql_limit_def min_def split: if_splits)

lemma sql_limit_neq_Nil: "n \<noteq> 0 \<Longrightarrow> sql_limit n rs = [] \<longleftrightarrow> rs = []"
  by (auto simp: sql_limit_def)

lemma sql_limit_whole: "sql_limit n S = [] \<and> n \<noteq> 0 \<or> int (length (sql_limit n S)) < n \<Longrightarrow> sql_limit n S = S"
  using sql_limit_short [of n S] sql_limit_neq_Nil [of n S] by auto

lemma map_key_sql_update [sql_simps]:
  assumes "\<And>r. p r \<Longrightarrow> key (f r) = key r"
  shows "map key (sql_update p f rs) = map key rs"
  using assms by (auto simp: sql_update_def)

lemma set_sql_update: "set (sql_update p f rs) = (\<lambda>r. if p r then f r else r) ` set rs"
  by (simp add: sql_update_def)

lemma length_sql_update [sql_simps]: "length (sql_update p f rs) = length rs"
  by (simp add: sql_update_def)

lemma set_sql_delete [sql_simps]: "set (sql_delete p rs) = {r \<in> set rs. \<not> p r}"
  by (auto simp: sql_delete_def)

lemma distinct_key_delete: "distinct (map key rs) \<Longrightarrow> distinct (map key (sql_delete p rs))"
  by (simp add: sql_delete_def distinct_map_filter)

lemma map_key_upsert:
  assumes "\<And>r. key r = key new \<Longrightarrow> key (upd r) = key new"
  shows "map key (sql_upsert key upd new rs)
    = (if key new \<in> set (map key rs) then map key rs else map key rs @ [key new])"
  using map_key_sql_update [of "\<lambda>r. key r = key new" key upd rs] assms
  by (simp add: sql_upsert_def del: list.set_map)

lemma set_key_upsert:
  assumes "\<And>r. key r = key new \<Longrightarrow> key (upd r) = key new"
  shows "set (map key (sql_upsert key upd new rs)) = insert (key new) (set (map key rs))"
  by (subst map_key_upsert) (use assms in auto)

lemma distinct_key_upsert:
  assumes "\<And>r. key r = key new \<Longrightarrow> key (upd r) = key new" and "distinct (map key rs)"
  shows "distinct (map key (sql_upsert key upd new rs))"
  by (subst map_key_upsert) (use assms in auto)

lemma sql_get_Some: "sql_get key k rs = Some r \<Longrightarrow> r \<in> set rs \<and> key r = k"
  by (auto simp: sql_get_def find_Some_iff)

lemma sql_get_None [sql_simps]: "sql_get key k rs = None \<longleftrightarrow> k \<notin> set (map key rs)"
  by (auto simp: sql_get_def find_None_iff)

lemma sql_get_in: "distinct (map key rs) \<Longrightarrow> r \<in> set rs \<Longrightarrow> sql_get key (key r) rs = Some r"
  by (induction rs) (auto simp: sql_get_def rev_image_eqI)

lemma sql_get_update [sql_simps]:
  assumes "\<And>r. p r \<Longrightarrow> key (f r) = key r"
  shows "sql_get key k (sql_update p f rs)
    = map_option (\<lambda>r. if p r then f r else r) (sql_get key k rs)"
  using assms by (induction rs) (auto simp: sql_get_def sql_update_def)

lemma sql_get_append: "sql_get key k (rs @ ss)
    = (case sql_get key k rs of None \<Rightarrow> sql_get key k ss | Some r \<Rightarrow> Some r)"
  by (induction rs) (auto simp: sql_get_def)

lemma sql_get_single: "sql_get key k [r] = (if key r = k then Some r else None)"
  by (simp add: sql_get_def)

lemma sql_get_delete [sql_simps]:
  assumes "\<And>r. key r = k \<Longrightarrow> p r \<longleftrightarrow> q"
  shows "sql_get key k (sql_delete p rs) = (if q then None else sql_get key k rs)"
  using assms by (induction rs) (auto simp: sql_get_def sql_delete_def)

lemma sql_get_upsert [sql_simps]:
  assumes "\<And>r. key r = key new \<Longrightarrow> key (upd r) = key new"
  shows "sql_get key k (sql_upsert key upd new rs)
    = (if k = key new then Some (case sql_get key k rs of None \<Rightarrow> new | Some r \<Rightarrow> upd r)
       else sql_get key k rs)"
proof (cases "key new \<in> set (map key rs)")
  case True
  then obtain r where "sql_get key (key new) rs = Some r"
    by (metis option.exhaust sql_get_None)
  moreover have "sql_get key k (sql_update (\<lambda>r. key r = key new) upd rs)
      = map_option (\<lambda>r. if key r = key new then upd r else r) (sql_get key k rs)"
    using assms by (intro sql_get_update) simp
  ultimately show ?thesis
    using True
    by (cases "sql_get key k rs") (auto simp: sql_upsert_def dest: sql_get_Some)
next
  case False
  then have "sql_get key (key new) rs = None" by (simp add: sql_get_None)
  with False show ?thesis
    by (auto simp: sql_upsert_def sql_get_append sql_get_single split: option.splits)
qed

lemma sql_get_iff:
  "distinct (map key rs) \<Longrightarrow> sql_get key k rs = Some r \<longleftrightarrow> r \<in> set rs \<and> key r = k"
  using sql_get_Some sql_get_in by fastforce

lemma sql_get_same_set:
  assumes "distinct (map key xs)" and "distinct (map key ys)" and "set xs = set ys"
  shows "sql_get key k xs = sql_get key k ys"
proof -
  have "sql_get key k xs = Some r \<longleftrightarrow> sql_get key k ys = Some r" for r
    using assms by (simp add: sql_get_iff)
  then show ?thesis by (metis not_Some_eq)
qed

lemma filter_key_single:
  "distinct (map key rs) \<Longrightarrow> r \<in> set rs \<Longrightarrow> filter (\<lambda>x. key x = key r) rs = [r]"
proof (induction rs)
  case Nil
  then show ?case by simp
next
  case (Cons x rs)
  then show ?case by (cases "key x = key r") (auto simp: filter_empty_conv image_iff)
qed

lemma list_all2_image: "list_all2 P xs ys \<Longrightarrow> x \<in> set xs \<Longrightarrow> \<exists>y \<in> set ys. P x y"
  by (induction rule: list_all2_induct) auto

lemma list_all2_preimage: "list_all2 P xs ys \<Longrightarrow> y \<in> set ys \<Longrightarrow> \<exists>x \<in> set xs. P x y"
  by (induction rule: list_all2_induct) auto

lemma next_rowid_fresh: "next_rowid ids \<notin> set ids"
proof
  assume a: "next_rowid ids \<in> set ids"
  then have "ids \<noteq> []" by auto
  then have "next_rowid ids \<le> Max (set ids)" using a by simp
  then show False using \<open>ids \<noteq> []\<close> by (simp add: next_rowid_def)
qed

lemma next_rowid_greater: "i \<in> set ids \<Longrightarrow> i < next_rowid ids"
  by (auto simp: next_rowid_def zless_add1_eq intro: order_le_imp_less_or_eq)

section \<open>Facts about dictionaries\<close>

lemma map_of_dict_set: "map_of (dict_set k v d) = (map_of d)(k \<mapsto> v)"
  by (induction k v d rule: dict_set.induct) auto

lemma keys_dict_set: "fst ` set (dict_set k v d) = insert k (fst ` set d)"
  by (induction k v d rule: dict_set.induct) auto

lemma distinct_dict_set: "distinct (map fst d) \<Longrightarrow> distinct (map fst (dict_set k v d))"
proof (induction k v d rule: dict_set.induct)
  case (2 k v k' v' d)
  then show ?case using keys_dict_set [of k v d] by auto
qed simp

lemma fold_dict_set:
  "map_of (fold (\<lambda>x. dict_set (key x) (val x)) xs d) = fold (\<lambda>x m. m(key x \<mapsto> val x)) xs (map_of d)"
  by (induction xs arbitrary: d) (simp_all add: map_of_dict_set)

lemma distinct_dict_of: "distinct (map fst (dict_of key val xs))"
proof -
  have "distinct (map fst d) \<Longrightarrow> distinct (map fst (fold (\<lambda>x. dict_set (key x) (val x)) xs d))" for d
    by (induction xs arbitrary: d) (simp_all add: distinct_dict_set)
  then show ?thesis by (simp add: dict_of_def)
qed

lemma keys_dict_of: "set (map fst (dict_of key val xs)) = key ` set xs"
proof -
  have "set (map fst (fold (\<lambda>x. dict_set (key x) (val x)) xs d)) = key ` set xs \<union> set (map fst d)" for d
    by (induction xs arbitrary: d) (simp_all add: keys_dict_set)
  then show ?thesis by (simp add: dict_of_def)
qed

lemma map_of_dict_of_Some: "map_of (dict_of key val xs) k = Some v \<Longrightarrow> \<exists>x \<in> set xs. key x = k \<and> val x = v"
proof -
  have "map_of (fold (\<lambda>x. dict_set (key x) (val x)) xs d) k = Some v
      \<Longrightarrow> (\<exists>x \<in> set xs. key x = k \<and> val x = v) \<or> map_of d k = Some v" for d
    by (induction xs arbitrary: d) (fastforce simp: map_of_dict_set split: if_splits)+
  from this [of "[]"] show "map_of (dict_of key val xs) k = Some v \<Longrightarrow> \<exists>x \<in> set xs. key x = k \<and> val x = v"
    by (simp add: dict_of_def)
qed

text \<open>A dictionary over distinct keys is the table lookup.\<close>

lemma map_of_dict_of:
  assumes "distinct (map key xs)"
  shows "map_of (dict_of key val xs) k = map_option val (sql_get key k xs)"
proof -
  have "fold (\<lambda>x m. m(key x \<mapsto> val x)) xs m k
      = (case sql_get key k xs of None \<Rightarrow> m k | Some x \<Rightarrow> Some (val x))" if "distinct (map key xs)" for xs m
    using that
  proof (induction xs arbitrary: m)
    case Nil
    then show ?case by (simp add: sql_get_def)
  next
    case (Cons x xs)
    have new: "key x \<notin> set (map key xs)" and dist: "distinct (map key xs)" using Cons.prems by auto
    note ih = Cons.IH [OF dist, of "m(key x \<mapsto> val x)"]
    have get: "sql_get key k (x # xs) = (if key x = k then Some x else sql_get key k xs)"
      by (simp add: sql_get_def)
    show ?case
    proof (cases "key x = k")
      case True
      then have "sql_get key k xs = None" using new by (simp only: sql_get_None) simp
      with True ih get show ?thesis by simp
    next
      case False
      with ih get show ?thesis by (simp split: option.splits)
    qed
  qed
  then show ?thesis using assms by (simp add: dict_of_def fold_dict_set split: option.splits)
qed

section \<open>Facts about keyset pagination\<close>

lemma sorted_split_after:
  assumes "sorted (map key S)" and "distinct (map key S)" and "S = P @ Q" and "P \<noteq> []"
  shows "filter (\<lambda>r. key (last P) < key r) S = Q"
proof -
  from \<open>P \<noteq> []\<close> obtain P' l where P: "P = P' @ [l]" by (metis append_butlast_last_id)
  have "\<forall>r \<in> set P. key r \<le> key l" and "\<forall>r \<in> set Q. key l < key r"
    using assms(1,2) unfolding assms(3) P
    by (auto simp: sorted_append order.strict_iff_order image_iff)
  then have "filter (\<lambda>r. key (last P) < key r) P = []"
    and "filter (\<lambda>r. key (last P) < key r) Q = Q"
    by (auto simp: P filter_empty_conv filter_id_conv not_less)
  then show ?thesis by (simp add: assms(3))
qed

lemma distinct_map_sort: "distinct (map f (sort_key g rs)) = distinct (map f rs)"
  by (simp add: distinct_map)

text \<open>What a page leaves is what lies past its last row.\<close>

lemma limit_page_rest:
  assumes "distinct (map key R)" and "sql_limit n (sort_key key R) \<noteq> []"
  shows "{r \<in> set R. key (last (sql_limit n (sort_key key R))) < key r}
    = set R - set (sql_limit n (sort_key key R))"
proof -
  define S where "S = sort_key key R"
  define P where "P = sql_limit n S"
  obtain Q where Q: "S = P @ Q" using sql_limit_append_rest P_def by blast
  have d: "distinct (map key S)" using assms(1) by (simp add: S_def distinct_map_sort)
  have sorted: "sorted (map key S)" by (simp add: S_def)
  have ne: "P \<noteq> []" using assms(2) by (simp add: P_def S_def)
  have "set P \<inter> set Q = {}" using d by (auto simp: Q)
  moreover have "filter (\<lambda>r. key (last P) < key r) S = Q"
    by (rule sorted_split_after [OF sorted d Q ne])
  then have "{r \<in> set S. key (last P) < key r} = set Q" by (metis set_filter)
  moreover have "set S = set P \<union> set Q" by (simp add: Q)
  moreover have "set S = set R" by (simp add: S_def)
  ultimately show ?thesis unfolding S_def [symmetric] P_def [symmetric] by blast
qed

lemma filter_after_sort:
  "sort_key key (filter (\<lambda>r. after c (key r)) rs) = filter (\<lambda>r. after c (key r)) (sort_key key rs)"
  by (simp add: filter_sort)

lemma keyset_rest:
  fixes key :: "'r \<Rightarrow> 'k::linorder"
  assumes "distinct (map key rs)" and "sort_key key (filter (\<lambda>r. after c (key r)) rs) = P @ Q"
    and "P \<noteq> []"
  shows "sort_key key (filter (\<lambda>r. after (Some (key (last P))) (key r)) rs) = Q"
proof -
  let ?S = "sort_key key (filter (\<lambda>r. after c (key r)) rs)"
  have d: "distinct (map key ?S)"
    using assms(1) by (metis distinct_map_filter filter_after_sort distinct_map distinct_sort set_sort)
  have in_S: "last P \<in> set ?S" using assms(2,3) by simp
  then have "after c (key (last P))" by simp
  then have "filter (\<lambda>r. after (Some (key (last P))) (key r)) rs
      = filter (\<lambda>r. key (last P) < key r) (filter (\<lambda>r. after c (key r)) rs)"
    by (auto simp: after_def split: option.splits intro: filter_cong)
  then have "sort_key key (filter (\<lambda>r. after (Some (key (last P))) (key r)) rs)
      = filter (\<lambda>r. key (last P) < key r) ?S"
    by (simp add: filter_sort)
  also have "\<dots> = Q"
    using sorted_split_after [OF sorted_sort_key d assms(2,3)] .
  finally show ?thesis .
qed

text \<open>
  The pages of a keyset-paginated read, concatenated, are exactly the rows past the first cursor in
  key order: nothing is skipped and nothing is read twice.
\<close>

lemma concat_keyset_pages:
  fixes key :: "'r \<Rightarrow> 'k::linorder"
  assumes "distinct (map key rs)" and "n \<noteq> 0"
  shows "concat (keyset_pages key n rs c) = sort_key key (filter (\<lambda>r. after c (key r)) rs)"
  using assms
proof (induction key n rs c rule: keyset_pages.induct)
  case (1 key n rs c)
  let ?S = "sort_key key (filter (\<lambda>r. after c (key r)) rs)"
  let ?P = "keyset_page key n rs c"
  obtain Q where Q: "?S = ?P @ Q"
    using sql_limit_append_rest [of ?S n] by (auto simp: keyset_page_def)
  show ?case
  proof (cases "?P = []")
    case True
    then have "?S = []" using "1.prems"(2) sql_limit_neq_Nil [of n ?S] by (simp add: keyset_page_def)
    then show ?thesis using True by (simp add: keyset_pages.simps [of key n rs c])
  next
    case P: False
    show ?thesis
    proof (cases "int (length ?P) < n")
      case True
      then have "?P = ?S" using sql_limit_short [of n ?S] by (simp add: keyset_page_def)
      then show ?thesis using P True by (simp add: keyset_pages.simps [of key n rs c])
    next
      case False
      have "concat (keyset_pages key n rs (Some (key (last ?P)))) = Q"
        using "1.IH" [OF refl P False "1.prems"] keyset_rest [OF "1.prems"(1) Q P] by simp
      then show ?thesis using P False Q by (simp add: keyset_pages.simps [of key n rs c] Let_def)
    qed
  qed
qed

end
