(* ===== verification/Schema.thy ===== *)
theory Schema
  imports Prelude
begin

text \<open>
  The data model of \<^verbatim>\<open>schema.py\<close>: the wheel states and their allowed transitions, the declarative
  table definitions with their DDL, and the rows and tables of the SQLite database that every
  other component reads and writes.

  A row of table \<^verbatim>\<open>t\<close> is a record whose fields are the columns, prefixed so that they are distinct
  HOL names; a nullable column is an option. \<^verbatim>\<open>wheels.state\<close> stays the integer that is stored, so
  that \<^verbatim>\<open>fsck\<close>'s check for values outside \<^verbatim>\<open>WheelState\<close> is expressible. Timestamps are ISO-8601
  texts written by \<^verbatim>\<open>_iso\<close>; all of them are UTC, so comparing two texts is comparing the instants,
  and the model keeps the instant in microseconds.
\<close>

section \<open>Wheel states\<close>

datatype wheel_state = NEED_METADATA | NO_METADATA | NEED_CONVERT | READY | SKIPPED
  | QUARANTINED | DELETED

fun state_int :: "wheel_state \<Rightarrow> int" where
  "state_int NEED_METADATA = 0"
| "state_int NO_METADATA = 1"
| "state_int NEED_CONVERT = 2"
| "state_int READY = 3"
| "state_int SKIPPED = 4"
| "state_int QUARANTINED = 5"
| "state_int DELETED = 6"

definition all_states :: "wheel_state list" where
  "all_states = [NEED_METADATA, NO_METADATA, NEED_CONVERT, READY, SKIPPED, QUARANTINED, DELETED]"

text \<open>\<^verbatim>\<open>WheelState(n)\<close>: \<^const>\<open>None\<close> is the \<^verbatim>\<open>ValueError\<close>.\<close>

definition wheel_state_of_int :: "int \<Rightarrow> wheel_state option" where
  "wheel_state_of_int n = find (\<lambda>s. state_int s = n) all_states"

fun allowed_transitions :: "wheel_state \<Rightarrow> wheel_state set" where
  "allowed_transitions NEED_METADATA = {NEED_CONVERT, NO_METADATA, QUARANTINED}"
| "allowed_transitions NO_METADATA = {NEED_METADATA}"
| "allowed_transitions NEED_CONVERT = {READY, SKIPPED, QUARANTINED}"
| "allowed_transitions READY = {NEED_CONVERT, DELETED}"
| "allowed_transitions SKIPPED = {NEED_CONVERT}"
| "allowed_transitions QUARANTINED = {NEED_METADATA}"
| "allowed_transitions DELETED = {}"

section \<open>Exceptions\<close>

text \<open>
  The exceptions the modelled code raises or catches. \<open>OtherError\<close> is any exception of code outside
  this repository that the source does not tell apart.
\<close>

datatype py_exn =
    IllegalTransitionError wheel_state wheel_state
  | IntegrityError
  | WriterStoppedError
  | TransactionBoundaryViolation
  | CorruptSegmentError int
  | FileNotFoundError
  | FileExistsError
  | KeyError
  | IndexError
  | ValueError
  | PyTypeError
  | PyRuntimeError
  | QueueClosed
  | ReadTxnBudgetExceeded
  | UnsupportedSelectorError
  | ControlProtocolError
  | CircuitBreakerOpenError
  | DiskGuardPausedError
  | OtherError string

type_synonym 'a res = "py_exn + 'a"

section \<open>The table definitions\<close>

record foreign_key =
  ref_table :: string
  ref_column :: string

record column =
  c_name :: string
  c_type :: string
  c_not_null :: bool
  c_unique :: bool
  c_default :: "string option"
  c_references :: "foreign_key option"

record index =
  i_name :: string
  i_columns :: "string list"
  i_where :: "string option"

record table =
  t_name :: string
  t_columns :: "column list"
  t_primary_key :: "string list"
  t_indexes :: "index list"

fun join_with :: "string \<Rightarrow> string list \<Rightarrow> string" where
  "join_with sep [] = []"
| "join_with sep [x] = x"
| "join_with sep (x # y # zs) = x @ sep @ join_with sep (y # zs)"

definition column_to_sql :: "column \<Rightarrow> string" where
  "column_to_sql c = join_with '' ''
     ([c_name c, c_type c]
      @ (if c_not_null c then [''NOT NULL''] else [])
      @ (if c_unique c then [''UNIQUE''] else [])
      @ (case c_default c of None \<Rightarrow> [] | Some d \<Rightarrow> [''DEFAULT '' @ d])
      @ (case c_references c of None \<Rightarrow> []
         | Some r \<Rightarrow> [''REFERENCES '' @ ref_table r @ ''('' @ ref_column r @ '')'']))"

definition index_to_sql :: "index \<Rightarrow> string \<Rightarrow> string" where
  "index_to_sql i table_name =
     ''CREATE INDEX IF NOT EXISTS '' @ i_name i @ '' ON '' @ table_name
       @ '' ('' @ join_with '', '' (i_columns i) @ '')''
       @ (case i_where i of None \<Rightarrow> '''' | Some w \<Rightarrow> '' WHERE '' @ w)"

definition newline :: string where
  "newline = [CHR 0x0A]"

definition create_table_sql :: "table \<Rightarrow> string" where
  "create_table_sql t =
     (let body = join_with ('','' @ newline @ ''    '')
            (map column_to_sql (t_columns t)
             @ [''PRIMARY KEY ('' @ join_with '', '' (t_primary_key t) @ '')''])
      in ''CREATE TABLE IF NOT EXISTS '' @ t_name t @ '' ('' @ newline @ ''    '' @ body
           @ newline @ '')'')"

definition create_index_sql :: "table \<Rightarrow> string list" where
  "create_index_sql t = map (\<lambda>i. index_to_sql i (t_name t)) (t_indexes t)"

text \<open>\<^verbatim>\<open>Column(name, type)\<close> with its defaults, and the common variants.\<close>

definition mk_column :: "string \<Rightarrow> string \<Rightarrow> column" where
  "mk_column n ty = \<lparr>c_name = n, c_type = ty, c_not_null = False, c_unique = False,
     c_default = None, c_references = None\<rparr>"

definition nn_column :: "string \<Rightarrow> string \<Rightarrow> column" where
  "nn_column n ty = (mk_column n ty)\<lparr>c_not_null := True\<rparr>"

definition mk_index :: "string \<Rightarrow> string list \<Rightarrow> string option \<Rightarrow> index" where
  "mk_index n cs w = \<lparr>i_name = n, i_columns = cs, i_where = w\<rparr>"

definition PYPI_INDEX :: table where
  "PYPI_INDEX = \<lparr>t_name = ''pypi_index'',
     t_columns = [nn_column ''name'' ''TEXT'', nn_column ''serial'' ''INTEGER'',
       nn_column ''updated_at'' ''TEXT''],
     t_primary_key = [''name''], t_indexes = []\<rparr>"

definition WHEELS :: table where
  "WHEELS = \<lparr>t_name = ''wheels'',
     t_columns =
       [mk_column ''id'' ''INTEGER'',
        (nn_column ''filename'' ''TEXT'')\<lparr>c_unique := True\<rparr>,
        nn_column ''project'' ''TEXT'',
        mk_column ''conda_name'' ''TEXT'',
        nn_column ''state'' ''INTEGER'',
        (nn_column ''lane'' ''INTEGER'')\<lparr>c_default := Some ''0''\<rparr>,
        nn_column ''url'' ''TEXT'',
        mk_column ''wheel_sha256'' ''TEXT'',
        mk_column ''metadata_sha256'' ''TEXT'',
        mk_column ''size'' ''INTEGER'',
        mk_column ''upload_time'' ''TEXT'',
        mk_column ''requires_python'' ''TEXT'',
        (nn_column ''yanked'' ''INTEGER'')\<lparr>c_default := Some ''0''\<rparr>,
        mk_column ''yanked_reason'' ''TEXT'',
        mk_column ''blob_sha256'' ''TEXT'',
        nn_column ''serial'' ''INTEGER'',
        nn_column ''change_seq'' ''INTEGER'',
        mk_column ''deleted_at'' ''TEXT'',
        nn_column ''updated_at'' ''TEXT''],
     t_primary_key = [''id''],
     t_indexes =
       [mk_index ''ix_wheels_queue'' [''state'', ''lane'', ''project'', ''id''] None,
        mk_index ''ix_wheels_conda_name'' [''conda_name''] (Some ''conda_name IS NOT NULL''),
        mk_index ''ix_wheels_project'' [''project'', ''id''] None,
        mk_index ''ix_wheels_change_seq'' [''change_seq''] None]\<rparr>"

definition SEGMENTS :: table where
  "SEGMENTS = \<lparr>t_name = ''segments'',
     t_columns = [mk_column ''id'' ''INTEGER'', mk_column ''sealed_at'' ''TEXT'',
       mk_column ''bytes'' ''INTEGER'', mk_column ''records'' ''INTEGER'',
       mk_column ''footer_sha'' ''TEXT''],
     t_primary_key = [''id''], t_indexes = []\<rparr>"

definition BLOBS :: table where
  "BLOBS = \<lparr>t_name = ''blobs'',
     t_columns = [nn_column ''sha256'' ''TEXT'',
       (nn_column ''segment_id'' ''INTEGER'')
         \<lparr>c_references := Some \<lparr>ref_table = t_name SEGMENTS, ref_column = ''id''\<rparr>\<rparr>,
       nn_column ''block_no'' ''INTEGER'', nn_column ''offset'' ''INTEGER'',
       nn_column ''length'' ''INTEGER''],
     t_primary_key = [''sha256''],
     t_indexes = [mk_index ''ix_blobs_segment'' [''segment_id'', ''block_no''] None]\<rparr>"

definition wheel_id_column :: column where
  "wheel_id_column = (mk_column ''wheel_id'' ''INTEGER'')
     \<lparr>c_references := Some \<lparr>ref_table = t_name WHEELS, ref_column = ''id''\<rparr>\<rparr>"

definition WHEEL_REPODATA :: table where
  "WHEEL_REPODATA = \<lparr>t_name = ''wheel_repodata'',
     t_columns = [wheel_id_column\<lparr>c_not_null := True\<rparr>, nn_column ''repodata_zst'' ''BLOB'',
       mk_column ''name_conv_zst'' ''BLOB'',
       (nn_column ''requires_prerelease'' ''INTEGER'')\<lparr>c_default := Some ''0''\<rparr>,
       nn_column ''reroll_version'' ''TEXT''],
     t_primary_key = [''wheel_id''],
     t_indexes = [mk_index ''ix_wheel_repodata_version'' [''reroll_version''] None,
       mk_index ''ix_wheel_repodata_prerelease'' [''requires_prerelease'']
         (Some ''requires_prerelease = 1'')]\<rparr>"

definition SKIPS :: table where
  "SKIPS = \<lparr>t_name = ''skips'',
     t_columns = [wheel_id_column\<lparr>c_not_null := True\<rparr>, nn_column ''stage'' ''TEXT'',
       nn_column ''reason'' ''TEXT'', nn_column ''permanent'' ''INTEGER'',
       mk_column ''reroll_version'' ''TEXT'', nn_column ''created_at'' ''TEXT''],
     t_primary_key = [''wheel_id'', ''stage''],
     t_indexes = [mk_index ''ix_skips_retryable'' [''reroll_version''] (Some ''permanent = 0'')]\<rparr>"

definition WORK :: table where
  "WORK = \<lparr>t_name = ''work'',
     t_columns = [wheel_id_column\<lparr>c_not_null := True\<rparr>, nn_column ''stage'' ''TEXT'',
       nn_column ''attempts'' ''INTEGER'', nn_column ''next_attempt_at'' ''TEXT'',
       mk_column ''last_error'' ''TEXT'', mk_column ''quarantined_at'' ''TEXT''],
     t_primary_key = [''wheel_id'', ''stage''],
     t_indexes = [mk_index ''ix_work_ready'' [''stage'', ''next_attempt_at'']
       (Some ''quarantined_at IS NULL'')]\<rparr>"

definition ERRORS :: table where
  "ERRORS = \<lparr>t_name = ''errors'',
     t_columns = [mk_column ''id'' ''INTEGER'', wheel_id_column,
       nn_column ''error_category'' ''TEXT'', mk_column ''error_subcat'' ''TEXT'',
       mk_column ''details'' ''TEXT'', nn_column ''reroll_version'' ''TEXT'',
       nn_column ''created_at'' ''TEXT''],
     t_primary_key = [''id''],
     t_indexes = [mk_index ''ix_errors_cat'' [''error_category'', ''created_at''] None]\<rparr>"

definition UNLINKED_BLOBS :: table where
  "UNLINKED_BLOBS = \<lparr>t_name = ''unlinked_blobs'',
     t_columns = [nn_column ''filename'' ''TEXT'', nn_column ''sha256'' ''TEXT'',
       nn_column ''noted_at'' ''TEXT''],
     t_primary_key = [''filename''], t_indexes = []\<rparr>"

definition SCHEMA :: "table list" where
  "SCHEMA = [PYPI_INDEX, WHEELS, SEGMENTS, BLOBS, WHEEL_REPODATA, SKIPS, WORK, ERRORS,
     UNLINKED_BLOBS]"

definition SCHEMA_VERSION :: int where
  "SCHEMA_VERSION = 1"

section \<open>Timestamps\<close>

type_synonym iso_time = int

text \<open>
  \<^verbatim>\<open>datetime.fromtimestamp(ts, tz=UTC)\<close> rounds the float to the nearest microsecond, ties to even;
  \<^verbatim>\<open>isoformat\<close> prints that instant and \<^verbatim>\<open>_parse_iso\<close> reads it back.
\<close>

definition py_round :: "real \<Rightarrow> int" where
  "py_round x =
     (let f = \<lfloor>x\<rfloor>; d = x - of_int f
      in if d < 1 / 2 then f else if d > 1 / 2 then f + 1 else if even f then f else f + 1)"

definition iso :: "real \<Rightarrow> iso_time" where
  "iso ts = py_round (ts * 1000000)"

definition parse_iso :: "iso_time \<Rightarrow> real" where
  "parse_iso t = of_int t / 1000000"

section \<open>Rows and tables\<close>

record pypi_index_row =
  pi_name :: string
  pi_serial :: int
  pi_updated_at :: iso_time

record wheel_row =
  w_id :: int
  w_filename :: string
  w_project :: string
  w_conda_name :: "string option"
  w_state :: int
  w_lane :: int
  w_url :: string
  w_wheel_sha256 :: "string option"
  w_metadata_sha256 :: "string option"
  w_size :: "int option"
  w_upload_time :: "string option"
  w_requires_python :: "string option"
  w_yanked :: bool
  w_yanked_reason :: "string option"
  w_blob_sha256 :: "string option"
  w_serial :: int
  w_change_seq :: int
  w_deleted_at :: "iso_time option"
  w_updated_at :: iso_time

record segment_row =
  sg_id :: int
  sg_sealed_at :: "iso_time option"
  sg_bytes :: "int option"
  sg_records :: "int option"
  sg_footer_sha :: "string option"

record blob_row =
  b_sha256 :: string
  b_segment_id :: int
  b_block_no :: int
  b_offset :: int
  b_length :: int

record repodata_row =
  rd_wheel_id :: int
  rd_repodata_zst :: bytes
  rd_name_conv_zst :: "bytes option"
  rd_requires_prerelease :: bool
  rd_reroll_version :: string

record skip_row =
  sk_wheel_id :: int
  sk_stage :: string
  sk_reason :: string
  sk_permanent :: bool
  sk_reroll_version :: "string option"
  sk_created_at :: iso_time

record work_row =
  wk_wheel_id :: int
  wk_stage :: string
  wk_attempts :: int
  wk_next_attempt_at :: iso_time
  wk_last_error :: "string option"
  wk_quarantined_at :: "iso_time option"

record error_row =
  er_id :: int
  er_wheel_id :: "int option"
  er_category :: string
  er_subcat :: "string option"
  er_details :: "string option"
  er_reroll_version :: string
  er_created_at :: iso_time

record unlinked_row =
  ul_filename :: string
  ul_sha256 :: string
  ul_noted_at :: iso_time

record database =
  pypi_index :: "pypi_index_row list"
  wheels :: "wheel_row list"
  segments :: "segment_row list"
  blobs :: "blob_row list"
  wheel_repodata :: "repodata_row list"
  skips :: "skip_row list"
  work :: "work_row list"
  errors :: "error_row list"
  unlinked_blobs :: "unlinked_row list"

definition empty_db :: database where
  "empty_db = \<lparr>pypi_index = [], wheels = [], segments = [], blobs = [], wheel_repodata = [],
     skips = [], work = [], errors = [], unlinked_blobs = []\<rparr>"

text \<open>The primary keys of the two-column tables.\<close>

definition skip_key :: "skip_row \<Rightarrow> int \<times> string" where
  "skip_key r = (sk_wheel_id r, sk_stage r)"

definition work_key :: "work_row \<Rightarrow> int \<times> string" where
  "work_key r = (wk_wheel_id r, wk_stage r)"

definition wheel_ids :: "database \<Rightarrow> int set" where
  "wheel_ids db = w_id ` set (wheels db)"

section \<open>Statements with constraints\<close>

text \<open>
  The inserts of the program, with the constraints the DDL declares and \<^verbatim>\<open>PRAGMA foreign_keys = ON\<close>
  enforces. A violated constraint raises \<^const>\<open>IntegrityError\<close> and leaves the database alone.
\<close>

definition insert_wheel :: "wheel_row \<Rightarrow> database \<Rightarrow> database res" where
  "insert_wheel w db =
     (if w_filename w \<in> w_filename ` set (wheels db) then Inl IntegrityError
      else Inr (db\<lparr>wheels := wheels db @ [w\<lparr>w_id := next_rowid (map w_id (wheels db))\<rparr>]\<rparr>))"

definition insert_error :: "error_row \<Rightarrow> database \<Rightarrow> database res" where
  "insert_error e db =
     (if (case er_wheel_id e of None \<Rightarrow> True | Some i \<Rightarrow> i \<in> wheel_ids db)
      then Inr (db\<lparr>errors := errors db @ [e\<lparr>er_id := next_rowid (map er_id (errors db))\<rparr>]\<rparr>)
      else Inl IntegrityError)"

definition upsert_skip :: "(skip_row \<Rightarrow> skip_row) \<Rightarrow> skip_row \<Rightarrow> database \<Rightarrow> database res" where
  "upsert_skip upd new db =
     (if sk_wheel_id new \<in> wheel_ids db \<or> skip_key new \<in> skip_key ` set (skips db)
      then Inr (db\<lparr>skips := sql_upsert skip_key upd new (skips db)\<rparr>) else Inl IntegrityError)"

definition upsert_work :: "(work_row \<Rightarrow> work_row) \<Rightarrow> work_row \<Rightarrow> database \<Rightarrow> database res" where
  "upsert_work upd new db =
     (if wk_wheel_id new \<in> wheel_ids db \<or> work_key new \<in> work_key ` set (work db)
      then Inr (db\<lparr>work := sql_upsert work_key upd new (work db)\<rparr>) else Inl IntegrityError)"

definition upsert_repodata ::
    "(repodata_row \<Rightarrow> repodata_row) \<Rightarrow> repodata_row \<Rightarrow> database \<Rightarrow> database res" where
  "upsert_repodata upd new db =
     (if rd_wheel_id new \<in> wheel_ids db \<or> rd_wheel_id new \<in> rd_wheel_id ` set (wheel_repodata db)
      then Inr (db\<lparr>wheel_repodata := sql_upsert rd_wheel_id upd new (wheel_repodata db)\<rparr>)
      else Inl IntegrityError)"

definition update_wheels :: "(wheel_row \<Rightarrow> bool) \<Rightarrow> (wheel_row \<Rightarrow> wheel_row) \<Rightarrow> database \<Rightarrow> database" where
  "update_wheels p f db = db\<lparr>wheels := sql_update p f (wheels db)\<rparr>"

section \<open>Facts about states and timestamps\<close>

lemma state_int_inj [simp]: "state_int a = state_int b \<longleftrightarrow> a = b"
  by (cases a; cases b) simp_all

lemma wheel_state_of_int_state [simp]: "wheel_state_of_int (state_int s) = Some s"
  by (cases s) (simp_all add: wheel_state_of_int_def all_states_def)

lemma wheel_state_of_int_Some: "wheel_state_of_int n = Some s \<Longrightarrow> n = state_int s"
  by (auto simp: wheel_state_of_int_def find_Some_iff)

lemma py_round_bounds: "of_int (py_round x) \<le> x + 1 / 2 \<and> x - 1 / 2 \<le> of_int (py_round x)"
  by (auto simp: py_round_def Let_def) linarith+

lemma py_round_int [simp]: "py_round (of_int n) = n"
  by (simp add: py_round_def)

lemma parse_iso_inverse: "iso (parse_iso t) = t"
  by (simp add: iso_def parse_iso_def)

lemma iso_mono:
  assumes "x \<le> y"
  shows "iso x \<le> iso y"
proof (cases "\<lfloor>x * 1000000\<rfloor> = \<lfloor>y * 1000000\<rfloor>")
  case True
  with assms show ?thesis by (auto simp: iso_def py_round_def Let_def)
next
  case False
  with assms have "\<lfloor>x * 1000000\<rfloor> + 1 \<le> \<lfloor>y * 1000000\<rfloor>"
    by (metis floor_mono less_le mult_right_mono zero_le_numeral zless_imp_add1_zle)
  then show ?thesis by (auto simp: iso_def py_round_def Let_def)
qed

section \<open>The table interface\<close>

text \<open>
  What the components rely on of each table of the database: the rows can be read and rewritten
  independently of the other tables. Reading by key after a write is the law every client uses.
\<close>

locale sql_table =
  fixes rows :: "'db \<Rightarrow> 'r list"
    and upd_rows :: "('r list \<Rightarrow> 'r list) \<Rightarrow> 'db \<Rightarrow> 'db"
    and key :: "'r \<Rightarrow> 'k"
  assumes rows_upd: "rows (upd_rows f db) = f (rows db)"
begin

lemma get_upsert:
  assumes "\<And>r. key r = key new \<Longrightarrow> key (u r) = key new"
  shows "sql_get key k (rows (upd_rows (sql_upsert key u new) db))
    = (if k = key new then Some (case sql_get key k (rows db) of None \<Rightarrow> new | Some r \<Rightarrow> u r)
       else sql_get key k (rows db))"
  using assms by (simp add: rows_upd sql_get_upsert)

lemma get_delete_key:
  "sql_get key k (rows (upd_rows (sql_delete (\<lambda>r. key r = j)) db))
    = (if k = j then None else sql_get key k (rows db))"
  unfolding rows_upd by (rule sql_get_delete) auto

lemma get_update:
  assumes "\<And>r. p r \<Longrightarrow> key (f r) = key r"
  shows "sql_get key k (rows (upd_rows (sql_update p f) db))
    = map_option (\<lambda>r. if p r then f r else r) (sql_get key k (rows db))"
  using assms by (simp add: rows_upd sql_get_update)

lemma distinct_upsert:
  assumes "\<And>r. key r = key new \<Longrightarrow> key (u r) = key new" and "distinct (map key (rows db))"
  shows "distinct (map key (rows (upd_rows (sql_upsert key u new) db)))"
  using assms by (simp add: rows_upd distinct_key_upsert)

lemma distinct_delete:
  "distinct (map key (rows db)) \<Longrightarrow> distinct (map key (rows (upd_rows (sql_delete p) db)))"
  by (simp add: rows_upd distinct_key_delete)

lemma distinct_update:
  assumes "\<And>r. p r \<Longrightarrow> key (f r) = key r"
  shows "distinct (map key (rows (upd_rows (sql_update p f) db))) = distinct (map key (rows db))"
  using assms by (simp add: rows_upd map_key_sql_update)

end

interpretation index_tab: sql_table pypi_index pypi_index_update pi_name
  by unfold_locales simp

interpretation wheels_tab: sql_table wheels wheels_update w_id
  by unfold_locales simp

interpretation segments_tab: sql_table segments segments_update sg_id
  by unfold_locales simp

interpretation blobs_tab: sql_table blobs blobs_update b_sha256
  by unfold_locales simp

interpretation repodata_tab: sql_table wheel_repodata wheel_repodata_update rd_wheel_id
  by unfold_locales simp

interpretation skips_tab: sql_table skips skips_update skip_key
  by unfold_locales simp

interpretation work_tab: sql_table work work_update work_key
  by unfold_locales simp

interpretation errors_tab: sql_table errors errors_update er_id
  by unfold_locales simp

interpretation unlinked_tab: sql_table unlinked_blobs unlinked_blobs_update ul_filename
  by unfold_locales simp

end
