(* ===== verification/Sqlite_Writer.thy ===== *)
theory Sqlite_Writer
  imports Schema
begin

text \<open>
  The single runtime writer thread of \<^verbatim>\<open>writer.py\<close>: write operations applied inside savepoints of
  one batch transaction, the \<^verbatim>\<open>change_seq\<close> counter, the batching loop with its drain, discard and
  fatal-error exits, the guard against transaction-control SQL, and the read-transaction watchdog.

  A write operation is a function from the connection's state (the database seen inside the
  transaction and the writer's sequence counter) to its result and the new state: \<^verbatim>\<open>next_seq\<close> is
  called from inside operations, and the counter is not part of the database, so it keeps its value
  when a savepoint is rolled back. One round of the loop \<^verbatim>\<open>_run\<close> is one step; submissions and
  \<^verbatim>\<open>stop\<close> interleave between rounds. Every reading of the injected clock and every answer of SQLite
  that the round uses (did \<^verbatim>\<open>BEGIN\<close>/\<^verbatim>\<open>COMMIT\<close> raise, was the checkpoint busy, the freelist count) is
  an input of the step.
\<close>

section \<open>Write operations\<close>

type_synonym 'db op_state = "'db \<times> int"

record ('db, 'v) write_op =
  op_id :: nat
  op_name :: string
  op_apply :: "'db op_state \<Rightarrow> 'v res \<times> 'db op_state"

definition next_seq :: "'db op_state \<Rightarrow> int \<times> 'db op_state" where
  "next_seq st = (case st of (db, seq) \<Rightarrow> (seq + 1, (db, seq + 1)))"

text \<open>
  \<^verbatim>\<open>_apply_op\<close>: a savepoint around the operation; an exception rolls the database back to it and is
  returned as the outcome, and the failure is counted.
\<close>

definition apply_op ::
    "('db, 'v) write_op \<Rightarrow> 'db op_state \<times> int \<Rightarrow> 'v res \<times> ('db op_state \<times> int)" where
  "apply_op opn st =
     (case st of ((db, seq), failed) \<Rightarrow>
        (case op_apply opn (db, seq) of
           (Inl e, (db', seq')) \<Rightarrow> (Inl e, ((db, seq'), failed + 1))
         | (Inr v, (db', seq')) \<Rightarrow> (Inr v, ((db', seq'), failed))))"

fun apply_ops ::
    "('db, 'v) write_op list \<Rightarrow> 'db op_state \<times> int \<Rightarrow> 'v res list \<times> ('db op_state \<times> int)" where
  "apply_ops [] st = ([], st)"
| "apply_ops (opn # ops) st =
     (let (r, st1) = apply_op opn st; (rs, st2) = apply_ops ops st1 in (r # rs, st2))"

text \<open>
  \<^verbatim>\<open>_commit_batch\<close>: \<open>begin_error\<close> and \<open>commit_error\<close> are the exceptions \<^verbatim>\<open>BEGIN\<close> and \<^verbatim>\<open>COMMIT\<close> raised,
  if any; then nothing of the batch is committed, while the counters, which live outside the
  database, keep what the operations did to them.
\<close>

definition commit_batch ::
    "py_exn option \<Rightarrow> py_exn option \<Rightarrow> ('db, 'v) write_op list \<Rightarrow> 'db op_state \<times> int
      \<Rightarrow> 'v res list res \<times> ('db op_state \<times> int)" where
  "commit_batch begin_error commit_error batch st =
     (case begin_error of
        Some e \<Rightarrow> (Inl e, st)
      | None \<Rightarrow>
          (let (outcomes, ((db', seq'), failed')) = apply_ops batch st
           in case commit_error of
                Some e \<Rightarrow> (Inl e, ((fst (fst st), seq'), failed'))
              | None \<Rightarrow> (Inr outcomes, ((db', seq'), failed'))))"

section \<open>The writer's state\<close>

record writer_cfg =
  batch_size :: nat
  batch_interval :: real
  checkpoint_interval :: real
  vacuum_interval :: real
  queue_maxsize :: nat

record ('db, 'v) writer =
  wr_db :: 'db
  wr_change_seq :: int
  wr_failed_ops :: int
  wr_queue :: "('db, 'v) write_op list"
  wr_batch :: "('db, 'v) write_op list"
  wr_batch_deadline :: "real option"
  wr_stopped :: bool
  wr_stop_requested :: bool
  wr_drain_on_stop :: bool
  wr_started :: bool
  wr_running :: bool
  wr_last_checkpoint_check :: real
  wr_last_vacuum_check :: real
  wr_last_truncate_checkpoint_at :: "real option"
  wr_last_truncate_checkpoint_ok :: "bool option"
  wr_consecutive_checkpoint_failures :: int
  wr_freelist_count :: int
  wr_outcomes :: "(nat \<times> 'v res) list"

record tick =
  tk_enqueued :: real
  tk_interval :: real
  tk_checkpoint :: real
  tk_checkpoint_done :: real
  tk_vacuum :: real
  tk_vacuum_done :: real
  tk_truncated :: real
  tk_begin_error :: "py_exn option"
  tk_commit_error :: "py_exn option"
  tk_busy :: int
  tk_freelist :: int

text \<open>\<^verbatim>\<open>Writer.start\<close>: the counter starts at \<^verbatim>\<open>MAX(change_seq)\<close>, 0 in an empty table.\<close>

definition max_change_seq :: "database \<Rightarrow> int" where
  "max_change_seq db = (if wheels db = [] then 0 else Max (w_change_seq ` set (wheels db)))"

definition writer_init :: "database \<Rightarrow> (database, 'v) writer" where
  "writer_init db =
     \<lparr>wr_db = db, wr_change_seq = 0, wr_failed_ops = 0, wr_queue = [], wr_batch = [],
      wr_batch_deadline = None, wr_stopped = False, wr_stop_requested = False,
      wr_drain_on_stop = True, wr_started = False, wr_running = False,
      wr_last_checkpoint_check = 0, wr_last_vacuum_check = 0,
      wr_last_truncate_checkpoint_at = None, wr_last_truncate_checkpoint_ok = None,
      wr_consecutive_checkpoint_failures = 0, wr_freelist_count = 0, wr_outcomes = []\<rparr>"

definition writer_start :: "real \<Rightarrow> real \<Rightarrow> (database, 'v) writer \<Rightarrow> (database, 'v) writer res" where
  "writer_start now1 now2 wr =
     (if wr_started wr then Inl PyRuntimeError
      else Inr (wr\<lparr>wr_change_seq := max_change_seq (wr_db wr), wr_started := True,
                   wr_running := True, wr_last_checkpoint_check := now1,
                   wr_last_vacuum_check := now2\<rparr>))"

text \<open>
  \<^verbatim>\<open>submit\<close>: \<^const>\<open>None\<close> while the bounded queue is full (the call blocks), otherwise the exception or
  the new state.
\<close>

definition submit :: "writer_cfg \<Rightarrow> ('db, 'v) write_op \<Rightarrow> ('db, 'v) writer
    \<Rightarrow> ('db, 'v) writer res option" where
  "submit cfg opn wr =
     (if wr_stopped wr then Some (Inl WriterStoppedError)
      else if 0 < queue_maxsize cfg \<and> queue_maxsize cfg \<le> length (wr_queue wr) then None
      else Some (Inr (wr\<lparr>wr_queue := wr_queue wr @ [opn]\<rparr>)))"

definition writer_stop :: "bool \<Rightarrow> ('db, 'v) writer \<Rightarrow> ('db, 'v) writer" where
  "writer_stop drain wr =
     (if wr_stopped wr then wr
      else wr\<lparr>wr_drain_on_stop := drain, wr_stopped := True, wr_stop_requested := True\<rparr>)"

text \<open>What \<^verbatim>\<open>submit_and_wait\<close> gets once the operation's event is set.\<close>

definition wait_outcome :: "nat \<Rightarrow> ('db, 'v) writer \<Rightarrow> 'v res option" where
  "wait_outcome i wr = map_of (wr_outcomes wr) i"

definition queue_depth :: "('db, 'v) writer \<Rightarrow> nat" where
  "queue_depth wr = length (wr_queue wr)"

definition resolve :: "('db, 'v) write_op list \<Rightarrow> 'v res list \<Rightarrow> ('db, 'v) writer
    \<Rightarrow> ('db, 'v) writer" where
  "resolve ops outcomes wr = wr\<lparr>wr_outcomes := wr_outcomes wr @ zip (map op_id ops) outcomes\<rparr>"

definition discard_pending :: "('db, 'v) write_op list \<Rightarrow> ('db, 'v) writer \<Rightarrow> ('db, 'v) writer" where
  "discard_pending batch wr =
     (let leftover = batch @ wr_queue wr
      in wr\<lparr>wr_queue := [], wr_batch := [],
            wr_outcomes := wr_outcomes wr @ map (\<lambda>opn. (op_id opn, Inl WriterStoppedError)) leftover\<rparr>)"

definition fail_fatally :: "py_exn \<Rightarrow> ('db, 'v) writer \<Rightarrow> ('db, 'v) writer" where
  "fail_fatally e wr =
     (let in_flight = wr_batch wr;
          wr1 = wr\<lparr>wr_stopped := True, wr_stop_requested := True, wr_batch := []\<rparr>;
          wr2 = resolve in_flight (replicate (length in_flight) (Inl e)) wr1
      in (discard_pending [] wr2)\<lparr>wr_running := False\<rparr>)"

definition run_checkpoint :: "tick \<Rightarrow> ('db, 'v) writer \<Rightarrow> ('db, 'v) writer" where
  "run_checkpoint tk wr =
     (if tk_busy tk = 0
      then wr\<lparr>wr_last_truncate_checkpoint_at := Some (tk_truncated tk),
              wr_last_truncate_checkpoint_ok := Some True,
              wr_consecutive_checkpoint_failures := 0, wr_freelist_count := tk_freelist tk\<rparr>
      else wr\<lparr>wr_last_truncate_checkpoint_ok := Some False,
              wr_consecutive_checkpoint_failures := wr_consecutive_checkpoint_failures wr + 1,
              wr_freelist_count := tk_freelist tk\<rparr>)"

definition run_vacuum :: "tick \<Rightarrow> ('db, 'v) writer \<Rightarrow> ('db, 'v) writer" where
  "run_vacuum tk wr = wr\<lparr>wr_freelist_count := tk_freelist tk\<rparr>"

section \<open>One round of the loop\<close>

text \<open>\<^verbatim>\<open>queue.get(timeout)\<close> and the batch deadline.\<close>

definition take_op :: "writer_cfg \<Rightarrow> tick \<Rightarrow> ('db, 'v) writer \<Rightarrow> ('db, 'v) writer" where
  "take_op cfg tk wr =
     (case wr_queue wr of [] \<Rightarrow> wr
      | opn # q \<Rightarrow> wr\<lparr>wr_queue := q, wr_batch := wr_batch wr @ [opn],
          wr_batch_deadline := (case wr_batch_deadline wr of
             None \<Rightarrow> Some (tk_enqueued tk + batch_interval cfg) | Some d \<Rightarrow> Some d)\<rparr>)"

definition flush_due :: "writer_cfg \<Rightarrow> tick \<Rightarrow> ('db, 'v) writer \<Rightarrow> bool" where
  "flush_due cfg tk wr =
     (wr_batch wr \<noteq> []
      \<and> (batch_size cfg \<le> length (wr_batch wr)
         \<or> (case wr_batch_deadline wr of None \<Rightarrow> False | Some d \<Rightarrow> d \<le> tk_interval tk)
         \<or> (wr_stop_requested wr \<and> wr_drain_on_stop wr \<and> wr_queue wr = [])))"

definition maintenance :: "writer_cfg \<Rightarrow> tick \<Rightarrow> ('db, 'v) writer \<Rightarrow> ('db, 'v) writer" where
  "maintenance cfg tk wr =
     (if wr_batch wr \<noteq> [] then wr
      else let wr1 = (if checkpoint_interval cfg \<le> tk_checkpoint tk - wr_last_checkpoint_check wr
                      then (run_checkpoint tk wr)\<lparr>wr_last_checkpoint_check := tk_checkpoint_done tk\<rparr>
                      else wr)
           in if vacuum_interval cfg \<le> tk_vacuum tk - wr_last_vacuum_check wr1
              then (run_vacuum tk wr1)\<lparr>wr_last_vacuum_check := tk_vacuum_done tk\<rparr>
              else wr1)"

text \<open>The end of a round once a stop was requested; leaving the loop runs a last checkpoint when
  draining and closes the connection.\<close>

definition stop_phase :: "tick \<Rightarrow> ('db, 'v) writer \<Rightarrow> ('db, 'v) writer" where
  "stop_phase tk wr =
     (if \<not> wr_stop_requested wr then wr
      else if \<not> wr_drain_on_stop wr then (discard_pending (wr_batch wr) wr)\<lparr>wr_running := False\<rparr>
      else if wr_queue wr = [] \<and> wr_batch wr = []
      then (run_checkpoint tk wr)\<lparr>wr_running := False\<rparr> else wr)"

definition run_round :: "writer_cfg \<Rightarrow> tick \<Rightarrow> ('db, 'v) writer \<Rightarrow> ('db, 'v) writer" where
  "run_round cfg tk wr =
     (let wr1 = take_op cfg tk wr
      in if flush_due cfg tk wr1
         then (case commit_batch (tk_begin_error tk) (tk_commit_error tk) (wr_batch wr1)
                      ((wr_db wr1, wr_change_seq wr1), wr_failed_ops wr1) of
                 (Inl e, ((db, seq), failed)) \<Rightarrow>
                   fail_fatally e (wr1\<lparr>wr_db := db, wr_change_seq := seq, wr_failed_ops := failed\<rparr>)
               | (Inr outcomes, ((db, seq), failed)) \<Rightarrow>
                   let wr2 = wr1\<lparr>wr_db := db, wr_change_seq := seq, wr_failed_ops := failed,
                                 wr_freelist_count := tk_freelist tk, wr_batch := [],
                                 wr_batch_deadline := None\<rparr>
                   in stop_phase tk (resolve (wr_batch wr1) outcomes (maintenance cfg tk wr2)))
         else stop_phase tk (maintenance cfg tk wr1))"

fun run_rounds :: "writer_cfg \<Rightarrow> tick list \<Rightarrow> ('db, 'v) writer \<Rightarrow> ('db, 'v) writer" where
  "run_rounds cfg [] wr = wr"
| "run_rounds cfg (tk # tks) wr =
     (if wr_running wr then run_rounds cfg tks (run_round cfg tk wr) else wr)"

section \<open>The guarded connection\<close>

definition is_py_space :: "char \<Rightarrow> bool" where
  "is_py_space c = (of_char c \<in> {9 :: nat, 10, 11, 12, 13, 28, 29, 30, 31, 32})"

definition py_strip :: "string \<Rightarrow> string" where
  "py_strip s = rev (dropWhile is_py_space (rev (dropWhile is_py_space s)))"

definition ascii_upper :: "char \<Rightarrow> char" where
  "ascii_upper c = (let n = of_char c :: nat in if 97 \<le> n \<and> n \<le> 122 then char_of (n - 32) else c)"

definition blocked_sql_prefixes :: "string list" where
  "blocked_sql_prefixes = [''BEGIN'', ''COMMIT'', ''END'', ''ROLLBACK'', ''SAVEPOINT'', ''RELEASE'']"

definition starts_with :: "string \<Rightarrow> string \<Rightarrow> bool" where
  "starts_with p s = (take (length p) s = p)"

definition check_transaction_control_sql :: "string \<Rightarrow> unit res" where
  "check_transaction_control_sql sql =
     (if \<exists>p \<in> set blocked_sql_prefixes. starts_with p (map ascii_upper (py_strip sql))
      then Inl TransactionBoundaryViolation else Inr ())"

text \<open>
  \<^verbatim>\<open>_GuardedConnection\<close>: \<open>execute\<close> is the statement on the real connection; the last three calls always
  raise.
\<close>

definition guarded_execute :: "(string \<Rightarrow> 'db \<Rightarrow> 'db res) \<Rightarrow> string \<Rightarrow> 'db \<Rightarrow> 'db res" where
  "guarded_execute execute sql db = bind_res (check_transaction_control_sql sql) (\<lambda>_. execute sql db)"

datatype guarded_call = Execute string | Executemany string | Cursor_execute string
  | Cursor_executemany string | Executescript string | Commit | Rollback

fun guarded :: "(string \<Rightarrow> 'db \<Rightarrow> 'db res) \<Rightarrow> guarded_call \<Rightarrow> 'db \<Rightarrow> 'db res" where
  "guarded execute (Execute sql) db = guarded_execute execute sql db"
| "guarded execute (Executemany sql) db = guarded_execute execute sql db"
| "guarded execute (Cursor_execute sql) db = guarded_execute execute sql db"
| "guarded execute (Cursor_executemany sql) db = guarded_execute execute sql db"
| "guarded execute (Executescript sql) db = Inl TransactionBoundaryViolation"
| "guarded execute Commit db = Inl TransactionBoundaryViolation"
| "guarded execute Rollback db = Inl TransactionBoundaryViolation"

section \<open>The read-transaction watchdog\<close>

record watchdog =
  over_budget_count :: int
  longest_ms :: real

definition record_read :: "real \<Rightarrow> bool \<Rightarrow> watchdog \<Rightarrow> watchdog" where
  "record_read duration_ms over wd =
     wd\<lparr>over_budget_count := over_budget_count wd + (if over then 1 else 0),
        longest_ms := max (longest_ms wd) duration_ms\<rparr>"

text \<open>
  Leaving a \<^verbatim>\<open>read_txn\<close> block: the watchdog's new counters, and whether strict mode raises
  \<^verbatim>\<open>ReadTxnBudgetExceeded\<close>.
\<close>

definition read_txn_exit :: "real \<Rightarrow> bool \<Rightarrow> real \<Rightarrow> real \<Rightarrow> watchdog \<Rightarrow> watchdog \<times> bool" where
  "read_txn_exit budget strict start stop wd =
     (let elapsed = stop - start; over = budget < elapsed
      in (record_read (elapsed * 1000) over wd, over \<and> strict))"

section \<open>Runs of the writer\<close>

text \<open>
  The interleavings of the threads: a client submits, somebody stops the writer, or the writer's
  thread runs a round of its loop. \<open>subs\<close> is the history of accepted submissions.
\<close>

inductive writer_run ::
    "writer_cfg \<Rightarrow> ('db, 'v) writer \<Rightarrow> ('db, 'v) write_op list \<Rightarrow> ('db, 'v) writer \<Rightarrow> bool"
  for cfg wr0 where
  Start: "writer_run cfg wr0 [] wr0"
| Submit: "writer_run cfg wr0 subs wr \<Longrightarrow> submit cfg opn wr = Some (Inr wr')
    \<Longrightarrow> writer_run cfg wr0 (subs @ [opn]) wr'"
| Stop: "writer_run cfg wr0 subs wr \<Longrightarrow> writer_run cfg wr0 subs (writer_stop drain wr)"
| Round: "writer_run cfg wr0 subs wr \<Longrightarrow> wr_running wr
    \<Longrightarrow> writer_run cfg wr0 subs (run_round cfg tk wr)"

text \<open>A writer just started: nothing submitted, nothing resolved.\<close>

definition fresh_writer :: "('db, 'v) writer \<Rightarrow> bool" where
  "fresh_writer wr \<longleftrightarrow> wr_queue wr = [] \<and> wr_batch wr = [] \<and> wr_outcomes wr = [] \<and> wr_running wr
     \<and> \<not> wr_stopped wr \<and> \<not> wr_stop_requested wr"

definition counters :: "('db, 'v) writer \<Rightarrow> 'db op_state \<times> int" where
  "counters wr = ((wr_db wr, wr_change_seq wr), wr_failed_ops wr)"

definition pending :: "('db, 'v) writer \<Rightarrow> ('db, 'v) write_op list" where
  "pending wr = wr_batch wr @ wr_queue wr"

section \<open>Facts about a batch\<close>

lemma length_apply_ops [simp]: "length (fst (apply_ops ops st)) = length ops"
  by (induction ops arbitrary: st) (auto simp: split_beta Let_def)

lemma apply_ops_append:
  "apply_ops (xs @ ys) st =
     (fst (apply_ops xs st) @ fst (apply_ops ys (snd (apply_ops xs st))),
      snd (apply_ops ys (snd (apply_ops xs st))))"
  by (induction xs arbitrary: st) (auto simp: split_beta Let_def)

lemma apply_op_raised: "fst (apply_op opn st) = Inl e \<Longrightarrow> fst (fst (snd (apply_op opn st))) = fst (fst st)"
  by (cases st) (auto simp: apply_op_def split: prod.splits sum.splits)

text \<open>
  The contract of a write operation: it never turns the sequence counter back, whether it returns
  or raises, and when it returns it has kept the invariant.
\<close>

definition op_ok :: "('db \<Rightarrow> int \<Rightarrow> bool) \<Rightarrow> ('db op_state \<Rightarrow> 'v res \<times> 'db op_state) \<Rightarrow> bool" where
  "op_ok keeps f \<longleftrightarrow> (\<forall>db seq. keeps db seq \<longrightarrow>
     (case f (db, seq) of (r, (db', seq')) \<Rightarrow> seq \<le> seq' \<and> (is_ok r \<longrightarrow> keeps db' seq')))"

lemma op_okI:
  assumes "\<And>db seq r db' seq'. keeps db seq \<Longrightarrow> f (db, seq) = (r, (db', seq')) \<Longrightarrow> seq \<le> seq'"
    and "\<And>db seq v db' seq'. keeps db seq \<Longrightarrow> f (db, seq) = (Inr v, (db', seq')) \<Longrightarrow> keeps db' seq'"
  shows "op_ok keeps f"
  using assms by (fastforce simp: op_ok_def is_ok_iff split: prod.splits)

lemma op_okD:
  assumes "op_ok keeps f" and "keeps db seq" and "f (db, seq) = (r, (db', seq'))"
  shows "seq \<le> seq'" and "is_ok r \<Longrightarrow> keeps db' seq'"
  using assms by (auto simp: op_ok_def split: prod.splits)

text \<open>
  What the writer promises its clients, over any invariant of the database and the counter that a
  larger counter cannot break.
\<close>

locale seq_invariant =
  fixes keeps :: "'db \<Rightarrow> int \<Rightarrow> bool"
  assumes inv_mono: "keeps db seq \<Longrightarrow> seq \<le> seq' \<Longrightarrow> keeps db seq'"
begin

lemma apply_op_inv:
  assumes "op_ok keeps (op_apply opn)" and "keeps db seq"
    and "apply_op opn ((db, seq), n) = (r, ((db', seq'), n'))"
  shows "keeps db' seq' \<and> seq \<le> seq'"
proof -
  obtain r1 db1 seq1 where one: "op_apply opn (db, seq) = (r1, (db1, seq1))"
    by (metis prod.exhaust)
  note contract = op_okD [OF assms(1,2) one]
  show ?thesis
    using assms(3) contract inv_mono [OF assms(2) contract(1)]
    by (cases r1) (auto simp: apply_op_def one)
qed

lemma apply_ops_inv:
  assumes "\<forall>opn \<in> set ops. op_ok keeps (op_apply opn)" and "keeps db seq"
    and "apply_ops ops ((db, seq), n) = (rs, ((db', seq'), n'))"
  shows "keeps db' seq' \<and> seq \<le> seq'"
  using assms
proof (induction ops arbitrary: db seq n rs)
  case Nil
  then show ?case by simp
next
  case (Cons opn ops)
  obtain r db1 seq1 n1 where one: "apply_op opn ((db, seq), n) = (r, ((db1, seq1), n1))"
    by (metis prod.exhaust)
  obtain rs' st2 where rest: "apply_ops ops ((db1, seq1), n1) = (rs', st2)"
    by (metis prod.exhaust)
  have "keeps db1 seq1" "seq \<le> seq1"
    using apply_op_inv [OF _ Cons.prems(2) one] Cons.prems(1) by simp_all
  moreover have "st2 = ((db', seq'), n')"
    using Cons.prems(3) by (simp add: one rest)
  ultimately show ?case
    using Cons.IH [of db1 seq1 n1 rs'] Cons.prems(1) rest by fastforce
qed

lemma commit_batch_inv:
  assumes "\<forall>opn \<in> set ops. op_ok keeps (op_apply opn)" and "keeps db seq"
    and "commit_batch be ce ops ((db, seq), n) = (rs, ((db', seq'), n'))"
  shows "keeps db' seq' \<and> seq \<le> seq'"
  using assms apply_ops_inv [OF assms(1,2), of n] inv_mono
  by (auto simp: commit_batch_def split: option.splits prod.splits)

end

section \<open>Facts about a round\<close>

lemma pending_take_op [simp]: "pending (take_op cfg tk wr) = pending wr"
  by (simp add: pending_def take_op_def split: list.splits)

lemma take_op_frame [simp]:
  "wr_outcomes (take_op cfg tk wr) = wr_outcomes wr"
  "counters (take_op cfg tk wr) = counters wr"
  "wr_running (take_op cfg tk wr) = wr_running wr"
  "wr_stopped (take_op cfg tk wr) = wr_stopped wr"
  "wr_stop_requested (take_op cfg tk wr) = wr_stop_requested wr"
  "wr_drain_on_stop (take_op cfg tk wr) = wr_drain_on_stop wr"
  by (simp_all add: take_op_def counters_def split: list.splits)

lemma maintenance_frame [simp]:
  "wr_outcomes (maintenance cfg tk wr) = wr_outcomes wr"
  "wr_batch (maintenance cfg tk wr) = wr_batch wr"
  "wr_queue (maintenance cfg tk wr) = wr_queue wr"
  "wr_db (maintenance cfg tk wr) = wr_db wr"
  "wr_change_seq (maintenance cfg tk wr) = wr_change_seq wr"
  "wr_failed_ops (maintenance cfg tk wr) = wr_failed_ops wr"
  "wr_running (maintenance cfg tk wr) = wr_running wr"
  "wr_stopped (maintenance cfg tk wr) = wr_stopped wr"
  "wr_stop_requested (maintenance cfg tk wr) = wr_stop_requested wr"
  "wr_drain_on_stop (maintenance cfg tk wr) = wr_drain_on_stop wr"
  by (simp_all add: maintenance_def run_checkpoint_def run_vacuum_def Let_def)

lemma resolve_frame [simp]:
  "wr_batch (resolve ops rs wr) = wr_batch wr"
  "wr_queue (resolve ops rs wr) = wr_queue wr"
  "counters (resolve ops rs wr) = counters wr"
  "wr_running (resolve ops rs wr) = wr_running wr"
  "wr_stopped (resolve ops rs wr) = wr_stopped wr"
  "wr_stop_requested (resolve ops rs wr) = wr_stop_requested wr"
  "wr_drain_on_stop (resolve ops rs wr) = wr_drain_on_stop wr"
  "wr_outcomes (resolve ops rs wr) = wr_outcomes wr @ zip (map op_id ops) rs"
  by (simp_all add: resolve_def counters_def)

lemma stop_phase_frame [simp]:
  "counters (stop_phase tk wr) = counters wr"
  "wr_stopped (stop_phase tk wr) = wr_stopped wr"
  "wr_stop_requested (stop_phase tk wr) = wr_stop_requested wr"
  "wr_drain_on_stop (stop_phase tk wr) = wr_drain_on_stop wr"
  by (simp_all add: stop_phase_def discard_pending_def run_checkpoint_def counters_def Let_def)

text \<open>
  The ledger of a writer: the identifiers of the operations resolved so far, then of the ones in
  the batch, then of the ones in the queue. A round only moves the two boundaries.
\<close>

definition ledger :: "('db, 'v) writer \<Rightarrow> nat list" where
  "ledger wr = map fst (wr_outcomes wr) @ map op_id (pending wr)"

lemma ledger_stop_phase [simp]: "ledger (stop_phase tk wr) = ledger wr"
  by (simp add: ledger_def pending_def stop_phase_def discard_pending_def run_checkpoint_def Let_def
      comp_def)

lemma ledger_fail_fatally [simp]: "ledger (fail_fatally e wr) = ledger wr"
  by (simp add: ledger_def pending_def fail_fatally_def discard_pending_def resolve_def Let_def
      comp_def map_fst_zip)

lemma ledger_maintenance [simp]: "ledger (maintenance cfg tk wr) = ledger wr"
  by (simp add: ledger_def pending_def)

lemma ledger_counters [simp]:
  "ledger (wr\<lparr>wr_db := db, wr_change_seq := seq, wr_failed_ops := failed\<rparr>) = ledger wr"
  by (simp add: ledger_def pending_def)

lemma length_commit_batch:
  "commit_batch be ce ops st = (Inr rs, st') \<Longrightarrow> length rs = length ops"
  by (auto simp: commit_batch_def split: option.splits prod.splits) (metis fst_conv length_apply_ops)

text \<open>The three ways a round can go.\<close>

lemma run_round_cases:
  obtains (idle) "run_round cfg tk wr = stop_phase tk (maintenance cfg tk (take_op cfg tk wr))"
      and "\<not> flush_due cfg tk (take_op cfg tk wr)"
  | (fatal) e db seq failed where "flush_due cfg tk (take_op cfg tk wr)"
      and "commit_batch (tk_begin_error tk) (tk_commit_error tk) (wr_batch (take_op cfg tk wr))
             (counters wr) = (Inl e, ((db, seq), failed))"
      and "run_round cfg tk wr = fail_fatally e
             ((take_op cfg tk wr)\<lparr>wr_db := db, wr_change_seq := seq, wr_failed_ops := failed\<rparr>)"
  | (flushed) rs db seq failed wr2 where "flush_due cfg tk (take_op cfg tk wr)"
      and "commit_batch (tk_begin_error tk) (tk_commit_error tk) (wr_batch (take_op cfg tk wr))
             (counters wr) = (Inr rs, ((db, seq), failed))"
      and "wr2 = (take_op cfg tk wr)\<lparr>wr_db := db, wr_change_seq := seq, wr_failed_ops := failed,
             wr_freelist_count := tk_freelist tk, wr_batch := [], wr_batch_deadline := None\<rparr>"
      and "run_round cfg tk wr = stop_phase tk
             (resolve (wr_batch (take_op cfg tk wr)) rs (maintenance cfg tk wr2))"
proof -
  let ?w = "take_op cfg tk wr"
  obtain r db seq failed where c: "commit_batch (tk_begin_error tk) (tk_commit_error tk)
      (wr_batch ?w) (counters wr) = (r, ((db, seq), failed))"
    by (metis prod.exhaust)
  have d: "((wr_db ?w, wr_change_seq ?w), wr_failed_ops ?w) = counters wr"
    using take_op_frame(2) [of cfg tk wr] by (simp add: counters_def)
  show ?thesis
  proof (cases "flush_due cfg tk ?w")
    case False
    then show ?thesis using idle by (simp add: run_round_def)
  next
    case True
    show ?thesis
    proof (cases r)
      case (Inl e)
      then show ?thesis using fatal [OF True, of e db seq failed] True c
        by (simp add: run_round_def d)
    next
      case (Inr rs)
      show ?thesis
        by (rule flushed [OF True, of rs db seq failed, OF _ refl])
          (use True c Inr in \<open>simp_all add: run_round_def d Let_def\<close>)
    qed
  qed
qed

lemma ledger_run_round: "ledger (run_round cfg tk wr) = ledger wr"
proof -
  have l: "ledger (take_op cfg tk wr) = ledger wr" by (simp add: ledger_def)
  show ?thesis
  proof (cases rule: run_round_cases [of cfg tk wr])
    case idle
    then show ?thesis using l by simp
  next
    case (fatal e db seq failed)
    then show ?thesis using l by simp
  next
    case (flushed rs db seq failed wr2)
    have "length rs = length (wr_batch (take_op cfg tk wr))"
      using length_commit_batch flushed(2) by blast
    then have "ledger (resolve (wr_batch (take_op cfg tk wr)) rs (maintenance cfg tk wr2))
        = ledger (take_op cfg tk wr)"
      by (simp add: ledger_def pending_def map_fst_zip flushed(3))
    then show ?thesis using l flushed(4) by simp
  qed
qed

text \<open>What stopping leaves behind.\<close>

definition stop_inv :: "('db, 'v) writer \<Rightarrow> bool" where
  "stop_inv wr \<longleftrightarrow> wr_stop_requested wr = wr_stopped wr
     \<and> (\<not> wr_running wr \<longrightarrow> pending wr = [] \<and> wr_stopped wr)"

lemma stop_inv_fail_fatally: "stop_inv (fail_fatally e wr)"
  by (simp add: stop_inv_def fail_fatally_def discard_pending_def resolve_def pending_def Let_def)

lemma stop_inv_stop_phase:
  assumes "wr_stop_requested wr = wr_stopped wr" and "wr_running wr"
  shows "stop_inv (stop_phase tk wr)"
  using assms
  by (simp add: stop_inv_def stop_phase_def discard_pending_def run_checkpoint_def pending_def Let_def)

lemma stop_inv_run_round:
  assumes "stop_inv wr" and "wr_running wr"
  shows "stop_inv (run_round cfg tk wr)"
proof (cases rule: run_round_cases [of cfg tk wr])
  case idle
  then show ?thesis using assms by (simp add: stop_inv_def [of wr] stop_inv_stop_phase)
next
  case (fatal e db seq failed)
  then show ?thesis by (simp add: stop_inv_fail_fatally)
next
  case (flushed rs db seq failed wr2)
  then show ?thesis using assms by (simp add: stop_inv_def [of wr] stop_inv_stop_phase)
qed

lemma submit_accepted:
  assumes "submit cfg opn wr = Some (Inr wr')"
  shows "wr' = wr\<lparr>wr_queue := wr_queue wr @ [opn]\<rparr>" and "\<not> wr_stopped wr"
  using assms by (auto simp: submit_def split: if_splits)

lemma writer_run_invariants:
  assumes "writer_run cfg wr0 subs wr" and "fresh_writer wr0"
  shows "ledger wr = map op_id subs \<and> stop_inv wr"
  using assms
proof (induction rule: writer_run.induct)
  case Start
  then show ?case by (simp add: fresh_writer_def ledger_def pending_def stop_inv_def)
next
  case (Submit subs wr opn wr')
  then show ?case using submit_accepted [OF Submit.hyps(2)]
    by (auto simp: ledger_def pending_def stop_inv_def)
next
  case (Stop subs wr drain)
  then show ?case by (auto simp: writer_stop_def ledger_def pending_def stop_inv_def)
next
  case (Round subs wr tk)
  then show ?case by (simp add: ledger_run_round stop_inv_run_round)
qed

text \<open>
  Batching is invisible: a round that does not fail applies the oldest pending operations one after
  another, each in its own savepoint, and records their outcomes in order.
\<close>

definition applied :: "('db, 'v) writer \<Rightarrow> ('db, 'v) write_op list \<Rightarrow> ('db, 'v) writer \<Rightarrow> bool" where
  "applied wr ops wr' \<longleftrightarrow> pending wr = ops @ pending wr'
     \<and> counters wr' = snd (apply_ops ops (counters wr))
     \<and> wr_outcomes wr' = wr_outcomes wr @ zip (map op_id ops) (fst (apply_ops ops (counters wr)))"

lemma applied_trans:
  assumes "applied wr xs wr'" and "applied wr' ys wr''"
  shows "applied wr (xs @ ys) wr''"
  using assms by (simp add: applied_def apply_ops_append zip_append)

lemma stop_phase_running:
  assumes "wr_running (stop_phase tk wr) \<or> (wr_stop_requested wr \<longrightarrow> wr_drain_on_stop wr)"
  shows "pending (stop_phase tk wr) = pending wr \<and> wr_outcomes (stop_phase tk wr) = wr_outcomes wr"
  using assms by (auto simp: stop_phase_def run_checkpoint_def pending_def split: if_splits)

lemma not_running_fail_fatally: "\<not> wr_running (fail_fatally e wr)"
  by (simp add: fail_fatally_def Let_def)

lemma commit_batch_Inr:
  "commit_batch be ce ops st = (Inr rs, st') \<Longrightarrow> apply_ops ops st = (rs, st')"
  by (auto simp: commit_batch_def split: option.splits prod.splits)

lemma run_round_applied:
  assumes "wr_running wr"
    and "wr_running (run_round cfg tk wr) \<or> (tk_begin_error tk = None \<and> tk_commit_error tk = None
           \<and> (wr_stop_requested wr \<longrightarrow> wr_drain_on_stop wr))"
  shows "\<exists>ops. applied wr ops (run_round cfg tk wr)"
proof (cases rule: run_round_cases [of cfg tk wr])
  case idle
  have "pending (stop_phase tk (maintenance cfg tk (take_op cfg tk wr))) = pending wr
      \<and> wr_outcomes (stop_phase tk (maintenance cfg tk (take_op cfg tk wr))) = wr_outcomes wr"
    using stop_phase_running [of tk "maintenance cfg tk (take_op cfg tk wr)"] assms(2) idle(1)
      pending_take_op [of cfg tk wr]
    by (auto simp: pending_def)
  moreover have "counters (maintenance cfg tk (take_op cfg tk wr)) = counters wr"
    using take_op_frame(2) [of cfg tk wr] by (simp add: counters_def)
  ultimately have "applied wr [] (run_round cfg tk wr)"
    using idle(1) by (simp add: applied_def)
  then show ?thesis ..
next
  case (fatal e db seq failed)
  then have "tk_begin_error tk = None \<and> tk_commit_error tk = None"
    using assms(2) by (simp add: not_running_fail_fatally)
  then show ?thesis using fatal(2) by (simp add: commit_batch_def split: prod.splits)
next
  case (flushed rs db seq failed wr2)
  let ?w = "take_op cfg tk wr"
  let ?r = "resolve (wr_batch ?w) rs (maintenance cfg tk wr2)"
  have ops: "apply_ops (wr_batch ?w) (counters wr) = (rs, ((db, seq), failed))"
    using commit_batch_Inr flushed(2) by blast
  have keep: "pending (stop_phase tk ?r) = pending ?r \<and> wr_outcomes (stop_phase tk ?r) = wr_outcomes ?r"
    using stop_phase_running [of tk ?r] assms(2) flushed(3,4) by auto
  have c: "counters ?r = ((db, seq), failed)"
    unfolding resolve_frame by (simp add: counters_def flushed(3))
  have p: "pending ?r = wr_queue ?w" and o: "wr_outcomes ?r = wr_outcomes wr @ zip (map op_id (wr_batch ?w)) rs"
    by (simp_all add: pending_def flushed(3))
  have "applied wr (wr_batch ?w) (stop_phase tk ?r)"
    unfolding applied_def stop_phase_frame(1) c ops
    using keep p o pending_take_op [of cfg tk wr] by (simp add: pending_def)
  then show ?thesis using flushed(4) by auto
qed

lemma run_round_flags:
  "wr_running (run_round cfg tk wr) \<Longrightarrow> wr_stop_requested (run_round cfg tk wr) = wr_stop_requested wr
     \<and> wr_drain_on_stop (run_round cfg tk wr) = wr_drain_on_stop wr"
  by (cases rule: run_round_cases [of cfg tk wr]) (simp_all add: not_running_fail_fatally)

text \<open>While draining, a round shortens the queue, and the round that empties it is the last.\<close>

lemma drain_round:
  assumes "wr_running wr" and "wr_stop_requested wr" and "wr_drain_on_stop wr"
    and "wr_running (run_round cfg tk wr)"
  shows "Suc (length (wr_queue (run_round cfg tk wr))) = length (wr_queue wr)
    \<and> wr_queue (run_round cfg tk wr) \<noteq> []"
proof -
  have t: "wr_queue (take_op cfg tk wr) = tl (wr_queue wr)"
    by (simp add: take_op_def split: list.splits)
  have q: "wr_queue (run_round cfg tk wr) = tl (wr_queue wr) \<and> tl (wr_queue wr) \<noteq> []"
  proof (cases rule: run_round_cases [of cfg tk wr])
    case idle
    have "wr_queue (take_op cfg tk wr) = [] \<Longrightarrow> wr_batch (take_op cfg tk wr) = []"
      using idle(2) assms(2,3) by (auto simp: flush_due_def)
    then show ?thesis using idle(1) assms t
      by (auto simp: stop_phase_def run_checkpoint_def split: if_splits)
  next
    case (fatal e db seq failed)
    then show ?thesis using assms(4) by (simp add: not_running_fail_fatally)
  next
    case (flushed rs db seq failed wr2)
    then show ?thesis using assms t
      by (auto simp: stop_phase_def run_checkpoint_def split: if_splits)
  qed
  then show ?thesis by (cases "wr_queue wr") auto
qed

definition error_free :: "tick \<Rightarrow> bool" where
  "error_free tk \<longleftrightarrow> tk_begin_error tk = None \<and> tk_commit_error tk = None"

lemma run_rounds_stopped: "\<not> wr_running wr \<Longrightarrow> run_rounds cfg tks wr = wr"
  by (cases tks) simp_all

lemma drain_terminates:
  assumes "wr_running wr" and "wr_stop_requested wr" and "wr_drain_on_stop wr"
    and "max 1 (length (wr_queue wr)) \<le> length tks"
  shows "\<not> wr_running (run_rounds cfg tks wr)"
  using assms
proof (induction tks arbitrary: wr)
  case Nil
  then show ?case by simp
next
  case (Cons tk tks)
  show ?case
  proof (cases "wr_running (run_round cfg tk wr)")
    case True
    have "max 1 (length (wr_queue (run_round cfg tk wr))) \<le> length tks"
      using drain_round [OF Cons.prems(1,2,3) True] Cons.prems(4) by (simp add: Suc_le_eq)
    then show ?thesis
      using Cons.IH [OF True] run_round_flags [OF True] Cons.prems by simp
  next
    case False
    then show ?thesis using Cons.prems(1) by (simp add: run_rounds_stopped)
  qed
qed

lemma drain_applied:
  assumes "wr_running wr" and "wr_stop_requested wr" and "wr_drain_on_stop wr"
    and "\<forall>tk \<in> set tks. error_free tk"
  shows "\<exists>ops. applied wr ops (run_rounds cfg tks wr)"
  using assms
proof (induction tks arbitrary: wr)
  case Nil
  have "applied wr [] wr" by (simp add: applied_def)
  then show ?case by auto
next
  case (Cons tk tks)
  obtain ops where one: "applied wr ops (run_round cfg tk wr)"
    using run_round_applied [OF Cons.prems(1), of cfg tk] Cons.prems by (auto simp: error_free_def)
  show ?case
  proof (cases "wr_running (run_round cfg tk wr)")
    case True
    then obtain ops' where "applied (run_round cfg tk wr) ops' (run_rounds cfg tks (run_round cfg tk wr))"
      using Cons.IH [OF True] run_round_flags [OF True] Cons.prems by auto
    then show ?thesis using applied_trans [OF one] Cons.prems(1) by auto
  next
    case False
    then show ?thesis using one Cons.prems(1) by (auto simp: run_rounds_stopped)
  qed
qed

lemma run_rounds_stop_inv: "stop_inv wr \<Longrightarrow> stop_inv (run_rounds cfg tks wr)"
  by (induction tks arbitrary: wr) (simp_all add: stop_inv_run_round)

section \<open>A concrete run\<close>

text \<open>A started writer with two operations, the second of which raises after taking a number.\<close>

definition demo_cfg :: writer_cfg where
  "demo_cfg = \<lparr>batch_size = 2, batch_interval = 1, checkpoint_interval = 60,
     vacuum_interval = 3600, queue_maxsize = 10\<rparr>"

definition demo_tick :: tick where
  "demo_tick = \<lparr>tk_enqueued = 0, tk_interval = 0, tk_checkpoint = 0, tk_checkpoint_done = 0,
     tk_vacuum = 0, tk_vacuum_done = 0, tk_truncated = 0, tk_begin_error = None,
     tk_commit_error = None, tk_busy = 0, tk_freelist = 0\<rparr>"

definition demo_op :: "nat \<Rightarrow> (database, int) write_op" where
  "demo_op i = \<lparr>op_id = i, op_name = ''demo'',
     op_apply = (\<lambda>st. let (n, st') = next_seq st
                      in (if i = 1 then Inl ValueError else Inr n, st'))\<rparr>"

definition demo_writer :: "(database, int) writer" where
  "demo_writer = (case writer_start 0 0 (writer_init empty_db) of Inr wr \<Rightarrow> wr | Inl e \<Rightarrow> writer_init empty_db)"

definition demo_queued :: "(database, int) writer" where
  "demo_queued = demo_writer\<lparr>wr_queue := [demo_op 0, demo_op 1]\<rparr>"

lemmas demo_defs = demo_queued_def demo_writer_def demo_op_def demo_tick_def demo_cfg_def
  writer_start_def writer_init_def empty_db_def max_change_seq_def

lemma demo_fresh: "fresh_writer demo_writer"
  by (simp add: fresh_writer_def demo_defs)

lemma demo_run: "writer_run demo_cfg demo_writer [demo_op 0, demo_op 1] demo_queued"
proof -
  have "submit demo_cfg (demo_op 0) demo_writer = Some (Inr (demo_writer\<lparr>wr_queue := [demo_op 0]\<rparr>))"
    by (simp add: submit_def demo_defs)
  then have one: "writer_run demo_cfg demo_writer [demo_op 0] (demo_writer\<lparr>wr_queue := [demo_op 0]\<rparr>)"
    using writer_run.Submit [OF writer_run.Start] by fastforce
  have "submit demo_cfg (demo_op 1) (demo_writer\<lparr>wr_queue := [demo_op 0]\<rparr>) = Some (Inr demo_queued)"
    by (simp add: submit_def demo_defs)
  then show ?thesis using writer_run.Submit [OF one] by simp
qed

lemma demo_run2:
  "writer_run demo_cfg demo_writer [demo_op 0, demo_op 1]
     (run_round demo_cfg demo_tick (run_round demo_cfg demo_tick demo_queued))"
  by (rule writer_run.Round [OF writer_run.Round [OF demo_run]])
    (simp_all add: run_round_def take_op_def flush_due_def maintenance_def stop_phase_def demo_defs)

lemma demo_committed:
  "map (map_prod id is_ok) (wr_outcomes (run_round demo_cfg demo_tick (run_round demo_cfg demo_tick demo_queued)))
     = [(0, True), (1, False)]"
  "wr_running (run_round demo_cfg demo_tick (run_round demo_cfg demo_tick demo_queued))"
  "wr_batch (run_round demo_cfg demo_tick (run_round demo_cfg demo_tick demo_queued)) = []"
  "wr_queue (run_round demo_cfg demo_tick (run_round demo_cfg demo_tick demo_queued)) = []"
  by (simp_all add: run_round_def take_op_def flush_due_def maintenance_def stop_phase_def
      commit_batch_def apply_op_def next_seq_def resolve_def demo_defs)

section \<open>Properties of the writer\<close>



text \<open>
  C27. While the writer runs, what it has committed is exactly the sequential application of the
  operations resolved so far to the state it started from: batch boundaries, deadlines and
  maintenance are not observable, and the outcome of each operation is the one of that sequence.
\<close>

theorem batching_refines_sequential:
  assumes "writer_run cfg wr0 subs wr" and "fresh_writer wr0" and "wr_running wr"
  shows "\<exists>resolved. subs = resolved @ wr_batch wr @ wr_queue wr
    \<and> apply_ops resolved (counters wr0) = (map snd (wr_outcomes wr), counters wr)"
proof -
  have "wr_running wr \<Longrightarrow> \<exists>resolved. subs = resolved @ pending wr
      \<and> apply_ops resolved (counters wr0) = (map snd (wr_outcomes wr), counters wr)"
    using assms(1,2)
  proof (induction rule: writer_run.induct)
    case Start
    then show ?case by (simp add: fresh_writer_def pending_def)
  next
    case (Submit subs wr opn wr')
    then show ?case using submit_accepted [OF Submit.hyps(2)] by (auto simp: pending_def counters_def)
  next
    case (Stop subs wr drain)
    then show ?case by (auto simp: writer_stop_def pending_def counters_def split: if_splits)
  next
    case (Round subs wr tk)
    obtain old where old: "subs = old @ pending wr"
        "apply_ops old (counters wr0) = (map snd (wr_outcomes wr), counters wr)"
      using Round by auto
    obtain ops where "applied wr ops (run_round cfg tk wr)"
      using run_round_applied Round by blast
    then have "subs = (old @ ops) @ pending (run_round cfg tk wr)
        \<and> apply_ops (old @ ops) (counters wr0)
          = (map snd (wr_outcomes (run_round cfg tk wr)), counters (run_round cfg tk wr))"
      using old by (simp add: applied_def apply_ops_append map_snd_zip)
    then show ?case by blast
  qed
  then show ?thesis using assms(3) by (simp add: pending_def)
qed

theorem batching_refines_sequential_witness:
  "\<exists>resolved. [demo_op 0, demo_op 1] = resolved
     \<and> apply_ops resolved (counters demo_writer)
       = (map snd (wr_outcomes (run_round demo_cfg demo_tick (run_round demo_cfg demo_tick demo_queued))),
          counters (run_round demo_cfg demo_tick (run_round demo_cfg demo_tick demo_queued)))"
  using batching_refines_sequential [OF demo_run2 demo_fresh demo_committed(2)]
  by (simp add: demo_committed)

text \<open>
  C28. \<^verbatim>\<open>stop(drain=True)\<close> ends, and applies everything queued first: from the moment the stop is
  requested at most one round per queued operation is needed (and at least one), after which the
  thread has ended, nothing is pending, and when no transaction failed every pending operation was
  applied in order.
\<close>

theorem drain_applies_everything:
  assumes "wr_running wr" and "wr_stop_requested wr" and "wr_stopped wr" and "wr_drain_on_stop wr"
    and "max 1 (length (wr_queue wr)) \<le> length tks" and "\<forall>tk \<in> set tks. error_free tk"
  shows "\<not> wr_running (run_rounds cfg tks wr)
    \<and> wr_batch (run_rounds cfg tks wr) @ wr_queue (run_rounds cfg tks wr) = []
    \<and> apply_ops (wr_batch wr @ wr_queue wr) (counters wr)
       = (map snd (drop (length (wr_outcomes wr)) (wr_outcomes (run_rounds cfg tks wr))),
          counters (run_rounds cfg tks wr))"
proof -
  have ended: "\<not> wr_running (run_rounds cfg tks wr)"
    using drain_terminates assms by blast
  have "stop_inv wr" using assms(1-3) by (simp add: stop_inv_def)
  then have empty: "pending (run_rounds cfg tks wr) = []"
    using run_rounds_stop_inv ended by (auto simp: stop_inv_def)
  obtain ops where "applied wr ops (run_rounds cfg tks wr)"
    using drain_applied assms by blast
  then show ?thesis using ended empty by (simp add: applied_def pending_def map_snd_zip)
qed

theorem drain_applies_everything_witness:
  "\<not> wr_running (run_rounds demo_cfg [demo_tick, demo_tick] (writer_stop True demo_queued))"
  using drain_applies_everything [of "writer_stop True demo_queued" "[demo_tick, demo_tick]" demo_cfg]
  by (simp add: writer_stop_def error_free_def demo_defs)

text \<open>
  Isolation inside a batch: an operation that raises leaves the committed database as if it had
  not been in the batch, the others are applied in order, one outcome is reported per operation, and
  \<^verbatim>\<open>failed_ops\<close> counts exactly the ones that raised.
\<close>

theorem failed_ops_are_isolated:
  "commit_batch None None (xs @ opn # ys) st = (Inr rs, st') \<Longrightarrow>
     length rs = length xs + 1 + length ys
     \<and> snd st' = snd st + int (length (filter (\<lambda>r. \<not> is_ok r) rs))
     \<and> (is_ok (rs ! length xs)
        \<or> (\<exists>db seq seq' failed. commit_batch None None xs st = (Inr (take (length xs) rs), ((db, seq), failed))
             \<and> commit_batch None None ys ((db, seq'), failed + 1)
               = (Inr (drop (Suc (length xs)) rs), st')))"
proof -
  have failures: "snd (snd (apply_ops ops st)) = snd st + int (length (filter (\<lambda>r. \<not> is_ok r) (fst (apply_ops ops st))))"
    for ops and st :: "'b op_state \<times> int"
    by (induction ops arbitrary: st)
      (auto simp: split_beta Let_def apply_op_def split: sum.splits)
  assume "commit_batch None None (xs @ opn # ys) st = (Inr rs, st')"
  then have all: "apply_ops (xs @ opn # ys) st = (rs, st')" using commit_batch_Inr by blast
  define st1 where "st1 = snd (apply_ops xs st)"
  have rs: "rs = fst (apply_ops xs st) @ fst (apply_op opn st1)
      # fst (apply_ops ys (snd (apply_op opn st1)))"
    and st': "st' = snd (apply_ops ys (snd (apply_op opn st1)))"
    using all by (auto simp: apply_ops_append st1_def split_beta Let_def)
  have nth: "rs ! length xs = fst (apply_op opn st1)" and tk: "take (length xs) rs = fst (apply_ops xs st)"
    and dr: "drop (Suc (length xs)) rs = fst (apply_ops ys (snd (apply_op opn st1)))"
    by (simp_all add: rs nth_append)
  obtain db seq failed where d: "st1 = ((db, seq), failed)" by (metis prod.exhaust)
  have "is_ok (rs ! length xs) \<or> (\<exists>seq'. snd (apply_op opn st1) = ((db, seq'), failed + 1))"
    by (auto simp: nth apply_op_def d split: prod.splits sum.splits)
  moreover have "commit_batch None None xs st = (Inr (take (length xs) rs), ((db, seq), failed))"
    using d by (auto simp: commit_batch_def tk st1_def split: prod.splits)
  moreover have "commit_batch None None ys (snd (apply_op opn st1)) = (Inr (drop (Suc (length xs)) rs), st')"
    by (auto simp: commit_batch_def dr st' split: prod.splits)
  ultimately show ?thesis
    using failures [of "xs @ opn # ys" st] all by (auto simp: rs)
qed

lemma upper_letter_not_space:
  "is_py_space c \<Longrightarrow> ascii_upper c = c \<and> \<not> (65 \<le> (of_char c :: nat) \<and> of_char c \<le> (90 :: nat))"
  by (auto simp: is_py_space_def ascii_upper_def Let_def)

lemma blocked_letters:
  "p \<in> set blocked_sql_prefixes \<Longrightarrow> p \<noteq> [] \<and> (\<forall>c \<in> set p. 65 \<le> (of_char c :: nat) \<and> of_char c \<le> (90 :: nat))"
  by (auto simp: blocked_sql_prefixes_def)

lemma py_strip_keyword:
  assumes "\<forall>c \<in> set ws. is_py_space c" and "kw \<noteq> []" and "\<forall>c \<in> set kw. \<not> is_py_space c"
  shows "\<exists>rest'. py_strip (ws @ kw @ rest) = kw @ rest'"
proof -
  have "dropWhile is_py_space (ws @ kw @ rest) = kw @ rest"
    using assms by (cases kw) (simp_all add: dropWhile_append2)
  moreover have "dropWhile is_py_space (rev kw) = rev kw"
    using assms(2,3) by (cases kw rule: rev_cases) simp_all
  ultimately have "py_strip (ws @ kw @ rest)
      = kw @ rev (dropWhile is_py_space (rev rest))"
    by (auto simp: py_strip_def dropWhile_append dropWhile_eq_Nil_conv)
  then show ?thesis by blast
qed

text \<open>
  The guard an operation works behind: a statement that starts, after any white space and in any
  letter case, with a transaction-control keyword never reaches the real connection, whichever of
  the four execute methods it is given to.
\<close>

theorem guard_blocks_transaction_control:
  assumes "\<forall>c \<in> set ws. is_py_space c" and "map ascii_upper kw \<in> set blocked_sql_prefixes"
    and "call \<in> {Execute (ws @ kw @ rest), Executemany (ws @ kw @ rest),
                 Cursor_execute (ws @ kw @ rest), Cursor_executemany (ws @ kw @ rest)}"
  shows "guarded execute call db = Inl TransactionBoundaryViolation"
proof -
  note letters = blocked_letters [OF assms(2)]
  have "\<forall>c \<in> set kw. \<not> is_py_space c"
    using letters upper_letter_not_space by fastforce
  then obtain rest' where "py_strip (ws @ kw @ rest) = kw @ rest'"
    using py_strip_keyword assms(1) letters by blast
  then have "starts_with (map ascii_upper kw) (map ascii_upper (py_strip (ws @ kw @ rest)))"
    by (simp add: starts_with_def)
  then have "check_transaction_control_sql (ws @ kw @ rest) = Inl TransactionBoundaryViolation"
    using assms(2) by (auto simp: check_transaction_control_sql_def)
  then show ?thesis using assms(3) by (auto simp: guarded_execute_def)
qed

end
