(* ===== verification/Ratelimit.thy ===== *)
theory Ratelimit
  imports Schema
begin

text \<open>
  \<^verbatim>\<open>ratelimit.py\<close>: the lazily refilling token bucket and the hierarchical limiter that draws every
  grant from a child bucket and the shared global bucket.

  Both classes read an injected clock; every reading an operation makes is an argument of its model,
  in the order of the calls to \<^verbatim>\<open>now\<close>, and the whole of a locked section is one step. Floats are
  reals, \<^verbatim>\<open>float("-inf")\<close> is \<^const>\<open>None\<close>. A blocking \<^verbatim>\<open>acquire\<close> is the iteration of its locked loop
  body: the wait in between releases the lock, so other threads' operations may come there.
\<close>

section \<open>The token bucket\<close>

record bucket =
  rate_per_second :: real
  burst :: real
  tokens :: real
  last_refill :: real
  penalty_deadline :: "real option"

definition new_bucket :: "real \<Rightarrow> real \<Rightarrow> real \<Rightarrow> bucket" where
  "new_bucket rate_per_minute b now =
     \<lparr>rate_per_second = rate_per_minute / 60, burst = b, tokens = b, last_refill = now,
      penalty_deadline = None\<rparr>"

definition is_penalized :: "real \<Rightarrow> bucket \<Rightarrow> bool" where
  "is_penalized now b = (case penalty_deadline b of None \<Rightarrow> False | Some d \<Rightarrow> now < d)"

definition refill :: "real \<Rightarrow> bucket \<Rightarrow> bucket" where
  "refill now b =
     (let elapsed = now - last_refill b
      in if 0 < elapsed
         then b\<lparr>tokens := min (burst b) (tokens b + elapsed * rate_per_second b), last_refill := now\<rparr>
         else b)"

definition try_take :: "real \<Rightarrow> real \<Rightarrow> real \<Rightarrow> bucket \<Rightarrow> bool \<times> bucket" where
  "try_take now1 now2 n b =
     (if is_penalized now1 b then (False, b)
      else let b1 = refill now2 b
           in if burst b1 < n \<or> tokens b1 < n then (False, b1)
              else (True, b1\<lparr>tokens := tokens b1 - n\<rparr>))"

definition penalty_wait :: "real \<Rightarrow> bucket \<Rightarrow> real" where
  "penalty_wait now b = (case penalty_deadline b of None \<Rightarrow> 0 | Some d \<Rightarrow> max 0 (d - now))"

definition time_until_available :: "real \<Rightarrow> real \<Rightarrow> real \<Rightarrow> bucket \<Rightarrow> real option \<times> bucket" where
  "time_until_available now1 now2 n b =
     (if burst b < n then (None, b)
      else let wait_for_penalty = penalty_wait now1 b;
               b1 = refill now2 b;
               deficit = n - tokens b1
           in if deficit \<le> 0 then (Some wait_for_penalty, b1)
              else if rate_per_second b1 \<le> 0 then (None, b1)
              else (Some (max wait_for_penalty (deficit / rate_per_second b1)), b1))"

definition available :: "real \<Rightarrow> bucket \<Rightarrow> real \<times> bucket" where
  "available now b = (let b1 = refill now b in (tokens b1, b1))"

definition drain_bucket :: "real \<Rightarrow> bucket \<Rightarrow> bucket" where
  "drain_bucket now b = b\<lparr>tokens := 0, last_refill := now\<rparr>"

definition penalize :: "real \<Rightarrow> real \<Rightarrow> bucket \<Rightarrow> bucket" where
  "penalize now seconds b =
     (let deadline = now + seconds
      in case penalty_deadline b of
           None \<Rightarrow> b\<lparr>penalty_deadline := Some deadline\<rparr>
         | Some d \<Rightarrow> if d < deadline then b\<lparr>penalty_deadline := Some deadline\<rparr> else b)"

definition return_tokens :: "real \<Rightarrow> bucket \<Rightarrow> bucket" where
  "return_tokens n b = b\<lparr>tokens := min (burst b) (tokens b + n)\<rparr>"

text \<open>One pass of the loop of \<^verbatim>\<open>acquire\<close>: what it returns, or how long it waits before the next pass.\<close>

datatype acquire_outcome = Granted | Refused | Wait_for real

definition acquire_decision :: "real option \<Rightarrow> real \<Rightarrow> real option \<Rightarrow> acquire_outcome" where
  "acquire_decision deadline now wait_for =
     (case wait_for of None \<Rightarrow> Refused
      | Some w \<Rightarrow>
          (case deadline of None \<Rightarrow> Wait_for w
           | Some d \<Rightarrow> (let remaining = d - now
                        in if remaining \<le> 0 then Refused else Wait_for (min w remaining))))"

definition acquire_pass ::
    "real option \<Rightarrow> real \<times> real \<times> real \<times> real \<times> real \<Rightarrow> real \<Rightarrow> bucket \<Rightarrow> acquire_outcome \<times> bucket" where
  "acquire_pass deadline rd n b =
     (case rd of (t1, t2, t3, t4, t5) \<Rightarrow>
        (case try_take t1 t2 n b of
           (True, b1) \<Rightarrow> (Granted, b1)
         | (False, b1) \<Rightarrow>
             (case time_until_available t3 t4 n b1 of
                (wait_for, b2) \<Rightarrow> (acquire_decision deadline t5 wait_for, b2))))"

text \<open>The operations of a bucket with their clock readings, and the net amount they hand out.\<close>

datatype bucket_call = Try_acquire real real real | Available real | Drain real
  | Penalize real real | Time_until real real real | Return_tokens real

fun bucket_step :: "bucket_call \<Rightarrow> bucket \<Rightarrow> real \<times> bucket" where
  "bucket_step (Try_acquire t1 t2 n) b =
     (case try_take t1 t2 n b of (granted, b1) \<Rightarrow> (if granted then n else 0, b1))"
| "bucket_step (Available t) b = (0, snd (available t b))"
| "bucket_step (Drain t) b = (0, drain_bucket t b)"
| "bucket_step (Penalize t s) b = (0, penalize t s b)"
| "bucket_step (Time_until t1 t2 n) b = (0, snd (time_until_available t1 t2 n b))"
| "bucket_step (Return_tokens n) b = (- n, return_tokens n b)"

section \<open>The hierarchical limiter\<close>

record child =
  ch_bucket :: bucket
  ch_reserve_rate :: real
  ch_last_attempt :: "real option"
  ch_acquired :: int
  ch_denied :: int

record limiter =
  global_bucket :: bucket
  children :: "(string \<times> child) list"

definition one_second_burst :: "real \<Rightarrow> real" where
  "one_second_burst rate_per_minute = max 1 (rate_per_minute / 60)"

definition new_limiter :: "real \<Rightarrow> real \<Rightarrow> (string \<times> real) list \<Rightarrow> limiter" where
  "new_limiter now global_rate_per_minute rates =
     \<lparr>global_bucket = new_bucket global_rate_per_minute (one_second_burst global_rate_per_minute) now,
      children = map (\<lambda>(name, rate).
        (name, \<lparr>ch_bucket = new_bucket rate (one_second_burst rate) now, ch_reserve_rate = rate,
                ch_last_attempt = None, ch_acquired = 0, ch_denied = 0\<rparr>)) rates\<rparr>"

definition update_child :: "string \<Rightarrow> (child \<Rightarrow> child) \<Rightarrow> limiter \<Rightarrow> limiter" where
  "update_child name f hl =
     hl\<lparr>children := map (\<lambda>(k, c). (k, if k = name then f c else c)) (children hl)\<rparr>"

definition set_child_bucket :: "string \<Rightarrow> bucket \<Rightarrow> limiter \<Rightarrow> limiter" where
  "set_child_bucket name b hl = update_child name (\<lambda>c. c\<lparr>ch_bucket := b\<rparr>) hl"

text \<open>Seconds until one sibling is idle; a sibling never requested is idle (\<^verbatim>\<open>now - (-inf)\<close>).\<close>

definition sibling_remaining :: "real \<Rightarrow> child \<Rightarrow> real option" where
  "sibling_remaining now c =
     (case ch_last_attempt c of None \<Rightarrow> None
      | Some a \<Rightarrow> Some ((if 0 < ch_reserve_rate c then 60 / ch_reserve_rate c else 0) - (now - a)))"

definition time_until_siblings_idle :: "real \<Rightarrow> string \<Rightarrow> limiter \<Rightarrow> real" where
  "time_until_siblings_idle now name hl =
     fold (\<lambda>(k, c) wait.
             if k = name then wait
             else (case sibling_remaining now c of None \<Rightarrow> wait | Some r \<Rightarrow> max wait r))
       (children hl) 0"

definition siblings_idle :: "real \<Rightarrow> string \<Rightarrow> limiter \<Rightarrow> bool" where
  "siblings_idle now name hl = (time_until_siblings_idle now name hl \<le> 0)"

text \<open>The clock readings of one locked pass, named by the call that makes them.\<close>

record hl_readings =
  rd_penalized :: real
  rd_child :: "real \<times> real"
  rd_idle :: real
  rd_global :: "real \<times> real"
  rd_wait_child :: "real \<times> real"
  rd_wait_global :: "real \<times> real"
  rd_wait_idle :: real
  rd_remaining :: real

definition take_global :: "hl_readings \<Rightarrow> real \<Rightarrow> limiter \<Rightarrow> bool \<times> limiter" where
  "take_global rd n hl =
     (case try_take (fst (rd_global rd)) (snd (rd_global rd)) n (global_bucket hl) of
        (ok, g) \<Rightarrow> (ok, hl\<lparr>global_bucket := g\<rparr>))"

definition hl_try_take :: "hl_readings \<Rightarrow> string \<Rightarrow> bucket \<Rightarrow> real \<Rightarrow> limiter \<Rightarrow> bool \<times> limiter" where
  "hl_try_take rd name b n hl =
     (if is_penalized (rd_penalized rd) b then (False, hl)
      else (case try_take (fst (rd_child rd)) (snd (rd_child rd)) n b of
              (True, b1) \<Rightarrow>
                (case take_global rd n hl of
                   (True, hl1) \<Rightarrow> (True, set_child_bucket name b1 hl1)
                 | (False, hl1) \<Rightarrow> (False, set_child_bucket name (return_tokens n b1) hl1))
            | (False, b1) \<Rightarrow>
                (let hl1 = set_child_bucket name b1 hl
                 in if \<not> siblings_idle (rd_idle rd) name hl1 then (False, hl1)
                    else take_global rd n hl1)))"

definition hl_time_until :: "hl_readings \<Rightarrow> string \<Rightarrow> bucket \<Rightarrow> real \<Rightarrow> limiter \<Rightarrow> real option \<times> limiter" where
  "hl_time_until rd name b n hl =
     (case time_until_available (fst (rd_wait_child rd)) (snd (rd_wait_child rd)) n b of
        (own_wait, b1) \<Rightarrow>
          (case time_until_available (fst (rd_wait_global rd)) (snd (rd_wait_global rd)) n
                  (global_bucket hl) of
             (global_wait, g1) \<Rightarrow>
               (let hl1 = set_child_bucket name b1 (hl\<lparr>global_bucket := g1\<rparr>)
                in (case global_wait of
                      None \<Rightarrow> None
                    | Some gw \<Rightarrow>
                        if own_wait = Some 0 then Some gw
                        else (let borrow_wait =
                                max (time_until_siblings_idle (rd_wait_idle rd) name hl1) gw
                              in case own_wait of None \<Rightarrow> Some borrow_wait
                                 | Some ow \<Rightarrow> Some (min ow borrow_wait)),
                    hl1))))"

text \<open>\<^verbatim>\<open>HierarchicalLimiter.acquire\<close>: recording the attempt, then passes of the loop.\<close>

definition hl_attempt :: "real \<Rightarrow> string \<Rightarrow> limiter \<Rightarrow> limiter res" where
  "hl_attempt now name hl =
     (case map_of (children hl) name of None \<Rightarrow> Inl KeyError
      | Some c \<Rightarrow> Inr (update_child name (\<lambda>c. c\<lparr>ch_last_attempt := Some now\<rparr>) hl))"

definition hl_pass ::
    "real option \<Rightarrow> hl_readings \<Rightarrow> string \<Rightarrow> real \<Rightarrow> limiter \<Rightarrow> (acquire_outcome \<times> limiter) res" where
  "hl_pass deadline rd name n hl =
     (case map_of (children hl) name of None \<Rightarrow> Inl KeyError
      | Some c \<Rightarrow>
          (case hl_try_take rd name (ch_bucket c) n hl of
             (True, hl1) \<Rightarrow>
               Inr (Granted, update_child name (\<lambda>c. c\<lparr>ch_acquired := ch_acquired c + 1\<rparr>) hl1)
           | (False, hl1) \<Rightarrow>
               (case map_of (children hl1) name of None \<Rightarrow> Inl KeyError
                | Some c1 \<Rightarrow>
                    (case hl_time_until rd name (ch_bucket c1) n hl1 of
                       (wait_for, hl2) \<Rightarrow>
                         (case acquire_decision deadline (rd_remaining rd) wait_for of
                            Refused \<Rightarrow>
                              Inr (Refused, update_child name (\<lambda>c. c\<lparr>ch_denied := ch_denied c + 1\<rparr>) hl2)
                          | out \<Rightarrow> Inr (out, hl2))))))"

definition hl_penalize :: "real \<Rightarrow> string \<Rightarrow> real \<Rightarrow> limiter \<Rightarrow> limiter res" where
  "hl_penalize now name seconds hl =
     (case map_of (children hl) name of None \<Rightarrow> Inl KeyError
      | Some c \<Rightarrow> Inr (set_child_bucket name (penalize now seconds (ch_bucket c)) hl))"

text \<open>\<^verbatim>\<open>snapshot\<close> refills every bucket it reads; \<open>now\<close> gives the reading for each child.\<close>

definition hl_snapshot :: "(string \<Rightarrow> real) \<Rightarrow> real \<Rightarrow> limiter
    \<Rightarrow> (real \<times> (string \<times> real \<times> int \<times> int \<times> real option) list) \<times> limiter" where
  "hl_snapshot now now_global hl =
     (let cs = map (\<lambda>(k, c). (k, c\<lparr>ch_bucket := refill (now k) (ch_bucket c)\<rparr>)) (children hl);
          g = refill now_global (global_bucket hl)
      in ((tokens g, map (\<lambda>(k, c). (k, tokens (ch_bucket c), ch_acquired c, ch_denied c,
                                     penalty_deadline (ch_bucket c))) cs),
          hl\<lparr>children := cs, global_bucket := g\<rparr>))"

datatype limiter_call = Attempt real string | Pass "real option" hl_readings string real
  | Penalize_child real string real | Snapshot "string \<Rightarrow> real" real

fun limiter_step :: "limiter_call \<Rightarrow> limiter \<Rightarrow> real \<times> limiter" where
  "limiter_step (Attempt t name) hl =
     (0, case hl_attempt t name hl of Inl e \<Rightarrow> hl | Inr hl1 \<Rightarrow> hl1)"
| "limiter_step (Pass deadline rd name n) hl =
     (case hl_pass deadline rd name n hl of Inl e \<Rightarrow> (0, hl)
      | Inr (out, hl1) \<Rightarrow> (if out = Granted then n else 0, hl1))"
| "limiter_step (Penalize_child t name s) hl =
     (0, case hl_penalize t name s hl of Inl e \<Rightarrow> hl | Inr hl1 \<Rightarrow> hl1)"
| "limiter_step (Snapshot now t) hl = (0, snd (hl_snapshot now t hl))"

section \<open>Sequences of operations\<close>

fun run_calls :: "('c \<Rightarrow> 's \<Rightarrow> real \<times> 's) \<Rightarrow> 'c list \<Rightarrow> 's \<Rightarrow> real \<times> 's" where
  "run_calls step [] s = (0, s)"
| "run_calls step (c # cs) s =
     (let (g, s1) = step c s; (gs, s2) = run_calls step cs s1 in (g + gs, s2))"

fun run_ready :: "('c \<Rightarrow> 's \<Rightarrow> real \<times> 's) \<Rightarrow> ('c \<Rightarrow> 's \<Rightarrow> bool) \<Rightarrow> 'c list \<Rightarrow> 's \<Rightarrow> bool" where
  "run_ready step ready [] s = True"
| "run_ready step ready (c # cs) s = (ready c s \<and> run_ready step ready cs (snd (step c s)))"

definition bucket_ok :: "bucket \<Rightarrow> bool" where
  "bucket_ok b \<longleftrightarrow> 0 \<le> rate_per_second b \<and> 0 \<le> tokens b \<and> tokens b \<le> burst b"

text \<open>Amounts are not negative, and the clock does not run backwards at a drain.\<close>

fun bucket_ready :: "bucket_call \<Rightarrow> bucket \<Rightarrow> bool" where
  "bucket_ready (Try_acquire t1 t2 n) b = (0 \<le> n)"
| "bucket_ready (Return_tokens n) b = (0 \<le> n)"
| "bucket_ready (Drain t) b = (last_refill b \<le> t)"
| "bucket_ready _ b = True"

definition limiter_ok :: "limiter \<Rightarrow> bool" where
  "limiter_ok hl \<longleftrightarrow> bucket_ok (global_bucket hl)
     \<and> list_all (\<lambda>(k, c). bucket_ok (ch_bucket c)) (children hl)"

fun limiter_ready :: "limiter_call \<Rightarrow> limiter \<Rightarrow> bool" where
  "limiter_ready (Pass deadline rd name n) hl = (0 \<le> n)"
| "limiter_ready _ hl = True"

text \<open>
  The contract of a rate limiter: \<open>level\<close> is what it could hand out now, \<open>clock\<close> the last instant it
  refilled; an operation hands out no more than the level it gives up plus what the elapsed time
  brings.
\<close>

locale rate_contract =
  fixes step :: "'c \<Rightarrow> 's \<Rightarrow> real \<times> 's"
    and ready :: "'c \<Rightarrow> 's \<Rightarrow> bool"
    and ok :: "'s \<Rightarrow> bool"
    and level :: "'s \<Rightarrow> real"
    and cap :: "'s \<Rightarrow> real"
    and clock :: "'s \<Rightarrow> real"
    and rate :: "'s \<Rightarrow> real"
  assumes step_ok: "ok s \<Longrightarrow> ready c s \<Longrightarrow> step c s = (g, s') \<Longrightarrow> ok s' \<and> rate s' = rate s
      \<and> cap s' = cap s \<and> clock s \<le> clock s'
      \<and> level s' + g \<le> level s + rate s * (clock s' - clock s)"
    and level_bounds: "ok s \<Longrightarrow> 0 \<le> level s \<and> level s \<le> cap s"
begin

lemma run_ok:
  assumes "ok s" and "run_ready step ready cs s" and "run_calls step cs s = (g, s')"
  shows "ok s' \<and> rate s' = rate s \<and> cap s' = cap s \<and> clock s \<le> clock s'
    \<and> level s' + g \<le> level s + rate s * (clock s' - clock s)"
  using assms
proof (induction cs arbitrary: s g)
  case Nil
  then show ?case by simp
next
  case (Cons c cs)
  obtain g1 s1 where one: "step c s = (g1, s1)" by (metis prod.exhaust)
  obtain g2 where rest: "run_calls step cs s1 = (g2, s')" and g: "g = g1 + g2"
    using Cons.prems(3) one by (auto split: prod.splits)
  have a: "ok s1 \<and> rate s1 = rate s \<and> cap s1 = cap s \<and> clock s \<le> clock s1
      \<and> level s1 + g1 \<le> level s + rate s * (clock s1 - clock s)"
    using step_ok [OF Cons.prems(1) _ one] Cons.prems(2) by simp
  moreover have "ok s' \<and> rate s' = rate s1 \<and> cap s' = cap s1 \<and> clock s1 \<le> clock s'
      \<and> level s' + g2 \<le> level s1 + rate s1 * (clock s' - clock s1)"
    using Cons.IH [OF _ _ rest] a Cons.prems(2) one by simp
  ultimately show ?case by (simp add: g algebra_simps)
qed

lemma granted_bound:
  assumes "ok s" and "run_ready step ready cs s" and "run_calls step cs s = (g, s')"
  shows "g \<le> cap s + rate s * (clock s' - clock s)"
  using run_ok [OF assms] level_bounds [of s'] level_bounds [OF assms(1)] by auto

end

section \<open>Facts about a bucket\<close>

lemma refill_frame [simp]:
  "rate_per_second (refill t b) = rate_per_second b"
  "burst (refill t b) = burst b"
  "penalty_deadline (refill t b) = penalty_deadline b"
  "last_refill (refill t b) = max (last_refill b) t"
  by (auto simp: refill_def Let_def)

lemma refill_tokens:
  "bucket_ok b \<Longrightarrow> tokens (refill t b)
     = min (burst b) (tokens b + (max (last_refill b) t - last_refill b) * rate_per_second b)"
  by (auto simp: refill_def Let_def bucket_ok_def)

lemma refill_ok: "bucket_ok b \<Longrightarrow> bucket_ok (refill t b)"
  by (simp add: bucket_ok_def refill_def Let_def)

lemma try_take_frame:
  assumes "try_take t1 t2 n b = (granted, b')"
  shows "rate_per_second b' = rate_per_second b" and "burst b' = burst b"
    and "penalty_deadline b' = penalty_deadline b" and "last_refill b \<le> last_refill b'"
  using assms by (auto simp: try_take_def Let_def split: if_splits)

lemma try_take_level:
  assumes "bucket_ok b" and "try_take t1 t2 n b = (granted, b')" and "0 \<le> n"
  shows "bucket_ok b' \<and> tokens b' + (if granted then n else 0)
    \<le> tokens b + rate_per_second b * (last_refill b' - last_refill b)"
  using assms refill_ok [OF assms(1), of t2] refill_tokens [OF assms(1), of t2]
  by (auto simp: try_take_def Let_def bucket_ok_def algebra_simps split: if_splits)

lemma refill_level:
  "bucket_ok b \<Longrightarrow> tokens (refill t b)
     \<le> tokens b + rate_per_second b * (last_refill (refill t b) - last_refill b)"
  by (simp add: refill_tokens algebra_simps)

lemma refill_grows: "bucket_ok b \<Longrightarrow> tokens b \<le> tokens (refill t b)"
  by (simp add: refill_tokens bucket_ok_def)

lemma time_until_bucket: "snd (time_until_available t1 t2 n b) \<in> {b, refill t2 b}"
  by (simp add: time_until_available_def Let_def)

lemma penalize_frame [simp]:
  "tokens (penalize t s b) = tokens b" "burst (penalize t s b) = burst b"
  "rate_per_second (penalize t s b) = rate_per_second b"
  "last_refill (penalize t s b) = last_refill b"
  "bucket_ok (penalize t s b) = bucket_ok b"
  by (simp_all add: penalize_def bucket_ok_def Let_def split: option.splits)

lemma return_tokens_ok: "bucket_ok b \<Longrightarrow> 0 \<le> n \<Longrightarrow> bucket_ok (return_tokens n b)"
  by (simp add: bucket_ok_def return_tokens_def)

lemma bucket_step_contract:
  assumes "bucket_ok b" and "bucket_ready c b" and "bucket_step c b = (g, b')"
  shows "bucket_ok b' \<and> rate_per_second b' = rate_per_second b \<and> burst b' = burst b
    \<and> last_refill b \<le> last_refill b'
    \<and> tokens b' + g \<le> tokens b + rate_per_second b * (last_refill b' - last_refill b)"
proof (cases c)
  case (Try_acquire t1 t2 n)
  then obtain granted where t: "try_take t1 t2 n b = (granted, b')" "g = (if granted then n else 0)"
    using assms(3) by (auto split: prod.splits)
  then show ?thesis
    using try_take_frame [OF t(1)] try_take_level [OF assms(1) t(1)] assms(2) Try_acquire by auto
next
  case (Available t)
  then show ?thesis using assms refill_ok refill_level by (auto simp: available_def Let_def)
next
  case (Drain t)
  then show ?thesis using assms by (auto simp: drain_bucket_def bucket_ok_def)
next
  case (Penalize t s)
  then show ?thesis using assms by auto
next
  case (Time_until t1 t2 n)
  then show ?thesis using assms time_until_bucket [of t1 t2 n b] refill_ok refill_level by auto
next
  case (Return_tokens n)
  then show ?thesis using assms return_tokens_ok by (auto simp: return_tokens_def)
qed

interpretation bucket_rate: rate_contract bucket_step bucket_ready bucket_ok tokens burst last_refill
    rate_per_second
  by (unfold_locales, rule bucket_step_contract, assumption+) (simp add: bucket_ok_def)

section \<open>Facts about the limiter\<close>

lemma update_child_frame [simp]:
  "global_bucket (update_child k f hl) = global_bucket hl"
  "global_bucket (set_child_bucket k b hl) = global_bucket hl"
  by (simp_all add: update_child_def set_child_bucket_def)

lemma limiter_ok_update_child:
  assumes "limiter_ok hl" and "\<And>c. bucket_ok (ch_bucket c) \<Longrightarrow> bucket_ok (ch_bucket (f c))"
  shows "limiter_ok (update_child k f hl)"
  using assms by (auto simp: limiter_ok_def update_child_def list_all_iff)

lemma limiter_ok_set_child: "limiter_ok hl \<Longrightarrow> bucket_ok b \<Longrightarrow> limiter_ok (set_child_bucket k b hl)"
  by (simp add: set_child_bucket_def limiter_ok_update_child)

lemma limiter_ok_global: "limiter_ok hl \<Longrightarrow> bucket_ok b \<Longrightarrow> limiter_ok (hl\<lparr>global_bucket := b\<rparr>)"
  by (simp add: limiter_ok_def)

lemma limiter_ok_child:
  "limiter_ok hl \<Longrightarrow> map_of (children hl) k = Some c \<Longrightarrow> bucket_ok (ch_bucket c)"
  by (auto simp: limiter_ok_def list_all_iff dest!: map_of_SomeD)

lemma child_set_bucket:
  "map_of (children (set_child_bucket k b hl)) k
     = map_option (\<lambda>c. c\<lparr>ch_bucket := b\<rparr>) (map_of (children hl) k)"
proof -
  have "map_of (map (\<lambda>(j, c). (j, if j = k then f c else c)) cs) k = map_option f (map_of cs k)"
    for f :: "child \<Rightarrow> child" and cs
    by (induction cs) auto
  then show ?thesis by (simp add: set_child_bucket_def update_child_def)
qed

lemma siblings_idle_frame [simp]:
  "time_until_siblings_idle t k (set_child_bucket k b hl) = time_until_siblings_idle t k hl"
  "time_until_siblings_idle t k (hl\<lparr>global_bucket := b\<rparr>) = time_until_siblings_idle t k hl"
  by (auto simp: time_until_siblings_idle_def set_child_bucket_def update_child_def fold_map comp_def
      split_beta intro!: fold_cong)

lemmas limiter_okI = limiter_ok_set_child limiter_ok_global limiter_ok_update_child

text \<open>How far a step moved the global bucket, having handed out \<open>g\<close>.\<close>

definition global_moved :: "real \<Rightarrow> limiter \<Rightarrow> limiter \<Rightarrow> bool" where
  "global_moved g hl hl' \<longleftrightarrow>
     (let b = global_bucket hl; b' = global_bucket hl'
      in rate_per_second b' = rate_per_second b \<and> burst b' = burst b \<and> last_refill b \<le> last_refill b'
         \<and> tokens b' + g \<le> tokens b + rate_per_second b * (last_refill b' - last_refill b))"

lemma global_moved_refl: "global_moved 0 hl hl"
  by (simp add: global_moved_def)

lemma global_moved_trans:
  "global_moved g hl hl1 \<Longrightarrow> global_moved h hl1 hl2 \<Longrightarrow> global_moved (g + h) hl hl2"
  by (auto simp: global_moved_def Let_def algebra_simps)

lemma global_moved_frame:
  "global_moved g hl (update_child k f hl') = global_moved g hl hl'"
  "global_moved g hl (set_child_bucket k b hl') = global_moved g hl hl'"
  "global_moved g (update_child k f hl) hl' = global_moved g hl hl'"
  "global_moved g (set_child_bucket k b hl) hl' = global_moved g hl hl'"
  by (simp_all add: global_moved_def)

lemma take_global_moved:
  assumes "limiter_ok hl" and "0 \<le> n" and "take_global rd n hl = (granted, hl')"
  shows "limiter_ok hl' \<and> global_moved (if granted then n else 0) hl hl'"
proof -
  obtain g where g: "try_take (fst (rd_global rd)) (snd (rd_global rd)) n (global_bucket hl) = (granted, g)"
      and hl': "hl' = hl\<lparr>global_bucket := g\<rparr>"
    using assms(3) by (auto simp: take_global_def split: prod.splits)
  have "bucket_ok (global_bucket hl)" using assms(1) by (simp add: limiter_ok_def)
  then show ?thesis
    using try_take_frame [OF g] try_take_level [OF _ g assms(2)] assms(1) hl'
    by (simp add: global_moved_def limiter_ok_global Let_def)
qed

lemma hl_try_take_moved:
  assumes "limiter_ok hl" and "bucket_ok b" and "0 \<le> n"
    and "hl_try_take rd name b n hl = (granted, hl')"
  shows "limiter_ok hl' \<and> global_moved (if granted then n else 0) hl hl'"
proof -
  obtain own b1 where own: "try_take (fst (rd_child rd)) (snd (rd_child rd)) n b = (own, b1)"
    by (metis prod.exhaust)
  have b1: "bucket_ok b1" using try_take_level [OF assms(2) own assms(3)] by simp
  obtain gl hl1 where gl: "take_global rd n hl = (gl, hl1)" by (metis prod.exhaust)
  obtain gl2 hl2 where gl2: "take_global rd n (set_child_bucket name b1 hl) = (gl2, hl2)"
    by (metis prod.exhaust)
  note moved = take_global_moved [OF assms(1,3) gl]
    take_global_moved [OF limiter_ok_set_child [OF assms(1) b1] assms(3) gl2]
  show ?thesis
    using assms moved b1 return_tokens_ok [OF b1 assms(3)]
    by (auto simp: hl_try_take_def own gl gl2 global_moved_frame global_moved_refl Let_def
        split: if_splits bool.splits intro!: limiter_ok_set_child)
qed

lemma hl_time_until_moved:
  assumes "limiter_ok hl" and "bucket_ok b" and "hl_time_until rd name b n hl = (w, hl')"
  shows "limiter_ok hl' \<and> global_moved 0 hl hl'"
proof -
  obtain ow b1 where own: "time_until_available (fst (rd_wait_child rd)) (snd (rd_wait_child rd)) n b = (ow, b1)"
    by (metis prod.exhaust)
  obtain gw g1 where gl: "time_until_available (fst (rd_wait_global rd)) (snd (rd_wait_global rd)) n
      (global_bucket hl) = (gw, g1)"
    by (metis prod.exhaust)
  have g: "bucket_ok (global_bucket hl)" using assms(1) by (simp add: limiter_ok_def)
  have b1: "bucket_ok b1" using time_until_bucket [of _ _ n b] own assms(2) refill_ok by (metis insertE singletonD snd_conv)
  have g1: "g1 \<in> {global_bucket hl, refill (snd (rd_wait_global rd)) (global_bucket hl)}"
    using time_until_bucket [of _ "snd (rd_wait_global rd)" n "global_bucket hl"] gl by (metis snd_conv)
  then have "bucket_ok g1" "global_moved 0 hl (hl\<lparr>global_bucket := g1\<rparr>)"
    using g refill_ok [OF g] refill_level [OF g] by (auto simp: global_moved_def Let_def)
  moreover have "hl' = set_child_bucket name b1 (hl\<lparr>global_bucket := g1\<rparr>)"
    using assms(3) by (simp add: hl_time_until_def own gl Let_def)
  ultimately show ?thesis using assms(1) b1 by (simp add: limiter_okI global_moved_frame)
qed

lemma acquire_decision_not_granted: "acquire_decision d t w \<noteq> Granted"
  by (simp add: acquire_decision_def Let_def split: option.splits)

lemma hl_pass_moved:
  assumes "limiter_ok hl" and "0 \<le> n" and "hl_pass deadline rd name n hl = Inr (out, hl')"
  shows "limiter_ok hl' \<and> global_moved (if out = Granted then n else 0) hl hl'"
proof -
  obtain c where c: "map_of (children hl) name = Some c"
    using assms(3) by (auto simp: hl_pass_def split: option.splits)
  obtain granted hl1 where t: "hl_try_take rd name (ch_bucket c) n hl = (granted, hl1)"
    by (metis prod.exhaust)
  note m1 = hl_try_take_moved [OF assms(1) limiter_ok_child [OF assms(1) c] assms(2) t]
  show ?thesis
  proof (cases granted)
    case True
    then show ?thesis using assms(3) m1
      by (auto simp: hl_pass_def c t global_moved_frame intro!: limiter_ok_update_child)
  next
    case False
    obtain c1 where c1: "map_of (children hl1) name = Some c1"
      using assms(3) False by (auto simp: hl_pass_def c t split: option.splits)
    obtain w hl2 where w: "hl_time_until rd name (ch_bucket c1) n hl1 = (w, hl2)"
      by (metis prod.exhaust)
    note m2 = hl_time_until_moved [OF conjunct1 [OF m1] limiter_ok_child [OF conjunct1 [OF m1] c1] w]
    have "global_moved 0 hl hl2"
      using global_moved_trans [of 0 hl hl1 0 hl2] m1 m2 False by simp
    then show ?thesis using assms(3) m2 False acquire_decision_not_granted
      by (auto simp: hl_pass_def c t c1 w global_moved_frame split: acquire_outcome.splits
          intro!: limiter_ok_update_child)
  qed
qed

lemma hl_snapshot_moved:
  assumes "limiter_ok hl"
  shows "limiter_ok (snd (hl_snapshot now t hl)) \<and> global_moved 0 hl (snd (hl_snapshot now t hl))"
proof -
  have "bucket_ok (global_bucket hl)" using assms by (simp add: limiter_ok_def)
  then show ?thesis using assms refill_ok refill_level
    by (auto simp: hl_snapshot_def limiter_ok_def global_moved_def list_all_iff Let_def)
qed

lemma limiter_step_moved:
  assumes "limiter_ok hl" and "limiter_ready c hl" and "limiter_step c hl = (g, hl')"
  shows "limiter_ok hl' \<and> global_moved g hl hl'"
proof (cases c)
  case (Attempt t name)
  then show ?thesis using assms
    by (auto simp: hl_attempt_def global_moved_frame global_moved_refl split: option.splits
        intro!: limiter_ok_update_child)
next
  case (Pass deadline rd name n)
  then show ?thesis using assms hl_pass_moved [OF assms(1)] global_moved_refl
    by (auto split: sum.splits)
next
  case (Penalize_child t name sec)
  then show ?thesis using assms limiter_ok_child [OF assms(1)]
    by (auto simp: hl_penalize_def global_moved_frame global_moved_refl split: option.splits
        intro!: limiter_ok_set_child)
next
  case (Snapshot now t)
  then show ?thesis using assms hl_snapshot_moved by auto
qed

interpretation limiter_rate: rate_contract limiter_step limiter_ready limiter_ok
    "\<lambda>hl. tokens (global_bucket hl)" "\<lambda>hl. burst (global_bucket hl)"
    "\<lambda>hl. last_refill (global_bucket hl)" "\<lambda>hl. rate_per_second (global_bucket hl)"
proof unfold_locales
  fix c hl g hl'
  assume "limiter_ok hl" and "limiter_ready c hl" and "limiter_step c hl = (g, hl')"
  from limiter_step_moved [OF this]
  show "limiter_ok hl' \<and> rate_per_second (global_bucket hl') = rate_per_second (global_bucket hl)
      \<and> burst (global_bucket hl') = burst (global_bucket hl)
      \<and> last_refill (global_bucket hl) \<le> last_refill (global_bucket hl')
      \<and> tokens (global_bucket hl') + g \<le> tokens (global_bucket hl)
        + rate_per_second (global_bucket hl)
          * (last_refill (global_bucket hl') - last_refill (global_bucket hl))"
    by (simp add: global_moved_def Let_def)
qed (simp add: limiter_ok_def bucket_ok_def)

section \<open>Properties of the rate limiters\<close>

text \<open>
  A token bucket enforces its rate: over any sequence of its operations the tokens handed out
  (net of returned ones) never exceed the burst plus the refill rate times the elapsed time, and the
  bucket always holds between zero and \<^verbatim>\<open>burst\<close> tokens.
\<close>

theorem bucket_enforces_rate:
  assumes "bucket_ok b" and "run_ready bucket_step bucket_ready calls b"
    and "run_calls bucket_step calls b = (given, b')"
  shows "given \<le> burst b + rate_per_second b * (last_refill b' - last_refill b) \<and> bucket_ok b'"
  using bucket_rate.granted_bound [OF assms] bucket_rate.run_ok [OF assms] by simp

text \<open>
  C29. The hierarchical limiter enforces the global rate: over any sequence of its operations, by any
  children, reserved and borrowed grants together never exceed the global burst plus the global rate
  times the elapsed time.
\<close>

theorem limiter_enforces_global_rate:
  assumes "limiter_ok hl" and "run_ready limiter_step limiter_ready calls hl"
    and "run_calls limiter_step calls hl = (given, hl')"
  shows "given \<le> burst (global_bucket hl) + rate_per_second (global_bucket hl)
      * (last_refill (global_bucket hl') - last_refill (global_bucket hl)) \<and> limiter_ok hl'"
  using limiter_rate.granted_bound [OF assms] limiter_rate.run_ok [OF assms] by simp

definition zero_readings :: hl_readings where
  "zero_readings = \<lparr>rd_penalized = 0, rd_child = (0, 0), rd_idle = 0, rd_global = (0, 0),
     rd_wait_child = (0, 0), rd_wait_global = (0, 0), rd_wait_idle = 0, rd_remaining = 0\<rparr>"

theorem limiter_enforces_global_rate_witness:
  "limiter_ok (snd (run_calls limiter_step [Attempt 0 ''a'', Pass None zero_readings ''a'' 1]
     (new_limiter 0 60 [(''a'', 30)])))"
  using limiter_enforces_global_rate [of "new_limiter 0 60 [(''a'', 30)]"
      "[Attempt 0 ''a'', Pass None zero_readings ''a'' 1]"]
  by (simp add: limiter_ok_def bucket_ok_def new_limiter_def new_bucket_def one_second_burst_def
      split_beta Let_def del: limiter_step.simps)

text \<open>
  The wait a refused acquisition computes is exact: it is positive, so \<^verbatim>\<open>acquire\<close> does not spin,
  and if nobody else touches the bucket the acquisition succeeds once that much time has passed; the
  computation answers that the request can never be met exactly when it exceeds the burst or the
  deficit cannot refill.
\<close>

theorem bucket_wait_is_exact:
  assumes "bucket_ok b" and "last_refill b \<le> t"
    and "try_take t t n b = (False, b1)" and "time_until_available t t n b1 = (w, b2)"
  shows "(case w of
            None \<Rightarrow> burst b < n \<or> rate_per_second b = 0
          | Some s \<Rightarrow> 0 < s \<and> fst (try_take (t + s) (t + s) n b2))"
proof (cases w)
  case None
  then show ?thesis using assms
    by (auto simp: time_until_available_def try_take_def bucket_ok_def Let_def split: if_splits)
next
  case (Some s)
  have n: "n \<le> burst b1" using assms(4) Some by (auto simp: time_until_available_def split: if_splits)
  have b1: "b1 = b \<and> is_penalized t b \<or> \<not> is_penalized t b1 \<and> b1 = refill t b \<and> tokens b1 < n"
    using assms(3) n by (auto simp: try_take_def is_penalized_def Let_def split: if_splits)
  have ok1: "bucket_ok b1" using b1 assms(1) refill_ok by blast
  have ok2: "bucket_ok b2" and b2: "b2 = refill t b1"
    using assms(4) Some ok1 refill_ok by (auto simp: time_until_available_def Let_def split: if_splits)
  have rr: "refill t b1 = b1 \<or> is_penalized t b1"
    using b1 by (auto simp: refill_def Let_def)
  have pen: "is_penalized t b1 \<Longrightarrow> 0 < penalty_wait t b1"
    by (auto simp: is_penalized_def penalty_wait_def split: option.splits)
  have s: "penalty_wait t b1 \<le> s" "0 < n - tokens b2 \<Longrightarrow> 0 < rate_per_second b2 \<and> (n - tokens b2) / rate_per_second b2 \<le> s"
    using assms(4) Some b2 by (auto simp: time_until_available_def Let_def split: if_splits)
  have pos: "0 < s"
  proof (cases "is_penalized t b1")
    case False
    then have "0 < n - tokens b2" using b1 b2 rr by auto
    then show ?thesis using s(2) by (meson divide_pos_pos less_le_trans)
  qed (use pen s(1) in auto)
  have "\<not> is_penalized (t + s) b2"
    using s(1) b2 by (auto simp: is_penalized_def penalty_wait_def split: option.splits)
  moreover have "n \<le> tokens b2 + (max (last_refill b2) (t + s) - last_refill b2) * rate_per_second b2"
  proof (cases "0 < n - tokens b2")
    case True
    have "last_refill b2 = t" using b2 b1 assms(2) by auto
    moreover have "n - tokens b2 \<le> s * rate_per_second b2"
      using s(2) [OF True] by (auto simp: pos_divide_le_eq)
    ultimately show ?thesis using pos by simp
  next
    case False
    then show ?thesis using ok2 by (auto simp: bucket_ok_def intro: add_increasing2)
  qed
  ultimately have "fst (try_take (t + s) (t + s) n b2)"
    using n refill_tokens [OF ok2, of "t + s"] b2
    by (simp add: try_take_def min_less_iff_disj Let_def)
  then show ?thesis using pos Some by simp
qed

text \<open>
  A penalty is a hard deadline: until it passes every acquisition is refused and takes nothing,
  whatever other operations run, because no operation ever shortens it.
\<close>

theorem penalty_is_hard:
  assumes "is_penalized t b" and "run_calls bucket_step calls b = (given, b')"
  shows "try_take t t2 n b' = (False, b') \<and> time_until_available t t2 n b' \<noteq> (Some 0, b'')"
proof -
  have keep: "is_penalized t b1 \<Longrightarrow> is_penalized t (snd (bucket_step c b1))" for c b1
    by (cases c) (auto simp: is_penalized_def try_take_def available_def drain_bucket_def penalize_def
        time_until_available_def return_tokens_def Let_def split: option.splits if_splits)
  have "is_penalized t b \<Longrightarrow> is_penalized t (snd (run_calls bucket_step calls b))"
    by (induction calls arbitrary: b) (auto simp: keep split_beta Let_def)
  then have "is_penalized t b'" using assms by simp
  then show ?thesis
    by (auto simp: try_take_def time_until_available_def penalty_wait_def is_penalized_def max_def
        Let_def split: option.splits if_splits)
qed

text \<open>
  Grants are atomic: a request the limiter refuses leaves every bucket with at least the tokens
  it had, the child's own reserve included, so a token taken from the child is given back when the
  global bucket cannot match it.
\<close>

theorem refused_request_takes_nothing:
  assumes "limiter_ok hl" and "map_of (children hl) name = Some c" and "0 \<le> n"
    and "hl_try_take rd name (ch_bucket c) n hl = (False, hl')"
  shows "tokens (global_bucket hl) \<le> tokens (global_bucket hl')
    \<and> (\<exists>c'. map_of (children hl') name = Some c' \<and> tokens (ch_bucket c) \<le> tokens (ch_bucket c'))"
proof -
  have grow: "tokens b \<le> tokens b'" if "bucket_ok b" and "try_take t1 t2 n b = (False, b')" for b b' t1 t2
    using that by (auto simp: try_take_def bucket_ok_def refill_def Let_def split: if_splits)
  have give_back: "tokens b \<le> tokens (return_tokens n b')"
    if "bucket_ok b" and "try_take t1 t2 n b = (True, b')" for b b' t1 t2
    using that by (auto simp: try_take_def return_tokens_def bucket_ok_def refill_def Let_def split: if_splits)
  have oks: "bucket_ok (ch_bucket c)" "bucket_ok (global_bucket hl)"
    using limiter_ok_child [OF assms(1,2)] assms(1) by (simp_all add: limiter_ok_def)
  show ?thesis
    using assms(2,4) grow [OF oks(1)] grow [OF oks(2)] give_back [OF oks(1)]
    by (auto simp: hl_try_take_def take_global_def child_set_bucket Let_def split: if_splits prod.splits bool.splits)
qed

text \<open>
  While a child is penalised its requests are refused, but when its siblings are idle and the
  global bucket has tokens the wait computed for it is zero, so the blocking loop of
  \<^verbatim>\<open>HierarchicalLimiter.acquire\<close> comes back at once and spins until the penalty is over: the
  borrowing branch of the wait ignores the penalty.
\<close>

theorem penalised_child_waits_zero:
  assumes "limiter_ok hl" and "map_of (children hl) name = Some c" and "is_penalized t (ch_bucket c)"
    and "siblings_idle t name hl" and "n \<le> tokens (global_bucket hl)" and "\<not> is_penalized t (global_bucket hl)"
    and "n \<le> burst (ch_bucket c)"
    and "rd = \<lparr>rd_penalized = t, rd_child = (t, t), rd_idle = t, rd_global = (t, t),
      rd_wait_child = (t, t), rd_wait_global = (t, t), rd_wait_idle = t, rd_remaining = t\<rparr>"
  shows "\<exists>hl'. hl_pass None rd name n hl = Inr (Wait_for 0, hl')"
proof -
  have pw: "0 < penalty_wait t (ch_bucket c)"
    using assms(3) by (auto simp: is_penalized_def penalty_wait_def split: option.splits)
  obtain own b1 where own: "time_until_available t t n (ch_bucket c) = (own, b1)" by (metis prod.exhaust)
  have own_wait: "own \<noteq> Some 0 \<and> (\<forall>w. own = Some w \<longrightarrow> 0 < w)"
    using own pw assms(7) by (auto simp: time_until_available_def Let_def max_def split: if_splits)
  have g: "bucket_ok (global_bucket hl)" using assms(1) by (simp add: limiter_ok_def)
  have gl: "time_until_available t t n (global_bucket hl) = (Some 0, refill t (global_bucket hl))"
    using assms(5,6) g refill_grows [OF g, of t]
    by (auto simp: time_until_available_def penalty_wait_def is_penalized_def bucket_ok_def
        Let_def split: option.splits)
  have "time_until_siblings_idle t name (set_child_bucket name b1 (hl\<lparr>global_bucket := refill t (global_bucket hl)\<rparr>)) \<le> 0"
    using assms(4) by (simp add: siblings_idle_def siblings_idle_frame)
  then have "fst (hl_time_until rd name (ch_bucket c) n hl) = Some 0"
    using own_wait by (auto simp: hl_time_until_def assms(8) own gl Let_def max_def min_def split: option.splits)
  then show ?thesis
    using assms(2,3,8) by (auto simp: hl_pass_def hl_try_take_def acquire_decision_def split: prod.splits)
qed

end
