(* ===== verification/Circuit_Breaker.thy ===== *)
theory Circuit_Breaker
  imports Schema
begin

text \<open>
  \<^verbatim>\<open>daemon/circuit_breaker.py\<close>: one breaker per external dependency. Every method is one locked
  section, so a method call is one step and threads interleave between calls; the reading of the
  injected clock is an argument.
\<close>

datatype circuit_state = CLOSED | OPEN | HALF_OPEN

record breaker =
  failure_threshold :: int
  recovery_timeout :: real
  circuit :: circuit_state
  consecutive_failures :: int
  opened_at :: "real option"
  half_open_trial_in_flight :: bool

definition new_breaker :: "int \<Rightarrow> real \<Rightarrow> breaker" where
  "new_breaker threshold timeout =
     \<lparr>failure_threshold = threshold, recovery_timeout = timeout, circuit = CLOSED,
      consecutive_failures = 0, opened_at = None, half_open_trial_in_flight = False\<rparr>"

definition next_trial_at :: "breaker \<Rightarrow> real option" where
  "next_trial_at b =
     (if circuit b \<noteq> OPEN then None
      else map_option (\<lambda>t. t + recovery_timeout b) (opened_at b))"

text \<open>The \<^verbatim>\<open>assert\<close> of \<^verbatim>\<open>_recovery_due_locked\<close> is an exception of its own.\<close>

definition recovery_due :: "real \<Rightarrow> breaker \<Rightarrow> bool res" where
  "recovery_due now b =
     (case opened_at b of None \<Rightarrow> Inl (OtherError ''AssertionError'')
      | Some t \<Rightarrow> Inr (recovery_timeout b \<le> now - t))"

definition half_open_gate :: "breaker \<Rightarrow> bool \<times> breaker" where
  "half_open_gate b =
     (if circuit b = HALF_OPEN
      then if half_open_trial_in_flight b then (False, b)
           else (True, b\<lparr>half_open_trial_in_flight := True\<rparr>)
      else (True, b))"

definition allow :: "real \<Rightarrow> breaker \<Rightarrow> (bool \<times> breaker) res" where
  "allow now b =
     (if circuit b = OPEN
      then bind_res (recovery_due now b)
             (\<lambda>due. if \<not> due then Inr (False, b)
                    else Inr (half_open_gate (b\<lparr>circuit := HALF_OPEN, half_open_trial_in_flight := False\<rparr>)))
      else Inr (half_open_gate b))"

definition record_success :: "breaker \<Rightarrow> breaker" where
  "record_success b =
     b\<lparr>consecutive_failures := 0, circuit := CLOSED, opened_at := None,
       half_open_trial_in_flight := False\<rparr>"

definition record_failure :: "real \<Rightarrow> breaker \<Rightarrow> breaker" where
  "record_failure now b =
     (let b1 = b\<lparr>consecutive_failures := consecutive_failures b + 1\<rparr>
      in if circuit b1 = HALF_OPEN \<or> failure_threshold b1 \<le> consecutive_failures b1
         then b1\<lparr>circuit := OPEN, opened_at := Some now, half_open_trial_in_flight := False\<rparr>
         else b1)"

definition release_trial :: "breaker \<Rightarrow> breaker" where
  "release_trial b =
     (if circuit b = HALF_OPEN then b\<lparr>half_open_trial_in_flight := False\<rparr> else b)"

text \<open>
  \<^verbatim>\<open>call\<close>, when no other thread touches the breaker meanwhile: \<open>fn\<close> is the outcome of the guarded
  function on the world it acts on, \<open>exempt\<close> the exception types that are neither success nor failure.
\<close>

definition breaker_call ::
    "(py_exn \<Rightarrow> bool) \<Rightarrow> ('w \<Rightarrow> 'a res \<times> 'w) \<Rightarrow> real \<Rightarrow> real \<Rightarrow> breaker \<times> 'w \<Rightarrow> 'a res \<times> breaker \<times> 'w" where
  "breaker_call exempt fn now1 now2 st =
     (case st of (b, w) \<Rightarrow>
        (case allow now1 b of
           Inl e \<Rightarrow> (Inl e, b, w)
         | Inr (False, b1) \<Rightarrow> (Inl CircuitBreakerOpenError, b1, w)
         | Inr (True, b1) \<Rightarrow>
             (case fn w of
                (Inl e, w1) \<Rightarrow> (Inl e, if exempt e then release_trial b1 else record_failure now2 b1, w1)
              | (Inr v, w1) \<Rightarrow> (Inr v, record_success b1, w1))))"

section \<open>Interleavings\<close>

datatype breaker_event = Allow real | Success | Failure real | Release

fun breaker_step :: "breaker_event \<Rightarrow> breaker \<Rightarrow> breaker" where
  "breaker_step (Allow t) b = (case allow t b of Inl e \<Rightarrow> b | Inr (ok, b1) \<Rightarrow> b1)"
| "breaker_step Success b = record_success b"
| "breaker_step (Failure t) b = record_failure t b"
| "breaker_step Release b = release_trial b"

definition breaker_inv :: "breaker \<Rightarrow> bool" where
  "breaker_inv b \<longleftrightarrow> 0 \<le> consecutive_failures b
     \<and> (circuit b = CLOSED \<longrightarrow> consecutive_failures b < failure_threshold b)
     \<and> (opened_at b = None \<longleftrightarrow> circuit b = CLOSED)
     \<and> (half_open_trial_in_flight b \<longrightarrow> circuit b = HALF_OPEN)"

text \<open>
  What the stages share: a gate whose methods they call in any order from any thread. Whatever each
  method keeps holds after every interleaving.
\<close>

locale call_gate =
  fixes step :: "'e \<Rightarrow> 'b \<Rightarrow> 'b"
    and good :: "'b \<Rightarrow> bool"
  assumes step_good: "good b \<Longrightarrow> good (step e b)"
begin

lemma run_good: "good b \<Longrightarrow> good (fold step es b)"
  by (induction es arbitrary: b) (simp_all add: step_good)

end

lemma half_open_gate_inv: "breaker_inv b \<Longrightarrow> breaker_inv (snd (half_open_gate b))"
  by (simp add: half_open_gate_def breaker_inv_def)

lemma breaker_step_inv:
  assumes "breaker_inv b" and "1 \<le> failure_threshold b"
  shows "breaker_inv (breaker_step e b) \<and> failure_threshold (breaker_step e b) = failure_threshold b
    \<and> recovery_timeout (breaker_step e b) = recovery_timeout b"
proof (cases e)
  case (Allow t)
  then show ?thesis using assms
    by (auto simp: allow_def recovery_due_def half_open_gate_def breaker_inv_def split: option.splits)
next
  case Success
  then show ?thesis using assms by (auto simp: record_success_def breaker_inv_def)
next
  case (Failure t)
  then show ?thesis using assms by (auto simp: record_failure_def breaker_inv_def Let_def)
next
  case Release
  then show ?thesis using assms by (auto simp: release_trial_def breaker_inv_def)
qed

interpretation breaker_gate: call_gate breaker_step
    "\<lambda>b. breaker_inv b \<and> failure_threshold b = th \<and> recovery_timeout b = rt \<and> 1 \<le> th" for th rt
  by unfold_locales (use breaker_step_inv in auto)

lemma new_breaker_inv: "1 \<le> th \<Longrightarrow> breaker_inv (new_breaker th rt)"
  by (simp add: breaker_inv_def new_breaker_def)

lemma allow_total: "breaker_inv b \<Longrightarrow> is_ok (allow now b)"
  by (auto simp: allow_def recovery_due_def breaker_inv_def split: option.splits)

section \<open>Properties of the breaker\<close>

text \<open>
  Whatever the stage threads do to a breaker and in whatever order, it stays well formed: closed
  exactly when it has no opening time, with fewer failures than the threshold while closed, a trial
  in flight only while half open; so the assertion in \<^verbatim>\<open>_recovery_due_locked\<close> never fires and
  \<^verbatim>\<open>allow\<close> always answers.
\<close>

theorem breaker_well_formed:
  assumes "1 \<le> th"
  shows "breaker_inv (fold breaker_step es (new_breaker th rt))
    \<and> is_ok (allow now (fold breaker_step es (new_breaker th rt)))"
proof -
  have "breaker_inv (fold breaker_step es (new_breaker th rt))"
    using breaker_gate.run_good [of "new_breaker th rt" th rt es] assms new_breaker_inv
    by (simp add: new_breaker_def)
  then show ?thesis using allow_total by blast
qed

lemma failures_accumulate:
  assumes "circuit b = CLOSED" and "consecutive_failures b + int (length ts) < failure_threshold b"
  shows "fold (\<lambda>t. breaker_step (Failure t)) ts b
    = b\<lparr>consecutive_failures := consecutive_failures b + int (length ts)\<rparr>"
  using assms
proof (induction ts arbitrary: b)
  case Nil
  then show ?case by simp
next
  case (Cons t ts)
  have "breaker_step (Failure t) b = b\<lparr>consecutive_failures := consecutive_failures b + 1\<rparr>"
    using Cons.prems by (simp add: record_failure_def Let_def)
  then show ?case using Cons by simp
qed

lemma trial_blocks:
  assumes "circuit b = HALF_OPEN" and "half_open_trial_in_flight b"
  shows "fold (\<lambda>t. breaker_step (Allow t)) ts b = b \<and> allow t b = Inr (False, b)"
  using assms by (induction ts) (simp_all add: allow_def half_open_gate_def)

text \<open>
  The trip and recovery cycle: \<^verbatim>\<open>failure_threshold\<close> consecutive failures open a closed breaker;
  while it is open every call is refused until \<^verbatim>\<open>recovery_timeout\<close> has passed since the last
  failure; then one call is let through as a trial and every further call is refused until the
  trial is resolved; a failed trial reopens it at once and a successful one closes it.
\<close>

theorem breaker_cycle:
  assumes "int (length ts) + 1 = th" and "b = fold (\<lambda>t. breaker_step (Failure t)) (ts @ [t0]) (new_breaker th rt)"
    and "b1 = breaker_step (Allow t1) b" and "rt \<le> t1 - t0"
  shows "circuit b = OPEN
    \<and> (\<forall>t. t - t0 < rt \<longrightarrow> allow t b = Inr (False, b))
    \<and> allow t1 b = Inr (True, b1)
    \<and> (\<forall>us t. allow t (fold (\<lambda>u. breaker_step (Allow u)) us b1) = Inr (False, b1))
    \<and> (\<forall>t2. circuit (record_failure t2 b1) = OPEN \<and> opened_at (record_failure t2 b1) = Some t2)
    \<and> record_success b1 = new_breaker th rt"
proof (intro conjI allI impI)
  have b: "b = (new_breaker th rt)\<lparr>consecutive_failures := th, circuit := OPEN, opened_at := Some t0\<rparr>"
    using failures_accumulate [of "new_breaker th rt" ts] assms(1,2)
    by (simp add: new_breaker_def record_failure_def Let_def)
  have b1: "b1 = b\<lparr>circuit := HALF_OPEN, half_open_trial_in_flight := True\<rparr>"
    using assms(3,4) b by (simp add: allow_def recovery_due_def half_open_gate_def new_breaker_def)
  show "circuit b = OPEN" and "record_success b1 = new_breaker th rt"
    and "circuit (record_failure t2 b1) = OPEN" and "opened_at (record_failure t2 b1) = Some t2" for t2
    using b b1 by (simp_all add: record_failure_def record_success_def new_breaker_def Let_def)
  show "allow t b = Inr (False, b)" if "t - t0 < rt" for t
    using that b by (simp add: allow_def recovery_due_def new_breaker_def)
  show "allow t1 b = Inr (True, b1)"
    using assms(4) b b1 by (simp add: allow_def recovery_due_def half_open_gate_def new_breaker_def)
  show "allow t (fold (\<lambda>u. breaker_step (Allow u)) us b1) = Inr (False, b1)" for us t
    using trial_blocks [of b1 us t] b1 by simp
qed

text \<open>
  \<^verbatim>\<open>call\<close> keeps its promises: a refused call does not run the function, an exempt exception (throttling)
  never counts as a failure and gives the trial slot back, so that the next call is let through, a
  success closes the breaker and a failure counts.
\<close>

theorem breaker_call_outcomes:
  assumes "breaker_inv b" and "breaker_call exempt fn t1 t2 (b, w) = (r, b', w')"
  shows "(r = Inl CircuitBreakerOpenError \<and> w' = w \<and> allow t1 b = Inr (False, b') \<and> b' = b)
    \<or> (fn w = (r, w') \<and>
       (case r of
          Inr v \<Rightarrow> circuit b' = CLOSED \<and> consecutive_failures b' = 0
        | Inl e \<Rightarrow> if exempt e
                  then consecutive_failures b' = consecutive_failures b \<and> (\<exists>b''. allow t1 b' = Inr (True, b''))
                  else consecutive_failures b' = consecutive_failures b + 1))"
proof -
  obtain ok b1 where a: "allow t1 b = Inr (ok, b1)"
    using allow_total [OF assms(1), of t1] by (auto simp: is_ok_iff)
  show ?thesis
  proof (cases ok)
    case False
    then have "b1 = b"
      using a by (auto simp: allow_def recovery_due_def half_open_gate_def bind_res_def
          split: option.splits if_splits)
    then show ?thesis using assms(2) a False by (simp add: breaker_call_def)
  next
    case True
    then have b1: "consecutive_failures b1 = consecutive_failures b \<and> circuit b1 \<noteq> OPEN"
      using a by (auto simp: allow_def recovery_due_def half_open_gate_def bind_res_def
          split: option.splits if_splits)
    obtain r1 w1 where f: "fn w = (r1, w1)" by (metis prod.exhaust)
    show ?thesis
      using assms(2) a True b1
      by (cases r1) (auto simp: breaker_call_def f record_success_def record_failure_def
          release_trial_def allow_def half_open_gate_def Let_def)
  qed
qed

end
