(* ===== verification/Disk_Guard.thy ===== *)
theory Disk_Guard
  imports Schema
begin

text \<open>
  \<^verbatim>\<open>daemon/disk_guard.py\<close>: pausing fetch and archive while the free space of the segments volume is
  low. \<open>free\<close> is the third component of \<^verbatim>\<open>shutil.disk_usage\<close> at the check.
\<close>

record disk_guard =
  floor_bytes :: int
  hysteresis :: real
  guard_paused :: bool

definition new_disk_guard :: "int \<Rightarrow> real \<Rightarrow> disk_guard" where
  "new_disk_guard fl hy = \<lparr>floor_bytes = fl, hysteresis = hy, guard_paused = False\<rparr>"

definition disk_check :: "int \<Rightarrow> disk_guard \<Rightarrow> bool \<times> disk_guard" where
  "disk_check free g =
     (let g1 = (if guard_paused g
                then if of_int (floor_bytes g) * hysteresis g \<le> of_int free
                     then g\<lparr>guard_paused := False\<rparr> else g
                else if free < floor_bytes g then g\<lparr>guard_paused := True\<rparr> else g)
      in (guard_paused g1, g1))"

definition is_paused :: "disk_guard \<Rightarrow> bool" where
  "is_paused g = guard_paused g"

definition disk_checks :: "int list \<Rightarrow> disk_guard \<Rightarrow> disk_guard" where
  "disk_checks frees g = fold (\<lambda>f g. snd (disk_check f g)) frees g"

lemma disk_check_frame [simp]:
  "floor_bytes (snd (disk_check f g)) = floor_bytes g"
  "hysteresis (snd (disk_check f g)) = hysteresis g"
  by (simp_all add: disk_check_def Let_def)

text \<open>A reading in the band between the floor and the resume level changes nothing.\<close>

lemma disk_check_band:
  assumes "floor_bytes g \<le> f" and "of_int f < of_int (floor_bytes g) * hysteresis g"
  shows "snd (disk_check f g) = g"
  using assms by (simp add: disk_check_def Let_def)

lemma disk_checks_band:
  assumes "list_all (\<lambda>f. floor_bytes g \<le> f \<and> of_int f < of_int (floor_bytes g) * hysteresis g) fs"
  shows "disk_checks fs g = g"
  using assms by (induction fs) (simp_all add: disk_checks_def disk_check_band)

section \<open>Property of the disk guard\<close>

text \<open>
  Hysteresis, for a guard whose resume level is at or above its floor: after any series of checks
  it is paused if and only if some reading was below the floor and no reading since then reached the
  resume level; in particular a volume that hovers in the band between the two never flaps, and no
  check ever leaves the guard open on a reading below the floor.
\<close>

theorem disk_guard_hysteresis:
  assumes "1 \<le> hy" and "0 \<le> fl"
  shows "is_paused (disk_checks frees (new_disk_guard fl hy)) \<longleftrightarrow>
    (\<exists>before low later. frees = before @ low # later \<and> low < fl
       \<and> list_all (\<lambda>f. of_int f < of_int fl * hy) later)"
proof (induction frees rule: rev_induct)
  case Nil
  then show ?case by (simp add: disk_checks_def new_disk_guard_def is_paused_def)
next
  case (snoc f fs)
  define g where "g = disk_checks fs (new_disk_guard fl hy)"
  have g: "floor_bytes g = fl" "hysteresis g = hy"
    unfolding g_def disk_checks_def by (induction fs rule: rev_induct; simp add: new_disk_guard_def)+
  have "real_of_int fl \<le> real_of_int fl * hy"
    using assms by (metis mult.commute mult_left_mono mult_1 of_int_0_le_iff)
  then have low: "f < fl \<Longrightarrow> real_of_int f < real_of_int fl * hy"
    by (metis less_le_trans of_int_less_iff)
  have last_check: "disk_checks (fs @ [f]) (new_disk_guard fl hy) = snd (disk_check f g)"
    by (simp add: disk_checks_def g_def)
  have step: "is_paused (disk_checks (fs @ [f]) (new_disk_guard fl hy))
      \<longleftrightarrow> f < fl \<or> is_paused g \<and> real_of_int f < real_of_int fl * hy"
    unfolding last_check using low g by (auto simp: disk_check_def is_paused_def Let_def)
  show ?case
  proof
    assume "is_paused (disk_checks (fs @ [f]) (new_disk_guard fl hy))"
    then consider "f < fl" | "is_paused g" "real_of_int f < real_of_int fl * hy" using step by blast
    then show "\<exists>before low later. fs @ [f] = before @ low # later \<and> low < fl
       \<and> list_all (\<lambda>f. of_int f < of_int fl * hy) later"
    proof cases
      case 1
      then have "fs @ [f] = fs @ f # [] \<and> f < fl \<and> list_all (\<lambda>f. of_int f < of_int fl * hy) []" by simp
      then show ?thesis by blast
    next
      case 2
      then obtain b l r where "fs = b @ l # r" "l < fl" "list_all (\<lambda>f. of_int f < of_int fl * hy) r"
        using snoc.IH by (auto simp: g_def)
      then have "fs @ [f] = b @ l # (r @ [f]) \<and> l < fl \<and> list_all (\<lambda>f. of_int f < of_int fl * hy) (r @ [f])"
        using 2 by simp
      then show ?thesis by blast
    qed
  next
    assume "\<exists>before low later. fs @ [f] = before @ low # later \<and> low < fl
       \<and> list_all (\<lambda>f. of_int f < of_int fl * hy) later"
    then obtain b l r where e: "fs @ [f] = b @ l # r" "l < fl" "list_all (\<lambda>f. of_int f < of_int fl * hy) r"
      by blast
    then show "is_paused (disk_checks (fs @ [f]) (new_disk_guard fl hy))"
      using step snoc.IH by (cases r rule: rev_cases) (auto simp: g_def)
  qed
qed

end
