(* ===== verification/Stage_Loop.thy ===== *)
theory Stage_Loop
  imports Schema
begin

text \<open>
  \<^verbatim>\<open>daemon/stage_loop.py\<close>: the two triggers and the supervised loop around one pipeline stage. The
  stage's \<^verbatim>\<open>iterate\<close> acts on a world of its own type, so that what a paused or failing stage does to
  it is part of the statements; clock readings are arguments in the order of the calls to \<^verbatim>\<open>now\<close>.
\<close>

section \<open>Triggers\<close>

record interval_trigger =
  interval :: real
  last_run_at :: "real option"

definition interval_due :: "real \<Rightarrow> interval_trigger \<Rightarrow> bool" where
  "interval_due now t =
     (case last_run_at t of None \<Rightarrow> True | Some l \<Rightarrow> interval t \<le> now - l)"

definition interval_wait_seconds :: "real \<Rightarrow> interval_trigger \<Rightarrow> real" where
  "interval_wait_seconds now t =
     (case last_run_at t of None \<Rightarrow> 0 | Some l \<Rightarrow> max 0 (interval t - (now - l)))"

definition interval_mark_run :: "real \<Rightarrow> bool \<Rightarrow> interval_trigger \<Rightarrow> interval_trigger" where
  "interval_mark_run now did_work t = t\<lparr>last_run_at := Some now\<rparr>"

record poll_trigger =
  idle_interval :: real
  busy :: bool

definition poll_due :: "real \<Rightarrow> poll_trigger \<Rightarrow> bool" where
  "poll_due now t = True"

definition poll_wait_seconds :: "real \<Rightarrow> poll_trigger \<Rightarrow> real" where
  "poll_wait_seconds now t = (if busy t then 0 else idle_interval t)"

definition poll_mark_run :: "real \<Rightarrow> bool \<Rightarrow> poll_trigger \<Rightarrow> poll_trigger" where
  "poll_mark_run now did_work t = t\<lparr>busy := did_work\<rparr>"

section \<open>The loop\<close>

record 't stage_loop =
  trig :: 't
  paused :: bool
  loop_last_run_at :: "real option"
  loop_last_success_at :: "real option"
  loop_consecutive_failures :: int

definition new_stage_loop :: "'t \<Rightarrow> 't stage_loop" where
  "new_stage_loop t = \<lparr>trig = t, paused = False, loop_last_run_at = None,
     loop_last_success_at = None, loop_consecutive_failures = 0\<rparr>"

definition pause :: "'t stage_loop \<Rightarrow> 't stage_loop" where
  "pause l = l\<lparr>paused := True\<rparr>"

definition resume :: "'t stage_loop \<Rightarrow> 't stage_loop" where
  "resume l = l\<lparr>paused := False\<rparr>"

text \<open>
  \<^verbatim>\<open>run_once\<close>: \<open>mark_run\<close> is the trigger's method, \<open>fatal\<close> tells which exceptions are in
  \<^verbatim>\<open>fatal_exceptions\<close>; \<open>rd\<close> holds the readings of the loop's and the trigger's clock.
\<close>

record run_readings =
  rr_start :: real
  rr_success :: real
  rr_mark :: real

definition run_once ::
    "(real \<Rightarrow> bool \<Rightarrow> 't \<Rightarrow> 't) \<Rightarrow> (py_exn \<Rightarrow> bool) \<Rightarrow> ('w \<Rightarrow> bool res \<times> 'w) \<Rightarrow> run_readings
      \<Rightarrow> 't stage_loop \<times> 'w \<Rightarrow> bool res \<times> 't stage_loop \<times> 'w" where
  "run_once mark_run fatal iterate rd st =
     (case st of (l, w) \<Rightarrow>
        let l1 = l\<lparr>loop_last_run_at := Some (rr_start rd)\<rparr>
        in if paused l1
           then (Inr False, l1\<lparr>trig := mark_run (rr_mark rd) False (trig l1)\<rparr>, w)
           else (case iterate w of
                   (Inl e, w1) \<Rightarrow>
                     if fatal e then (Inl e, l1, w1)
                     else (Inr False,
                           l1\<lparr>loop_consecutive_failures := loop_consecutive_failures l1 + 1,
                              trig := mark_run (rr_mark rd) False (trig l1)\<rparr>, w1)
                 | (Inr did_work, w1) \<Rightarrow>
                     (Inr did_work,
                      l1\<lparr>loop_last_success_at := Some (rr_success rd), loop_consecutive_failures := 0,
                         trig := mark_run (rr_mark rd) did_work (trig l1)\<rparr>, w1)))"

text \<open>
  One pass of \<^verbatim>\<open>run_forever\<close>: the exception that ends the thread, or how long it waits on the
  shutdown event. \<open>rf_due\<close> and \<open>rf_wait\<close> are the trigger's readings.
\<close>

record pass_readings =
  rf_due :: real
  rf_run :: run_readings
  rf_wait :: real

definition run_pass ::
    "(real \<Rightarrow> 't \<Rightarrow> bool) \<Rightarrow> (real \<Rightarrow> 't \<Rightarrow> real) \<Rightarrow> (real \<Rightarrow> bool \<Rightarrow> 't \<Rightarrow> 't) \<Rightarrow> (py_exn \<Rightarrow> bool)
      \<Rightarrow> ('w \<Rightarrow> bool res \<times> 'w) \<Rightarrow> pass_readings \<Rightarrow> 't stage_loop \<times> 'w \<Rightarrow> real res \<times> 't stage_loop \<times> 'w" where
  "run_pass due wait_seconds mark_run fatal iterate rd st =
     (let (r, l1, w1) = (if due (rf_due rd) (trig (fst st))
                         then run_once mark_run fatal iterate (rf_run rd) st
                         else (Inr False, st))
      in case r of Inl e \<Rightarrow> (Inl e, l1, w1)
         | Inr did_work \<Rightarrow> (Inr (wait_seconds (rf_wait rd) (trig l1)), l1, w1))"

text \<open>
  \<^verbatim>\<open>run_forever\<close> over the passes until the shutdown event is seen, either at the top of the loop or by
  the wait at its end (the two booleans of a pass): the exception that killed the thread, if any.
\<close>

fun run_forever ::
    "(real \<Rightarrow> 't \<Rightarrow> bool) \<Rightarrow> (real \<Rightarrow> 't \<Rightarrow> real) \<Rightarrow> (real \<Rightarrow> bool \<Rightarrow> 't \<Rightarrow> 't) \<Rightarrow> (py_exn \<Rightarrow> bool)
      \<Rightarrow> ('w \<Rightarrow> bool res \<times> 'w) \<Rightarrow> (bool \<times> pass_readings \<times> bool) list \<Rightarrow> 't stage_loop \<times> 'w
      \<Rightarrow> unit res \<times> 't stage_loop \<times> 'w" where
  "run_forever due wait_seconds mark_run fatal iterate [] st = (Inr (), st)"
| "run_forever due wait_seconds mark_run fatal iterate ((shutdown, rd, woken) # ps) st =
     (if shutdown then (Inr (), st)
      else (case run_pass due wait_seconds mark_run fatal iterate rd st of
              (Inl e, st1) \<Rightarrow> (Inl e, st1)
            | (Inr wait, st1) \<Rightarrow>
                if woken then (Inr (), st1)
                else run_forever due wait_seconds mark_run fatal iterate ps st1))"

section \<open>The trigger interface\<close>

text \<open>
  What the loop relies on of \<^verbatim>\<open>Trigger\<close>: waits are not negative, a full wait makes an iteration due,
  and after an iteration without work the trigger waits its full period. \<open>wf\<close> is what the
  constructor sets up.
\<close>

locale trigger =
  fixes due :: "real \<Rightarrow> 't \<Rightarrow> bool"
    and wait_seconds :: "real \<Rightarrow> 't \<Rightarrow> real"
    and mark_run :: "real \<Rightarrow> bool \<Rightarrow> 't \<Rightarrow> 't"
    and wf :: "'t \<Rightarrow> bool"
    and period :: "'t \<Rightarrow> real"
  assumes wf_mark: "wf t \<Longrightarrow> wf (mark_run now dw t) \<and> period (mark_run now dw t) = period t"
    and wait_nonneg: "wf t \<Longrightarrow> 0 \<le> wait_seconds now t"
    and due_after_wait: "wf t \<Longrightarrow> now + wait_seconds now t \<le> later \<Longrightarrow> due later t"
    and idle_wait: "wf t \<Longrightarrow> wait_seconds now (mark_run now False t) = period t"
begin

lemma run_once_wf: "wf (trig l) \<Longrightarrow> wf (trig (fst (snd (run_once mark_run fatal iterate rd (l, w)))))"
  using wf_mark by (auto simp: run_once_def Let_def split: sum.splits prod.splits)

lemma run_pass_wf:
  "wf (trig l) \<Longrightarrow> run_pass due wait_seconds mark_run fatal iterate rd (l, w) = (r, l1, w1) \<Longrightarrow> wf (trig l1)"
  using run_once_wf [of l fatal iterate "rf_run rd" w]
  by (auto simp: run_pass_def Let_def split: if_splits prod.splits sum.splits)

text \<open>After a pass has waited as long as it said, the next pass runs the stage.\<close>

lemma next_pass_runs:
  assumes "wf (trig l)" and "run_pass due wait_seconds mark_run fatal iterate rd (l, w) = (Inr s, l1, w1)"
    and "rf_wait rd + s \<le> rf_due rd'"
  shows "0 \<le> s \<and> snd (run_pass due wait_seconds mark_run fatal iterate rd' (l1, w1))
    = snd (run_once mark_run fatal iterate (rf_run rd') (l1, w1))"
proof -
  have s: "s = wait_seconds (rf_wait rd) (trig l1)"
    using assms(2) by (auto simp: run_pass_def Let_def split: if_splits prod.splits sum.splits)
  have wf1: "wf (trig l1)" using run_pass_wf [OF assms(1,2)] .
  have "due (rf_due rd') (trig l1)" using due_after_wait [OF wf1] assms(3) s by blast
  then show ?thesis using s wait_nonneg [OF wf1]
    by (simp add: run_pass_def Let_def split: prod.splits sum.splits)
qed

lemma survives:
  assumes "\<And>e w1 w2. iterate w1 = (Inl e, w2) \<Longrightarrow> \<not> fatal e"
  shows "fst (run_forever due wait_seconds mark_run fatal iterate ps (l, w)) = Inr ()"
proof (induction ps arbitrary: l w)
  case Nil
  then show ?case by simp
next
  case (Cons p ps)
  obtain shutdown rd woken where p: "p = (shutdown, rd, woken)" by (metis prod.exhaust)
  obtain r l1 w1 where r: "run_pass due wait_seconds mark_run fatal iterate rd (l, w) = (r, l1, w1)"
    by (metis prod.exhaust)
  have "is_ok r"
    using r assms by (auto simp: run_pass_def run_once_def Let_def split: if_splits prod.splits sum.splits)
  then show ?case using Cons r p by (auto simp: is_ok_iff)
qed

end

interpretation interval_trig: trigger interval_due interval_wait_seconds interval_mark_run
    "\<lambda>t. 0 \<le> interval t" interval
  by unfold_locales (auto simp: interval_due_def interval_wait_seconds_def interval_mark_run_def
      split: option.splits)

interpretation poll_trig: trigger poll_due poll_wait_seconds poll_mark_run
    "\<lambda>t. 0 \<le> idle_interval t" idle_interval
  by unfold_locales (auto simp: poll_due_def poll_wait_seconds_def poll_mark_run_def)

section \<open>Properties of the loop\<close>

lemma paused_pass:
  assumes "paused l"
  shows "\<exists>s l1. run_pass due wait_seconds mark_run fatal iterate rd (l, w) = (Inr s, l1, w) \<and> paused l1"
  using assms by (auto simp: run_pass_def run_once_def Let_def)

text \<open>
  A paused stage claims nothing: however many passes its loop makes, \<^verbatim>\<open>iterate\<close> is not called, so
  the world is untouched, the loop neither dies nor counts a failure, and it is still paused.
\<close>

theorem paused_stage_claims_nothing:
  assumes "paused l" and "run_forever due wait_seconds mark_run fatal iterate ps (l, w) = (r, l', w')"
  shows "r = Inr () \<and> w' = w \<and> paused l' \<and> loop_consecutive_failures l' = loop_consecutive_failures l"
  using assms
proof (induction ps arbitrary: l)
  case Nil
  then show ?case by simp
next
  case (Cons p ps)
  obtain shutdown rd woken where p: "p = (shutdown, rd, woken)" by (metis prod.exhaust)
  obtain s l1 where one: "run_pass due wait_seconds mark_run fatal iterate rd (l, w) = (Inr s, l1, w)" "paused l1"
    using paused_pass [OF Cons.prems(1), of due wait_seconds mark_run fatal iterate rd w] by blast
  moreover have "loop_consecutive_failures l1 = loop_consecutive_failures l"
    using one(1) Cons.prems(1) by (auto simp: run_pass_def run_once_def Let_def split: if_splits)
  ultimately show ?case using Cons p by (auto split: if_splits)
qed

definition demo_pass :: "real \<Rightarrow> pass_readings" where
  "demo_pass t = \<lparr>rf_due = t, rf_run = \<lparr>rr_start = t, rr_success = t, rr_mark = t\<rparr>, rf_wait = t\<rparr>"

text \<open>
  A timer stage survives its own failures and keeps its schedule: a pass whose iteration raises an
  exception outside the fatal whitelist returns normally with one more failure counted, asks to wait
  the whole interval after the mark, and the pass made after that wait runs the stage again.
\<close>

theorem failing_timer_stage_reruns:
  assumes "0 \<le> interval (trig l)" and "\<not> paused l" and "iterate w = (Inl e, w1)" and "\<not> fatal e"
    and "interval_due (rf_due rd) (trig l)" and "rr_mark (rf_run rd) = rf_wait rd"
    and "rf_wait rd + interval (trig l) \<le> rf_due rd'"
  shows "\<exists>l1. run_pass interval_due interval_wait_seconds interval_mark_run fatal iterate rd (l, w)
       = (Inr (interval (trig l)), l1, w1)
     \<and> loop_consecutive_failures l1 = loop_consecutive_failures l + 1
     \<and> snd (run_pass interval_due interval_wait_seconds interval_mark_run fatal iterate rd' (l1, w1))
       = snd (run_once interval_mark_run fatal iterate (rf_run rd') (l1, w1))"
proof -
  let ?pass = "run_pass interval_due interval_wait_seconds interval_mark_run fatal iterate"
  define l1 where "l1 = l\<lparr>loop_last_run_at := Some (rr_start (rf_run rd)),
    loop_consecutive_failures := loop_consecutive_failures l + 1,
    trig := interval_mark_run (rf_wait rd) False (trig l)\<rparr>"
  have one: "?pass rd (l, w) = (Inr (interval (trig l)), l1, w1)"
    using assms(1-6) interval_trig.idle_wait [of "trig l" "rf_wait rd"]
    by (simp add: run_pass_def run_once_def l1_def Let_def)
  have "snd (?pass rd' (l1, w1)) = snd (run_once interval_mark_run fatal iterate (rf_run rd') (l1, w1))"
    using interval_trig.next_pass_runs [OF assms(1) one assms(7)] by simp
  then show ?thesis using one by (auto simp: l1_def)
qed

end
