(* ===== verification/Archive_Format.thy ===== *)
theory Archive_Format
  imports Schema
begin

text \<open>
  \<^verbatim>\<open>archive/format.py\<close>, \<^verbatim>\<open>archive/location.py\<close>: the wire format of one segment, byte for byte. The
  trailer's \<^verbatim>\<open>struct\<close> layout, the CRC-32 of \<^verbatim>\<open>zlib\<close>, hexadecimal digests and the footer document are
  defined here; the zstandard and msgpack packages and the hash function are the fields of \<open>codec\<close>,
  and what the code relies on of them is \<open>codec_ok\<close>.
\<close>

unbundle bit_operations_syntax

section \<open>Integers, hexadecimal and CRC\<close>

text \<open>\<open>k\<close> little-endian bytes of a number, and the number of a byte string.\<close>

fun le_bytes :: "nat \<Rightarrow> int \<Rightarrow> bytes" where
  "le_bytes 0 n = []"
| "le_bytes (Suc k) n = word_of_int (n mod 256) # le_bytes k (n div 256)"

fun le_value :: "bytes \<Rightarrow> int" where
  "le_value [] = 0"
| "le_value (b # bs) = uint b + 256 * le_value bs"

definition hex_digits :: string where
  "hex_digits = ''0123456789abcdef''"

fun hex :: "bytes \<Rightarrow> string" where
  "hex [] = []"
| "hex (b # bs) = hex_digits ! (unat b div 16) # hex_digits ! (unat b mod 16) # hex bs"

definition hex_value :: "char \<Rightarrow> nat option" where
  "hex_value c = find (\<lambda>i. hex_digits ! i = c) [0..<16]"

fun fromhex :: "string \<Rightarrow> bytes option" where
  "fromhex [] = Some []"
| "fromhex [c] = None"
| "fromhex (c # d # cs) =
     (case (hex_value c, hex_value d, fromhex cs) of
        (Some i, Some j, Some bs) \<Rightarrow> Some (of_nat (16 * i + j) # bs)
      | _ \<Rightarrow> None)"

text \<open>\<^verbatim>\<open>zlib.crc32\<close>: the reflected polynomial, one bit at a time.\<close>

definition crc32_bit :: "32 word \<Rightarrow> 32 word" where
  "crc32_bit c = (if bit c 0 then drop_bit 1 c XOR 0xEDB88320 else drop_bit 1 c)"

definition crc32_byte :: "byte \<Rightarrow> 32 word \<Rightarrow> 32 word" where
  "crc32_byte b c = (crc32_bit ^^ 8) (c XOR ucast b)"

definition crc32 :: "bytes \<Rightarrow> 32 word" where
  "crc32 bs = NOT (fold crc32_byte bs (NOT 0))"

section \<open>The packages\<close>

text \<open>A decoded msgpack document.\<close>

datatype mp = MNil | MBool bool | MInt int | MStr string | MBin bytes | MArr "mp list"
  | MMap "(mp \<times> mp) list"

record codec =
  zstd_compress :: "int \<Rightarrow> bytes \<Rightarrow> bytes"
  zstd_decompress :: "bytes \<Rightarrow> bytes option"
  msgpack_packb :: "mp \<Rightarrow> bytes option"
  msgpack_unpackb :: "bytes \<Rightarrow> mp option"
  sha256_digest :: "bytes \<Rightarrow> bytes"

text \<open>\<^verbatim>\<open>hashlib.sha256(data).hexdigest()\<close>.\<close>

definition hexdigest :: "codec \<Rightarrow> bytes \<Rightarrow> string" where
  "hexdigest cd data = hex (sha256_digest cd data)"

section \<open>Entries, footer and trailer\<close>

definition MAGIC :: bytes where
  "MAGIC = [0x52, 0x53, 0x53, 0x45, 0x47, 0x31, 0, 0]"

definition TRAILER_SIZE :: nat where
  "TRAILER_SIZE = 32"

definition FOOTER_VERSION :: int where
  "FOOTER_VERSION = 1"

record block_entry =
  be_offset :: int
  be_length :: int
  be_raw_length :: int

record record_entry =
  re_sha256 :: bytes
  re_block_no :: int
  re_offset :: int
  re_length :: int

record footer =
  ft_version :: int
  ft_blocks :: "block_entry list"
  ft_records :: "record_entry list"

record blob_location =
  bl_sha256 :: string
  bl_segment_id :: int
  bl_block_no :: int
  bl_offset :: int
  bl_length :: int

definition compress_block :: "codec \<Rightarrow> int \<Rightarrow> bytes \<Rightarrow> bytes" where
  "compress_block cd level data = zstd_compress cd level data"

definition decompress_block :: "codec \<Rightarrow> bytes \<Rightarrow> bytes res" where
  "decompress_block cd data =
     (case zstd_decompress cd data of None \<Rightarrow> Inl (OtherError ''ZstdError'') | Some d \<Rightarrow> Inr d)"

definition block_doc :: "block_entry \<Rightarrow> mp" where
  "block_doc b = MMap [(MStr ''offset'', MInt (be_offset b)), (MStr ''length'', MInt (be_length b)),
     (MStr ''raw_length'', MInt (be_raw_length b))]"

definition record_doc :: "record_entry \<Rightarrow> mp" where
  "record_doc r = MMap [(MStr ''sha256'', MBin (re_sha256 r)), (MStr ''block_no'', MInt (re_block_no r)),
     (MStr ''offset'', MInt (re_offset r)), (MStr ''length'', MInt (re_length r))]"

definition footer_doc :: "block_entry list \<Rightarrow> record_entry list \<Rightarrow> mp" where
  "footer_doc blocks records = MMap [(MStr ''version'', MInt FOOTER_VERSION),
     (MStr ''blocks'', MArr (map block_doc blocks)), (MStr ''records'', MArr (map record_doc records))]"

text \<open>
  Documented behaviour of the packages: decompressing a frame gives the data back, at any level, and
  unpacking what \<^verbatim>\<open>packb\<close> made of a footer document gives the document back. (\<^verbatim>\<open>packb\<close> raises on an
  integer beyond 64 bits.)
\<close>

definition codec_ok :: "codec \<Rightarrow> bool" where
  "codec_ok cd \<longleftrightarrow> (\<forall>l d. zstd_decompress cd (zstd_compress cd l d) = Some d)
     \<and> (\<forall>blocks records b. msgpack_packb cd (footer_doc blocks records) = Some b
          \<longrightarrow> msgpack_unpackb cd b = Some (footer_doc blocks records))"

definition encode_footer :: "codec \<Rightarrow> int \<Rightarrow> block_entry list \<Rightarrow> record_entry list \<Rightarrow> bytes res" where
  "encode_footer cd level blocks records =
     (case msgpack_packb cd (footer_doc blocks records) of
        None \<Rightarrow> Inl (OtherError ''OverflowError'')
      | Some raw \<Rightarrow> Inr (compress_block cd level raw))"

text \<open>
  \<^verbatim>\<open>payload[key]\<close> and iteration over a decoded document. The entries hold whatever the document has;
  a field of another type than the entry's raises here, where the program raises at its first use.
\<close>

definition py_getitem :: "string \<Rightarrow> mp \<Rightarrow> mp res" where
  "py_getitem key d =
     (case d of MMap kvs \<Rightarrow> (case map_of kvs (MStr key) of None \<Rightarrow> Inl KeyError | Some v \<Rightarrow> Inr v)
      | _ \<Rightarrow> Inl PyTypeError)"

definition py_iter :: "mp \<Rightarrow> mp list res" where
  "py_iter d =
     (case d of MArr xs \<Rightarrow> Inr xs | MMap kvs \<Rightarrow> Inr (map fst kvs)
      | MStr s \<Rightarrow> Inr (map (\<lambda>c. MStr [c]) s) | MBin bs \<Rightarrow> Inr (map (\<lambda>b. MInt (uint b)) bs)
      | _ \<Rightarrow> Inl PyTypeError)"

definition as_int :: "mp \<Rightarrow> int res" where
  "as_int d = (case d of MInt n \<Rightarrow> Inr n | MBool b \<Rightarrow> Inr (of_bool b) | _ \<Rightarrow> Inl PyTypeError)"

definition as_bytes :: "mp \<Rightarrow> bytes res" where
  "as_bytes d = (case d of MBin bs \<Rightarrow> Inr bs | _ \<Rightarrow> Inl PyTypeError)"

definition int_field :: "string \<Rightarrow> mp \<Rightarrow> int res" where
  "int_field key d = bind_res (py_getitem key d) as_int"

definition decode_block :: "mp \<Rightarrow> block_entry res" where
  "decode_block d =
     bind_res (int_field ''offset'' d) (\<lambda>off.
     bind_res (int_field ''length'' d) (\<lambda>len.
     bind_res (int_field ''raw_length'' d) (\<lambda>raw.
     Inr \<lparr>be_offset = off, be_length = len, be_raw_length = raw\<rparr>)))"

definition decode_record :: "mp \<Rightarrow> record_entry res" where
  "decode_record d =
     bind_res (bind_res (py_getitem ''sha256'' d) as_bytes) (\<lambda>sha.
     bind_res (int_field ''block_no'' d) (\<lambda>no.
     bind_res (int_field ''offset'' d) (\<lambda>off.
     bind_res (int_field ''length'' d) (\<lambda>len.
     Inr \<lparr>re_sha256 = sha, re_block_no = no, re_offset = off, re_length = len\<rparr>))))"

fun map_res :: "('a \<Rightarrow> 'e + 'b) \<Rightarrow> 'a list \<Rightarrow> 'e + 'b list" where
  "map_res f [] = Inr []"
| "map_res f (x # xs) = bind_res (f x) (\<lambda>y. bind_res (map_res f xs) (\<lambda>ys. Inr (y # ys)))"

definition decode_footer :: "codec \<Rightarrow> int \<Rightarrow> bytes \<Rightarrow> footer res" where
  "decode_footer cd segment_id compressed =
     (case bind_res (decompress_block cd compressed)
             (\<lambda>raw. case msgpack_unpackb cd raw of None \<Rightarrow> Inl (OtherError ''UnpackException'')
                    | Some p \<Rightarrow> Inr p) of
        Inl e \<Rightarrow> Inl (CorruptSegmentError segment_id)
      | Inr payload \<Rightarrow>
          bind_res (py_getitem ''blocks'' payload) (\<lambda>bs.
          bind_res (bind_res (py_iter bs) (map_res decode_block)) (\<lambda>blocks.
          bind_res (py_getitem ''records'' payload) (\<lambda>rs.
          bind_res (bind_res (py_iter rs) (map_res decode_record)) (\<lambda>records.
          bind_res (int_field ''version'' payload) (\<lambda>v.
          Inr \<lparr>ft_version = v, ft_blocks = blocks, ft_records = records\<rparr>))))))"

text \<open>\<^verbatim>\<open>struct.pack("<8sQQI4s", ...)\<close> raises when a value does not fit its field.\<close>

definition encode_trailer :: "int \<Rightarrow> int \<Rightarrow> int \<Rightarrow> bytes res" where
  "encode_trailer footer_offset footer_length footer_crc =
     (if 0 \<le> footer_offset \<and> footer_offset < 2 ^ 64 \<and> 0 \<le> footer_length \<and> footer_length < 2 ^ 64
         \<and> 0 \<le> footer_crc \<and> footer_crc < 2 ^ 32
      then Inr (MAGIC @ le_bytes 8 footer_offset @ le_bytes 8 footer_length @ le_bytes 4 footer_crc
                @ [0, 0, 0, 0])
      else Inl (OtherError ''struct.error''))"

definition decode_trailer :: "int \<Rightarrow> bytes \<Rightarrow> (int \<times> int \<times> int) res" where
  "decode_trailer segment_id data =
     (if length data \<noteq> TRAILER_SIZE then Inl (CorruptSegmentError segment_id)
      else if take 8 data \<noteq> MAGIC then Inl (CorruptSegmentError segment_id)
      else Inr (le_value (take 8 (drop 8 data)), le_value (take 8 (drop 16 data)),
                le_value (take 4 (drop 24 data))))"

definition footer_crc32 :: "bytes \<Rightarrow> int" where
  "footer_crc32 compressed_footer = uint (crc32 compressed_footer)"

section \<open>Facts about the format\<close>

lemma length_le_bytes [simp]: "length (le_bytes k n) = k"
  by (induction k arbitrary: n) simp_all

lemma le_value_le_bytes: "le_value (le_bytes k n) = n mod 256 ^ k"
proof (induction k arbitrary: n)
  case 0
  then show ?case by simp
next
  case (Suc k)
  have "uint (word_of_int (n mod 256) :: byte) = n mod 256" by (simp add: uint_word_of_int)
  then show ?case using Suc [of "n div 256"] by (simp add: zmod_zmult2_eq mult.commute)
qed

lemma hex_value_digit: "i < 16 \<Longrightarrow> hex_value (hex_digits ! i) = Some i"
proof -
  have "\<forall>i \<in> set [0..<16]. hex_value (hex_digits ! i) = Some i" by code_simp
  then show "i < 16 \<Longrightarrow> ?thesis" by simp
qed

lemma fromhex_hex: "fromhex (hex bs) = Some bs"
proof (induction bs)
  case Nil
  then show ?case by simp
next
  case (Cons b bs)
  have "unat b < 256" using unsigned_less [of b, where 'a = nat] by simp
  then have "unat b div 16 < 16" by simp
  then show ?case using Cons by (simp add: hex_value_digit)
qed

lemma hex_inject [simp]: "hex a = hex b \<longleftrightarrow> a = b"
  by (metis fromhex_hex option.inject)

lemma map_res_map: "(\<And>x. f (g x) = Inr x) \<Longrightarrow> map_res f (map g xs) = Inr xs"
  by (induction xs) simp_all

lemma decode_block_doc: "decode_block (block_doc b) = Inr b"
  by (simp add: decode_block_def block_doc_def int_field_def py_getitem_def as_int_def)

lemma decode_record_doc: "decode_record (record_doc r) = Inr r"
  by (simp add: decode_record_def record_doc_def int_field_def py_getitem_def as_int_def as_bytes_def)

lemma decode_encode_footer:
  "codec_ok cd \<Longrightarrow> encode_footer cd level blocks records = Inr f \<Longrightarrow> decode_footer cd sid f
     = Inr \<lparr>ft_version = FOOTER_VERSION, ft_blocks = blocks, ft_records = records\<rparr>"
  by (auto simp: encode_footer_def codec_ok_def compress_block_def decompress_block_def decode_footer_def
      split: option.splits)
    (simp add: footer_doc_def py_getitem_def py_iter_def int_field_def as_int_def
      map_res_map [where g = block_doc, OF decode_block_doc]
      map_res_map [where g = record_doc, OF decode_record_doc])

lemma decode_encode_trailer:
  assumes "encode_trailer off len crc = Inr t"
  shows "decode_trailer sid t = Inr (off, len, crc) \<and> length t = TRAILER_SIZE"
  using assms
  by (auto simp: encode_trailer_def decode_trailer_def MAGIC_def TRAILER_SIZE_def le_value_le_bytes
      split: if_splits)

lemma footer_crc32_range: "0 \<le> footer_crc32 f \<and> footer_crc32 f < 2 ^ 32"
  using unsigned_less [of "crc32 f", where 'a = int] by (simp add: footer_crc32_def)

section \<open>Properties of the format\<close>

text \<open>
  The trailer round trip: every footer position and length that fits 64 bits and every CRC encodes
  to exactly \<^verbatim>\<open>TRAILER_SIZE\<close> bytes, from which the decoder reads the same three numbers; anything
  of another size or with another magic is a \<^verbatim>\<open>CorruptSegmentError\<close> of that segment.
\<close>

theorem trailer_roundtrip:
  assumes "0 \<le> off" and "off < 2 ^ 64" and "0 \<le> len" and "len < 2 ^ 64"
  shows "\<exists>t. encode_trailer off len (footer_crc32 f) = Inr t \<and> length t = TRAILER_SIZE
    \<and> decode_trailer sid t = Inr (off, len, footer_crc32 f)
    \<and> (\<forall>t'. length t' \<noteq> TRAILER_SIZE \<or> take 8 t' \<noteq> take 8 t
         \<longrightarrow> decode_trailer sid t' = Inl (CorruptSegmentError sid))"
proof -
  obtain t where t: "encode_trailer off len (footer_crc32 f) = Inr t"
    using assms footer_crc32_range [of f] by (auto simp: encode_trailer_def)
  then have "take 8 t = MAGIC" by (auto simp: encode_trailer_def MAGIC_def split: if_splits)
  then have "\<forall>t'. length t' \<noteq> TRAILER_SIZE \<or> take 8 t' \<noteq> take 8 t
      \<longrightarrow> decode_trailer sid t' = Inl (CorruptSegmentError sid)"
    by (simp add: decode_trailer_def)
  then show ?thesis using t decode_encode_trailer [OF t] by blast
qed

text \<open>
  A footer frame that decompresses and unpacks to a document without its \<^verbatim>\<open>blocks\<close> list raises
  \<^verbatim>\<open>KeyError\<close>, not the \<^verbatim>\<open>CorruptSegmentError\<close> the function documents for a wrong document shape, so
  \<^verbatim>\<open>verify_archive\<close>, which catches the latter only, is ended by it.
\<close>

theorem malformed_footer_raises_KeyError:
  assumes "zstd_decompress cd frame = Some raw" and "msgpack_unpackb cd raw = Some (MMap kvs)"
    and "map_of kvs (MStr ''blocks'') = None"
  shows "decode_footer cd sid frame = Inl KeyError"
  using assms by (simp add: decode_footer_def decompress_block_def py_getitem_def)

definition plain_codec :: "mp \<Rightarrow> codec" where
  "plain_codec doc = \<lparr>zstd_compress = (\<lambda>l d. d), zstd_decompress = Some,
     msgpack_packb = (\<lambda>d. if d = doc then Some [1] else None),
     msgpack_unpackb = (\<lambda>b. if b = [1] then Some doc else None),
     sha256_digest = (\<lambda>d. le_bytes 32 (le_value d))\<rparr>"

lemma plain_codec_ok: "codec_ok (plain_codec doc)"
  by (simp add: codec_ok_def plain_codec_def)

end
