(* ===== verification/Archive_Writer.thy ===== *)
theory Archive_Writer
  imports Archive_Format
begin

text \<open>
  \<^verbatim>\<open>archive/writer.py\<close>: appending records to an open segment and sealing it. The segments directory is
  the association list of its file names and contents; a writer's file handle is the file of that
  name. A raising method returns the exception together with the state it left behind.
\<close>

section \<open>The segments directory\<close>

type_synonym fs = "(string \<times> bytes) list"

definition fs_put :: "string \<Rightarrow> bytes \<Rightarrow> fs \<Rightarrow> fs" where
  "fs_put n d fs = (n, d) # filter (\<lambda>p. fst p \<noteq> n) fs"

definition fs_del :: "string \<Rightarrow> fs \<Rightarrow> fs" where
  "fs_del n fs = filter (\<lambda>p. fst p \<noteq> n) fs"

definition fs_append :: "string \<Rightarrow> bytes \<Rightarrow> fs \<Rightarrow> fs" where
  "fs_append n d fs = (case map_of fs n of None \<Rightarrow> fs | Some c \<Rightarrow> fs_put n (c @ d) fs)"

text \<open>\<^verbatim>\<open>f"{segment_id:06d}"\<close>.\<close>

fun dec_digits :: "nat \<Rightarrow> string" where
  "dec_digits n = (if n < 10 then [char_of (48 + n)] else dec_digits (n div 10) @ [char_of (48 + n mod 10)])"

definition zero_pad :: "nat \<Rightarrow> string \<Rightarrow> string" where
  "zero_pad w s = replicate (w - length s) (CHR ''0'') @ s"

definition fmt_06d :: "int \<Rightarrow> string" where
  "fmt_06d n = (if n < 0 then CHR ''-'' # zero_pad 5 (dec_digits (nat (- n)))
                else zero_pad 6 (dec_digits (nat n)))"

definition open_name :: "int \<Rightarrow> string" where
  "open_name segment_id = fmt_06d segment_id @ ''.open''"

definition zst_name :: "int \<Rightarrow> string" where
  "zst_name segment_id = fmt_06d segment_id @ ''.zst''"

section \<open>The segment writer\<close>

record segment_stats =
  st_segment_id :: int
  st_bytes :: int
  st_records :: int
  st_footer_sha256 :: string

record seg_writer =
  sw_segment_id :: int
  sw_block_target_bytes :: int
  sw_level :: int
  sw_seal_bytes :: int
  sw_seal_after_seconds :: real
  sw_start :: real
  sw_position :: int
  sw_compressed_bytes :: int
  sw_block_no :: int
  sw_block_buffer :: bytes
  sw_block_raw_size :: int
  sw_pending_records :: int
  sw_blocks :: "block_entry list"
  sw_records :: "record_entry list"
  sw_locations :: "(string \<times> blob_location) list"
  sw_sealed :: bool

definition DEFAULT_BLOCK_TARGET_BYTES :: int where
  "DEFAULT_BLOCK_TARGET_BYTES = 4 * 1024 * 1024"

definition DEFAULT_SEAL_BYTES :: int where
  "DEFAULT_SEAL_BYTES = 64 * 1024 * 1024"

definition DEFAULT_SEAL_AFTER_SECONDS :: real where
  "DEFAULT_SEAL_AFTER_SECONDS = 6 * 60 * 60"

definition DEFAULT_LEVEL :: int where
  "DEFAULT_LEVEL = 10"

text \<open>The constructor, which opens the file for exclusive creation.\<close>

definition init_writer :: "int \<Rightarrow> int \<Rightarrow> int \<Rightarrow> real \<Rightarrow> real \<Rightarrow> int \<Rightarrow> seg_writer" where
  "init_writer block_target level seal_bytes seal_after now segment_id =
     \<lparr>sw_segment_id = segment_id, sw_block_target_bytes = block_target, sw_level = level,
      sw_seal_bytes = seal_bytes, sw_seal_after_seconds = seal_after, sw_start = now,
      sw_position = 0, sw_compressed_bytes = 0, sw_block_no = 0, sw_block_buffer = [],
      sw_block_raw_size = 0, sw_pending_records = 0, sw_blocks = [], sw_records = [],
      sw_locations = [], sw_sealed = False\<rparr>"

definition open_segment :: "int \<Rightarrow> int \<Rightarrow> int \<Rightarrow> real \<Rightarrow> real \<Rightarrow> int \<Rightarrow> fs \<Rightarrow> (fs \<times> seg_writer) res" where
  "open_segment block_target level seal_bytes seal_after now segment_id fs =
     (if open_name segment_id \<in> fst ` set fs then Inl FileExistsError
      else Inr (fs_put (open_name segment_id) [] fs,
                init_writer block_target level seal_bytes seal_after now segment_id))"

definition flush_block :: "codec \<Rightarrow> fs \<times> seg_writer \<Rightarrow> fs \<times> seg_writer" where
  "flush_block cd st =
     (case st of (fs, w) \<Rightarrow>
        let compressed = compress_block cd (sw_level w) (sw_block_buffer w);
            len = int (length compressed)
        in (fs_append (open_name (sw_segment_id w)) compressed fs,
            w\<lparr>sw_blocks := sw_blocks w @ [\<lparr>be_offset = sw_position w, be_length = len,
                                            be_raw_length = sw_block_raw_size w\<rparr>],
              sw_position := sw_position w + len,
              sw_compressed_bytes := sw_compressed_bytes w + len,
              sw_block_no := sw_block_no w + 1, sw_block_buffer := [], sw_block_raw_size := 0,
              sw_pending_records := 0\<rparr>))"

definition append_record :: "codec \<Rightarrow> bytes \<Rightarrow> seg_writer \<Rightarrow> blob_location \<times> seg_writer" where
  "append_record cd data w =
     (let sha256 = hexdigest cd data;
          offset = sw_block_raw_size w;
          len = int (length data);
          location = \<lparr>bl_sha256 = sha256, bl_segment_id = sw_segment_id w,
            bl_block_no = sw_block_no w, bl_offset = offset, bl_length = len\<rparr>
      in (location,
          w\<lparr>sw_block_buffer := sw_block_buffer w @ data,
            sw_block_raw_size := sw_block_raw_size w + len,
            sw_pending_records := sw_pending_records w + 1,
            sw_locations := sw_locations w @ [(sha256, location)],
            sw_records := sw_records w @ [\<lparr>re_sha256 = sha256_digest cd data,
              re_block_no = sw_block_no w, re_offset = offset, re_length = len\<rparr>]\<rparr>))"

definition add_record :: "codec \<Rightarrow> bytes \<Rightarrow> fs \<times> seg_writer \<Rightarrow> blob_location res \<times> fs \<times> seg_writer" where
  "add_record cd data st =
     (case st of (fs, w) \<Rightarrow>
        if sw_sealed w then (Inl PyRuntimeError, fs, w)
        else (case map_of (sw_locations w) (hexdigest cd data) of
                Some existing \<Rightarrow> (Inr existing, fs, w)
              | None \<Rightarrow>
                  (let (fs1, w1) = (if 0 < sw_pending_records w
                                       \<and> sw_block_target_bytes w < sw_block_raw_size w + int (length data)
                                    then flush_block cd (fs, w) else (fs, w));
                       (location, w2) = append_record cd data w1
                   in (Inr location, fs1, w2))))"

definition age_seconds :: "real \<Rightarrow> seg_writer \<Rightarrow> real" where
  "age_seconds now w = now - sw_start w"

definition should_seal :: "real \<Rightarrow> seg_writer \<Rightarrow> bool" where
  "should_seal now w =
     (sw_seal_bytes w \<le> sw_compressed_bytes w \<or> sw_seal_after_seconds w \<le> now - sw_start w)"

definition seal :: "codec \<Rightarrow> fs \<times> seg_writer \<Rightarrow> segment_stats res \<times> fs \<times> seg_writer" where
  "seal cd st =
     (case st of (fs, w) \<Rightarrow>
        if sw_sealed w then (Inl PyRuntimeError, fs, w)
        else let (fs1, w1) = (if 0 < sw_pending_records w then flush_block cd (fs, w) else (fs, w));
                 footer_offset = sw_position w1;
                 name = open_name (sw_segment_id w1)
             in (case encode_footer cd (sw_level w1) (sw_blocks w1) (sw_records w1) of
                   Inl e \<Rightarrow> (Inl e, fs1, w1)
                 | Inr footer \<Rightarrow>
                     (let fs2 = fs_append name footer fs1
                      in case encode_trailer footer_offset (int (length footer)) (footer_crc32 footer) of
                           Inl e \<Rightarrow> (Inl e, fs2, w1)
                         | Inr trailer \<Rightarrow>
                             (let fs3 = fs_append name trailer fs2
                              in case map_of fs3 name of
                                   None \<Rightarrow> (Inl FileNotFoundError, fs3, w1)
                                 | Some content \<Rightarrow>
                                     (Inr \<lparr>st_segment_id = sw_segment_id w1,
                                           st_bytes = footer_offset + int (length footer) + int (length trailer),
                                           st_records = int (length (sw_records w1)),
                                           st_footer_sha256 = hexdigest cd footer\<rparr>,
                                      fs_put (zst_name (sw_segment_id w1)) content (fs_del name fs3),
                                      w1\<lparr>sw_sealed := True\<rparr>)))))"

text \<open>Adding a list of records, stopping at the first exception.\<close>

fun add_records :: "codec \<Rightarrow> bytes list \<Rightarrow> fs \<times> seg_writer \<Rightarrow> blob_location list res \<times> fs \<times> seg_writer" where
  "add_records cd [] st = (Inr [], st)"
| "add_records cd (d # ds) st =
     (case add_record cd d st of
        (Inl e, st1) \<Rightarrow> (Inl e, st1)
      | (Inr l, st1) \<Rightarrow>
          (case add_records cd ds st1 of (r, st2) \<Rightarrow> (bind_res r (\<lambda>ls. Inr (l # ls)), st2)))"

declare dec_digits.simps [simp del]

section \<open>The writer's invariant\<close>

text \<open>
  Ghost state: \<open>ps\<close> is the list of the payloads of the flushed blocks. The file is their frames one
  after another, the block table is computed from them, and every record is a slice of a payload or
  of the buffer, with the digest it claims.
\<close>

definition frames :: "codec \<Rightarrow> int \<Rightarrow> bytes list \<Rightarrow> bytes" where
  "frames cd level ps = concat (map (compress_block cd level) ps)"

fun block_entries :: "codec \<Rightarrow> int \<Rightarrow> int \<Rightarrow> bytes list \<Rightarrow> block_entry list" where
  "block_entries cd level off [] = []"
| "block_entries cd level off (p # ps) =
     (let len = int (length (compress_block cd level p))
      in \<lparr>be_offset = off, be_length = len, be_raw_length = int (length p)\<rparr>
         # block_entries cd level (off + len) ps)"

definition record_data :: "bytes list \<Rightarrow> record_entry \<Rightarrow> bytes" where
  "record_data ps r = py_slice (re_offset r) (re_offset r + re_length r) (ps ! nat (re_block_no r))"

definition record_ok :: "codec \<Rightarrow> bytes list \<Rightarrow> record_entry \<Rightarrow> bool" where
  "record_ok cd ps r \<longleftrightarrow> 0 \<le> re_block_no r \<and> re_block_no r < int (length ps)
     \<and> 0 \<le> re_offset r \<and> 0 \<le> re_length r
     \<and> re_offset r + re_length r \<le> int (length (ps ! nat (re_block_no r)))
     \<and> sha256_digest cd (record_data ps r) = re_sha256 r"

definition location_of :: "int \<Rightarrow> record_entry \<Rightarrow> blob_location" where
  "location_of sid r = \<lparr>bl_sha256 = hex (re_sha256 r), bl_segment_id = sid,
     bl_block_no = re_block_no r, bl_offset = re_offset r, bl_length = re_length r\<rparr>"

definition seg_inv :: "codec \<Rightarrow> fs \<Rightarrow> seg_writer \<Rightarrow> bytes list \<Rightarrow> bool" where
  "seg_inv cd fs w ps \<longleftrightarrow>
     map_of fs (open_name (sw_segment_id w)) = Some (frames cd (sw_level w) ps)
     \<and> sw_position w = int (length (frames cd (sw_level w) ps))
     \<and> sw_compressed_bytes w = sw_position w
     \<and> sw_block_no w = int (length ps)
     \<and> sw_blocks w = block_entries cd (sw_level w) 0 ps
     \<and> sw_block_raw_size w = int (length (sw_block_buffer w))
     \<and> 0 \<le> sw_pending_records w
     \<and> (sw_pending_records w = 0 \<longrightarrow> list_all (\<lambda>r. re_block_no r < int (length ps)) (sw_records w))
     \<and> sw_locations w = map (\<lambda>r. (hex (re_sha256 r), location_of (sw_segment_id w) r)) (sw_records w)
     \<and> distinct (map re_sha256 (sw_records w))
     \<and> list_all (record_ok cd (ps @ [sw_block_buffer w])) (sw_records w)
     \<and> \<not> sw_sealed w"

subsection \<open>Files\<close>

lemma map_of_filter_neq: "map_of (filter (\<lambda>p. fst p \<noteq> n) fs) m = (if m = n then None else map_of fs m)"
  by (induction fs) auto

lemma map_of_fs_put [simp]: "map_of (fs_put n d fs) m = (if m = n then Some d else map_of fs m)"
  by (simp add: fs_put_def map_of_filter_neq)

lemma map_of_fs_del [simp]: "map_of (fs_del n fs) m = (if m = n then None else map_of fs m)"
  by (simp add: fs_del_def map_of_filter_neq)

lemma map_of_fs_append:
  "map_of (fs_append n d fs) m = (if m = n then map_option (\<lambda>c. c @ d) (map_of fs n) else map_of fs m)"
  by (simp add: fs_append_def split: option.splits)

subsection \<open>Blocks and records\<close>

lemma frames_append [simp]: "frames cd l (ps @ qs) = frames cd l ps @ frames cd l qs"
  by (simp add: frames_def)

lemma frames_single [simp]: "frames cd l [p] = compress_block cd l p" "frames cd l [] = []"
  by (simp_all add: frames_def)

lemma block_entries_append:
  "block_entries cd l off (ps @ qs)
     = block_entries cd l off ps @ block_entries cd l (off + int (length (frames cd l ps))) qs"
  by (induction ps arbitrary: off) (simp_all add: frames_def Let_def algebra_simps)

lemma length_block_entries [simp]: "length (block_entries cd l off ps) = length ps"
  by (induction ps arbitrary: off) (simp_all add: Let_def)

lemma nth_block_entries:
  assumes "i < length ps"
  shows "block_entries cd l off ps ! i =
    \<lparr>be_offset = off + int (length (frames cd l (take i ps))),
     be_length = int (length (compress_block cd l (ps ! i))), be_raw_length = int (length (ps ! i))\<rparr>"
  using assms
proof (induction ps arbitrary: off i)
  case Nil
  then show ?case by simp
next
  case (Cons p ps)
  then show ?case by (cases i) (simp_all add: frames_def Let_def algebra_simps)
qed

lemma frames_nth:
  assumes "i < length ps"
  shows "frames cd l ps = frames cd l (take i ps) @ compress_block cd l (ps ! i) @ frames cd l (drop (Suc i) ps)"
proof -
  have "ps = take i ps @ [ps ! i] @ drop (Suc i) ps"
    using assms by (simp add: id_take_nth_drop)
  then show ?thesis by (metis frames_append frames_single(1))
qed

lemma record_extend:
  assumes "record_ok cd (ps @ [buf]) r"
  shows "record_ok cd (ps @ [buf @ extra]) r \<and> record_data (ps @ [buf @ extra]) r = record_data (ps @ [buf]) r"
  using assms by (auto simp: record_ok_def record_data_def nth_append py_slice_append)

lemma record_flush:
  assumes "record_ok cd ps r"
  shows "record_ok cd (ps @ qs) r \<and> record_data (ps @ qs) r = record_data ps r"
  using assms by (auto simp: record_ok_def record_data_def nth_append)

subsection \<open>The operations keep the invariant\<close>

lemma init_writer_inv:
  assumes "open_segment bt lv sb sa now sid fs = Inr (fs1, w)"
  shows "seg_inv cd fs1 w [] \<and> sw_segment_id w = sid \<and> sw_records w = []"
  using assms by (auto simp: open_segment_def init_writer_def seg_inv_def frames_def split: if_splits)

lemma flush_block_inv:
  assumes "seg_inv cd fs w ps" and "flush_block cd (fs, w) = (fs1, w1)"
  shows "seg_inv cd fs1 w1 (ps @ [sw_block_buffer w]) \<and> sw_records w1 = sw_records w
    \<and> sw_segment_id w1 = sw_segment_id w \<and> sw_block_buffer w1 = [] \<and> sw_pending_records w1 = 0"
proof -
  have w1: "w1 = snd (flush_block cd (fs, w))" and fs1: "fs1 = fs_append (open_name (sw_segment_id w))
      (compress_block cd (sw_level w) (sw_block_buffer w)) fs"
    using assms(2) by (simp_all add: flush_block_def Let_def)
  have recs: "list_all (record_ok cd ((ps @ [sw_block_buffer w]) @ [[]])) (sw_records w)"
    using assms(1) record_flush [of cd "ps @ [sw_block_buffer w]" _ "[[]]"]
    by (auto simp: seg_inv_def list_all_iff)
  have bound: "list_all (\<lambda>r. re_block_no r < int (length ps) + 1) (sw_records w)"
    using assms(1) by (auto simp: seg_inv_def record_ok_def list_all_iff)
  show ?thesis
    using assms(1) recs bound
    by (simp add: seg_inv_def fs1 w1 flush_block_def block_entries_append map_of_fs_append Let_def)
      (auto simp: list_all_iff)
qed

lemma append_record_inv:
  assumes "seg_inv cd fs w ps" and "append_record cd data w = (l, w1)"
    and "sha256_digest cd data \<notin> set (map re_sha256 (sw_records w))"
  shows "seg_inv cd fs w1 ps \<and> sw_segment_id w1 = sw_segment_id w
    \<and> (\<exists>r. sw_records w1 = sw_records w @ [r] \<and> l = location_of (sw_segment_id w) r
         \<and> re_sha256 r = sha256_digest cd data
         \<and> record_data (ps @ [sw_block_buffer w1]) r = data)"
proof -
  define r where "r = \<lparr>re_sha256 = sha256_digest cd data, re_block_no = sw_block_no w,
    re_offset = sw_block_raw_size w, re_length = int (length data)\<rparr>"
  have w1: "w1 = w\<lparr>sw_block_buffer := sw_block_buffer w @ data,
      sw_block_raw_size := sw_block_raw_size w + int (length data),
      sw_pending_records := sw_pending_records w + 1,
      sw_locations := sw_locations w @ [(hex (re_sha256 r), location_of (sw_segment_id w) r)],
      sw_records := sw_records w @ [r]\<rparr>" and l: "l = location_of (sw_segment_id w) r"
    using assms(2) by (auto simp: append_record_def r_def location_of_def hexdigest_def Let_def)
  have data: "record_data (ps @ [sw_block_buffer w @ data]) r = data"
    using assms(1) py_slice_middle [of "sw_block_buffer w" data "[]"]
    by (simp add: record_data_def r_def seg_inv_def)
  have rec: "record_ok cd (ps @ [sw_block_buffer w @ data]) r"
    using assms(1) data by (simp add: record_ok_def) (simp add: r_def seg_inv_def)
  have recs: "list_all (record_ok cd (ps @ [sw_block_buffer w @ data])) (sw_records w)"
    using assms(1) record_extend by (auto simp: seg_inv_def list_all_iff)
  show ?thesis
    using assms(1,3) data rec recs l by (simp add: seg_inv_def w1) (simp add: r_def)
qed

text \<open>A record is held by a writer: its entry is there and its slice is the data.\<close>

definition holds :: "codec \<Rightarrow> int \<Rightarrow> bytes list \<Rightarrow> record_entry list \<Rightarrow> bytes \<Rightarrow> blob_location \<Rightarrow> bool" where
  "holds cd sid ps rs data l \<longleftrightarrow> (\<exists>r \<in> set rs. l = location_of sid r \<and> record_data ps r = data
     \<and> re_sha256 r = sha256_digest cd data \<and> record_ok cd ps r)"

definition payloads :: "seg_writer \<Rightarrow> bytes list \<Rightarrow> bytes list" where
  "payloads w ps = ps @ [sw_block_buffer w]"

text \<open>
  What the writer has stored: the data of all its records, by digest. \<open>stored\<close> is the ghost list of
  the distinct data added so far, in order.
\<close>

definition stores :: "codec \<Rightarrow> fs \<Rightarrow> seg_writer \<Rightarrow> bytes list \<Rightarrow> bytes list \<Rightarrow> bool" where
  "stores cd fs w ps stored \<longleftrightarrow> seg_inv cd fs w ps
     \<and> map (record_data (payloads w ps)) (sw_records w) = stored"

lemma stores_digest:
  assumes "stores cd fs w ps stored"
  shows "map (sha256_digest cd) stored = map re_sha256 (sw_records w)"
  using assms by (auto simp: stores_def seg_inv_def record_ok_def payloads_def list_all_iff)

lemma stores_flush:
  assumes "stores cd fs w ps stored" and "flush_block cd (fs, w) = (fs1, w1)"
  shows "stores cd fs1 w1 (ps @ [sw_block_buffer w]) stored \<and> sw_segment_id w1 = sw_segment_id w
    \<and> sw_block_buffer w1 = [] \<and> sw_pending_records w1 = 0 \<and> sw_records w1 = sw_records w"
proof -
  have inv: "seg_inv cd fs w ps" using assms(1) by (simp add: stores_def)
  note fl = flush_block_inv [OF inv assms(2)]
  have "record_data (ps @ [sw_block_buffer w, []]) r = record_data (ps @ [sw_block_buffer w]) r"
    if "r \<in> set (sw_records w)" for r
    using record_flush [of cd "ps @ [sw_block_buffer w]" r "[[]]"] inv that
    by (auto simp: seg_inv_def list_all_iff)
  then show ?thesis using fl assms(1) by (auto simp: stores_def payloads_def)
qed

lemma stores_append:
  assumes "stores cd fs w ps stored" and "append_record cd data w = (l, w1)"
    and "sha256_digest cd data \<notin> sha256_digest cd ` set stored"
  shows "stores cd fs w1 ps (stored @ [data]) \<and> sw_segment_id w1 = sw_segment_id w
    \<and> (\<exists>r. sw_records w1 = sw_records w @ [r] \<and> l = location_of (sw_segment_id w) r)"
proof -
  have inv: "seg_inv cd fs w ps" using assms(1) by (simp add: stores_def)
  have new: "sha256_digest cd data \<notin> set (map re_sha256 (sw_records w))"
    using assms(3) stores_digest [OF assms(1)] by (metis list.set_map)
  note ap = append_record_inv [OF inv assms(2) new]
  have buf: "sw_block_buffer w1 = sw_block_buffer w @ data"
    using assms(2) by (auto simp: append_record_def Let_def)
  have "record_data (ps @ [sw_block_buffer w @ data]) r = record_data (ps @ [sw_block_buffer w]) r"
    if "r \<in> set (sw_records w)" for r
    using record_extend [of cd ps "sw_block_buffer w" r data] inv that
    by (auto simp: seg_inv_def list_all_iff)
  then show ?thesis using ap assms(1) buf by (auto simp: stores_def payloads_def)
qed

text \<open>
  Adding a record: it always succeeds on an open writer, and the returned location is the one of the
  record with that digest, a new one only if there was none.
\<close>

lemma add_record_stores:
  assumes "stores cd fs w ps stored" and "add_record cd data (fs, w) = (r, fs1, w1)"
  shows "\<exists>l ps1. r = Inr l \<and> sw_segment_id w1 = sw_segment_id w
    \<and> stores cd fs1 w1 ps1 (if sha256_digest cd data \<in> sha256_digest cd ` set stored
                             then stored else stored @ [data])
    \<and> (\<exists>e \<in> set (sw_records w1). l = location_of (sw_segment_id w) e
         \<and> re_sha256 e = sha256_digest cd data)
    \<and> set (sw_records w) \<subseteq> set (sw_records w1)"
proof -
  have inv: "seg_inv cd fs w ps" using assms(1) by (simp add: stores_def)
  then have open_w: "\<not> sw_sealed w" and locs: "sw_locations w
      = map (\<lambda>r. (hex (re_sha256 r), location_of (sw_segment_id w) r)) (sw_records w)"
    by (simp_all add: seg_inv_def)
  have dom: "map_of (sw_locations w) (hexdigest cd data) = None
      \<longleftrightarrow> sha256_digest cd data \<notin> sha256_digest cd ` set stored"
  proof -
    have "sha256_digest cd ` set stored = re_sha256 ` set (sw_records w)"
      using stores_digest [OF assms(1)] by (metis list.set_map)
    then show ?thesis by (auto simp: locs map_of_eq_None_iff hexdigest_def image_image)
  qed
  show ?thesis
  proof (cases "map_of (sw_locations w) (hexdigest cd data)")
    case (Some l)
    then have "r = Inr l" "fs1 = fs" "w1 = w"
      using assms(2) open_w by (simp_all add: add_record_def)
    moreover have "\<exists>e \<in> set (sw_records w). l = location_of (sw_segment_id w) e
         \<and> re_sha256 e = sha256_digest cd data"
      using map_of_SomeD [OF Some] by (auto simp: locs hexdigest_def)
    ultimately show ?thesis using assms(1) dom Some by auto
  next
    case None
    define st where "st = (if 0 < sw_pending_records w \<and> sw_block_target_bytes w < sw_block_raw_size w + int (length data)
      then flush_block cd (fs, w) else (fs, w))"
    obtain fs2 w2 where st: "st = (fs2, w2)" by (metis prod.exhaust)
    obtain l w3 where ap: "append_record cd data w2 = (l, w3)" by (metis prod.exhaust)
    have "\<exists>ps2. stores cd fs2 w2 ps2 stored \<and> sw_segment_id w2 = sw_segment_id w \<and> sw_records w2 = sw_records w"
      using assms(1) stores_flush [OF assms(1), of fs2 w2] st by (auto simp: st_def split: if_splits)
    then obtain ps2 where s2: "stores cd fs2 w2 ps2 stored" "sw_segment_id w2 = sw_segment_id w"
        "sw_records w2 = sw_records w" by blast
    have new: "sha256_digest cd data \<notin> sha256_digest cd ` set stored" using dom None by simp
    note s3 = stores_append [OF s2(1) ap new]
    have res: "r = Inr l" "fs1 = fs2" "w1 = w3"
      using assms(2) open_w None ap st by (auto simp: add_record_def st_def [symmetric] Let_def)
    obtain e where e: "sw_records w3 = sw_records w2 @ [e]" "l = location_of (sw_segment_id w2) e"
      using s3 by blast
    have "re_sha256 e = sha256_digest cd data"
      using stores_digest [of cd fs2 w3 ps2 "stored @ [data]"] s3 e(1) by simp
    then show ?thesis using s3 s2 e res new by auto
  qed
qed

lemma add_records_stores:
  assumes "stores cd fs w ps stored" and "add_records cd ds (fs, w) = (r, fs1, w1)"
  shows "\<exists>ls ps1 stored1. r = Inr ls \<and> length ls = length ds \<and> stores cd fs1 w1 ps1 stored1
    \<and> sw_segment_id w1 = sw_segment_id w
    \<and> set stored1 \<subseteq> set stored \<union> set ds \<and> set (sw_records w) \<subseteq> set (sw_records w1)
    \<and> (\<forall>i < length ds. \<exists>e \<in> set (sw_records w1). ls ! i = location_of (sw_segment_id w) e
         \<and> re_sha256 e = sha256_digest cd (ds ! i))"
  using assms
proof (induction ds arbitrary: fs w ps stored r)
  case Nil
  then show ?case by auto
next
  case (Cons d ds)
  obtain r1 fs2 w2 where one: "add_record cd d (fs, w) = (r1, fs2, w2)" by (metis prod.exhaust)
  obtain l ps2 where a: "r1 = Inr l" "sw_segment_id w2 = sw_segment_id w"
      "stores cd fs2 w2 ps2 (if sha256_digest cd d \<in> sha256_digest cd ` set stored then stored else stored @ [d])"
      "\<exists>e \<in> set (sw_records w2). l = location_of (sw_segment_id w) e \<and> re_sha256 e = sha256_digest cd d"
      "set (sw_records w) \<subseteq> set (sw_records w2)"
    using add_record_stores [OF Cons.prems(1) one] by blast
  obtain r2 where rest: "add_records cd ds (fs2, w2) = (r2, fs1, w1)" "r = bind_res r2 (\<lambda>ls. Inr (l # ls))"
    using Cons.prems(2) one a(1) by (auto split: prod.splits)
  obtain ls ps1 stored1 where b: "r2 = Inr ls" "length ls = length ds" "stores cd fs1 w1 ps1 stored1"
      "sw_segment_id w1 = sw_segment_id w2"
      "set stored1 \<subseteq> set (if sha256_digest cd d \<in> sha256_digest cd ` set stored then stored else stored @ [d]) \<union> set ds"
      "set (sw_records w2) \<subseteq> set (sw_records w1)"
      "\<forall>i < length ds. \<exists>e \<in> set (sw_records w1). ls ! i = location_of (sw_segment_id w2) e
         \<and> re_sha256 e = sha256_digest cd (ds ! i)"
    using Cons.IH [OF a(3) rest(1)] by blast
  have "\<forall>i < length (d # ds). \<exists>e \<in> set (sw_records w1). (l # ls) ! i = location_of (sw_segment_id w) e
         \<and> re_sha256 e = sha256_digest cd ((d # ds) ! i)"
    using a(2,4) b(6,7) by (auto simp: less_Suc_eq_0_disj)
  moreover have "r = Inr (l # ls)" "length (l # ls) = length (d # ds)" using rest(2) b(1,2) by simp_all
  moreover have "set stored1 \<subseteq> set stored \<union> set (d # ds)" using b(5) by (auto split: if_splits)
  moreover have "sw_segment_id w1 = sw_segment_id w" "set (sw_records w) \<subseteq> set (sw_records w1)"
    using a(2,5) b(4,6) by auto
  ultimately show ?case using b(3) by blast
qed

text \<open>
  A sealed segment file: the frames of the payloads, the footer that describes them, the trailer that
  locates the footer.
\<close>

definition sealed_file :: "codec \<Rightarrow> int \<Rightarrow> bytes list \<Rightarrow> record_entry list \<Rightarrow> bytes \<Rightarrow> bool" where
  "sealed_file cd level ps rs content \<longleftrightarrow>
     (\<exists>footer trailer. content = frames cd level ps @ footer @ trailer
        \<and> encode_footer cd level (block_entries cd level 0 ps) rs = Inr footer
        \<and> encode_trailer (int (length (frames cd level ps))) (int (length footer)) (footer_crc32 footer)
          = Inr trailer)
     \<and> list_all (record_ok cd ps) rs \<and> distinct (map re_sha256 rs)"

lemma record_ok_butlast:
  assumes "record_ok cd (ps @ [buf]) r" and "re_block_no r < int (length ps)"
  shows "record_ok cd ps r \<and> record_data ps r = record_data (ps @ [buf]) r"
  using assms by (auto simp: record_ok_def record_data_def nth_append)

lemma open_zst_neq: "open_name a \<noteq> zst_name b"
proof
  assume "open_name a = zst_name b"
  then have "last (open_name a) = last (zst_name b)" by simp
  then show False by (simp add: open_name_def zst_name_def)
qed

lemma seal_file:
  assumes "stores cd fs w ps stored" and "seal cd (fs, w) = (Inr stats, fs1, w1)"
  shows "\<exists>ps1 content. sealed_file cd (sw_level w1) ps1 (sw_records w) content
    \<and> map_of fs1 (zst_name (sw_segment_id w)) = Some content
    \<and> map_of fs1 (open_name (sw_segment_id w)) = None
    \<and> map (record_data ps1) (sw_records w) = stored
    \<and> (\<forall>n. n \<noteq> zst_name (sw_segment_id w) \<and> n \<noteq> open_name (sw_segment_id w) \<longrightarrow> map_of fs1 n = map_of fs n)
    \<and> st_bytes stats = int (length content) \<and> st_records stats = int (length (sw_records w))
    \<and> st_segment_id stats = sw_segment_id w \<and> sw_sealed w1"
proof -
  have inv: "seg_inv cd fs w ps" using assms(1) by (simp add: stores_def)
  define st where "st = (if 0 < sw_pending_records w then flush_block cd (fs, w) else (fs, w))"
  obtain fs2 w2 where st: "st = (fs2, w2)" by (metis prod.exhaust)
  have "\<exists>ps2. stores cd fs2 w2 ps2 stored \<and> sw_segment_id w2 = sw_segment_id w \<and> sw_records w2 = sw_records w
      \<and> sw_pending_records w2 = 0 \<and> (\<forall>n. n \<noteq> open_name (sw_segment_id w) \<longrightarrow> map_of fs2 n = map_of fs n)"
    using assms(1) stores_flush [OF assms(1), of fs2 w2] st inv
    by (auto simp: st_def seg_inv_def flush_block_def map_of_fs_append Let_def split: if_splits)
  then obtain ps2 where s2: "stores cd fs2 w2 ps2 stored" "sw_segment_id w2 = sw_segment_id w"
      "sw_records w2 = sw_records w" "sw_pending_records w2 = 0"
      "\<forall>n. n \<noteq> open_name (sw_segment_id w) \<longrightarrow> map_of fs2 n = map_of fs n" by blast
  have inv2: "seg_inv cd fs2 w2 ps2" using s2(1) by (simp add: stores_def)
  have recs: "list_all (record_ok cd ps2) (sw_records w)"
    and data: "map (record_data ps2) (sw_records w) = stored"
    using inv2 s2 record_ok_butlast [of cd ps2 "sw_block_buffer w2"]
    by (auto simp: seg_inv_def stores_def payloads_def list_all_iff)
  obtain footer where f: "encode_footer cd (sw_level w2) (sw_blocks w2) (sw_records w2) = Inr footer"
    using assms(2) st inv by (auto simp: seal_def st_def [symmetric] seg_inv_def Let_def split: sum.splits)
  obtain trailer where t: "encode_trailer (sw_position w2) (int (length footer)) (footer_crc32 footer) = Inr trailer"
    using assms(2) st inv f
    by (auto simp: seal_def st_def [symmetric] seg_inv_def Let_def split: sum.splits)
  define content where "content = frames cd (sw_level w2) ps2 @ footer @ trailer"
  have res: "fs1 = fs_put (zst_name (sw_segment_id w)) content
      (fs_del (open_name (sw_segment_id w)) (fs_append (open_name (sw_segment_id w)) trailer
        (fs_append (open_name (sw_segment_id w)) footer fs2)))" "w1 = w2\<lparr>sw_sealed := True\<rparr>"
      "stats = \<lparr>st_segment_id = sw_segment_id w, st_bytes = int (length content),
        st_records = int (length (sw_records w)), st_footer_sha256 = hexdigest cd footer\<rparr>"
    using assms(2) st inv inv2 f t s2(2,3)
    by (auto simp: seal_def st_def [symmetric] seg_inv_def map_of_fs_append content_def Let_def)
  have "sealed_file cd (sw_level w1) ps2 (sw_records w) content"
    using inv2 f t recs s2(3) res(2) by (auto simp: sealed_file_def content_def seg_inv_def)
  then show ?thesis
    using res data s2(5) open_zst_neq by (auto simp: map_of_fs_append)
qed

end
