(* ===== verification/Archive_Reader.thy ===== *)
theory Archive_Reader
  imports Archive_Writer
begin

text \<open>
  \<^verbatim>\<open>archive/reader.py\<close>: reading records back out of sealed segments, with the footer cache and the LRU
  cache of decompressed blocks. The two caches are association lists, the block cache in the order
  of its \<^verbatim>\<open>OrderedDict\<close>, oldest first.
\<close>

record reader =
  rd_block_cache_size :: int
  rd_footers :: "(int \<times> footer) list"
  rd_blocks :: "((int \<times> int) \<times> bytes) list"

definition DEFAULT_BLOCK_CACHE_SIZE :: int where
  "DEFAULT_BLOCK_CACHE_SIZE = 4"

definition new_reader :: "int \<Rightarrow> reader" where
  "new_reader n = \<lparr>rd_block_cache_size = n, rd_footers = [], rd_blocks = []\<rparr>"

text \<open>\<^verbatim>\<open>handle.seek(off); handle.read(n)\<close>, and \<^verbatim>\<open>xs[i]\<close> on a tuple.\<close>

definition file_read :: "int \<Rightarrow> int \<Rightarrow> bytes \<Rightarrow> bytes res" where
  "file_read off n content =
     (if off < 0 then Inl ValueError
      else if n < 0 then Inr (drop (nat off) content)
      else Inr (take (nat n) (drop (nat off) content)))"

definition py_index :: "int \<Rightarrow> 'a list \<Rightarrow> 'a res" where
  "py_index i xs =
     (let n = int (length xs); j = (if i < 0 then i + n else i)
      in if 0 \<le> j \<and> j < n then Inr (xs ! nat j) else Inl IndexError)"

definition open_file :: "int \<Rightarrow> fs \<Rightarrow> bytes res" where
  "open_file segment_id fs =
     (case map_of fs (zst_name segment_id) of None \<Rightarrow> Inl FileNotFoundError | Some c \<Rightarrow> Inr c)"

definition load_footer :: "codec \<Rightarrow> fs \<Rightarrow> int \<Rightarrow> footer res" where
  "load_footer cd fs segment_id =
     bind_res (open_file segment_id fs) (\<lambda>content.
       let size = length content
       in if size < TRAILER_SIZE then Inl (CorruptSegmentError segment_id)
          else bind_res (decode_trailer segment_id (drop (size - TRAILER_SIZE) content))
            (\<lambda>(footer_offset, footer_length, expected_crc).
               if int size < footer_offset + footer_length + int TRAILER_SIZE
               then Inl (CorruptSegmentError segment_id)
               else bind_res (file_read footer_offset footer_length content) (\<lambda>compressed_footer.
                      if footer_crc32 compressed_footer \<noteq> expected_crc
                      then Inl (CorruptSegmentError segment_id)
                      else decode_footer cd segment_id compressed_footer)))"

definition footer_for :: "codec \<Rightarrow> fs \<Rightarrow> int \<Rightarrow> reader \<Rightarrow> footer res \<times> reader" where
  "footer_for cd fs segment_id rdr =
     (case map_of (rd_footers rdr) segment_id of
        Some cached \<Rightarrow> (Inr cached, rdr)
      | None \<Rightarrow>
          (case load_footer cd fs segment_id of
             Inl e \<Rightarrow> (Inl e, rdr)
           | Inr footer \<Rightarrow> (Inr footer, rdr\<lparr>rd_footers := (segment_id, footer) # rd_footers rdr\<rparr>)))"

definition read_block :: "codec \<Rightarrow> fs \<Rightarrow> int \<Rightarrow> int \<Rightarrow> footer \<Rightarrow> bytes res" where
  "read_block cd fs segment_id block_no ft =
     bind_res (py_index block_no (ft_blocks ft)) (\<lambda>entry.
     bind_res (open_file segment_id fs) (\<lambda>content.
     bind_res (file_read (be_offset entry) (be_length entry) content) (\<lambda>compressed.
     decompress_block cd compressed)))"

text \<open>\<^verbatim>\<open>_block_bytes\<close>: a hit moves the entry to the end, a miss appends it and drops the oldest.\<close>

definition block_bytes :: "codec \<Rightarrow> fs \<Rightarrow> int \<Rightarrow> int \<Rightarrow> reader \<Rightarrow> bytes res \<times> reader" where
  "block_bytes cd fs segment_id block_no rdr =
     (let key = (segment_id, block_no)
      in case map_of (rd_blocks rdr) key of
           Some cached \<Rightarrow>
             (Inr cached, rdr\<lparr>rd_blocks := filter (\<lambda>p. fst p \<noteq> key) (rd_blocks rdr) @ [(key, cached)]\<rparr>)
         | None \<Rightarrow>
             (case footer_for cd fs segment_id rdr of
                (Inl e, rdr1) \<Rightarrow> (Inl e, rdr1)
              | (Inr ft, rdr1) \<Rightarrow>
                  (case read_block cd fs segment_id block_no ft of
                     Inl e \<Rightarrow> (Inl e, rdr1)
                   | Inr data \<Rightarrow>
                       (let blocks = rd_blocks rdr1 @ [(key, data)]
                        in (Inr data,
                            rdr1\<lparr>rd_blocks := (if rd_block_cache_size rdr1 < int (length blocks)
                                                 then tl blocks else blocks)\<rparr>)))))"

definition read_location :: "codec \<Rightarrow> fs \<Rightarrow> blob_location \<Rightarrow> reader \<Rightarrow> bytes res \<times> reader" where
  "read_location cd fs location rdr =
     (case block_bytes cd fs (bl_segment_id location) (bl_block_no location) rdr of
        (Inl e, rdr1) \<Rightarrow> (Inl e, rdr1)
      | (Inr block, rdr1) \<Rightarrow>
          (let data = py_slice (bl_offset location) (bl_offset location + bl_length location) block
           in if hexdigest cd data \<noteq> bl_sha256 location
              then (Inl (CorruptSegmentError (bl_segment_id location)), rdr1)
              else (Inr data, rdr1)))"

text \<open>
  \<^verbatim>\<open>iter_records\<close>: the generator run to its end, or the exception that ends it. Every block is read and
  decompressed, and its records are yielded in footer order.
\<close>

definition block_records :: "codec \<Rightarrow> bytes \<Rightarrow> footer \<Rightarrow> nat \<Rightarrow> (string \<times> bytes) list res" where
  "block_records cd content ft i =
     (let entry = ft_blocks ft ! i
      in bind_res (file_read (be_offset entry) (be_length entry) content) (\<lambda>compressed.
         bind_res (decompress_block cd compressed) (\<lambda>payload.
         Inr (map (\<lambda>r. (hex (re_sha256 r), py_slice (re_offset r) (re_offset r + re_length r) payload))
                (filter (\<lambda>r. re_block_no r = int i) (ft_records ft))))))"

definition iter_records :: "codec \<Rightarrow> fs \<Rightarrow> int \<Rightarrow> reader \<Rightarrow> (string \<times> bytes) list res \<times> reader" where
  "iter_records cd fs segment_id rdr =
     (case footer_for cd fs segment_id rdr of
        (Inl e, rdr1) \<Rightarrow> (Inl e, rdr1)
      | (Inr ft, rdr1) \<Rightarrow>
          (bind_res (open_file segment_id fs) (\<lambda>content.
             bind_res (map_res (block_records cd content ft) [0..<length (ft_blocks ft)])
               (\<lambda>rs. Inr (concat rs))), rdr1))"

definition footer_records :: "codec \<Rightarrow> fs \<Rightarrow> int \<Rightarrow> reader
    \<Rightarrow> (string \<times> int \<times> int \<times> int) list res \<times> reader" where
  "footer_records cd fs segment_id rdr =
     (case footer_for cd fs segment_id rdr of
        (Inl e, rdr1) \<Rightarrow> (Inl e, rdr1)
      | (Inr ft, rdr1) \<Rightarrow>
          (Inr (map (\<lambda>r. (hex (re_sha256 r), re_block_no r, re_offset r, re_length r)) (ft_records ft)), rdr1))"

section \<open>The caches are transparent\<close>

text \<open>What a read returns with no cache at all.\<close>

definition load_block :: "codec \<Rightarrow> fs \<Rightarrow> int \<Rightarrow> int \<Rightarrow> bytes res" where
  "load_block cd fs sid no = bind_res (load_footer cd fs sid) (read_block cd fs sid no)"

definition read_uncached :: "codec \<Rightarrow> fs \<Rightarrow> blob_location \<Rightarrow> bytes res" where
  "read_uncached cd fs l =
     bind_res (load_block cd fs (bl_segment_id l) (bl_block_no l)) (\<lambda>block.
       let data = py_slice (bl_offset l) (bl_offset l + bl_length l) block
       in if hexdigest cd data \<noteq> bl_sha256 l then Inl (CorruptSegmentError (bl_segment_id l))
          else Inr data)"

definition cache_ok :: "codec \<Rightarrow> fs \<Rightarrow> reader \<Rightarrow> bool" where
  "cache_ok cd fs rdr \<longleftrightarrow>
     list_all (\<lambda>(sid, ft). load_footer cd fs sid = Inr ft) (rd_footers rdr)
     \<and> list_all (\<lambda>((sid, no), d). load_block cd fs sid no = Inr d) (rd_blocks rdr)
     \<and> distinct (map fst (rd_blocks rdr))
     \<and> int (length (rd_blocks rdr)) \<le> max 0 (rd_block_cache_size rdr)"

lemma new_reader_ok: "cache_ok cd fs (new_reader n)"
  by (simp add: cache_ok_def new_reader_def)

lemma footer_for_cached:
  assumes "cache_ok cd fs rdr" and "footer_for cd fs sid rdr = (r, rdr1)"
  shows "r = load_footer cd fs sid \<and> cache_ok cd fs rdr1 \<and> rd_blocks rdr1 = rd_blocks rdr"
  using assms
  by (auto simp: footer_for_def cache_ok_def list_all_iff split: option.splits sum.splits
      dest!: map_of_SomeD)

lemma length_filter_key:
  assumes "distinct (map fst xs)" and "k \<in> fst ` set xs"
  shows "Suc (length (filter (\<lambda>p. fst p \<noteq> k) xs)) = length xs"
  using assms
proof (induction xs)
  case Nil
  then show ?case by simp
next
  case (Cons x xs)
  have "filter (\<lambda>p. fst p \<noteq> fst x) xs = xs"
    using Cons.prems(1) by (simp add: filter_id_conv) (metis image_eqI)
  then show ?case using Cons by auto
qed

lemma block_bytes_cached:
  assumes "cache_ok cd fs rdr" and "block_bytes cd fs sid no rdr = (r, rdr1)"
  shows "r = load_block cd fs sid no \<and> cache_ok cd fs rdr1"
proof (cases "map_of (rd_blocks rdr) (sid, no)")
  case (Some d)
  let ?rest = "filter (\<lambda>p. fst p \<noteq> (sid, no)) (rd_blocks rdr)"
  have mem: "((sid, no), d) \<in> set (rd_blocks rdr)" using map_of_SomeD [OF Some] .
  then have hit: "load_block cd fs sid no = Inr d"
    using assms(1) by (auto simp: cache_ok_def list_all_iff)
  have len: "length (?rest @ [((sid, no), d)]) = length (rd_blocks rdr)"
    using length_filter_key [of "rd_blocks rdr" "(sid, no)"] mem assms(1)
    by (force simp: cache_ok_def)
  have dist: "distinct (map fst (?rest @ [((sid, no), d)]))"
    using assms(1) by (auto simp: cache_ok_def distinct_map_filter)
  have all: "list_all (\<lambda>((sid, no), d). load_block cd fs sid no = Inr d) (?rest @ [((sid, no), d)])"
    using assms(1) hit by (auto simp: cache_ok_def list_all_iff)
  have "r = Inr d" "rdr1 = rdr\<lparr>rd_blocks := ?rest @ [((sid, no), d)]\<rparr>"
    using assms(2) Some by (simp_all add: block_bytes_def Let_def)
  then show ?thesis
    using assms(1) len dist all hit unfolding cache_ok_def by (simp del: length_append)
next
  case None
  obtain r2 rdr2 where f: "footer_for cd fs sid rdr = (r2, rdr2)" by (metis prod.exhaust)
  note fc = footer_for_cached [OF assms(1) f]
  show ?thesis
  proof (cases "load_block cd fs sid no")
    case (Inl e)
    then show ?thesis using assms(2) None f fc
      by (auto simp: block_bytes_def load_block_def bind_res_def Let_def split: sum.splits)
  next
    case (Inr d)
    let ?bs = "rd_blocks rdr2 @ [((sid, no), d)]"
    obtain ft where ft: "load_footer cd fs sid = Inr ft" "read_block cd fs sid no ft = Inr d"
      using Inr by (auto simp: load_block_def bind_res_Inr_iff)
    have r: "r = Inr d" "rdr1 = rdr2\<lparr>rd_blocks := (if rd_block_cache_size rdr2 < int (length ?bs) then tl ?bs else ?bs)\<rparr>"
      using assms(2) None f fc ft by (auto simp: block_bytes_def Let_def)
    have all: "list_all (\<lambda>((sid, no), d). load_block cd fs sid no = Inr d) ?bs" "distinct (map fst ?bs)"
      using fc Inr None assms(1) by (auto simp: cache_ok_def list_all_iff map_of_eq_None_iff)
    then have "list_all (\<lambda>((sid, no), d). load_block cd fs sid no = Inr d) (tl ?bs)" "distinct (map fst (tl ?bs))"
      by (cases ?bs, auto)+
    then show ?thesis using r all Inr fc by (auto simp: cache_ok_def)
  qed
qed

lemma read_location_cached:
  assumes "cache_ok cd fs rdr" and "read_location cd fs l rdr = (r, rdr1)"
  shows "r = read_uncached cd fs l \<and> cache_ok cd fs rdr1"
proof -
  obtain rb rdr2 where b: "block_bytes cd fs (bl_segment_id l) (bl_block_no l) rdr = (rb, rdr2)"
    by (metis prod.exhaust)
  have lb: "load_block cd fs (bl_segment_id l) (bl_block_no l) = rb" and ok: "cache_ok cd fs rdr2"
    using block_bytes_cached [OF assms(1) b] by simp_all
  show ?thesis
    using assms(2) ok
    by (cases rb) (auto simp: read_location_def read_uncached_def b lb Let_def split: if_splits)
qed

text \<open>Reads in any order, threading the caches.\<close>

fun read_locations :: "codec \<Rightarrow> fs \<Rightarrow> blob_location list \<Rightarrow> reader \<Rightarrow> bytes res list \<times> reader" where
  "read_locations cd fs [] rdr = ([], rdr)"
| "read_locations cd fs (l # ls) rdr =
     (let (r, rdr1) = read_location cd fs l rdr; (rs, rdr2) = read_locations cd fs ls rdr1
      in (r # rs, rdr2))"

lemma read_locations_cached:
  assumes "cache_ok cd fs rdr"
  shows "fst (read_locations cd fs ls rdr) = map (read_uncached cd fs) ls
    \<and> cache_ok cd fs (snd (read_locations cd fs ls rdr))"
  using assms
proof (induction ls arbitrary: rdr)
  case Nil
  then show ?case by simp
next
  case (Cons l ls)
  obtain r rdr1 where one: "read_location cd fs l rdr = (r, rdr1)" by (metis prod.exhaust)
  show ?case using read_location_cached [OF Cons.prems one] Cons.IH [of rdr1] one
    by (simp add: split_beta Let_def)
qed

section \<open>Reading a sealed segment\<close>

lemma load_footer_sealed:
  assumes "codec_ok cd" and "sealed_file cd level ps rs content" and "map_of fs (zst_name sid) = Some content"
  shows "load_footer cd fs sid
    = Inr \<lparr>ft_version = FOOTER_VERSION, ft_blocks = block_entries cd level 0 ps, ft_records = rs\<rparr>"
proof -
  obtain footer trailer where c: "content = frames cd level ps @ footer @ trailer"
      and f: "encode_footer cd level (block_entries cd level 0 ps) rs = Inr footer"
      and t: "encode_trailer (int (length (frames cd level ps))) (int (length footer)) (footer_crc32 footer) = Inr trailer"
    using assms(2) by (auto simp: sealed_file_def)
  have len: "length trailer = TRAILER_SIZE"
    and dec: "decode_trailer sid trailer = Inr (int (length (frames cd level ps)), int (length footer), footer_crc32 footer)"
    using decode_encode_trailer [OF t] by auto
  have "drop (length content - TRAILER_SIZE) content = trailer"
    by (simp add: c len)
  moreover have "file_read (int (length (frames cd level ps))) (int (length footer)) content = Inr footer"
    by (simp add: file_read_def c)
  ultimately show ?thesis
    using dec decode_encode_footer [OF assms(1) f, of sid] assms(3) len
    by (simp add: load_footer_def open_file_def Let_def c)
qed

lemma read_block_sealed:
  assumes "codec_ok cd" and "sealed_file cd level ps rs content" and "map_of fs (zst_name sid) = Some content"
    and "ft_blocks ft = block_entries cd level 0 ps" and "0 \<le> no" and "no < int (length ps)"
  shows "read_block cd fs sid no ft = Inr (ps ! nat no)"
proof -
  let ?i = "nat no"
  have i: "?i < length ps" using assms(5,6) by linarith
  obtain tail where c: "content = frames cd level ps @ tail"
    using assms(2) by (auto simp: sealed_file_def)
  have "file_read (be_offset (ft_blocks ft ! ?i)) (be_length (ft_blocks ft ! ?i)) content
      = Inr (compress_block cd level (ps ! ?i))"
    using nth_block_entries [OF i, of cd level 0] frames_nth [OF i, of cd level]
    by (simp add: assms(4) c file_read_def)
  then show ?thesis
    using assms i
    by (simp add: read_block_def py_index_def open_file_def decompress_block_def compress_block_def
        codec_ok_def Let_def)
qed

lemma load_block_sealed:
  assumes "codec_ok cd" and "sealed_file cd level ps rs content" and "map_of fs (zst_name sid) = Some content"
    and "0 \<le> no" and "no < int (length ps)"
  shows "load_block cd fs sid no = Inr (ps ! nat no)"
  using load_footer_sealed [OF assms(1-3)] read_block_sealed [OF assms(1-3) _ assms(4,5)]
  by (simp add: load_block_def)

lemma read_sealed_record:
  assumes "codec_ok cd" and "sealed_file cd level ps rs content" and "map_of fs (zst_name sid) = Some content"
    and "e \<in> set rs"
  shows "read_uncached cd fs (location_of sid e) = Inr (record_data ps e)"
proof -
  have ok: "record_ok cd ps e" using assms(2,4) by (auto simp: sealed_file_def list_all_iff)
  then have "load_block cd fs sid (re_block_no e) = Inr (ps ! nat (re_block_no e))"
    using load_block_sealed [OF assms(1-3)] by (simp add: record_ok_def)
  then show ?thesis using ok
    by (simp add: read_uncached_def location_of_def record_ok_def record_data_def hexdigest_def Let_def)
qed

section \<open>Properties of the segment store\<close>

text \<open>
  What is added to a segment can be read back once it is sealed: after any list of records is
  added to a new segment and the segment is sealed, reading the locations that \<^verbatim>\<open>add\<close> returned, in any
  order and through any warm or cold cache, returns exactly the added bytes (the records' digests do
  not collide).
\<close>

theorem read_back_after_seal:
  assumes "codec_ok cd" and "inj_on (sha256_digest cd) (set ds)"
    and "open_segment bt lv sb sa now sid fs0 = Inr (fs1, w1)"
    and "add_records cd ds (fs1, w1) = (Inr ls, fs2, w2)" and "seal cd (fs2, w2) = (Inr stats, fs3, w3)"
    and "cache_ok cd fs3 rdr"
  shows "length ls = length ds
    \<and> (\<forall>is. list_all (\<lambda>i. i < length ds) is
         \<longrightarrow> fst (read_locations cd fs3 (map ((!) ls) is) rdr) = map (\<lambda>i. Inr (ds ! i)) is)"
proof -
  have "stores cd fs1 w1 [] []" and sid: "sw_segment_id w1 = sid"
    using init_writer_inv [OF assms(3)] by (simp_all add: stores_def)
  then obtain ps2 stored2 where s2: "stores cd fs2 w2 ps2 stored2" "length ls = length ds"
      "sw_segment_id w2 = sid" "set stored2 \<subseteq> set ds"
      "\<forall>i < length ds. \<exists>e \<in> set (sw_records w2). ls ! i = location_of sid e
         \<and> re_sha256 e = sha256_digest cd (ds ! i)"
    using add_records_stores [OF _ assms(4)] by fastforce
  obtain ps3 content where s3: "sealed_file cd (sw_level w3) ps3 (sw_records w2) content"
      "map_of fs3 (zst_name sid) = Some content" "map (record_data ps3) (sw_records w2) = stored2"
    using seal_file [OF s2(1) assms(5)] s2(3) by metis
  have one: "read_uncached cd fs3 (ls ! i) = Inr (ds ! i)" if i: "i < length ds" for i
  proof -
    obtain e where e: "e \<in> set (sw_records w2)" "ls ! i = location_of sid e"
        "re_sha256 e = sha256_digest cd (ds ! i)"
      using s2(5) i by blast
    have "record_ok cd ps3 e" using s3(1) e(1) by (auto simp: sealed_file_def list_all_iff)
    then have "sha256_digest cd (record_data ps3 e) = sha256_digest cd (ds ! i)"
      using e(3) by (simp add: record_ok_def)
    moreover have "record_data ps3 e \<in> set ds" using s3(3) e(1) s2(4) by auto
    ultimately have "record_data ps3 e = ds ! i"
      using assms(2) i by (auto dest: inj_onD)
    then show ?thesis using read_sealed_record [OF assms(1) s3(1,2) e(1)] e(2) by simp
  qed
  have "fst (read_locations cd fs3 (map ((!) ls) is) rdr) = map (\<lambda>i. Inr (ds ! i)) is"
    if "list_all (\<lambda>i. i < length ds) is" for "is"
    using read_locations_cached [OF assms(6), of "map ((!) ls) is"] that one by (simp add: list_all_iff)
  then show ?thesis using s2(2) by blast
qed

definition demo_codec :: codec where
  "demo_codec = plain_codec (footer_doc
     [\<lparr>be_offset = 0, be_length = 2, be_raw_length = 2\<rparr>, \<lparr>be_offset = 2, be_length = 1, be_raw_length = 1\<rparr>]
     [\<lparr>re_sha256 = le_bytes 32 513, re_block_no = 0, re_offset = 0, re_length = 2\<rparr>,
      \<lparr>re_sha256 = le_bytes 32 3, re_block_no = 1, re_offset = 0, re_length = 1\<rparr>])"

definition demo_opened :: "fs \<times> seg_writer" where
  "demo_opened = (fs_put (open_name 7) [] [], init_writer 2 10 100 60 0 7)"

definition demo_added :: "blob_location list res \<times> fs \<times> seg_writer" where
  "demo_added = add_records demo_codec [[1, 2], [3]] demo_opened"

definition demo_sealed :: "segment_stats res \<times> fs \<times> seg_writer" where
  "demo_sealed = seal demo_codec (snd demo_added)"

lemma demo_segment:
  "is_ok (fst demo_added)" "is_ok (fst demo_sealed)" "codec_ok demo_codec"
  "inj_on (sha256_digest demo_codec) (set [[1, 2], [3]])"
  "open_segment 2 10 100 60 0 7 [] = Inr demo_opened"
proof -
  show "is_ok (fst demo_added)" and "is_ok (fst demo_sealed)" by code_simp+
  show "codec_ok demo_codec" by (simp add: demo_codec_def plain_codec_ok)
  have "sha256_digest demo_codec [1, 2] \<noteq> sha256_digest demo_codec [3]" by code_simp
  then show "inj_on (sha256_digest demo_codec) (set [[1, 2], [3]])" by auto
  show "open_segment 2 10 100 60 0 7 [] = Inr demo_opened"
    by (simp add: open_segment_def demo_opened_def)
qed

text \<open>
  The LRU block cache and the footer cache are invisible: as long as the segment files do not
  change, every sequence of reads returns what reads without any cache return, errors included, and
  the cache never holds more than \<^verbatim>\<open>block_cache_size\<close> blocks.
\<close>

theorem caches_are_transparent:
  "fst (read_locations cd fs ls (new_reader n)) = map (read_uncached cd fs) ls
   \<and> int (length (rd_blocks (snd (read_locations cd fs ls (new_reader n))))) \<le> max 0 n"
proof -
  have "rd_block_cache_size (snd (read_locations cd fs ls rdr)) = rd_block_cache_size rdr" for rdr
  proof (induction ls arbitrary: rdr)
    case (Cons l ls)
    have "rd_block_cache_size (snd (read_location cd fs l rdr)) = rd_block_cache_size rdr"
      by (auto simp: read_location_def block_bytes_def footer_for_def Let_def
          split: prod.splits sum.splits option.splits)
    then show ?case using Cons by (simp add: split_beta Let_def)
  qed simp
  then show ?thesis
    using read_locations_cached [OF new_reader_ok, of cd fs ls n]
    by (simp add: cache_ok_def new_reader_def)
qed

end
