(* ===== verification/Archive_Store.thy ===== *)
theory Archive_Store
  imports Archive_Reader
begin

text \<open>
  \<^verbatim>\<open>archive/store.py\<close> and \<^verbatim>\<open>archive/verify.py\<close>: the facade over the segments directory and the
  \<^verbatim>\<open>segments\<close>/\<^verbatim>\<open>blobs\<close> tables, recovery of stale open segments, and the read-only integrity pass.
  Every statement the store executes is committed at once, so the tables are part of its state.
\<close>

record archive_store =
  as_fs :: fs
  as_db :: database
  as_writer :: "seg_writer option"
  as_reader :: reader

section \<open>Segment ids\<close>

definition is_digit :: "char \<Rightarrow> bool" where
  "is_digit c = (48 \<le> (of_char c :: nat) \<and> of_char c \<le> (57 :: nat))"

definition digits_value :: "string \<Rightarrow> int" where
  "digits_value s = fold (\<lambda>c n. n * 10 + (of_char c - 48)) s 0"

text \<open>\<^verbatim>\<open>int(text)\<close> on plain decimal digits, \<^verbatim>\<open>ValueError\<close> on anything else.\<close>

definition py_int :: "string \<Rightarrow> int res" where
  "py_int s = (if s \<noteq> [] \<and> list_all is_digit s then Inr (digits_value s) else Inl ValueError)"

text \<open>\<^verbatim>\<open>_SEGMENT_FILENAME\<close>: six digits and one of the two suffixes.\<close>

definition segment_filename :: "string \<Rightarrow> int option" where
  "segment_filename name =
     (if list_all is_digit (take 6 name) \<and> length (take 6 name) = 6
         \<and> drop 6 name \<in> {''.open'', ''.zst''}
      then Some (digits_value (take 6 name)) else None)"

definition next_segment_id :: "archive_store \<Rightarrow> int" where
  "next_segment_id s =
     (let max_db = fold max (map sg_id (segments (as_db s))) (-1);
          max_file = fold (\<lambda>(name, _) m. case segment_filename name of None \<Rightarrow> m | Some i \<Rightarrow> max m i)
            (as_fs s) (-1)
      in max max_db max_file + 1)"

section \<open>Operations\<close>

definition location_for :: "string \<Rightarrow> archive_store \<Rightarrow> blob_location option" where
  "location_for sha256 s =
     map_option (\<lambda>b. \<lparr>bl_sha256 = sha256, bl_segment_id = b_segment_id b, bl_block_no = b_block_no b,
                     bl_offset = b_offset b, bl_length = b_length b\<rparr>)
       (sql_get b_sha256 sha256 (blobs (as_db s)))"

definition store_get :: "codec \<Rightarrow> string \<Rightarrow> archive_store \<Rightarrow> bytes res \<times> archive_store" where
  "store_get cd sha256 s =
     (case location_for sha256 s of
        None \<Rightarrow> (Inl KeyError, s)
      | Some location \<Rightarrow>
          (case read_location cd (as_fs s) location (as_reader s) of
             (r, rdr) \<Rightarrow> (r, s\<lparr>as_reader := rdr\<rparr>)))"

definition open_writer :: "real \<Rightarrow> archive_store \<Rightarrow> seg_writer res \<times> archive_store" where
  "open_writer now s =
     (let segment_id = next_segment_id s;
          row = \<lparr>sg_id = segment_id, sg_sealed_at = None, sg_bytes = None, sg_records = None,
            sg_footer_sha = None\<rparr>
      in if segment_id \<in> sg_id ` set (segments (as_db s)) then (Inl IntegrityError, s)
         else let s1 = s\<lparr>as_db := (as_db s)\<lparr>segments := segments (as_db s) @ [row]\<rparr>\<rparr>
              in case open_segment DEFAULT_BLOCK_TARGET_BYTES DEFAULT_LEVEL DEFAULT_SEAL_BYTES
                        DEFAULT_SEAL_AFTER_SECONDS now segment_id (as_fs s1) of
                   Inl e \<Rightarrow> (Inl e, s1)
                 | Inr (fs, w) \<Rightarrow> (Inr w, s1\<lparr>as_fs := fs, as_writer := Some w\<rparr>))"

definition current_writer :: "real \<Rightarrow> archive_store \<Rightarrow> seg_writer res \<times> archive_store" where
  "current_writer now s =
     (case as_writer s of None \<Rightarrow> open_writer now s | Some w \<Rightarrow> (Inr w, s))"

definition insert_or_ignore_blob :: "blob_location \<Rightarrow> database \<Rightarrow> database res" where
  "insert_or_ignore_blob l db =
     (if bl_sha256 l \<in> b_sha256 ` set (blobs db) then Inr db
      else if bl_segment_id l \<notin> sg_id ` set (segments db) then Inl IntegrityError
      else Inr (db\<lparr>blobs := blobs db @ [\<lparr>b_sha256 = bl_sha256 l, b_segment_id = bl_segment_id l,
             b_block_no = bl_block_no l, b_offset = bl_offset l, b_length = bl_length l\<rparr>]\<rparr>))"

definition store_add :: "codec \<Rightarrow> real \<Rightarrow> bytes \<Rightarrow> archive_store \<Rightarrow> blob_location res \<times> archive_store" where
  "store_add cd now data s =
     (case current_writer now s of
        (Inl e, s1) \<Rightarrow> (Inl e, s1)
      | (Inr w, s1) \<Rightarrow>
          (case add_record cd data (as_fs s1, w) of
             (Inl e, fs, w1) \<Rightarrow> (Inl e, s1\<lparr>as_fs := fs, as_writer := Some w1\<rparr>)
           | (Inr location, fs, w1) \<Rightarrow>
               (let s2 = s1\<lparr>as_fs := fs, as_writer := Some w1\<rparr>
                in case insert_or_ignore_blob location (as_db s2) of
                     Inl e \<Rightarrow> (Inl e, s2)
                   | Inr db \<Rightarrow> (Inr location, s2\<lparr>as_db := db\<rparr>))))"

definition update_sealed :: "iso_time \<Rightarrow> segment_stats \<Rightarrow> database \<Rightarrow> database" where
  "update_sealed now stats db =
     db\<lparr>segments := sql_update (\<lambda>r. sg_id r = st_segment_id stats)
          (\<lambda>r. r\<lparr>sg_sealed_at := Some now, sg_bytes := Some (st_bytes stats),
                 sg_records := Some (st_records stats), sg_footer_sha := Some (st_footer_sha256 stats)\<rparr>)
          (segments db)\<rparr>"

text \<open>\<^verbatim>\<open>seal_writer\<close> on the store's current writer.\<close>

definition seal_writer :: "codec \<Rightarrow> iso_time \<Rightarrow> archive_store \<Rightarrow> segment_stats res \<times> archive_store" where
  "seal_writer cd now s =
     (case as_writer s of None \<Rightarrow> (Inl PyTypeError, s)
      | Some w \<Rightarrow>
          (case seal cd (as_fs s, w) of
             (Inl e, fs, w1) \<Rightarrow> (Inl e, s\<lparr>as_fs := fs, as_writer := Some w1\<rparr>)
           | (Inr stats, fs, w1) \<Rightarrow>
               (Inr stats, s\<lparr>as_fs := fs, as_db := update_sealed now stats (as_db s), as_writer := None\<rparr>)))"

definition sealed_segment_ids :: "database \<Rightarrow> int list" where
  "sealed_segment_ids db = sort (map sg_id (filter (\<lambda>r. sg_sealed_at r \<noteq> None) (segments db)))"

definition blob_rows_for_segment :: "int \<Rightarrow> database \<Rightarrow> (string \<times> int \<times> int \<times> int) list" where
  "blob_rows_for_segment segment_id db =
     map (\<lambda>b. (b_sha256 b, b_block_no b, b_offset b, b_length b))
       (sort_key b_sha256 (filter (\<lambda>b. b_segment_id b = segment_id) (blobs db)))"

definition is_sealed :: "int \<Rightarrow> database \<Rightarrow> bool" where
  "is_sealed segment_id db =
     (case sql_get sg_id segment_id (segments db) of None \<Rightarrow> False | Some r \<Rightarrow> sg_sealed_at r \<noteq> None)"

text \<open>The constructor's recovery: files ending in \<^verbatim>\<open>.open\<close>, in name order.\<close>

definition ends_with :: "string \<Rightarrow> string \<Rightarrow> bool" where
  "ends_with suffix s = (length suffix \<le> length s \<and> drop (length s - length suffix) s = suffix)"

definition recover_file :: "database \<Rightarrow> string \<Rightarrow> fs \<Rightarrow> fs res" where
  "recover_file db name fs =
     bind_res (py_int (take (length name - 5) name))
       (\<lambda>segment_id. Inr (if is_sealed segment_id db then fs else fs_put name [] fs))"

definition recover_stale_open_segments :: "archive_store \<Rightarrow> archive_store res" where
  "recover_stale_open_segments s =
     bind_res (fold_res (recover_file (as_db s))
                 (sort (filter (ends_with ''.open'') (remdups (map fst (as_fs s))))) (as_fs s))
       (\<lambda>fs. Inr (s\<lparr>as_fs := fs\<rparr>))"

definition new_store :: "fs \<Rightarrow> database \<Rightarrow> bool \<Rightarrow> archive_store res" where
  "new_store fs db recover =
     (let s = \<lparr>as_fs = fs, as_db = db, as_writer = None, as_reader = new_reader DEFAULT_BLOCK_CACHE_SIZE\<rparr>
      in if recover then recover_stale_open_segments s else Inr s)"

section \<open>Verification of an archive\<close>

datatype verify_problem =
    Unreadable int py_exn
  | Bad_bytes int string string
  | No_blobs_row int string
  | Position_mismatch int string
  | No_footer_record int string

text \<open>A dict comprehension: the key keeps its first place, the value is the last one.\<close>

definition py_dict :: "('k \<times> 'v) list \<Rightarrow> ('k \<times> 'v) list" where
  "py_dict kvs = map (\<lambda>k. (k, the (map_of (rev kvs) k))) (rev (remdups (rev (map fst kvs))))"

fun is_os_error :: "py_exn \<Rightarrow> bool" where
  "is_os_error FileNotFoundError = True"
| "is_os_error FileExistsError = True"
| "is_os_error _ = False"

fun is_corrupt :: "py_exn \<Rightarrow> bool" where
  "is_corrupt (CorruptSegmentError i) = True"
| "is_corrupt _ = False"

definition compare_positions ::
    "int \<Rightarrow> (string \<times> int \<times> int \<times> int) list \<Rightarrow> (string \<times> int \<times> int \<times> int) list \<Rightarrow> verify_problem list" where
  "compare_positions segment_id footer_positions blob_positions =
     concat (map (\<lambda>(sha256, position).
         case map_of blob_positions sha256 of
           None \<Rightarrow> [No_blobs_row segment_id sha256]
         | Some p \<Rightarrow> if p \<noteq> position then [Position_mismatch segment_id sha256] else [])
       footer_positions)
     @ map (\<lambda>(sha256, _). No_footer_record segment_id sha256)
         (filter (\<lambda>(sha256, _). map_of footer_positions sha256 = None) blob_positions)"

definition verify_segment :: "codec \<Rightarrow> int \<Rightarrow> archive_store \<Rightarrow> verify_problem list res \<times> archive_store" where
  "verify_segment cd segment_id s =
     (let handle = (\<lambda>e s1. (if is_corrupt e \<or> is_os_error e then Inr [Unreadable segment_id e] else Inl e, s1))
      in case footer_records cd (as_fs s) segment_id (as_reader s) of
           (Inl e, rdr1) \<Rightarrow> handle e (s\<lparr>as_reader := rdr1\<rparr>)
         | (Inr footer_entries, rdr1) \<Rightarrow>
             (case iter_records cd (as_fs s) segment_id rdr1 of
                (Inl e, rdr2) \<Rightarrow> handle e (s\<lparr>as_reader := rdr2\<rparr>)
              | (Inr recs, rdr2) \<Rightarrow>
                  (Inr (map (\<lambda>(claimed, data). Bad_bytes segment_id claimed (hexdigest cd data))
                          (filter (\<lambda>(claimed, data). hexdigest cd data \<noteq> claimed) recs)
                        @ compare_positions segment_id (py_dict footer_entries)
                            (py_dict (blob_rows_for_segment segment_id (as_db s)))),
                   s\<lparr>as_reader := rdr2\<rparr>)))"

fun verify_segments :: "codec \<Rightarrow> int list \<Rightarrow> archive_store \<Rightarrow> verify_problem list res \<times> archive_store" where
  "verify_segments cd [] s = (Inr [], s)"
| "verify_segments cd (i # is) s =
     (case verify_segment cd i s of
        (Inl e, s1) \<Rightarrow> (Inl e, s1)
      | (Inr ps, s1) \<Rightarrow>
          (case verify_segments cd is s1 of (r, s2) \<Rightarrow> (bind_res r (\<lambda>qs. Inr (ps @ qs)), s2)))"

definition verify_archive :: "codec \<Rightarrow> int option \<Rightarrow> archive_store \<Rightarrow> verify_problem list res \<times> archive_store" where
  "verify_archive cd only s =
     verify_segments cd (case only of None \<Rightarrow> sealed_segment_ids (as_db s) | Some i \<Rightarrow> [i]) s"

section \<open>Names and ids\<close>

lemma digit_char: "i < 10 \<Longrightarrow> is_digit (char_of (48 + i)) \<and> (of_char (char_of (48 + i :: nat)) :: int) - 48 = int i"
proof -
  assume "i < 10"
  then have "(of_char (char_of (48 + i :: nat)) :: nat) = 48 + i" by (simp add: of_char_of)
  moreover have "(of_char (char_of (48 + i :: nat)) :: int) = int (of_char (char_of (48 + i :: nat)))"
    by (metis of_nat_of_char)
  ultimately show ?thesis using \<open>i < 10\<close> by (simp add: is_digit_def)
qed

lemma dec_digits_facts:
  "list_all is_digit (dec_digits n) \<and> dec_digits n \<noteq> [] \<and> digits_value (dec_digits n) = int n
    \<and> (\<forall>k. 1 \<le> k \<longrightarrow> n < 10 ^ k \<longrightarrow> length (dec_digits n) \<le> k)"
proof (induction n rule: dec_digits.induct)
  case (1 n)
  show ?case
  proof (cases "n < 10")
    case True
    then show ?thesis using digit_char [of n] by (simp add: dec_digits.simps [of n] digits_value_def)
  next
    case False
    have len: "length (dec_digits n) \<le> k" if "1 \<le> k" "n < 10 ^ k" for k
    proof -
      note k = that
      obtain j where j: "k = Suc j" using k(1) by (cases k) auto
      have "n div 10 < 10 ^ j" using k(2) j by (simp add: less_mult_imp_div_less mult.commute)
      moreover have "1 \<le> j" using k(2) j False by (cases j) auto
      ultimately show ?thesis using 1 [OF False] j False by (simp add: dec_digits.simps [of n])
    qed
    have "int (n div 10) * 10 + int (n mod 10) = int n"
      by (metis div_mult_mod_eq of_nat_add of_nat_mult of_nat_numeral)
    then show ?thesis
      using 1 [OF False] False digit_char [of "n mod 10"] len
      by (simp add: dec_digits.simps [of n] digits_value_def)
  qed
qed

lemma digits_value_zeros: "digits_value (replicate k (CHR ''0'') @ s) = digits_value s"
  by (induction k) (simp_all add: digits_value_def)

lemma fmt_06d_facts:
  assumes "0 \<le> i"
  shows "list_all is_digit (fmt_06d i)" and "digits_value (fmt_06d i) = i"
    and "i < 1000000 \<Longrightarrow> length (fmt_06d i) = 6"
proof -
  note d = dec_digits_facts [of "nat i"]
  have "is_digit (CHR ''0'')" by (simp add: is_digit_def)
  then show "list_all is_digit (fmt_06d i)" and "digits_value (fmt_06d i) = i"
    using assms d by (auto simp: fmt_06d_def zero_pad_def digits_value_zeros list_all_iff)
  show "length (fmt_06d i) = 6" if "i < 1000000"
  proof -
    have "length (dec_digits (nat i)) \<le> 6"
      using d that assms by (auto dest!: conjunct2 spec [of _ "6 :: nat"])
    then show ?thesis using assms by (simp add: fmt_06d_def zero_pad_def)
  qed
qed

lemma open_name_inj: "0 \<le> i \<Longrightarrow> 0 \<le> j \<Longrightarrow> open_name i = open_name j \<longleftrightarrow> i = j"
  by (auto simp: open_name_def dest: fmt_06d_facts(2)) (metis fmt_06d_facts(2))

lemma zst_name_inj: "0 \<le> i \<Longrightarrow> 0 \<le> j \<Longrightarrow> zst_name i = zst_name j \<longleftrightarrow> i = j"
  by (auto simp: zst_name_def) (metis fmt_06d_facts(2))

lemma segment_filename_names:
  assumes "0 \<le> i" and "i < 1000000"
  shows "segment_filename (open_name i) = Some i" and "segment_filename (zst_name i) = Some i"
  using fmt_06d_facts [OF assms(1)] assms(2)
  by (simp_all add: segment_filename_def open_name_def zst_name_def)

lemma fold_max_ge: "a \<le> fold max xs (a :: int) \<and> (\<forall>x \<in> set xs. x \<le> fold max xs a)"
proof (induction xs arbitrary: a)
  case Nil
  then show ?case by simp
next
  case (Cons x xs)
  have "a \<le> max x a" "x \<le> max x a" by simp_all
  then show ?case using Cons [of "max x a"] by (auto intro: order_trans)
qed

lemma fold_file_ge:
  "a \<le> fold (\<lambda>(n, _) m. case f n of None \<Rightarrow> m | Some i \<Rightarrow> max m i) xs (a :: int)
   \<and> (\<forall>n \<in> fst ` set xs. \<forall>i. f n = Some i
        \<longrightarrow> i \<le> fold (\<lambda>(n, _) m. case f n of None \<Rightarrow> m | Some i \<Rightarrow> max m i) xs a)"
proof (induction xs arbitrary: a)
  case Nil
  then show ?case by simp
next
  case (Cons x xs)
  obtain n c where x: "x = (n, c)" by (metis prod.exhaust)
  define a' where "a' = (case f n of None \<Rightarrow> a | Some i \<Rightarrow> max a i)"
  have "a \<le> a'" "\<forall>i. f n = Some i \<longrightarrow> i \<le> a'" by (auto simp: a'_def split: option.splits)
  then show ?case using Cons [of a'] by (auto simp: x a'_def [symmetric] intro: order_trans)
qed

lemma next_segment_id_fresh:
  "-1 < next_segment_id s \<and> (\<forall>r \<in> set (segments (as_db s)). sg_id r < next_segment_id s)
   \<and> (\<forall>n \<in> fst ` set (as_fs s). \<forall>i. segment_filename n = Some i \<longrightarrow> i < next_segment_id s)"
  using fold_max_ge [of "-1" "map sg_id (segments (as_db s))"] fold_file_ge [of "-1" segment_filename "as_fs s"]
  by (fastforce simp: next_segment_id_def Let_def)

section \<open>The store's invariant\<close>

text \<open>
  Ghost state: \<open>D\<close> is the set of all data added so far. A segment row is sealed, with a sealed file, or
  the one of the current writer, or one that a crash left behind and that holds nothing; every \<^verbatim>\<open>blobs\<close>
  row is the position of a record of its segment.
\<close>

definition blob_of :: "int \<Rightarrow> record_entry \<Rightarrow> blob_row" where
  "blob_of sid e = \<lparr>b_sha256 = hex (re_sha256 e), b_segment_id = sid, b_block_no = re_block_no e,
     b_offset = re_offset e, b_length = re_length e\<rparr>"

definition sealed_view :: "codec \<Rightarrow> bytes set \<Rightarrow> fs \<Rightarrow> int \<Rightarrow> record_entry list \<Rightarrow> bool" where
  "sealed_view cd D fs sid rs \<longleftrightarrow> (\<exists>level ps content. map_of fs (zst_name sid) = Some content
     \<and> sealed_file cd level ps rs content \<and> record_data ps ` set rs \<subseteq> D)"

definition open_view :: "codec \<Rightarrow> bytes set \<Rightarrow> archive_store \<Rightarrow> int \<Rightarrow> record_entry list \<Rightarrow> bool" where
  "open_view cd D s sid rs \<longleftrightarrow> (\<exists>w ps stored. as_writer s = Some w \<and> sw_segment_id w = sid
     \<and> stores cd (as_fs s) w ps stored \<and> set stored \<subseteq> D \<and> rs = sw_records w)"

definition segment_view :: "codec \<Rightarrow> bytes set \<Rightarrow> archive_store \<Rightarrow> int \<Rightarrow> record_entry list \<Rightarrow> bool" where
  "segment_view cd D s sid rs \<longleftrightarrow>
     (if is_sealed sid (as_db s) then sealed_view cd D (as_fs s) sid rs
      else if sid \<in> sw_segment_id ` set_option (as_writer s) then open_view cd D s sid rs \<and> map_of (as_fs s) (zst_name sid) = None
      else rs = [])"

definition store_inv :: "codec \<Rightarrow> bytes set \<Rightarrow> archive_store \<Rightarrow> bool" where
  "store_inv cd D s \<longleftrightarrow>
     distinct (map sg_id (segments (as_db s)))
     \<and> (\<forall>r \<in> set (segments (as_db s)). 0 \<le> sg_id r \<and> (\<exists>rs. segment_view cd D s (sg_id r) rs))
     \<and> (\<forall>w. as_writer s = Some w \<longrightarrow> sw_segment_id w \<in> sg_id ` set (segments (as_db s))
              \<and> \<not> is_sealed (sw_segment_id w) (as_db s))
     \<and> (\<forall>b \<in> set (blobs (as_db s)). b_segment_id b \<in> sg_id ` set (segments (as_db s))
          \<and> (\<exists>rs e. segment_view cd D s (b_segment_id b) rs \<and> e \<in> set rs \<and> b = blob_of (b_segment_id b) e))
     \<and> distinct (map b_sha256 (blobs (as_db s)))
     \<and> cache_ok cd (as_fs s) (as_reader s)
     \<and> (\<forall>i \<ge> 0. (open_name i \<in> dom (map_of (as_fs s)) \<or> zst_name i \<in> dom (map_of (as_fs s)))
          \<longrightarrow> i \<in> sg_id ` set (segments (as_db s)))"

lemma store_inv_row:
  "store_inv cd D s \<Longrightarrow> i \<in> sg_id ` set (segments (as_db s)) \<Longrightarrow> 0 \<le> i \<and> (\<exists>rs. segment_view cd D s i rs)"
  by (auto simp: store_inv_def)

lemma store_inv_blob:
  "store_inv cd D s \<Longrightarrow> b \<in> set (blobs (as_db s)) \<Longrightarrow> b_segment_id b \<in> sg_id ` set (segments (as_db s))
    \<and> (\<exists>rs e. segment_view cd D s (b_segment_id b) rs \<and> e \<in> set rs \<and> b = blob_of (b_segment_id b) e)"
  by (simp add: store_inv_def)

lemma store_inv_name:
  "store_inv cd D s \<Longrightarrow> 0 \<le> i
    \<Longrightarrow> open_name i \<in> dom (map_of (as_fs s)) \<or> zst_name i \<in> dom (map_of (as_fs s))
    \<Longrightarrow> i \<in> sg_id ` set (segments (as_db s))"
  by (auto simp: store_inv_def)

lemma cache_ok_fs:
  assumes "cache_ok cd fs rdr"
    and "\<And>sid c. map_of fs (zst_name sid) = Some c \<Longrightarrow> map_of fs' (zst_name sid) = Some c"
  shows "cache_ok cd fs' rdr"
proof -
  have f: "load_footer cd fs' sid = Inr ft" if "load_footer cd fs sid = Inr ft" for sid ft
    using that assms(2) [of sid] by (auto simp: load_footer_def open_file_def split: option.splits)
  have b: "load_block cd fs' sid no = Inr d" if "load_block cd fs sid no = Inr d" for sid no d
    using that f assms(2) [of sid]
    by (auto simp: load_block_def read_block_def open_file_def bind_res_Inr_iff split: option.splits)
  show ?thesis using assms(1) f b by (auto simp: cache_ok_def list_all_iff)
qed

lemma sealed_view_fs:
  "sealed_view cd D fs sid rs \<Longrightarrow> map_of fs' (zst_name sid) = map_of fs (zst_name sid) \<Longrightarrow> D \<subseteq> E
    \<Longrightarrow> sealed_view cd E fs' sid rs"
  by (fastforce simp: sealed_view_def)

text \<open>Opening a segment always succeeds and keeps the invariant.\<close>

lemma open_writer_ok:
  assumes "store_inv cd D s" and "as_writer s = None"
  shows "\<exists>w. open_writer now s = (Inr w, s\<lparr>as_fs := fs_put (open_name (next_segment_id s)) [] (as_fs s),
       as_db := (as_db s)\<lparr>segments := segments (as_db s) @ [\<lparr>sg_id = next_segment_id s, sg_sealed_at = None,
         sg_bytes = None, sg_records = None, sg_footer_sha = None\<rparr>]\<rparr>, as_writer := Some w\<rparr>)
     \<and> w = init_writer DEFAULT_BLOCK_TARGET_BYTES DEFAULT_LEVEL DEFAULT_SEAL_BYTES
             DEFAULT_SEAL_AFTER_SECONDS now (next_segment_id s)"
proof -
  have fresh: "next_segment_id s \<notin> sg_id ` set (segments (as_db s))" "0 \<le> next_segment_id s"
    using next_segment_id_fresh [of s] by auto
  then have "open_name (next_segment_id s) \<notin> dom (map_of (as_fs s))"
    using assms(1) by (auto simp: store_inv_def)
  then have "open_name (next_segment_id s) \<notin> fst ` set (as_fs s)"
    by (simp add: dom_map_of_conv_image_fst)
  then show ?thesis using fresh(1) by (simp add: open_writer_def open_segment_def Let_def)
qed

lemma is_sealed_append:
  "is_sealed i (db\<lparr>segments := segments db @ [r]\<rparr>)
    = (if i \<in> sg_id ` set (segments db) then is_sealed i db else sg_id r = i \<and> sg_sealed_at r \<noteq> None)"
proof (cases "sql_get sg_id i (segments db)")
  case None
  then have "i \<notin> sg_id ` set (segments db)" by (simp add: sql_get_None)
  then show ?thesis using None by (simp add: is_sealed_def sql_get_append sql_get_single)
next
  case (Some x)
  then have "i \<in> sg_id ` set (segments db)" by (metis option.distinct(1) sql_get_None list.set_map)
  then show ?thesis using Some by (simp add: is_sealed_def sql_get_append)
qed

lemma stores_init:
  "map_of fs (open_name sid) = Some [] \<Longrightarrow> stores cd fs (init_writer bt lv sb sa now sid) [] []"
  by (simp add: stores_def seg_inv_def init_writer_def frames_def)

lemma open_writer_inv:
  assumes "store_inv cd D s" and "as_writer s = None" and "open_writer now s = (r, s1)"
  shows "store_inv cd D s1 \<and> (\<exists>w. r = Inr w \<and> as_writer s1 = Some w) \<and> as_db s1
    = (as_db s)\<lparr>segments := segments (as_db s1)\<rparr> \<and> as_reader s1 = as_reader s"
proof -
  let ?i = "next_segment_id s"
  obtain w where w: "w = init_writer DEFAULT_BLOCK_TARGET_BYTES DEFAULT_LEVEL DEFAULT_SEAL_BYTES
      DEFAULT_SEAL_AFTER_SECONDS now ?i" "r = Inr w"
    and s1: "s1 = s\<lparr>as_fs := fs_put (open_name ?i) [] (as_fs s), as_db := (as_db s)\<lparr>segments := segments (as_db s)
      @ [\<lparr>sg_id = ?i, sg_sealed_at = None, sg_bytes = None, sg_records = None, sg_footer_sha = None\<rparr>]\<rparr>,
      as_writer := Some w\<rparr>"
    using open_writer_ok [OF assms(1,2)] assms(3) by (metis prod.inject)
  have fresh: "?i \<notin> sg_id ` set (segments (as_db s))" "0 \<le> ?i"
    using next_segment_id_fresh [of s] by auto
  have nozst: "map_of (as_fs s) (zst_name ?i) = None"
    using assms(1) fresh by (auto simp: store_inv_def dom_def)
  have sid: "sw_segment_id w = ?i" by (simp add: w init_writer_def)
  have old: "segment_view cd D s1 j rs" if "segment_view cd D s j rs" "j \<in> sg_id ` set (segments (as_db s))" for j rs
  proof -
    have "j \<noteq> ?i" using that(2) fresh(1) by blast
    then show ?thesis
      using that open_zst_neq [of ?i j, symmetric] sealed_view_fs [of cd D "as_fs s" j rs "as_fs s1" D] assms(2) sid
      by (simp add: segment_view_def s1 is_sealed_append split: if_splits)
  qed
  have new: "segment_view cd D s1 ?i []"
  proof -
    have "stores cd (as_fs s1) w [] []" by (simp add: s1 w(1) stores_init)
    moreover have "sw_records w = []" by (simp add: w init_writer_def)
    ultimately have "open_view cd D s1 ?i []"
      unfolding open_view_def using sid by (force simp: s1)
    then show ?thesis using nozst fresh(1) open_zst_neq [of ?i ?i, symmetric]
      by (simp add: segment_view_def s1 is_sealed_append sid)
  qed
  have names: "\<forall>i \<ge> 0. (open_name i \<in> dom (map_of (as_fs s1)) \<or> zst_name i \<in> dom (map_of (as_fs s1)))
      \<longrightarrow> i \<in> sg_id ` set (segments (as_db s1))"
    using assms(1) fresh(2) open_name_inj [of _ ?i] open_zst_neq [of ?i, symmetric]
    by (auto simp: store_inv_def s1 dom_def)
  have cache: "cache_ok cd (as_fs s1) (as_reader s1)"
    using assms(1) cache_ok_fs [of cd "as_fs s" "as_reader s" "as_fs s1"] open_zst_neq [of ?i, symmetric]
    by (simp add: store_inv_def s1)
  have ids: "sg_id ` set (segments (as_db s1)) = insert ?i (sg_id ` set (segments (as_db s)))"
    by (simp add: s1)
  have rows: "\<forall>r \<in> set (segments (as_db s1)). 0 \<le> sg_id r \<and> (\<exists>rs. segment_view cd D s1 (sg_id r) rs)"
    using store_inv_row [OF assms(1)] old new fresh(2) ids by (metis image_eqI insertE)
  have bl_eq: "blobs (as_db s1) = blobs (as_db s)" by (simp add: s1)
  have bl: "\<forall>b \<in> set (blobs (as_db s1)). b_segment_id b \<in> sg_id ` set (segments (as_db s1))
      \<and> (\<exists>rs e. segment_view cd D s1 (b_segment_id b) rs \<and> e \<in> set rs \<and> b = blob_of (b_segment_id b) e)"
    using store_inv_blob [OF assms(1)] old ids by (metis (no_types, lifting) insertI2 bl_eq)
  show ?thesis
    unfolding store_inv_def using assms(1) names cache rows bl fresh(1) sid w(2)
    by (simp add: store_inv_def s1 is_sealed_append)
qed

text \<open>Adding a record.\<close>

lemma store_add_writer:
  assumes "store_inv cd D s" and "as_writer s = Some w" and "add_record cd data (as_fs s, w) = (r, fs1, w1)"
    and "s1 = s\<lparr>as_fs := fs1, as_writer := Some w1\<rparr>"
  shows "\<exists>l e. r = Inr l \<and> l = location_of (sw_segment_id w) e \<and> re_sha256 e = sha256_digest cd data
    \<and> (\<exists>rs. segment_view cd (insert data D) s1 (sw_segment_id w) rs \<and> e \<in> set rs)
    \<and> (\<forall>j rs. segment_view cd D s j rs \<longrightarrow> (\<exists>rs'. segment_view cd (insert data D) s1 j rs' \<and> set rs \<subseteq> set rs'))
    \<and> sw_segment_id w1 = sw_segment_id w
    \<and> (\<forall>n. n \<noteq> open_name (sw_segment_id w) \<longrightarrow> map_of fs1 n = map_of (as_fs s) n)
    \<and> dom (map_of fs1) = dom (map_of (as_fs s))"
proof -
  let ?i = "sw_segment_id w"
  have uns: "\<not> is_sealed ?i (as_db s)" and "?i \<in> sg_id ` set (segments (as_db s))"
    using assms(1,2) by (auto simp: store_inv_def)
  then obtain rs0 where v0: "segment_view cd D s ?i rs0" using assms(1) by (auto simp: store_inv_def)
  then obtain ps stored where st: "stores cd (as_fs s) w ps stored" "set stored \<subseteq> D"
      and nozst: "map_of (as_fs s) (zst_name ?i) = None"
    using uns assms(2) by (auto simp: segment_view_def open_view_def)
  obtain l ps1 e where a: "r = Inr l" "sw_segment_id w1 = ?i"
      "stores cd fs1 w1 ps1 (if sha256_digest cd data \<in> sha256_digest cd ` set stored then stored else stored @ [data])"
      "e \<in> set (sw_records w1)" "l = location_of ?i e" "re_sha256 e = sha256_digest cd data"
      "set (sw_records w) \<subseteq> set (sw_records w1)"
    using add_record_stores [OF st(1) assms(3)] by blast
  have frame: "\<forall>n. n \<noteq> open_name ?i \<longrightarrow> map_of fs1 n = map_of (as_fs s) n"
    using assms(3)
    by (auto simp: add_record_def flush_block_def append_record_def map_of_fs_append Let_def
        split: if_splits option.splits)
  have "map_of (as_fs s) (open_name ?i) \<noteq> None" "map_of fs1 (open_name ?i) \<noteq> None"
    using st(1) a(2,3) by (auto simp: stores_def seg_inv_def)
  then have doms: "dom (map_of fs1) = dom (map_of (as_fs s))"
    using frame by (auto simp: dom_def) metis+
  have ov: "open_view cd (insert data D) s1 ?i (sw_records w1)"
  proof -
    have "set (if sha256_digest cd data \<in> sha256_digest cd ` set stored then stored else stored @ [data])
        \<subseteq> insert data D"
      using st(2) by auto
    moreover have "as_writer s1 = Some w1" "as_fs s1 = fs1" using assms(4) by simp_all
    ultimately show ?thesis unfolding open_view_def using a(2,3) by blast
  qed
  then have v1: "segment_view cd (insert data D) s1 ?i (sw_records w1)"
    using uns nozst frame open_zst_neq [of ?i ?i] assms(4) a(2) by (auto simp: segment_view_def)
  have others: "\<exists>rs'. segment_view cd (insert data D) s1 j rs' \<and> set rs \<subseteq> set rs'"
    if v: "segment_view cd D s j rs" for j rs
  proof (cases "is_sealed j (as_db s)")
    case True
    then have "sealed_view cd (insert data D) fs1 j rs"
      using v sealed_view_fs [of cd D "as_fs s" j rs fs1 "insert data D"] frame open_zst_neq [of ?i j]
      by (auto simp: segment_view_def)
    then show ?thesis using True assms(4) by (auto simp: segment_view_def)
  next
    case False
    show ?thesis
    proof (cases "j = ?i")
      case True
      then have "rs = sw_records w" using v False assms(2) by (auto simp: segment_view_def open_view_def)
      then show ?thesis using v1 a(7) True by blast
    next
      case other: False
      then have "rs = []" using v False assms(2) by (simp add: segment_view_def)
      then show ?thesis using False other assms(4) a(2) by (auto simp: segment_view_def)
    qed
  qed
  show ?thesis using a v1 others frame doms by blast
qed

lemma store_inv_transfer:
  assumes "store_inv cd D s" and "sg_id ` set (segments (as_db s1)) = sg_id ` set (segments (as_db s))"
    and "distinct (map sg_id (segments (as_db s1)))"
    and "\<And>j rs. segment_view cd D s j rs \<Longrightarrow> \<exists>rs'. segment_view cd E s1 j rs' \<and> set rs \<subseteq> set rs'"
    and "\<And>b. b \<in> set (blobs (as_db s1)) \<Longrightarrow> b \<notin> set (blobs (as_db s)) \<Longrightarrow>
           b_segment_id b \<in> sg_id ` set (segments (as_db s))
           \<and> (\<exists>rs e. segment_view cd E s1 (b_segment_id b) rs \<and> e \<in> set rs \<and> b = blob_of (b_segment_id b) e)"
    and "\<And>w. as_writer s1 = Some w \<Longrightarrow> sw_segment_id w \<in> sg_id ` set (segments (as_db s))
           \<and> \<not> is_sealed (sw_segment_id w) (as_db s1)"
    and "distinct (map b_sha256 (blobs (as_db s1)))"
    and "cache_ok cd (as_fs s1) (as_reader s1)"
    and "\<And>i. 0 \<le> i \<Longrightarrow> open_name i \<in> dom (map_of (as_fs s1)) \<or> zst_name i \<in> dom (map_of (as_fs s1))
           \<Longrightarrow> i \<in> sg_id ` set (segments (as_db s))"
  shows "store_inv cd E s1"
proof -
  have rows: "\<forall>r \<in> set (segments (as_db s1)). 0 \<le> sg_id r \<and> (\<exists>rs. segment_view cd E s1 (sg_id r) rs)"
    using store_inv_row [OF assms(1)] assms(2,4) by (metis image_eqI)
  have "\<forall>b \<in> set (blobs (as_db s1)). b_segment_id b \<in> sg_id ` set (segments (as_db s1))
      \<and> (\<exists>rs e. segment_view cd E s1 (b_segment_id b) rs \<and> e \<in> set rs \<and> b = blob_of (b_segment_id b) e)"
  proof
    fix b
    assume b: "b \<in> set (blobs (as_db s1))"
    show "b_segment_id b \<in> sg_id ` set (segments (as_db s1))
      \<and> (\<exists>rs e. segment_view cd E s1 (b_segment_id b) rs \<and> e \<in> set rs \<and> b = blob_of (b_segment_id b) e)"
    proof (cases "b \<in> set (blobs (as_db s))")
      case True
      then obtain rs e where "segment_view cd D s (b_segment_id b) rs" "e \<in> set rs" "b = blob_of (b_segment_id b) e"
        using store_inv_blob [OF assms(1)] by blast
      then show ?thesis using assms(4) store_inv_blob [OF assms(1) True] assms(2) by blast
    next
      case False
      then show ?thesis using assms(5) [OF b] assms(2) by simp
    qed
  qed
  then show ?thesis unfolding store_inv_def using rows assms(2,3,6-9) by simp
qed

lemma store_add_inv:
  assumes "store_inv cd D s" and "store_add cd now data s = (r, s1)"
  shows "store_inv cd (insert data D) s1 \<and> (\<exists>l. r = Inr l \<and> bl_sha256 l = hexdigest cd data)
    \<and> b_sha256 ` set (blobs (as_db s1)) = insert (hexdigest cd data) (b_sha256 ` set (blobs (as_db s)))"
proof -
  obtain w s0 where cw: "current_writer now s = (Inr w, s0)" and i0: "store_inv cd D s0" and w0: "as_writer s0 = Some w"
    using open_writer_inv [OF assms(1)] assms(1) by (cases "as_writer s") (auto simp: current_writer_def, metis surj_pair)
  obtain r1 fs1 w1 where ar: "add_record cd data (as_fs s0, w) = (r1, fs1, w1)" by (metis prod.exhaust)
  let ?i = "sw_segment_id w"
  define s2 where "s2 = s0\<lparr>as_fs := fs1, as_writer := Some w1\<rparr>"
  obtain l e where a: "r1 = Inr l" "l = location_of ?i e" "re_sha256 e = sha256_digest cd data"
      "\<exists>rs. segment_view cd (insert data D) s2 ?i rs \<and> e \<in> set rs"
      "\<And>j rs. segment_view cd D s0 j rs \<Longrightarrow> \<exists>rs'. segment_view cd (insert data D) s2 j rs' \<and> set rs \<subseteq> set rs'"
      "sw_segment_id w1 = ?i" "\<And>n. n \<noteq> open_name ?i \<Longrightarrow> map_of fs1 n = map_of (as_fs s0) n"
      "dom (map_of fs1) = dom (map_of (as_fs s0))"
    using store_add_writer [OF i0 w0 ar s2_def] by blast
  have i_in: "?i \<in> sg_id ` set (segments (as_db s0))" "\<not> is_sealed ?i (as_db s0)"
    using i0 w0 by (auto simp: store_inv_def)
  have sid: "bl_segment_id l = ?i" using a(2) by (simp add: location_of_def)
  have "\<exists>db. insert_or_ignore_blob l (as_db s2) = Inr db"
    by (simp add: insert_or_ignore_blob_def s2_def sid i_in(1))
  then obtain db where db: "insert_or_ignore_blob l (as_db s2) = Inr db" by blast
  have res: "r = Inr l" "s1 = s2\<lparr>as_db := db\<rparr>"
    using assms(2) cw ar a(1) db by (auto simp: store_add_def s2_def Let_def)
  have db_cases: "db = as_db s0 \<and> bl_sha256 l \<in> b_sha256 ` set (blobs (as_db s0))
      \<or> db = (as_db s0)\<lparr>blobs := blobs (as_db s0) @ [blob_of ?i e]\<rparr> \<and> bl_sha256 l \<notin> b_sha256 ` set (blobs (as_db s0))"
    using db a(2) by (auto simp: insert_or_ignore_blob_def s2_def location_of_def blob_of_def split: if_splits)
  have seg: "segments db = segments (as_db s0)" using db_cases by auto
  then have sealed_eq: "is_sealed j db = is_sealed j (as_db s0)" for j by (simp add: is_sealed_def)
  have view: "segment_view cd E s1 j rs = segment_view cd E s2 j rs" for E j rs
    by (simp add: segment_view_def res(2) sealed_eq s2_def open_view_def)
  have sha: "bl_sha256 l = hexdigest cd data" using a(2,3) by (simp add: location_of_def hexdigest_def)
  have "store_inv cd (insert data D) s1"
  proof (rule store_inv_transfer [OF i0])
    show "\<exists>rs'. segment_view cd (insert data D) s1 j rs' \<and> set rs \<subseteq> set rs'" if "segment_view cd D s0 j rs" for j rs
      using a(5) [OF that] view by simp
    show "b_segment_id b \<in> sg_id ` set (segments (as_db s0)) \<and> (\<exists>rs e. segment_view cd (insert data D) s1 (b_segment_id b) rs
        \<and> e \<in> set rs \<and> b = blob_of (b_segment_id b) e)"
      if "b \<in> set (blobs (as_db s1))" "b \<notin> set (blobs (as_db s0))" for b
    proof -
      have "b = blob_of ?i e" using that db_cases res(2) by auto
      moreover from this have "b_segment_id b = ?i" by (simp add: blob_of_def)
      ultimately show ?thesis using a(4) view i_in(1) by auto
    qed
    show "distinct (map b_sha256 (blobs (as_db s1)))"
      using db_cases i0 res(2) a(2) by (auto simp: store_inv_def blob_of_def location_of_def)
    show "cache_ok cd (as_fs s1) (as_reader s1)"
      using i0 cache_ok_fs [of cd "as_fs s0" "as_reader s0" fs1] a(7) open_zst_neq [of ?i, symmetric]
      by (simp add: store_inv_def res(2) s2_def)
    show "sg_id ` set (segments (as_db s1)) = sg_id ` set (segments (as_db s0))"
      "distinct (map sg_id (segments (as_db s1)))"
      using seg i0 by (simp_all add: res(2) store_inv_def)
    show "sw_segment_id v \<in> sg_id ` set (segments (as_db s0)) \<and> \<not> is_sealed (sw_segment_id v) (as_db s1)"
      if "as_writer s1 = Some v" for v
      using that i_in a(6) sealed_eq by (simp add: res(2) s2_def)
    show "j \<in> sg_id ` set (segments (as_db s0))"
      if "0 \<le> j" "open_name j \<in> dom (map_of (as_fs s1)) \<or> zst_name j \<in> dom (map_of (as_fs s1))" for j
      using that store_inv_name [OF i0] a(8) by (simp add: res(2) s2_def)
  qed
  moreover have "blobs (as_db s0) = blobs (as_db s)"
    using cw by (auto simp: current_writer_def open_writer_def Let_def split: option.splits if_splits sum.splits)
  then have "b_sha256 ` set (blobs (as_db s1)) = insert (hexdigest cd data) (b_sha256 ` set (blobs (as_db s)))"
    using db_cases sha a(2) by (auto simp: res(2) blob_of_def location_of_def)
  ultimately show ?thesis using res sha by auto
qed

text \<open>Sealing the current segment.\<close>

lemma is_sealed_update:
  "is_sealed j (update_sealed t stats db)
    = (if j = st_segment_id stats \<and> j \<in> sg_id ` set (segments db) then True else is_sealed j db)"
proof -
  have "sql_get sg_id j (segments (update_sealed t stats db)) = map_option (\<lambda>r. if sg_id r = st_segment_id stats
      then r\<lparr>sg_sealed_at := Some t, sg_bytes := Some (st_bytes stats),
                 sg_records := Some (st_records stats), sg_footer_sha := Some (st_footer_sha256 stats)\<rparr> else r)
      (sql_get sg_id j (segments db))"
    by (simp add: update_sealed_def sql_get_update)
  note got = this
  show ?thesis
  proof (cases "sql_get sg_id j (segments db)")
    case None
    then have "j \<notin> sg_id ` set (segments db)" by (simp add: sql_get_None)
    then show ?thesis using None got by (simp add: is_sealed_def)
  next
    case (Some r)
    then have "sg_id r = j" "j \<in> sg_id ` set (segments db)" using sql_get_Some by fastforce+
    then show ?thesis using Some got by (simp add: is_sealed_def)
  qed
qed

lemma seal_writer_inv:
  assumes "store_inv cd D s" and "seal_writer cd now s = (Inr stats, s1)"
  shows "store_inv cd D s1"
proof -
  obtain w where w: "as_writer s = Some w" using assms(2) by (auto simp: seal_writer_def split: option.splits)
  let ?i = "sw_segment_id w"
  obtain fs1 w1 where sl: "seal cd (as_fs s, w) = (Inr stats, fs1, w1)"
      and s1: "s1 = s\<lparr>as_fs := fs1, as_db := update_sealed now stats (as_db s), as_writer := None\<rparr>"
    using assms(2) w by (auto simp: seal_writer_def split: prod.splits sum.splits)
  have i_in: "?i \<in> sg_id ` set (segments (as_db s))" "\<not> is_sealed ?i (as_db s)"
    using assms(1) w by (auto simp: store_inv_def)
  then obtain ps stored where st: "stores cd (as_fs s) w ps stored" "set stored \<subseteq> D"
      and nozst: "map_of (as_fs s) (zst_name ?i) = None"
    using store_inv_row [OF assms(1)] w by (fastforce simp: segment_view_def open_view_def)
  obtain ps1 content where sf: "sealed_file cd (sw_level w1) ps1 (sw_records w) content"
      "map_of fs1 (zst_name ?i) = Some content" "map_of fs1 (open_name ?i) = None"
      "map (record_data ps1) (sw_records w) = stored"
      "\<And>n. n \<noteq> zst_name ?i \<Longrightarrow> n \<noteq> open_name ?i \<Longrightarrow> map_of fs1 n = map_of (as_fs s) n"
      "st_segment_id stats = ?i"
    using seal_file [OF st(1) sl] by blast
  have sealed_iff: "is_sealed j (as_db s1) = (j = ?i \<or> is_sealed j (as_db s))" for j
    using i_in(1) sf(6) by (auto simp: s1 is_sealed_update)
  have "record_data ps1 ` set (sw_records w) = set stored" using sf(4) by (metis list.set_map)
  then have vi: "segment_view cd D s1 ?i (sw_records w)"
    using sf(1,2) st(2) sealed_iff by (auto simp: segment_view_def sealed_view_def s1)
  have ids: "map sg_id (segments (as_db s1)) = map sg_id (segments (as_db s))"
    unfolding s1 update_sealed_def by (simp add: map_key_sql_update)
  have other_zst: "map_of fs1 (zst_name j) = map_of (as_fs s) (zst_name j)" if "0 \<le> j" "j \<noteq> ?i" for j
    using sf(5) [of "zst_name j"] zst_name_inj [of j ?i] that store_inv_row [OF assms(1) i_in(1)] open_zst_neq [of ?i j]
    by metis
  have keep_zst: "map_of fs1 (zst_name j) = Some c" if "map_of (as_fs s) (zst_name j) = Some c" for j c
    using that nozst sf(5) [of "zst_name j"] open_zst_neq [of ?i j] by (metis option.distinct(1))
  show ?thesis
  proof (rule store_inv_transfer [OF assms(1)])
    show "\<exists>rs'. segment_view cd D s1 j rs' \<and> set rs \<subseteq> set rs'" if v: "segment_view cd D s j rs" for j rs
    proof (cases "j = ?i")
      case True
      then have "rs = sw_records w" using v i_in(2) w by (auto simp: segment_view_def open_view_def)
      then show ?thesis using vi True by auto
    next
      case False
      show ?thesis
      proof (cases "is_sealed j (as_db s)")
        case True
        then have "sealed_view cd D fs1 j rs"
          using v keep_zst by (fastforce simp: segment_view_def sealed_view_def)
        then show ?thesis using True sealed_iff by (auto simp: segment_view_def s1)
      next
        case unsealed: False
        then have "rs = []" using v False w by (simp add: segment_view_def)
        then show ?thesis using unsealed False sealed_iff by (auto simp: segment_view_def s1)
      qed
    qed
    show "cache_ok cd (as_fs s1) (as_reader s1)"
      using assms(1) cache_ok_fs [of cd "as_fs s" "as_reader s" fs1] keep_zst by (simp add: store_inv_def s1)
    show "sg_id ` set (segments (as_db s1)) = sg_id ` set (segments (as_db s))" using ids by (metis list.set_map)
    show "distinct (map sg_id (segments (as_db s1)))" using ids assms(1) by (simp add: store_inv_def)
    show "j \<in> sg_id ` set (segments (as_db s))"
      if "0 \<le> j" "open_name j \<in> dom (map_of (as_fs s1)) \<or> zst_name j \<in> dom (map_of (as_fs s1))" for j
    proof (cases "j = ?i")
      case False
      have "map_of fs1 (open_name j) = map_of (as_fs s) (open_name j)"
        using sf(5) [of "open_name j"] open_name_inj [of j ?i] False that(1) store_inv_row [OF assms(1) i_in(1)]
          open_zst_neq [of j ?i] by metis
      then show ?thesis using that other_zst [OF that(1) False] assms(1) by (auto simp: store_inv_def s1 dom_def)
    qed (use i_in in simp)
  qed (use assms(1) in \<open>auto simp: store_inv_def s1 update_sealed_def\<close>)
qed

lemma store_get_inv:
  assumes "store_inv cd D s" and "store_get cd sha s = (r, s1)"
  shows "store_inv cd D s1"
proof -
  obtain rdr where s1: "s1 = s\<lparr>as_reader := rdr\<rparr>" and c: "cache_ok cd (as_fs s) rdr"
    using assms read_location_cached
    by (auto simp: store_get_def store_inv_def split: option.splits prod.splits) (metis archive_store.surjective archive_store.update_convs(4))
  have "segment_view cd D s1 j rs = segment_view cd D s j rs" for j rs
    by (simp add: segment_view_def open_view_def s1)
  then show ?thesis using assms(1) c by (simp add: store_inv_def s1)
qed

section \<open>Runs of a store\<close>

text \<open>The life of a store from an empty directory; \<open>D\<close> is the set of data added so far.\<close>

inductive store_run :: "codec \<Rightarrow> bytes set \<Rightarrow> archive_store \<Rightarrow> bool" for cd where
  Created: "new_store [] empty_db recover = Inr s \<Longrightarrow> store_run cd {} s"
| Added: "store_run cd D s \<Longrightarrow> store_add cd now data s = (r, s1) \<Longrightarrow> store_run cd (insert data D) s1"
| Sealed: "store_run cd D s \<Longrightarrow> seal_writer cd t s = (Inr stats, s1) \<Longrightarrow> store_run cd D s1"
| Got: "store_run cd D s \<Longrightarrow> store_get cd sha s = (r, s1) \<Longrightarrow> store_run cd D s1"

lemma store_run_inv: "store_run cd D s \<Longrightarrow> store_inv cd D s"
proof (induction rule: store_run.induct)
  case (Created recover s)
  then have "as_fs s = [] \<and> as_db s = empty_db \<and> as_writer s = None \<and> as_reader s = new_reader DEFAULT_BLOCK_CACHE_SIZE"
    by (auto simp: new_store_def recover_stale_open_segments_def Let_def split: if_splits)
  then show ?case using new_reader_ok by (simp add: store_inv_def empty_db_def)
next
  case (Added D s now data r s1)
  then show ?case using store_add_inv by blast
next
  case (Sealed D s t stats s1)
  then show ?case using seal_writer_inv by blast
next
  case (Got D s sha r s1)
  then show ?case using store_get_inv by blast
qed

lemma store_run_indexed: "store_run cd D s \<Longrightarrow> hexdigest cd ` D \<subseteq> b_sha256 ` set (blobs (as_db s))"
proof (induction rule: store_run.induct)
  case (Added D s now data r s1)
  then show ?case using store_add_inv [OF store_run_inv [OF Added(1)] Added(2)] by auto
next
  case (Sealed D s t stats s1)
  then show ?case by (auto simp: seal_writer_def update_sealed_def split: option.splits prod.splits sum.splits)
next
  case (Got D s sha r s1)
  then show ?case by (auto simp: store_get_def split: option.splits prod.splits)
qed simp

lemma map_res_ok: "(\<And>x. x \<in> set xs \<Longrightarrow> f x = Inr (g x)) \<Longrightarrow> map_res f xs = Inr (map g xs)"
  by (induction xs) simp_all

lemma iter_records_sealed:
  assumes "codec_ok cd" and "sealed_file cd level ps rs content" and "map_of fs (zst_name sid) = Some content"
    and "cache_ok cd fs rdr"
  shows "fst (iter_records cd fs sid rdr) = Inr (concat (map (\<lambda>i. map (\<lambda>e. (hex (re_sha256 e), record_data ps e))
      (filter (\<lambda>e. re_block_no e = int i) rs)) [0..<length ps]))"
proof -
  let ?ft = "\<lparr>ft_version = FOOTER_VERSION, ft_blocks = block_entries cd level 0 ps, ft_records = rs\<rparr>"
  obtain rdr1 where f: "footer_for cd fs sid rdr = (Inr ?ft, rdr1)"
    using footer_for_cached [OF assms(4)] load_footer_sealed [OF assms(1-3)] by (metis prod.exhaust)
  obtain tail where c: "content = frames cd level ps @ tail" using assms(2) by (auto simp: sealed_file_def)
  have one: "block_records cd content ?ft i = Inr (map (\<lambda>e. (hex (re_sha256 e), record_data ps e))
      (filter (\<lambda>e. re_block_no e = int i) rs))" if "i \<in> set [0..<length ps]" for i
  proof -
    have i: "i < length ps" using that by simp
    have "file_read (be_offset (ft_blocks ?ft ! i)) (be_length (ft_blocks ?ft ! i)) content
        = Inr (compress_block cd level (ps ! i))"
      using nth_block_entries [OF i, of cd level 0] frames_nth [OF i, of cd level] by (simp add: c file_read_def)
    then show ?thesis using assms(1)
      by (simp add: block_records_def decompress_block_def compress_block_def codec_ok_def Let_def record_data_def)
  qed
  have "map_res (block_records cd content ?ft) [0..<length ps]
      = Inr (map (\<lambda>i. map (\<lambda>e. (hex (re_sha256 e), record_data ps e)) (filter (\<lambda>e. re_block_no e = int i) rs))
          [0..<length ps])"
    by (rule map_res_ok) (rule one)
  then show ?thesis using assms(3) by (simp add: iter_records_def f open_file_def)
qed

section \<open>A concrete store\<close>

text \<open>The same two bytes added to two successive segments.\<close>

definition twice_record :: record_entry where
  "twice_record = \<lparr>re_sha256 = le_bytes 32 513, re_block_no = 0, re_offset = 0, re_length = 2\<rparr>"

definition twice_codec :: codec where
  "twice_codec = plain_codec
     (footer_doc [\<lparr>be_offset = 0, be_length = 2, be_raw_length = 2\<rparr>] [twice_record])"

definition twice0 :: archive_store where
  "twice0 = \<lparr>as_fs = [], as_db = empty_db, as_writer = None, as_reader = new_reader DEFAULT_BLOCK_CACHE_SIZE\<rparr>"

definition twice1 :: archive_store where
  "twice1 = snd (store_add twice_codec 0 [1, 2] twice0)"

definition twice2 :: archive_store where
  "twice2 = snd (seal_writer twice_codec 0 twice1)"

definition twice3 :: archive_store where
  "twice3 = snd (store_add twice_codec 0 [1, 2] twice2)"

definition twice4 :: archive_store where
  "twice4 = snd (seal_writer twice_codec 0 twice3)"

lemma twice_seals: "is_ok (fst (seal_writer twice_codec 0 twice1))" "is_ok (fst (seal_writer twice_codec 0 twice3))"
  by code_simp+

lemma twice_runs: "store_run twice_codec {[1, 2]} twice2" "store_run twice_codec {[1, 2]} twice4"
proof -
  have "new_store [] empty_db False = Inr twice0" by (simp add: new_store_def twice0_def)
  then have "store_run twice_codec {[1, 2]} twice1"
    by (metis prod.collapse store_run.Added store_run.Created twice1_def)
  then show two: "store_run twice_codec {[1, 2]} twice2"
    using twice_seals(1) by (metis is_ok_iff prod.collapse store_run.Sealed twice2_def)
  have "store_run twice_codec (insert [1, 2] {[1, 2]}) twice3"
    using store_run.Added [OF two] by (metis prod.collapse twice3_def)
  then show "store_run twice_codec {[1, 2]} twice4"
    using twice_seals(2) by (metis insert_absorb2 is_ok_iff prod.collapse store_run.Sealed twice4_def)
qed

lemma twice_facts:
  "codec_ok twice_codec" "as_writer twice2 = None"
  "is_sealed 0 (as_db twice2)" "is_sealed 1 (as_db twice4)"
  "map b_sha256 (blobs (as_db twice4)) = [hex (re_sha256 twice_record)]"
  "map b_segment_id (blobs (as_db twice4)) = [0]"
  "map b_segment_id (blobs (as_db twice2)) = [0]"
  "map sg_id (segments (as_db twice4)) = [0, 1]"
  "map_res (\<lambda>ft. Inr (ft_records ft)) (case load_footer twice_codec (as_fs twice4) 1 of Inl e \<Rightarrow> [] | Inr ft \<Rightarrow> [ft])
     = (Inr [[twice_record]] :: record_entry list list res)"
proof -
  show "codec_ok twice_codec" by (simp add: twice_codec_def plain_codec_ok)
qed code_simp+

section \<open>Properties of the store\<close>

text \<open>The invariant makes every datum that is indexed readable.\<close>

lemma store_inv_readable:
  assumes "codec_ok cd" and "store_inv cd D s" and "inj_on (sha256_digest cd) D" and "d \<in> D"
    and "hexdigest cd d \<in> b_sha256 ` set (blobs (as_db s))"
  shows "\<exists>l. location_for (hexdigest cd d) s = Some l
    \<and> fst (store_get cd (hexdigest cd d) s)
      = (if is_sealed (bl_segment_id l) (as_db s) then Inr d else Inl FileNotFoundError)"
proof -
  note inv = assms(2)
  then obtain b where b: "b \<in> set (blobs (as_db s))" "b_sha256 b = hexdigest cd d"
    using assms(5) by auto
  have dist: "distinct (map b_sha256 (blobs (as_db s)))" and cache: "cache_ok cd (as_fs s) (as_reader s)"
    using inv by (simp_all add: store_inv_def)
  let ?i = "b_segment_id b"
  obtain rs e where v: "segment_view cd D s ?i rs" "e \<in> set rs" "b = blob_of ?i e"
    using store_inv_blob [OF inv b(1)] by blast
  have re: "re_sha256 e = sha256_digest cd d"
    using b(2) v(3) by (metis blob_of_def blob_row.select_convs(1) hex_inject hexdigest_def)
  have loc: "location_for (hexdigest cd d) s = Some (location_of ?i e)"
    using sql_get_in [OF dist b(1)] b(2) v(3) re
    by (simp add: location_for_def location_of_def hexdigest_def) (metis blob_of_def blob_row.select_convs(3-5))
  have rd: "fst (store_get cd (hexdigest cd d) s) = read_uncached cd (as_fs s) (location_of ?i e)"
    using read_location_cached [OF cache, of "location_of ?i e"] loc
    by (simp add: store_get_def split: prod.splits)
  have "fst (store_get cd (hexdigest cd d) s) = (if is_sealed ?i (as_db s) then Inr d else Inl FileNotFoundError)"
  proof (cases "is_sealed ?i (as_db s)")
    case True
    then obtain level ps content where sv: "map_of (as_fs s) (zst_name ?i) = Some content"
        "sealed_file cd level ps rs content" "record_data ps ` set rs \<subseteq> D"
      using v(1) by (auto simp: segment_view_def sealed_view_def)
    have "sha256_digest cd (record_data ps e) = sha256_digest cd d"
      using sv(2) v(2) re by (auto simp: sealed_file_def record_ok_def list_all_iff)
    then have "record_data ps e = d" using assms(3,4) sv(3) v(2) by (auto dest: inj_onD)
    then show ?thesis using True read_sealed_record [OF assms(1) sv(2,1) v(2)] rd by simp
  next
    case False
    then have "map_of (as_fs s) (zst_name ?i) = None" using v(1,2) by (auto simp: segment_view_def split: if_splits)
    then show ?thesis using False rd
      by (simp add: read_uncached_def load_block_def load_footer_def open_file_def location_of_def)
  qed
  then show ?thesis using loc by (auto simp: location_of_def)
qed

text \<open>
  The archive is content-addressed and loses nothing: in every state a store reaches from an empty
  directory by adding, sealing and reading, each datum ever added has a \<^verbatim>\<open>blobs\<close> row under its
  digest, and \<^verbatim>\<open>get\<close> of that digest returns exactly the datum as soon as its segment is sealed;
  while the segment is still open there is no file to read and \<^verbatim>\<open>get\<close> raises \<^verbatim>\<open>FileNotFoundError\<close>.
\<close>

theorem archived_data_is_readable:
  assumes "codec_ok cd" and "store_run cd D s" and "inj_on (sha256_digest cd) D" and "d \<in> D"
  shows "\<exists>l. location_for (hexdigest cd d) s = Some l
    \<and> fst (store_get cd (hexdigest cd d) s)
      = (if is_sealed (bl_segment_id l) (as_db s) then Inr d else Inl FileNotFoundError)"
  using store_inv_readable [OF assms(1) store_run_inv [OF assms(2)] assms(3,4)] store_run_indexed [OF assms(2)] assms(4)
  by blast

text \<open>
  Segment ids are never reused: in every reachable state the next id is larger than every id the
  database has handed out, no file of that name exists, and opening a segment with it succeeds.
\<close>

lemma fresh_segment_opens:
  assumes "store_run cd D s" and "as_writer s = None"
  shows "(\<forall>r \<in> set (segments (as_db s)). sg_id r < next_segment_id s)
    \<and> (\<exists>w s1. open_writer now s = (Inr w, s1) \<and> sw_segment_id w = next_segment_id s)"
  using next_segment_id_fresh [of s] open_writer_ok [OF store_run_inv [OF assms(1)] assms(2), of now]
  by (auto simp: init_writer_def)

text \<open>
  A datum that is already indexed under one segment and is added again after a later segment was
  opened is stored a second time, but the \<^verbatim>\<open>INSERT OR IGNORE\<close> keeps the first \<^verbatim>\<open>blobs\<close> row: once that later
  segment is sealed \<^verbatim>\<open>verify_archive\<close> reports a footer record without a \<^verbatim>\<open>blobs\<close> row, although nothing
  is wrong with the archive.
\<close>

theorem readded_blob_fails_verify:
  assumes "codec_ok cd" and "store_run cd D s" and "is_sealed sid (as_db s)" and "segment_view cd D s sid rs"
    and "e \<in> set rs" and "b \<in> set (blobs (as_db s))" and "b_sha256 b = hex (re_sha256 e)" and "b_segment_id b \<noteq> sid"
  shows "\<exists>problems. fst (verify_segment cd sid s) = Inr problems \<and> No_blobs_row sid (hex (re_sha256 e)) \<in> set problems"
proof -
  have inv: "store_inv cd D s" using store_run_inv [OF assms(2)] .
  have cache: "cache_ok cd (as_fs s) (as_reader s)" and dist: "distinct (map b_sha256 (blobs (as_db s)))"
    using inv by (simp_all add: store_inv_def)
  obtain level ps content where sv: "map_of (as_fs s) (zst_name sid) = Some content" "sealed_file cd level ps rs content"
    using assms(3,4) by (auto simp: segment_view_def sealed_view_def)
  obtain rf rdr1 where ff: "footer_for cd (as_fs s) sid (as_reader s) = (rf, rdr1)" by (metis prod.exhaust)
  note fc = footer_for_cached [OF cache ff] load_footer_sealed [OF assms(1) sv(2,1)]
  define entries where "entries = map (\<lambda>r. (hex (re_sha256 r), re_block_no r, re_offset r, re_length r)) rs"
  have fr: "footer_records cd (as_fs s) sid (as_reader s) = (Inr entries, rdr1)"
    using ff fc by (simp add: footer_records_def entries_def)
  obtain recs rdr2 where it: "iter_records cd (as_fs s) sid rdr1 = (Inr recs, rdr2)"
    using iter_records_sealed [OF assms(1) sv(2,1), of rdr1] fc(1)
    by (cases "iter_records cd (as_fs s) sid rdr1") auto
  have keys: "hex (re_sha256 e) \<in> set (map fst (py_dict entries))"
    using assms(5) by (auto simp: py_dict_def entries_def image_image)
  have "hex (re_sha256 e) \<notin> fst ` set (py_dict (blob_rows_for_segment sid (as_db s)))"
  proof
    assume "hex (re_sha256 e) \<in> fst ` set (py_dict (blob_rows_for_segment sid (as_db s)))"
    then obtain b' where "b' \<in> set (blobs (as_db s))" "b_sha256 b' = hex (re_sha256 e)" "b_segment_id b' = sid"
      by (auto simp: py_dict_def blob_rows_for_segment_def)
    then have "b' = b" using assms(6,7) dist by (metis distinct_map inj_onD)
    then show False using assms(8) \<open>b_segment_id b' = sid\<close> by simp
  qed
  then have none: "map_of (py_dict (blob_rows_for_segment sid (as_db s))) (hex (re_sha256 e)) = None"
    by (simp add: map_of_eq_None_iff)
  have "No_blobs_row sid (hex (re_sha256 e)) \<in> set (compare_positions sid (py_dict entries)
      (py_dict (blob_rows_for_segment sid (as_db s))))"
    using keys none by (force simp: compare_positions_def)
  then show ?thesis by (simp add: verify_segment_def fr it Let_def)
qed

end
