(* ===== verification/Convert.thy ===== *)
theory Convert
  imports Schema
begin

text \<open>
  \<^verbatim>\<open>convert.py\<close>: turning a wheel's METADATA bytes into an outcome. The reroll package is outside the
  repository: its \<^verbatim>\<open>parse_metadata\<close> and \<^verbatim>\<open>get_wheel_records\<close> (with the mappers applied) are the
  parameters \<open>parse\<close> and \<open>get_wheel_records\<close>, and an exception they raise is its class, as the
  handlers tell classes apart, with its type name and text.
\<close>

section \<open>Decoding\<close>

text \<open>
  \<^verbatim>\<open>decode("utf-8-sig")\<close>: one leading byte order mark is dropped, the rest must be well-formed UTF-8
  (no overlong form, no surrogate, nothing above U+10FFFF). A decoded text is kept as its bytes.
\<close>

definition is_cont :: "byte \<Rightarrow> bool" where
  "is_cont b = (0x80 \<le> b \<and> b \<le> 0xBF)"

fun utf8_valid :: "bytes \<Rightarrow> bool" where
  "utf8_valid [] = True"
| "utf8_valid (a # bs) =
     (if a < 0x80 then utf8_valid bs
      else if 0xC2 \<le> a \<and> a \<le> 0xDF
      then (case bs of b # cs \<Rightarrow> is_cont b \<and> utf8_valid cs | _ \<Rightarrow> False)
      else if 0xE0 \<le> a \<and> a \<le> 0xEF
      then (case bs of b # c # cs \<Rightarrow>
              is_cont b \<and> is_cont c \<and> (a = 0xE0 \<longrightarrow> 0xA0 \<le> b) \<and> (a = 0xED \<longrightarrow> b \<le> 0x9F)
              \<and> utf8_valid cs | _ \<Rightarrow> False)
      else if 0xF0 \<le> a \<and> a \<le> 0xF4
      then (case bs of b # c # d # cs \<Rightarrow>
              is_cont b \<and> is_cont c \<and> is_cont d \<and> (a = 0xF0 \<longrightarrow> 0x90 \<le> b) \<and> (a = 0xF4 \<longrightarrow> b \<le> 0x8F)
              \<and> utf8_valid cs | _ \<Rightarrow> False)
      else False)"

definition decode_utf8_sig :: "bytes \<Rightarrow> string option" where
  "decode_utf8_sig data =
     (let body = (if take 3 data = [0xEF, 0xBB, 0xBF] then drop 3 data else data)
      in if utf8_valid body then Some (map (\<lambda>b. char_of (unat b)) body) else None)"

section \<open>Outcomes\<close>

text \<open>The class of an exception, in the order the handlers test it.\<close>

datatype exn_class = Reroll_runtime | Prerelease_retry | Reroll_other | Not_reroll

record reroll_exn =
  ex_class :: exn_class
  ex_type :: string
  ex_text :: string

record 'p name_resolution =
  res_pypi_name :: string
  res_payload :: 'p

record 'p wheel_record =
  rec_name :: string
  rec_resolutions :: "'p name_resolution list"

datatype 'p convert_outcome =
    ConvertOk "'p wheel_record list" "'p name_resolution list" string bool
  | ConvertSkip string string string bool "string option"
  | ConvertRetry string string

definition py_repr_list :: "string list \<Rightarrow> string" where
  "py_repr_list xs = ''['' @ join_with '', '' (map py_repr xs) @ '']''"

text \<open>\<^verbatim>\<open>seen.setdefault\<close> keeps the first resolution of a name; the result is in name order.\<close>

definition setdefault :: "'p name_resolution \<Rightarrow> (string \<times> 'p name_resolution) list
    \<Rightarrow> (string \<times> 'p name_resolution) list" where
  "setdefault r seen =
     (if res_pypi_name r \<in> fst ` set seen then seen else seen @ [(res_pypi_name r, r)])"

definition deduped_resolutions :: "'p wheel_record list \<Rightarrow> 'p name_resolution list" where
  "deduped_resolutions records =
     (let seen = fold (\<lambda>record seen. fold setdefault (rec_resolutions record) seen) records []
      in map (\<lambda>name. the (map_of seen name)) (sort (map fst seen)))"

definition outcome_from_records :: "bool \<Rightarrow> 'p wheel_record list \<Rightarrow> 'p convert_outcome" where
  "outcome_from_records requires_prerelease records =
     (if records = [] then ConvertRetry ''no_records_returned'' ''get_wheel_records returned no records''
      else let conda_names = remdups (map rec_name records)
           in case conda_names of
                [conda_name] \<Rightarrow>
                  ConvertOk records (deduped_resolutions records) conda_name requires_prerelease
              | _ \<Rightarrow> ConvertRetry ''conda_name_disagreement''
                  (''records disagree on conda_name: '' @ py_repr_list (sort conda_names)))"

text \<open>
  \<^verbatim>\<open>convert\<close>: \<^const>\<open>Inl\<close> is an exception that is not reroll's and propagates; \<open>decode_text\<close> is the text
  of the decoding error.
\<close>

definition convert ::
    "(bytes \<Rightarrow> string) \<Rightarrow> (string \<Rightarrow> reroll_exn + 'm) \<Rightarrow> ('m \<Rightarrow> string \<Rightarrow> bool \<Rightarrow> reroll_exn + 'p wheel_record list)
      \<Rightarrow> string \<Rightarrow> bytes \<Rightarrow> string \<Rightarrow> reroll_exn + 'p convert_outcome" where
  "convert decode_text parse get_wheel_records reroll_version metadata_bytes filename =
     (case decode_utf8_sig metadata_bytes of
        None \<Rightarrow> Inr (ConvertSkip ''invalid_metadata_encoding'' ''UnicodeDecodeError''
                       (decode_text metadata_bytes) True None)
      | Some text \<Rightarrow>
          (case parse text of
             Inl exc \<Rightarrow>
               (case ex_class exc of
                  Reroll_runtime \<Rightarrow> Inr (ConvertRetry ''parse_runtime_error'' (ex_text exc))
                | Not_reroll \<Rightarrow> Inl exc
                | _ \<Rightarrow> Inr (ConvertSkip ''invalid_metadata'' (ex_type exc) (ex_text exc) False
                              (Some reroll_version)))
           | Inr metadata \<Rightarrow>
               (case get_wheel_records metadata filename False of
                  Inr records \<Rightarrow> Inr (outcome_from_records False records)
                | Inl first_error \<Rightarrow>
                    (case ex_class first_error of
                       Reroll_runtime \<Rightarrow> Inr (ConvertRetry ''conversion_runtime_error'' (ex_text first_error))
                     | Prerelease_retry \<Rightarrow>
                         (case get_wheel_records metadata filename True of
                            Inr records \<Rightarrow> Inr (outcome_from_records True records)
                          | Inl retry_error \<Rightarrow>
                              (case ex_class retry_error of
                                 Reroll_runtime \<Rightarrow>
                                   Inr (ConvertRetry ''conversion_runtime_error'' (ex_text retry_error))
                               | Not_reroll \<Rightarrow> Inl retry_error
                               | _ \<Rightarrow> Inr (ConvertSkip ''reroll_conversion_failed'' (ex_type first_error)
                                     (ex_text first_error @ '' (retry with allow_pre=True failed with ''
                                        @ ex_type retry_error @ '': '' @ ex_text retry_error @ '')'')
                                     False (Some reroll_version))))
                     | Reroll_other \<Rightarrow>
                         Inr (ConvertSkip ''reroll_conversion_failed'' (ex_type first_error)
                                (ex_text first_error) False (Some reroll_version))
                     | Not_reroll \<Rightarrow> Inl first_error))))"

text \<open>The worker process: the module globals that \<^verbatim>\<open>worker_init\<close> sets.\<close>

definition convert_in_worker ::
    "('w \<Rightarrow> string \<Rightarrow> bytes \<Rightarrow> string \<Rightarrow> reroll_exn + 'p convert_outcome) \<Rightarrow> ('w \<times> string) option
      \<Rightarrow> bytes \<Rightarrow> string \<Rightarrow> (reroll_exn + 'p convert_outcome) res" where
  "convert_in_worker conv globals metadata_bytes filename =
     (case globals of None \<Rightarrow> Inl PyRuntimeError
      | Some (mappers, reroll_version) \<Rightarrow> Inr (conv mappers reroll_version metadata_bytes filename))"

section \<open>Facts about the resolutions\<close>

lemma setdefault_keys: "distinct (map fst seen) \<Longrightarrow> distinct (map fst (setdefault r seen))"
  by (simp add: setdefault_def)

lemma map_of_setdefault:
  "map_of (setdefault r seen) k
    = (case map_of seen k of Some x \<Rightarrow> Some x | None \<Rightarrow> if res_pypi_name r = k then Some r else None)"
  by (auto simp: setdefault_def map_add_def map_of_eq_None_iff split: option.splits)
    (metis fst_conv image_eqI map_of_SomeD)+

lemma fold_setdefault:
  "distinct (map fst seen) \<Longrightarrow> distinct (map fst (fold setdefault rs seen))
   \<and> map_of (fold setdefault rs seen) k
     = (case map_of seen k of Some x \<Rightarrow> Some x | None \<Rightarrow> find (\<lambda>r. res_pypi_name r = k) rs)"
proof (induction rs arbitrary: seen)
  case Nil
  then show ?case by (simp split: option.splits)
next
  case (Cons r rs)
  then show ?case by (auto simp: setdefault_keys map_of_setdefault split: option.splits)
qed

lemma fold_records:
  "fold (\<lambda>record seen. fold setdefault (rec_resolutions record) seen) records seen
    = fold setdefault (concat (map rec_resolutions records)) seen"
  by (induction records arbitrary: seen) simp_all

lemma fold_setdefault_keys:
  "set (map fst (fold setdefault rs seen)) = set (map fst seen) \<union> res_pypi_name ` set rs"
proof (induction rs arbitrary: seen)
  case Nil
  then show ?case by simp
next
  case (Cons r rs)
  have "set (map fst (setdefault r seen)) = insert (res_pypi_name r) (set (map fst seen))"
    by (auto simp: setdefault_def)
  then show ?case using Cons [of "setdefault r seen"] by auto
qed

section \<open>Properties of conversion\<close>

text \<open>
  The name resolutions stored for a wheel are one per PyPI name, in name order, over all of the
  wheel's records, and each is the first one met in record order.
\<close>

theorem resolutions_deduplicated:
  "map res_pypi_name (deduped_resolutions records)
     = sorted_list_of_set (res_pypi_name ` set (concat (map rec_resolutions records)))
   \<and> list_all (\<lambda>r. find (\<lambda>x. res_pypi_name x = res_pypi_name r) (concat (map rec_resolutions records)) = Some r)
       (deduped_resolutions records)"
proof -
  let ?all = "concat (map rec_resolutions records)"
  let ?seen = "fold setdefault ?all []"
  have keys: "distinct (map fst ?seen)" "set (map fst ?seen) = res_pypi_name ` set ?all"
    and get: "map_of ?seen k = find (\<lambda>r. res_pypi_name r = k) ?all" for k
    using fold_setdefault [of "[]" ?all k] fold_setdefault_keys [of ?all "[]"] by auto
  have eq: "deduped_resolutions records = map (\<lambda>name. the (map_of ?seen name)) (sort (map fst ?seen))"
    by (simp add: deduped_resolutions_def fold_records Let_def)
  have found: "res_pypi_name (the (map_of ?seen k)) = k \<and> find (\<lambda>r. res_pypi_name r = k) ?all = Some (the (map_of ?seen k))"
    if "k \<in> set (map fst ?seen)" for k
  proof -
    note k = that
    obtain r where r: "map_of ?seen k = Some r"
      using k by (metis list.set_map map_of_eq_None_iff not_None_eq)
    then have "find (\<lambda>r. res_pypi_name r = k) ?all = Some r" using get [of k] by simp
    then show ?thesis using r by (auto simp: find_Some_iff)
  qed
  have "map res_pypi_name (deduped_resolutions records) = sort (map fst ?seen)"
    unfolding eq map_map comp_def by (rule map_idI) (use found in simp)
  also have "\<dots> = sorted_list_of_set (set (map fst ?seen))"
    using keys(1) by (metis distinct_remdups_id sorted_list_of_set_sort_remdups)
  finally have "map res_pypi_name (deduped_resolutions records) = sorted_list_of_set (res_pypi_name ` set ?all)"
    by (simp only: keys(2))
  moreover have "list_all (\<lambda>r. find (\<lambda>x. res_pypi_name x = res_pypi_name r) ?all = Some r) (deduped_resolutions records)"
  proof -
    have "find (\<lambda>x. res_pypi_name x = res_pypi_name (the (map_of ?seen k))) ?all = Some (the (map_of ?seen k))"
      if "k \<in> set (map fst ?seen)" for k
      using found [OF that] by simp
    then show ?thesis unfolding eq list_all_iff by (simp del: list.set_map)
  qed
  ultimately show ?thesis by blast
qed



end
