(* ===== verification/Dispatcher.thy ===== *)
theory Dispatcher
  imports Sqlite_Writer Ratelimit Convert
begin

text \<open>
  \<^verbatim>\<open>dispatcher.py\<close> and \<^verbatim>\<open>daemon/unquarantine.py\<close>: claiming work from the derived queues, turning stage
  outcomes into write operations, backoff and quarantine, reprocess campaigns and their previews.

  A write operation is its \<^verbatim>\<open>apply\<close> body, a function on the writer's connection state (database and
  sequence counter); \<open>exec_op\<close> is what \<^verbatim>\<open>submit_and_wait\<close> makes of it, the savepoint included.
  Rows equal in an \<^verbatim>\<open>ORDER BY\<close> come in table order. The jitter of a retry is the value the injected
  generator returned.
\<close>

section \<open>Stages, items, outcomes\<close>

datatype stage = FETCH | CONVERT

fun stage_value :: "stage \<Rightarrow> string" where
  "stage_value FETCH = ''fetch''"
| "stage_value CONVERT = ''convert''"

fun queue_state :: "stage \<Rightarrow> wheel_state" where
  "queue_state FETCH = NEED_METADATA"
| "queue_state CONVERT = NEED_CONVERT"

record queue_item =
  qi_id :: int
  qi_project :: string
  qi_lane :: int
  qi_state :: wheel_state

type_synonym payload_writer = "int \<Rightarrow> database \<Rightarrow> database res"

datatype outcome =
    Ok wheel_state payload_writer
  | Skip string string string bool "string option"
  | Retry string string
  | RateLimited string real

datatype op_value = VNone | VRetried string int | VCount int

type_synonym op_body = "database op_state \<Rightarrow> op_value res \<times> database op_state"

definition exec_op :: "op_body \<Rightarrow> op_body" where
  "exec_op f st =
     (case f st of (Inl e, (db', seq')) \<Rightarrow> (Inl e, (fst st, seq')) | (Inr v, st') \<Rightarrow> (Inr v, st'))"

definition validate_transition :: "wheel_state \<Rightarrow> wheel_state \<Rightarrow> unit res" where
  "validate_transition current next_state =
     (if next_state \<in> allowed_transitions current then Inr ()
      else Inl (IllegalTransitionError current next_state))"

text \<open>
  The payload of a successful conversion; \<open>dump_records\<close> and \<open>dump_resolutions\<close> are
  \<^verbatim>\<open>compress_json\<close> after \<^verbatim>\<open>model_dump\<close>.
\<close>

definition convert_ok_writer ::
    "('p wheel_record list \<Rightarrow> bytes) \<Rightarrow> ('p name_resolution list \<Rightarrow> bytes) \<Rightarrow> 'p wheel_record list
      \<Rightarrow> 'p name_resolution list \<Rightarrow> string \<Rightarrow> bool \<Rightarrow> string \<Rightarrow> payload_writer" where
  "convert_ok_writer dump_records dump_resolutions records resolutions conda_name requires_prerelease
       reroll_version wheel_id db =
     bind_res
       (upsert_repodata
          (\<lambda>r. r\<lparr>rd_repodata_zst := dump_records records,
                 rd_name_conv_zst := Some (dump_resolutions resolutions),
                 rd_requires_prerelease := requires_prerelease, rd_reroll_version := reroll_version\<rparr>)
          \<lparr>rd_wheel_id = wheel_id, rd_repodata_zst = dump_records records,
           rd_name_conv_zst = Some (dump_resolutions resolutions),
           rd_requires_prerelease = requires_prerelease, rd_reroll_version = reroll_version\<rparr> db)
       (\<lambda>db1. Inr (update_wheels (\<lambda>w. w_id w = wheel_id) (\<lambda>w. w\<lparr>w_conda_name := Some conda_name\<rparr>) db1))"

definition adapt_convert_outcome ::
    "('p wheel_record list \<Rightarrow> bytes) \<Rightarrow> ('p name_resolution list \<Rightarrow> bytes) \<Rightarrow> string
      \<Rightarrow> 'p convert_outcome \<Rightarrow> outcome" where
  "adapt_convert_outcome dump_records dump_resolutions reroll_version out =
     (case out of
        ConvertOk records resolutions conda_name pre \<Rightarrow>
          Ok READY (convert_ok_writer dump_records dump_resolutions records resolutions conda_name pre
                      reroll_version)
      | ConvertSkip reason subcategory details permanent ver \<Rightarrow>
          Skip reason subcategory details permanent ver
      | ConvertRetry reason details \<Rightarrow> Retry reason details)"

section \<open>Backoff\<close>

definition BASE_BACKOFF_SECONDS :: real where
  "BASE_BACKOFF_SECONDS = 30"

definition MAX_BACKOFF_SECONDS :: real where
  "MAX_BACKOFF_SECONDS = 6 * 3600"

definition DEFAULT_MAX_ATTEMPTS :: int where
  "DEFAULT_MAX_ATTEMPTS = 8"

definition JITTER_LOW :: real where
  "JITTER_LOW = 1 / 2"

definition JITTER_HIGH :: real where
  "JITTER_HIGH = 3 / 2"

definition compute_backoff :: "real \<Rightarrow> real \<Rightarrow> real \<Rightarrow> int \<Rightarrow> real" where
  "compute_backoff base cap jitter attempts = min (base * 2 powi (attempts - 1)) cap * jitter"

section \<open>Write operations\<close>

definition set_wheel_state :: "int \<Rightarrow> wheel_state \<Rightarrow> int \<Rightarrow> iso_time \<Rightarrow> database \<Rightarrow> database" where
  "set_wheel_state wheel_id s seq now_iso =
     update_wheels (\<lambda>w. w_id w = wheel_id)
       (\<lambda>w. w\<lparr>w_state := state_int s, w_change_seq := seq, w_updated_at := now_iso\<rparr>)"

definition delete_work :: "int \<Rightarrow> stage \<Rightarrow> database \<Rightarrow> database" where
  "delete_work wheel_id stg db =
     db\<lparr>work := sql_delete (\<lambda>r. wk_wheel_id r = wheel_id \<and> wk_stage r = stage_value stg) (work db)\<rparr>"

definition ok_op :: "iso_time \<Rightarrow> stage \<Rightarrow> queue_item \<Rightarrow> wheel_state \<Rightarrow> payload_writer \<Rightarrow> op_body res" where
  "ok_op now_iso stg item next_state write =
     bind_res (validate_transition (qi_state item) next_state) (\<lambda>_. Inr (\<lambda>st.
       case next_seq st of (seq, (db, seq1)) \<Rightarrow>
         let db1 = set_wheel_state (qi_id item) next_state seq now_iso db
         in case write (qi_id item) db1 of
              Inl e \<Rightarrow> (Inl e, (db1, seq1))
            | Inr db2 \<Rightarrow> (Inr VNone, (delete_work (qi_id item) stg db2, seq1))))"

definition skip_row_of :: "iso_time \<Rightarrow> stage \<Rightarrow> int \<Rightarrow> string \<Rightarrow> bool \<Rightarrow> string option \<Rightarrow> skip_row" where
  "skip_row_of now_iso stg wheel_id reason permanent ver =
     \<lparr>sk_wheel_id = wheel_id, sk_stage = stage_value stg, sk_reason = reason, sk_permanent = permanent,
      sk_reroll_version = (if permanent then None else ver), sk_created_at = now_iso\<rparr>"

definition error_row_of :: "iso_time \<Rightarrow> int \<Rightarrow> string \<Rightarrow> string option \<Rightarrow> string \<Rightarrow> string \<Rightarrow> error_row" where
  "error_row_of now_iso wheel_id category subcat details ver =
     \<lparr>er_id = 0, er_wheel_id = Some wheel_id, er_category = category, er_subcat = subcat,
      er_details = Some details, er_reroll_version = ver, er_created_at = now_iso\<rparr>"

definition skip_op :: "iso_time \<Rightarrow> string \<Rightarrow> stage \<Rightarrow> queue_item \<Rightarrow> string \<Rightarrow> string \<Rightarrow> string \<Rightarrow> bool
    \<Rightarrow> string option \<Rightarrow> op_body res" where
  "skip_op now_iso reroll_version stg item reason subcategory details permanent ver =
     bind_res (validate_transition (qi_state item) SKIPPED) (\<lambda>_. Inr (\<lambda>st.
       case next_seq st of (seq, (db, seq1)) \<Rightarrow>
         let db1 = set_wheel_state (qi_id item) SKIPPED seq now_iso db;
             new = skip_row_of now_iso stg (qi_id item) reason permanent ver
         in case bind_res
                   (upsert_skip (\<lambda>r. r\<lparr>sk_reason := sk_reason new, sk_permanent := sk_permanent new,
                        sk_reroll_version := sk_reroll_version new, sk_created_at := sk_created_at new\<rparr>) new db1)
                   (insert_error (error_row_of now_iso (qi_id item) reason (Some subcategory) details reroll_version)) of
              Inl e \<Rightarrow> (Inl e, (db1, seq1))
            | Inr db2 \<Rightarrow> (Inr VNone, (delete_work (qi_id item) stg db2, seq1))))"

definition attempts_of :: "int \<Rightarrow> stage \<Rightarrow> database \<Rightarrow> int" where
  "attempts_of wheel_id stg db =
     (case sql_get work_key (wheel_id, stage_value stg) (work db) of None \<Rightarrow> 0 | Some r \<Rightarrow> wk_attempts r)"

definition retry_op :: "real \<Rightarrow> real \<Rightarrow> int \<Rightarrow> string \<Rightarrow> stage \<Rightarrow> queue_item \<Rightarrow> string \<Rightarrow> string \<Rightarrow> op_body" where
  "retry_op now_value jitter max_attempts reroll_version stg item reason details st =
     (case st of (db, seq0) \<Rightarrow>
        let now_iso = iso now_value;
            attempts = attempts_of (qi_id item) stg db + 1
        in if max_attempts < attempts
           then (case validate_transition (qi_state item) QUARANTINED of
                   Inl e \<Rightarrow> (Inl e, (db, seq0))
                 | Inr _ \<Rightarrow>
                     (case next_seq (db, seq0) of (seq, (db0, seq1)) \<Rightarrow>
                        let db1 = set_wheel_state (qi_id item) QUARANTINED seq now_iso db0;
                            new = \<lparr>wk_wheel_id = qi_id item, wk_stage = stage_value stg, wk_attempts = attempts,
                              wk_next_attempt_at = now_iso, wk_last_error = Some details,
                              wk_quarantined_at = Some now_iso\<rparr>
                        in case bind_res
                                  (upsert_work (\<lambda>r. r\<lparr>wk_attempts := wk_attempts new,
                                       wk_next_attempt_at := wk_next_attempt_at new,
                                       wk_last_error := wk_last_error new,
                                       wk_quarantined_at := wk_quarantined_at new\<rparr>) new db1)
                                  (insert_error (error_row_of now_iso (qi_id item) reason None details reroll_version)) of
                             Inl e \<Rightarrow> (Inl e, (db1, seq1))
                           | Inr db2 \<Rightarrow> (Inr (VRetried ''quarantined'' attempts), (db2, seq1))))
           else let delay = compute_backoff BASE_BACKOFF_SECONDS MAX_BACKOFF_SECONDS jitter attempts;
                    new = \<lparr>wk_wheel_id = qi_id item, wk_stage = stage_value stg, wk_attempts = attempts,
                      wk_next_attempt_at = iso (now_value + delay), wk_last_error = Some details,
                      wk_quarantined_at = None\<rparr>
                in case upsert_work (\<lambda>r. r\<lparr>wk_attempts := wk_attempts new,
                          wk_next_attempt_at := wk_next_attempt_at new,
                          wk_last_error := wk_last_error new\<rparr>) new db of
                     Inl e \<Rightarrow> (Inl e, (db, seq0))
                   | Inr db1 \<Rightarrow> (Inr (VRetried ''retried'' attempts), (db1, seq0)))"

section \<open>The dispatcher's state\<close>

type_synonym lane_cursor = "(int \<times> string \<times> int) option"

record dispatcher =
  ds_reroll_version :: string
  ds_max_attempts :: int
  ds_ema_alpha :: real
  ds_limiter :: "limiter option"
  ds_in_flight :: "stage \<Rightarrow> int list"
  ds_cursors :: "stage \<Rightarrow> lane_cursor"
  ds_outcome_counts :: "stage \<Rightarrow> (string \<times> int) list"
  ds_retry_count :: "stage \<Rightarrow> int"
  ds_quarantine_count :: "stage \<Rightarrow> int"
  ds_last_completion :: "stage \<Rightarrow> real option"
  ds_throughput_ema :: "stage \<Rightarrow> real"

definition new_dispatcher :: "string \<Rightarrow> int \<Rightarrow> real \<Rightarrow> limiter option \<Rightarrow> dispatcher" where
  "new_dispatcher version max_attempts alpha limiter0 =
     \<lparr>ds_reroll_version = version, ds_max_attempts = max_attempts, ds_ema_alpha = alpha,
      ds_limiter = limiter0, ds_in_flight = (\<lambda>_. []), ds_cursors = (\<lambda>_. None),
      ds_outcome_counts = (\<lambda>_. []), ds_retry_count = (\<lambda>_. 0), ds_quarantine_count = (\<lambda>_. 0),
      ds_last_completion = (\<lambda>_. None), ds_throughput_ema = (\<lambda>_. 0)\<rparr>"

text \<open>The keyset predicate as the SQL writes it, an OR chain over \<^verbatim>\<open>(lane, project, id)\<close>.\<close>

definition lane_project_id_keyset :: "lane_cursor \<Rightarrow> wheel_row \<Rightarrow> bool" where
  "lane_project_id_keyset cursor w =
     (case cursor of None \<Rightarrow> True
      | Some (last_lane, last_project, last_id) \<Rightarrow>
          last_lane < w_lane w
          \<or> (w_lane w = last_lane \<and> last_project < w_project w)
          \<or> (w_lane w = last_lane \<and> w_project w = last_project \<and> last_id < w_id w))"

definition queue_key :: "wheel_row \<Rightarrow> int \<times> string \<times> int" where
  "queue_key w = (w_lane w, w_project w, w_id w)"

definition deferred :: "stage \<Rightarrow> iso_time \<Rightarrow> database \<Rightarrow> int \<Rightarrow> bool" where
  "deferred stg now_iso db wheel_id =
     (\<exists>r \<in> set (work db). wk_wheel_id r = wheel_id \<and> wk_stage r = stage_value stg
        \<and> (wk_quarantined_at r \<noteq> None \<or> now_iso < wk_next_attempt_at r))"

definition claim_query :: "stage \<Rightarrow> lane_cursor \<Rightarrow> int list \<Rightarrow> iso_time \<Rightarrow> int \<Rightarrow> database \<Rightarrow> wheel_row list" where
  "claim_query stg cursor in_flight now_iso limit db =
     sql_limit limit (sort_key queue_key
       (filter (\<lambda>w. w_state w = state_int (queue_state stg) \<and> lane_project_id_keyset cursor w
                    \<and> \<not> deferred stg now_iso db (w_id w) \<and> w_id w \<notin> set in_flight) (wheels db)))"

definition item_of :: "stage \<Rightarrow> wheel_row \<Rightarrow> queue_item" where
  "item_of stg w = \<lparr>qi_id = w_id w, qi_project = w_project w, qi_lane = w_lane w, qi_state = queue_state stg\<rparr>"

text \<open>\<^verbatim>\<open>claim\<close>: a full page advances the cursor to its last item, which an empty full page has not.\<close>

definition claim :: "real \<Rightarrow> stage \<Rightarrow> int \<Rightarrow> database \<Rightarrow> dispatcher \<Rightarrow> (queue_item list \<times> dispatcher) res" where
  "claim now stg limit db ds =
     (let items = map (item_of stg)
            (claim_query stg (ds_cursors ds stg) (ds_in_flight ds stg) (iso now) limit db);
          advance = (\<lambda>c. ds\<lparr>ds_cursors := (ds_cursors ds)(stg := c),
                            ds_in_flight := (ds_in_flight ds)(stg := ds_in_flight ds stg @ map qi_id items)\<rparr>)
      in if int (length items) < limit then Inr (items, advance None)
         else if items = [] then Inl IndexError
         else Inr (items, advance (Some (qi_lane (last items), qi_project (last items), qi_id (last items)))))"

definition release :: "stage \<Rightarrow> int \<Rightarrow> dispatcher \<Rightarrow> dispatcher" where
  "release stg wheel_id ds =
     ds\<lparr>ds_in_flight := (ds_in_flight ds)(stg := filter (\<lambda>i. i \<noteq> wheel_id) (ds_in_flight ds stg))\<rparr>"

text \<open>The clock readings and the draw of the generator during \<^verbatim>\<open>apply_outcome\<close>.\<close>

record outcome_readings =
  or_now :: real
  or_jitter :: real
  or_penalize :: real
  or_done :: real

definition build_write_op :: "outcome_readings \<Rightarrow> dispatcher \<Rightarrow> stage \<Rightarrow> queue_item \<Rightarrow> outcome \<Rightarrow> op_body res" where
  "build_write_op rd ds stg item out =
     (case out of
        Ok next_state write \<Rightarrow> ok_op (iso (or_now rd)) stg item next_state write
      | Skip reason subcategory details permanent ver \<Rightarrow>
          skip_op (iso (or_now rd)) (ds_reroll_version ds) stg item reason subcategory details permanent ver
      | Retry reason details \<Rightarrow>
          Inr (retry_op (or_now rd) (or_jitter rd) (ds_max_attempts ds) (ds_reroll_version ds) stg item reason details)
      | RateLimited child seconds \<Rightarrow> Inl PyTypeError)"

definition bump :: "string \<Rightarrow> (string \<times> int) list \<Rightarrow> (string \<times> int) list" where
  "bump k counts =
     (case map_of counts k of None \<Rightarrow> counts @ [(k, 1)]
      | Some n \<Rightarrow> map (\<lambda>(j, m). (j, if j = k then n + 1 else m)) counts)"

definition record_throughput :: "real \<Rightarrow> stage \<Rightarrow> dispatcher \<Rightarrow> dispatcher" where
  "record_throughput now stg ds =
     (let ds1 = ds\<lparr>ds_last_completion := (ds_last_completion ds)(stg := Some now)\<rparr>
      in case ds_last_completion ds stg of
           None \<Rightarrow> ds1
         | Some l \<Rightarrow>
             if now - l \<le> 0 then ds1
             else ds1\<lparr>ds_throughput_ema := (ds_throughput_ema ds1)
                    (stg := ds_ema_alpha ds * (1 / (now - l)) + (1 - ds_ema_alpha ds) * ds_throughput_ema ds stg)\<rparr>)"

definition record_outcome :: "real \<Rightarrow> stage \<Rightarrow> outcome \<Rightarrow> op_value \<Rightarrow> dispatcher \<Rightarrow> dispatcher" where
  "record_outcome now stg out result ds =
     (let count = (\<lambda>k d. d\<lparr>ds_outcome_counts := (ds_outcome_counts d)(stg := bump k (ds_outcome_counts d stg))\<rparr>);
          ds1 = (case out of
             Ok _ _ \<Rightarrow> count ''ok'' ds
           | Skip _ _ _ _ _ \<Rightarrow> count ''skip'' ds
           | Retry _ _ \<Rightarrow>
               (let d = count ''retry'' ds
                in if (case result of VRetried k _ \<Rightarrow> k = ''quarantined'' | _ \<Rightarrow> False)
                   then d\<lparr>ds_quarantine_count := (ds_quarantine_count d)(stg := ds_quarantine_count d stg + 1)\<rparr>
                   else d\<lparr>ds_retry_count := (ds_retry_count d)(stg := ds_retry_count d stg + 1)\<rparr>)
           | RateLimited _ _ \<Rightarrow> count ''rate_limited'' ds)
      in record_throughput now stg ds1)"

text \<open>
  \<^verbatim>\<open>apply_outcome\<close> when nothing else runs between submission and commit. The item is released
  whatever happens.
\<close>

definition apply_outcome :: "outcome_readings \<Rightarrow> stage \<Rightarrow> queue_item \<Rightarrow> outcome \<Rightarrow> dispatcher \<times> database op_state
    \<Rightarrow> op_value res \<times> dispatcher \<times> database op_state" where
  "apply_outcome rd stg item out s =
     (case s of (ds, st) \<Rightarrow>
        case (case out of
                RateLimited child seconds \<Rightarrow>
                  (case ds_limiter ds of
                     None \<Rightarrow> (Inr VNone, ds, st)
                   | Some l \<Rightarrow>
                       (case hl_penalize (or_penalize rd) child seconds l of
                          Inl e \<Rightarrow> (Inl e, ds, st)
                        | Inr l1 \<Rightarrow> (Inr VNone, ds\<lparr>ds_limiter := Some l1\<rparr>, st)))
              | _ \<Rightarrow>
                  (case build_write_op rd ds stg item out of
                     Inl e \<Rightarrow> (Inl e, ds, st)
                   | Inr body \<Rightarrow> (case exec_op body st of (r, st1) \<Rightarrow> (r, ds, st1)))) of
          (Inl e, ds1, st1) \<Rightarrow> (Inl e, release stg (qi_id item) ds1, st1)
        | (Inr v, ds1, st1) \<Rightarrow>
            (Inr v, release stg (qi_id item) (record_outcome (or_done rd) stg out v ds1), st1))"

section \<open>Metrics\<close>

record stage_metrics =
  sm_queue_depth :: int
  sm_in_flight :: int
  sm_oldest_pending_age :: "real option"
  sm_throughput_ema :: real
  sm_outcome_counts :: "(string \<times> int) list"
  sm_retry_count :: int
  sm_quarantine_count :: int

definition metrics :: "real \<Rightarrow> stage \<Rightarrow> database \<Rightarrow> dispatcher \<Rightarrow> stage_metrics" where
  "metrics now stg db ds =
     (let queued = filter (\<lambda>w. w_state w = state_int (queue_state stg)) (wheels db)
      in \<lparr>sm_queue_depth = int (length queued),
          sm_in_flight = int (length (remdups (ds_in_flight ds stg))),
          sm_oldest_pending_age = (if queued = [] then None
             else Some (now - parse_iso (Min (set (map w_updated_at queued))))),
          sm_throughput_ema = ds_throughput_ema ds stg, sm_outcome_counts = ds_outcome_counts ds stg,
          sm_retry_count = ds_retry_count ds stg, sm_quarantine_count = ds_quarantine_count ds stg\<rparr>)"

section \<open>Facts about claims\<close>

lemma lane_keyset_after: "lane_project_id_keyset c w = after c (queue_key w)"
  by (auto simp: lane_project_id_keyset_def queue_key_def after_def less_prod_def split: option.splits)

text \<open>What a stage may claim now: its queue, less what is deferred and what is in flight.\<close>

definition claimable :: "stage \<Rightarrow> iso_time \<Rightarrow> database \<Rightarrow> int list \<Rightarrow> wheel_row list" where
  "claimable stg now_iso db in_flight =
     filter (\<lambda>w. w_state w = state_int (queue_state stg) \<and> \<not> deferred stg now_iso db (w_id w)
                 \<and> w_id w \<notin> set in_flight) (wheels db)"

lemma claim_query_page:
  "claim_query stg c in_flight now_iso limit db
    = keyset_page queue_key limit (claimable stg now_iso db in_flight) c"
proof -
  have "filter (\<lambda>w. w_state w = state_int (queue_state stg) \<and> lane_project_id_keyset c w
                    \<and> \<not> deferred stg now_iso db (w_id w) \<and> w_id w \<notin> set in_flight) (wheels db)
      = filter (\<lambda>r. after c (queue_key r)) (claimable stg now_iso db in_flight)"
    by (auto simp: claimable_def lane_keyset_after intro: filter_cong)
  then show ?thesis by (simp add: claim_query_def keyset_page_def)
qed

lemma distinct_queue_key:
  "distinct (map w_id (wheels db)) \<Longrightarrow> distinct (map queue_key (claimable stg now_iso db in_flight))"
  by (auto simp: claimable_def distinct_map queue_key_def inj_on_def)

text \<open>Successive claims at one instant, until one comes back short (the cursor is reset).\<close>

fun claims :: "nat \<Rightarrow> real \<Rightarrow> stage \<Rightarrow> int \<Rightarrow> database \<Rightarrow> dispatcher \<Rightarrow> (queue_item list \<times> dispatcher) res" where
  "claims 0 now stg limit db ds = Inr ([], ds)"
| "claims (Suc k) now stg limit db ds =
     bind_res (claim now stg limit db ds) (\<lambda>(items, ds1).
       if ds_cursors ds1 stg = None then Inr (items, ds1)
       else bind_res (claims k now stg limit db ds1) (\<lambda>(rest, ds2). Inr (items @ rest, ds2)))"

lemma after_page_in_flight:
  assumes ids: "distinct (map w_id (wheels db))"
    and flight: "set (ds_in_flight ds stg) = set F \<union> w_id ` {w \<in> set (claimable stg t db F). \<not> after c (queue_key w)}"
  shows "keyset_page queue_key limit (claimable stg t db (ds_in_flight ds stg)) c
    = keyset_page queue_key limit (claimable stg t db F) c"
proof -
  have same: "v = w" if "v \<in> set (wheels db)" "w \<in> set (wheels db)" "w_id v = w_id w" for v w
    using that ids by (metis distinct_map inj_onD)
  have "filter (\<lambda>r. after c (queue_key r)) (claimable stg t db (ds_in_flight ds stg))
      = filter (\<lambda>r. after c (queue_key r)) (claimable stg t db F)"
    unfolding claimable_def filter_filter
    by (rule filter_cong) (use same in \<open>auto simp: flight claimable_def\<close>)
  then show ?thesis by (simp add: keyset_page_def)
qed

lemma claims_from:
  assumes ids: "distinct (map w_id (wheels db))" and l: "0 < limit"
    and "ds_cursors ds stg = c"
    and "set (ds_in_flight ds stg) = set F \<union> w_id ` {w \<in> set (claimable stg (iso now) db F). \<not> after c (queue_key w)}"
    and "length (filter (\<lambda>r. after c (queue_key r)) (claimable stg (iso now) db F)) < k"
  shows "\<exists>ds'. claims k now stg limit db ds = Inr (map (item_of stg) (sort_key queue_key
        (filter (\<lambda>r. after c (queue_key r)) (claimable stg (iso now) db F))), ds')
    \<and> ds_cursors ds' stg = None
    \<and> set (ds_in_flight ds' stg) = set F \<union> w_id ` set (claimable stg (iso now) db F)"
  using assms(3-5)
proof (induction k arbitrary: c ds)
  case 0
  then show ?case by simp
next
  case (Suc k)
  let ?E = "claimable stg (iso now) db F"
  define S where "S = sort_key queue_key (filter (\<lambda>r. after c (queue_key r)) ?E)"
  define P where "P = sql_limit limit S"
  have page: "claim_query stg (ds_cursors ds stg) (ds_in_flight ds stg) (iso now) limit db = P"
    unfolding claim_query_page Suc.prems(1) after_page_in_flight [OF ids Suc.prems(2)]
    by (simp add: P_def S_def keyset_page_def)
  have setS: "set S = {w \<in> set ?E. after c (queue_key w)}" by (simp add: S_def)
  have d: "distinct (map queue_key S)"
    using distinct_queue_key [OF ids] by (simp add: S_def distinct_map_sort distinct_map_filter)
  show ?case
  proof (cases "int (length P) < limit")
    case True
    then have PS: "P = S" unfolding P_def by (rule sql_limit_short)
    have claim: "claim now stg limit db ds = Inr (map (item_of stg) P,
        ds\<lparr>ds_cursors := (ds_cursors ds)(stg := None),
           ds_in_flight := (ds_in_flight ds)(stg := ds_in_flight ds stg @ map w_id P)\<rparr>)"
      using True by (simp add: claim_def page Let_def item_of_def comp_def)
    have "set (ds_in_flight ds stg @ map w_id P) = set F \<union> w_id ` set ?E"
      using Suc.prems(2) by (auto simp: PS setS)
    then show ?thesis unfolding S_def [symmetric] by (simp add: claim PS [symmetric])
  next
    case False
    then have ne: "P \<noteq> []" using l by auto
    let ?c = "Some (queue_key (last P))"
    let ?ds = "ds\<lparr>ds_cursors := (ds_cursors ds)(stg := ?c),
           ds_in_flight := (ds_in_flight ds)(stg := ds_in_flight ds stg @ map w_id P)\<rparr>"
    have claim: "claim now stg limit db ds = Inr (map (item_of stg) P, ?ds)"
      using False ne by (simp add: claim_def page Let_def item_of_def comp_def last_map queue_key_def)
    obtain Q where Q: "S = P @ Q" using sql_limit_append_rest P_def by blast
    have SQ: "sort_key queue_key (filter (\<lambda>r. after ?c (queue_key r)) ?E) = Q"
      by (rule keyset_rest [OF distinct_queue_key [OF ids]]) (use Q ne in \<open>simp_all add: S_def\<close>)
    have setQ: "set Q = {w \<in> set ?E. after ?c (queue_key w)}" by (simp add: SQ [symmetric])
    have "set P \<inter> set Q = {}" using d by (auto simp: Q)
    moreover have "set S = set P \<union> set Q" by (simp add: Q)
    ultimately have later: "{w \<in> set ?E. \<not> after ?c (queue_key w)}
        = {w \<in> set ?E. \<not> after c (queue_key w)} \<union> set P"
      using setS setQ by blast
    have flight: "set (ds_in_flight ?ds stg) = set F \<union> w_id ` {w \<in> set ?E. \<not> after ?c (queue_key w)}"
      unfolding later using Suc.prems(2) by auto
    have len: "length (filter (\<lambda>r. after ?c (queue_key r)) ?E) = length Q"
      by (metis SQ length_sort)
    have "length S = length (filter (\<lambda>r. after c (queue_key r)) ?E)" by (simp add: S_def)
    then have "length (filter (\<lambda>r. after ?c (queue_key r)) ?E) < k"
      unfolding len using Suc.prems(3) ne by (cases P) (simp_all add: Q)
    from Suc.IH [OF _ flight this]
    obtain ds' where "claims k now stg limit db ?ds = Inr (map (item_of stg) Q, ds')"
      "ds_cursors ds' stg = None" "set (ds_in_flight ds' stg) = set F \<union> w_id ` set ?E"
      unfolding SQ by auto
    then show ?thesis unfolding S_def [symmetric] by (simp add: claim Q)
  qed
qed

section \<open>Properties of claims\<close>

text \<open>
  C17. A sweep of the queue: at a given instant, successive claims of any positive size hand out
  exactly the claimable wheels (in the stage's queue, not deferred by a future or quarantined work
  row, not already in flight), each once, in lane, project, id order, then reset the cursor; and
  afterwards all of them are in flight.
\<close>

theorem claims_sweep_the_queue:
  assumes "distinct (map w_id (wheels db))" and "0 < limit" and "ds_cursors ds stg = None"
    and "length (claimable stg (iso now) db (ds_in_flight ds stg)) < k"
  shows "\<exists>ds'. claims k now stg limit db ds
      = Inr (map (item_of stg) (sort_key queue_key (claimable stg (iso now) db (ds_in_flight ds stg))), ds')
    \<and> ds_cursors ds' stg = None
    \<and> set (ds_in_flight ds' stg)
        = set (ds_in_flight ds stg) \<union> w_id ` set (claimable stg (iso now) db (ds_in_flight ds stg))"
  using claims_from [OF assms(1,2), where ds = ds and stg = stg and c = None and k = k and now = now
      and F = "ds_in_flight ds stg"] assms(3,4)
  by (simp add: after_def)

section \<open>Facts about outcomes\<close>

lemma wheel_ids_set_state [simp]: "wheel_ids (set_wheel_state i s q t db) = wheel_ids db"
  using map_key_sql_update [of "\<lambda>w. w_id w = i" w_id
      "\<lambda>w. w\<lparr>w_state := state_int s, w_change_seq := q, w_updated_at := t\<rparr>" "wheels db"]
  by (simp add: wheel_ids_def set_wheel_state_def update_wheels_def flip: set_map)

lemma set_wheel_state_tables [simp]:
  "work (set_wheel_state i s q t db) = work db" "errors (set_wheel_state i s q t db) = errors db"
  "skips (set_wheel_state i s q t db) = skips db" "wheel_repodata (set_wheel_state i s q t db) = wheel_repodata db"
  by (simp_all add: set_wheel_state_def update_wheels_def)

lemma get_set_wheel_state:
  "sql_get w_id j (wheels (set_wheel_state i s q t db)) = map_option (\<lambda>w. if w_id w = i
     then w\<lparr>w_state := state_int s, w_change_seq := q, w_updated_at := t\<rparr> else w) (sql_get w_id j (wheels db))"
  unfolding set_wheel_state_def update_wheels_def by (simp add: sql_get_update)

lemma upsert_work_present:
  "wk_wheel_id new \<in> wheel_ids db
    \<Longrightarrow> upsert_work upd new db = Inr (db\<lparr>work := sql_upsert work_key upd new (work db)\<rparr>)"
  by (simp add: upsert_work_def)

lemma insert_error_present:
  "er_wheel_id e = Some i \<Longrightarrow> i \<in> wheel_ids db
    \<Longrightarrow> insert_error e db = Inr (db\<lparr>errors := errors db @ [e\<lparr>er_id := next_rowid (map er_id (errors db))\<rparr>]\<rparr>)"
  by (simp add: insert_error_def)

lemma get_upsert_work:
  assumes "\<And>r. work_key (upd r) = work_key r"
  shows "sql_get work_key k (sql_upsert work_key upd new rs)
    = (if k = work_key new then Some (case sql_get work_key k rs of None \<Rightarrow> new | Some r \<Rightarrow> upd r)
       else sql_get work_key k rs)"
  by (rule sql_get_upsert) (simp add: assms)

definition work_of :: "int \<Rightarrow> stage \<Rightarrow> database \<Rightarrow> work_row option" where
  "work_of wheel_id stg db = sql_get work_key (wheel_id, stage_value stg) (work db)"

definition wheel_of :: "int \<Rightarrow> database \<Rightarrow> wheel_row option" where
  "wheel_of wheel_id db = sql_get w_id wheel_id (wheels db)"

lemma work_of_key: "work_of i stg db = Some r \<Longrightarrow> work_key r = (i, stage_value stg)"
  by (auto simp: work_of_def dest: sql_get_Some)

text \<open>The two branches of a retry, with the wheel present.\<close>

lemma retry_op_again:
  assumes "qi_id item \<in> wheel_ids db" and "attempts_of (qi_id item) stg db + 1 \<le> max_attempts"
  shows "\<exists>db'. retry_op now jitter max_attempts version stg item reason details (db, seq)
      = (Inr (VRetried ''retried'' (attempts_of (qi_id item) stg db + 1)), (db', seq))
    \<and> db' = db\<lparr>work := work db'\<rparr>
    \<and> work_of (qi_id item) stg db' = Some \<lparr>wk_wheel_id = qi_id item, wk_stage = stage_value stg,
         wk_attempts = attempts_of (qi_id item) stg db + 1,
         wk_next_attempt_at = iso (now + compute_backoff BASE_BACKOFF_SECONDS MAX_BACKOFF_SECONDS jitter
           (attempts_of (qi_id item) stg db + 1)),
         wk_last_error = Some details,
         wk_quarantined_at = (case work_of (qi_id item) stg db of None \<Rightarrow> None | Some r \<Rightarrow> wk_quarantined_at r)\<rparr>"
proof (intro exI conjI)
  let ?r = "retry_op now jitter max_attempts version stg item reason details (db, seq)"
  let ?db' = "fst (snd ?r)"
  show "?r = (Inr (VRetried ''retried'' (attempts_of (qi_id item) stg db + 1)), (?db', seq))"
    using assms by (simp add: retry_op_def Let_def upsert_work_present)
  show "?db' = db\<lparr>work := work ?db'\<rparr>"
    using assms by (simp add: retry_op_def Let_def upsert_work_present)
  show "work_of (qi_id item) stg ?db' = Some \<lparr>wk_wheel_id = qi_id item, wk_stage = stage_value stg,
         wk_attempts = attempts_of (qi_id item) stg db + 1,
         wk_next_attempt_at = iso (now + compute_backoff BASE_BACKOFF_SECONDS MAX_BACKOFF_SECONDS jitter
           (attempts_of (qi_id item) stg db + 1)),
         wk_last_error = Some details,
         wk_quarantined_at = (case work_of (qi_id item) stg db of None \<Rightarrow> None | Some r \<Rightarrow> wk_quarantined_at r)\<rparr>"
    using assms
    by (auto simp: retry_op_def Let_def upsert_work_present work_of_def get_upsert_work work_key_def
        split: option.splits dest!: sql_get_Some)
qed

lemma retry_op_quarantines:
  assumes "qi_id item \<in> wheel_ids db" and "max_attempts < attempts_of (qi_id item) stg db + 1"
    and "qi_state item = queue_state stg"
  shows "\<exists>db'. retry_op now jitter max_attempts version stg item reason details (db, seq)
      = (Inr (VRetried ''quarantined'' (attempts_of (qi_id item) stg db + 1)), (db', seq + 1))
    \<and> wheels db' = wheels (set_wheel_state (qi_id item) QUARANTINED (seq + 1) (iso now) db)
    \<and> work_of (qi_id item) stg db' = Some \<lparr>wk_wheel_id = qi_id item, wk_stage = stage_value stg,
         wk_attempts = attempts_of (qi_id item) stg db + 1, wk_next_attempt_at = iso now,
         wk_last_error = Some details, wk_quarantined_at = Some (iso now)\<rparr>
    \<and> length (errors db') = length (errors db) + 1"
proof -
  have valid: "validate_transition (qi_state item) QUARANTINED = Inr ()"
    by (cases stg) (simp_all add: validate_transition_def assms(3))
  have present: "qi_id item \<in> wheel_ids (set_wheel_state (qi_id item) QUARANTINED (seq + 1) (iso now) db\<lparr>work := x\<rparr>)" for x
    using assms(1) by (simp add: wheel_ids_def) (metis wheel_ids_def wheel_ids_set_state)
  let ?r = "retry_op now jitter max_attempts version stg item reason details (db, seq)"
  have r: "?r = (Inr (VRetried ''quarantined'' (attempts_of (qi_id item) stg db + 1)), (fst (snd ?r), seq + 1))"
    and w: "wheels (fst (snd ?r)) = wheels (set_wheel_state (qi_id item) QUARANTINED (seq + 1) (iso now) db)"
    and e: "length (errors (fst (snd ?r))) = length (errors db) + 1"
    and k: "work_of (qi_id item) stg (fst (snd ?r)) = Some \<lparr>wk_wheel_id = qi_id item, wk_stage = stage_value stg,
         wk_attempts = attempts_of (qi_id item) stg db + 1, wk_next_attempt_at = iso now,
         wk_last_error = Some details, wk_quarantined_at = Some (iso now)\<rparr>"
    using assms(1,2) valid present
    by (auto simp: retry_op_def Let_def next_seq_def upsert_work_present insert_error_present error_row_of_def
        work_of_def get_upsert_work work_key_def split: option.splits dest!: sql_get_Some)
  then show ?thesis by blast
qed

section \<open>Properties of outcomes\<close>

definition demo_wheel :: "int \<Rightarrow> wheel_state \<Rightarrow> int \<Rightarrow> wheel_row" where
  "demo_wheel i s l =
     \<lparr>w_id = i, w_filename = [char_of (48 + nat i)], w_project = ''p'', w_conda_name = None, w_state = state_int s,
      w_lane = l, w_url = ''u'', w_wheel_sha256 = None, w_metadata_sha256 = None, w_size = None,
      w_upload_time = None, w_requires_python = None, w_yanked = False, w_yanked_reason = None,
      w_blob_sha256 = None, w_serial = 1, w_change_seq = i, w_deleted_at = None, w_updated_at = 0\<rparr>"

fun retries :: "int \<Rightarrow> string \<Rightarrow> stage \<Rightarrow> queue_item \<Rightarrow> string \<Rightarrow> string \<Rightarrow> (real \<times> real) list
    \<Rightarrow> database op_state \<Rightarrow> op_value res list \<times> database op_state" where
  "retries max_attempts version stg item reason details [] st = ([], st)"
| "retries max_attempts version stg item reason details ((now, jitter) # rs) st =
     (case exec_op (retry_op now jitter max_attempts version stg item reason details) st of (r, st1) \<Rightarrow>
        case retries max_attempts version stg item reason details rs st1 of (out, st2) \<Rightarrow> (r # out, st2))"

lemma attempts_of_work: "attempts_of i stg db = (case work_of i stg db of None \<Rightarrow> 0 | Some r \<Rightarrow> wk_attempts r)"
  by (simp add: attempts_of_def work_of_def)

lemma wheels_same_ids: "wheels db' = wheels db \<Longrightarrow> wheel_ids db' = wheel_ids db"
  by (simp add: wheel_ids_def)

text \<open>The results of successive retries while the limit is not passed.\<close>

lemma retries_within:
  assumes "qi_id item \<in> wheel_ids db" and "attempts_of (qi_id item) stg db + int (length rs) \<le> max_attempts"
    and "case work_of (qi_id item) stg db of None \<Rightarrow> True | Some r \<Rightarrow> wk_quarantined_at r = None"
  shows "\<exists>db'. retries max_attempts version stg item reason details rs (db, seq)
      = (map (\<lambda>k. Inr (VRetried ''retried'' (attempts_of (qi_id item) stg db + int k))) [1..<length rs + 1], (db', seq))
    \<and> db' = db\<lparr>work := work db'\<rparr>
    \<and> attempts_of (qi_id item) stg db' = attempts_of (qi_id item) stg db + int (length rs)
    \<and> (rs \<noteq> [] \<longrightarrow> (\<exists>r. work_of (qi_id item) stg db' = Some r \<and> wk_quarantined_at r = None
         \<and> wk_next_attempt_at r = iso (fst (last rs) + compute_backoff BASE_BACKOFF_SECONDS MAX_BACKOFF_SECONDS
              (snd (last rs)) (wk_attempts r))))"
  using assms
proof (induction rs arbitrary: db)
  case Nil
  then show ?case by simp
next
  case (Cons x rs)
  obtain now jitter where x: "x = (now, jitter)" by (cases x)
  let ?n = "attempts_of (qi_id item) stg db"
  have "?n + 1 \<le> max_attempts" using Cons.prems(2) by simp
  from retry_op_again [OF Cons.prems(1) this, of now jitter version reason details seq]
  obtain db1 where one: "retry_op now jitter max_attempts version stg item reason details (db, seq)
      = (Inr (VRetried ''retried'' (?n + 1)), (db1, seq))"
    and frame: "db1 = db\<lparr>work := work db1\<rparr>"
    and row: "work_of (qi_id item) stg db1 = Some \<lparr>wk_wheel_id = qi_id item, wk_stage = stage_value stg,
         wk_attempts = ?n + 1,
         wk_next_attempt_at = iso (now + compute_backoff BASE_BACKOFF_SECONDS MAX_BACKOFF_SECONDS jitter (?n + 1)),
         wk_last_error = Some details,
         wk_quarantined_at = (case work_of (qi_id item) stg db of None \<Rightarrow> None | Some r \<Rightarrow> wk_quarantined_at r)\<rparr>"
    by blast
  have w1: "wheels db1 = wheels db" by (subst frame) simp
  have n1: "attempts_of (qi_id item) stg db1 = ?n + 1" by (simp add: attempts_of_work row)
  have q1: "case work_of (qi_id item) stg db1 of None \<Rightarrow> True | Some r \<Rightarrow> wk_quarantined_at r = None"
    using Cons.prems(3) by (simp add: row split: option.splits)
  have present: "qi_id item \<in> wheel_ids db1" using Cons.prems(1) wheels_same_ids [OF w1] by simp
  have bound: "attempts_of (qi_id item) stg db1 + int (length rs) \<le> max_attempts"
    using Cons.prems(2) by (simp add: n1)
  obtain db' where rest: "retries max_attempts version stg item reason details rs (db1, seq)
      = (map (\<lambda>k. Inr (VRetried ''retried'' (?n + 1 + int k))) [1..<length rs + 1], (db', seq))"
    "db' = db1\<lparr>work := work db'\<rparr>" "attempts_of (qi_id item) stg db' = ?n + 1 + int (length rs)"
    "rs \<noteq> [] \<longrightarrow> (\<exists>r. work_of (qi_id item) stg db' = Some r \<and> wk_quarantined_at r = None
         \<and> wk_next_attempt_at r = iso (fst (last rs) + compute_backoff BASE_BACKOFF_SECONDS MAX_BACKOFF_SECONDS
              (snd (last rs)) (wk_attempts r)))"
    using Cons.IH [OF present bound q1] unfolding n1 by blast
  have ups: "map (\<lambda>k. Inr (VRetried ''retried'' (?n + int k))) [1..<length (x # rs) + 1]
      = Inr (VRetried ''retried'' (?n + 1)) # map (\<lambda>k. Inr (VRetried ''retried'' (?n + 1 + int k))) [1..<length rs + 1]"
    by (subst upt_conv_Cons) (simp_all add: map_Suc_upt [symmetric] comp_def algebra_simps del: upt_Suc map_Suc_upt)
  have "db' = db\<lparr>work := work db'\<rparr>" using rest(2) frame by (metis database.update_convs(7) database.surjective)
  moreover have "rs = [] \<Longrightarrow> work_of (qi_id item) stg db' = work_of (qi_id item) stg db1"
    using rest(1) by simp
  ultimately show ?case
    using rest row Cons.prems(3) unfolding ups
    by (auto simp: x exec_op_def one split: option.splits)
qed

lemma retries_append:
  "retries m v stg item reason details (rs @ ss) st
    = (fst (retries m v stg item reason details rs st)
         @ fst (retries m v stg item reason details ss (snd (retries m v stg item reason details rs st))),
       snd (retries m v stg item reason details ss (snd (retries m v stg item reason details rs st))))"
proof (induction rs arbitrary: st)
  case Nil
  then show ?case by simp
next
  case (Cons x rs)
  then show ?case by (cases x) (simp split: prod.splits)
qed

lemma deferred_row:
  assumes "distinct (map work_key (work db))" and "work_of i stg db = Some r"
  shows "deferred stg t db i \<longleftrightarrow> wk_quarantined_at r \<noteq> None \<or> t < wk_next_attempt_at r"
proof -
  have r: "r \<in> set (work db)" "work_key r = (i, stage_value stg)"
    using assms(2) sql_get_Some unfolding work_of_def by fastforce+
  have "x = r" if "x \<in> set (work db)" "wk_wheel_id x = i" "wk_stage x = stage_value stg" for x
  proof (rule inj_onD [where f = work_key and A = "set (work db)"])
    show "inj_on work_key (set (work db))" using assms(1) by (simp add: distinct_map)
    show "work_key x = work_key r" using that r by (simp add: work_key_def)
  qed (use that r in simp_all)
  moreover have "wk_wheel_id r = i" "wk_stage r = stage_value stg" using r(2) by (simp_all add: work_key_def)
  ultimately show ?thesis unfolding deferred_def using r(1) by blast
qed

lemma quarantined_deferred: "work_of i stg db = Some r \<Longrightarrow> wk_quarantined_at r \<noteq> None \<Longrightarrow> deferred stg t db i"
  by (auto simp: deferred_def work_of_def work_key_def dest!: sql_get_Some)

lemma backoff_bounds:
  assumes "JITTER_LOW \<le> jitter" and "jitter < JITTER_HIGH" and "1 \<le> n"
  shows "min (30 * 2 powi (n - 1)) 21600 / 2 \<le> compute_backoff BASE_BACKOFF_SECONDS MAX_BACKOFF_SECONDS jitter n"
    and "compute_backoff BASE_BACKOFF_SECONDS MAX_BACKOFF_SECONDS jitter n < 3 / 2 * min (30 * 2 powi (n - 1)) 21600"
    and "15 \<le> compute_backoff BASE_BACKOFF_SECONDS MAX_BACKOFF_SECONDS jitter n"
proof -
  let ?d = "min (30 * 2 powi (n - 1)) 21600 :: real"
  have "(1::real) \<le> 2 powi (n - 1)" using assms(3) by (simp add: one_le_power_int)
  then have d: "30 \<le> ?d" by simp
  have eq: "compute_backoff BASE_BACKOFF_SECONDS MAX_BACKOFF_SECONDS jitter n = ?d * jitter"
    by (simp add: compute_backoff_def BASE_BACKOFF_SECONDS_def MAX_BACKOFF_SECONDS_def)
  have "?d * (1 / 2) \<le> ?d * jitter" by (rule mult_left_mono) (use assms(1) d in \<open>simp_all add: JITTER_LOW_def\<close>)
  then show "?d / 2 \<le> compute_backoff BASE_BACKOFF_SECONDS MAX_BACKOFF_SECONDS jitter n"
    and "15 \<le> compute_backoff BASE_BACKOFF_SECONDS MAX_BACKOFF_SECONDS jitter n"
    unfolding eq using d by linarith+
  have "?d * jitter < ?d * (3 / 2)"
    by (rule mult_strict_left_mono) (use assms(2) d in \<open>simp_all add: JITTER_HIGH_def\<close>)
  then show "compute_backoff BASE_BACKOFF_SECONDS MAX_BACKOFF_SECONDS jitter n < 3 / 2 * ?d"
    unfolding eq by linarith
qed

definition demo_item :: queue_item where
  "demo_item = \<lparr>qi_id = 1, qi_project = ''p'', qi_lane = 0, qi_state = NEED_CONVERT\<rparr>"

definition convert_db :: database where
  "convert_db = empty_db\<lparr>wheels := [demo_wheel 1 NEED_CONVERT 0, demo_wheel 2 NEED_CONVERT 0]\<rparr>"

lemma demo_facts:
  "qi_id demo_item = 1" "qi_state demo_item = queue_state CONVERT" "1 \<in> wheel_ids convert_db"
  "work convert_db = []" "work_of 1 stg convert_db = None" "attempts_of 1 stg convert_db = 0"
  by (simp_all add: demo_item_def convert_db_def wheel_ids_def demo_wheel_def empty_db_def work_of_def
      attempts_of_def sql_get_def)

theorem claims_sweep_the_queue_witness:
  "\<exists>ds'. claims 3 0 CONVERT 1 convert_db (new_dispatcher ''1'' 8 1 None)
      = Inr (map (item_of CONVERT) (sort_key queue_key (claimable CONVERT (iso 0) convert_db [])), ds')"
proof -
  have "length (claimable CONVERT (iso 0) convert_db (ds_in_flight (new_dispatcher ''1'' 8 1 None) CONVERT)) < 3"
    by (simp add: claimable_def convert_db_def empty_db_def)
  from claims_sweep_the_queue [OF _ _ _ this, of 1] show ?thesis
    by (simp add: new_dispatcher_def convert_db_def demo_wheel_def empty_db_def) blast
qed

text \<open>
  C15. The life of a failing item: starting without a work row, the first \<^verbatim>\<open>max_attempts\<close> retries are
  recorded as attempts 1, 2, ... and leave every wheel row alone, and the next one quarantines the
  wheel: its state is \<^verbatim>\<open>QUARANTINED\<close> under a fresh sequence number, and no claim at any later time
  returns it, until somebody clears the work row.
\<close>

theorem retry_lifecycle:
  assumes "qi_id item \<in> wheel_ids db" and "qi_state item = queue_state stg"
    and "work_of (qi_id item) stg db = None" and "int (length rs) = max_attempts"
  shows "\<exists>db1 db2. retries max_attempts version stg item reason details rs (db, seq)
      = (map (\<lambda>k. Inr (VRetried ''retried'' (int k))) [1..<length rs + 1], (db1, seq))
    \<and> wheels db1 = wheels db
    \<and> retries max_attempts version stg item reason details (rs @ [x]) (db, seq)
      = (map (\<lambda>k. Inr (VRetried ''retried'' (int k))) [1..<length rs + 1]
           @ [Inr (VRetried ''quarantined'' (max_attempts + 1))], (db2, seq + 1))
    \<and> wheels db2 = wheels (set_wheel_state (qi_id item) QUARANTINED (seq + 1) (iso (fst x)) db)
    \<and> (\<forall>t. deferred stg t db2 (qi_id item))"
proof -
  have n: "attempts_of (qi_id item) stg db = 0" by (simp add: attempts_of_work assms(3))
  obtain db1 where within: "retries max_attempts version stg item reason details rs (db, seq)
      = (map (\<lambda>k. Inr (VRetried ''retried'' (int k))) [1..<length rs + 1], (db1, seq))"
    and frame: "db1 = db\<lparr>work := work db1\<rparr>" and n1: "attempts_of (qi_id item) stg db1 = max_attempts"
    using retries_within [OF assms(1), where rs = rs and stg = stg and max_attempts = max_attempts
        and version = version and reason = reason and details = details and seq = seq] assms(3,4) by (auto simp: n)
  have w1: "wheels db1 = wheels db" by (subst frame) simp
  have "qi_id item \<in> wheel_ids db1" using assms(1) wheels_same_ids [OF w1] by simp
  from retry_op_quarantines [OF this _ assms(2), of max_attempts "fst x" "snd x" version reason details seq]
  obtain db2 where q: "retry_op (fst x) (snd x) max_attempts version stg item reason details (db1, seq)
      = (Inr (VRetried ''quarantined'' (max_attempts + 1)), (db2, seq + 1))"
    "wheels db2 = wheels (set_wheel_state (qi_id item) QUARANTINED (seq + 1) (iso (fst x)) db1)"
    and row: "\<exists>r. work_of (qi_id item) stg db2 = Some r \<and> wk_quarantined_at r \<noteq> None"
    by (auto simp: n1)
  have "wheels db2 = wheels (set_wheel_state (qi_id item) QUARANTINED (seq + 1) (iso (fst x)) db)"
    using q(2) w1 by (simp add: set_wheel_state_def update_wheels_def)
  moreover have "\<forall>t. deferred stg t db2 (qi_id item)" using row quarantined_deferred by blast
  moreover have "retries max_attempts version stg item reason details [x] (db1, seq)
      = ([Inr (VRetried ''quarantined'' (max_attempts + 1))], (db2, seq + 1))"
    by (cases x) (use q(1) in \<open>simp add: exec_op_def\<close>)
  ultimately show ?thesis using within w1 by (auto simp: retries_append)
qed

theorem retry_lifecycle_witness:
  "\<exists>db1 db2. retries 2 ''1'' CONVERT demo_item ''r'' ''d'' [(0, 1), (50, 1)] (convert_db, 2)
      = (map (\<lambda>k. Inr (VRetried ''retried'' (int k))) [1..<3], (db1, 2))
    \<and> wheels db1 = wheels convert_db
    \<and> retries 2 ''1'' CONVERT demo_item ''r'' ''d'' ([(0, 1), (50, 1)] @ [(200, 1)]) (convert_db, 2)
      = (map (\<lambda>k. Inr (VRetried ''retried'' (int k))) [1..<3] @ [Inr (VRetried ''quarantined'' 3)], (db2, 3))"
  using retry_lifecycle [of demo_item convert_db CONVERT "[(0, 1), (50, 1)]" 2 "''1''" "''r''" "''d''" 2 "(200, 1)"]
  by (simp add: demo_facts numeral_3_eq_3 del: retries.simps upt_Suc append.simps) blast

text \<open>
  C20. Backoff: a retry within the limit postpones the item by half to one and a half times
  \<^verbatim>\<open>min(30 * 2 ** (attempts - 1), 6 h)\<close>, at least 15 seconds, and the item is deferred exactly until
  the recorded time.
\<close>

theorem retry_backs_off:
  assumes "qi_id item \<in> wheel_ids db" and "distinct (map work_key (work db))"
    and "attempts_of (qi_id item) stg db + 1 \<le> max_attempts" and "0 \<le> attempts_of (qi_id item) stg db"
    and "case work_of (qi_id item) stg db of None \<Rightarrow> True | Some r \<Rightarrow> wk_quarantined_at r = None"
    and "JITTER_LOW \<le> jitter" and "jitter < JITTER_HIGH"
  shows "\<exists>db' delay. exec_op (retry_op now jitter max_attempts version stg item reason details) (db, seq)
      = (Inr (VRetried ''retried'' (attempts_of (qi_id item) stg db + 1)), (db', seq))
    \<and> min (30 * 2 powi attempts_of (qi_id item) stg db) 21600 / 2 \<le> delay
    \<and> delay < 3 / 2 * min (30 * 2 powi attempts_of (qi_id item) stg db) 21600 \<and> 15 \<le> delay
    \<and> (\<forall>t. deferred stg t db' (qi_id item) \<longleftrightarrow> t < iso (now + delay))"
proof -
  let ?n = "attempts_of (qi_id item) stg db"
  obtain db' where one: "retry_op now jitter max_attempts version stg item reason details (db, seq)
      = (Inr (VRetried ''retried'' (?n + 1)), (db', seq))"
    and row: "\<exists>r. work_of (qi_id item) stg db' = Some r \<and> wk_quarantined_at r = None \<and> wk_next_attempt_at r
      = iso (now + compute_backoff BASE_BACKOFF_SECONDS MAX_BACKOFF_SECONDS jitter (?n + 1))"
    using retry_op_again [OF assms(1,3), of now jitter version reason details seq] assms(5)
    by (auto split: option.splits)
  have "work db' = work (fst (snd (retry_op now jitter max_attempts version stg item reason details (db, seq))))"
    by (simp add: one)
  then have "distinct (map work_key (work db'))"
    using assms(1-3) by (auto simp: retry_op_def Let_def upsert_work_present work_key_def
        intro!: distinct_key_upsert)
  with row have "\<forall>t. deferred stg t db' (qi_id item)
      \<longleftrightarrow> t < iso (now + compute_backoff BASE_BACKOFF_SECONDS MAX_BACKOFF_SECONDS jitter (?n + 1))"
    by (metis deferred_row)
  then show ?thesis
    using backoff_bounds [OF assms(6,7), of "?n + 1"] assms(4) by (auto simp: exec_op_def one)
qed

theorem retry_backs_off_witness:
  "\<exists>db' delay. exec_op (retry_op 0 1 8 ''1'' CONVERT demo_item ''r'' ''d'') (convert_db, 2)
      = (Inr (VRetried ''retried'' 1), (db', 2)) \<and> 15 \<le> delay
    \<and> (\<forall>t. deferred CONVERT t db' 1 \<longleftrightarrow> t < iso (0 + delay))"
proof -
  have "qi_id demo_item \<in> wheel_ids convert_db" "distinct (map work_key (work convert_db))"
    "attempts_of (qi_id demo_item) CONVERT convert_db + 1 \<le> 8"
    "0 \<le> attempts_of (qi_id demo_item) CONVERT convert_db"
    "case work_of (qi_id demo_item) CONVERT convert_db of None \<Rightarrow> True | Some r \<Rightarrow> wk_quarantined_at r = None"
    by (simp_all add: demo_facts)
  from retry_backs_off [OF this, of 1 0 "''1''" "''r''" "''d''" 2] show ?thesis
    unfolding demo_facts(1) demo_facts(6) by (simp add: JITTER_LOW_def JITTER_HIGH_def) blast
qed

lemma work_of_delete: "work_of i stg (delete_work i stg db) = None"
  by (auto simp: work_of_def delete_work_def sql_get_None sql_delete_def work_key_def)

lemma released: "i \<notin> set (ds_in_flight (release stg i ds) stg)"
  by (simp add: release_def)

lemma record_outcome_in_flight: "ds_in_flight (record_outcome t stg out v ds) = ds_in_flight ds"
  by (simp add: record_outcome_def record_throughput_def Let_def split: outcome.splits option.splits)

text \<open>Applying an outcome, whatever it returns, ends the flight of its item and of no other.\<close>

lemma apply_outcome_in_flight:
  "set (ds_in_flight (fst (snd (apply_outcome rd stg item out (ds, st)))) stg) = set (ds_in_flight ds stg) - {qi_id item}"
  by (auto simp: apply_outcome_def release_def record_outcome_in_flight
      split: outcome.splits option.splits sum.splits prod.splits)

lemma wheel_of_id: "wheel_of j db = Some w \<Longrightarrow> w_id w = j"
  unfolding wheel_of_def by (auto dest!: sql_get_Some)

lemma wheel_present: "wheel_of i db = Some w \<Longrightarrow> i \<in> wheel_ids db"
  unfolding wheel_of_def wheel_ids_def by (auto dest!: sql_get_Some)

text \<open>What \<^verbatim>\<open>apply_outcome\<close> makes of an operation that returns.\<close>

lemma apply_outcome_body:
  assumes "build_write_op rd ds stg item out = Inr body" and "body (db, seq) = (Inr v, (db', seq'))"
  shows "apply_outcome rd stg item out (ds, (db, seq))
    = (Inr v, release stg (qi_id item) (record_outcome (or_done rd) stg out v ds), (db', seq'))"
proof (cases out)
  case (RateLimited c t)
  then show ?thesis using assms(1) by (simp add: build_write_op_def)
qed (use assms in \<open>simp_all add: apply_outcome_def exec_op_def\<close>)

definition stage_result :: "int \<Rightarrow> wheel_row \<Rightarrow> database \<Rightarrow> database \<Rightarrow> bool" where
  "stage_result i w' db db' \<longleftrightarrow> wheel_of i db' = Some w' \<and> work_of i CONVERT db' = None
     \<and> (\<forall>j. j \<noteq> i \<longrightarrow> wheel_of j db' = wheel_of j db)"

lemma convert_ok_body:
  assumes "wheel_of i db = Some w" and "qi_id item = i" and "qi_state item = NEED_CONVERT"
  shows "\<exists>body db'. ok_op t CONVERT item READY
        (convert_ok_writer dump dumpr records res conda pre version) = Inr body
    \<and> body (db, seq) = (Inr VNone, (db', seq + 1))
    \<and> stage_result i (w\<lparr>w_state := state_int READY, w_change_seq := seq + 1, w_updated_at := t,
         w_conda_name := Some conda\<rparr>) db db'
    \<and> sql_get rd_wheel_id i (wheel_repodata db') = Some \<lparr>rd_wheel_id = i, rd_repodata_zst = dump records,
         rd_name_conv_zst = Some (dumpr res), rd_requires_prerelease = pre, rd_reroll_version = version\<rparr>"
proof -
  let ?db1 = "set_wheel_state i READY (seq + 1) t db"
  let ?new = "\<lparr>rd_wheel_id = i, rd_repodata_zst = dump records, rd_name_conv_zst = Some (dumpr res),
    rd_requires_prerelease = pre, rd_reroll_version = version\<rparr>"
  let ?upd = "\<lambda>r. r\<lparr>rd_repodata_zst := dump records, rd_name_conv_zst := Some (dumpr res),
    rd_requires_prerelease := pre, rd_reroll_version := version\<rparr>"
  let ?db2 = "update_wheels (\<lambda>w. w_id w = i) (\<lambda>w. w\<lparr>w_conda_name := Some conda\<rparr>)
    (?db1\<lparr>wheel_repodata := sql_upsert rd_wheel_id ?upd ?new (wheel_repodata db)\<rparr>)"
  have written: "convert_ok_writer dump dumpr records res conda pre version i ?db1 = Inr ?db2"
    using wheel_present [OF assms(1)] by (simp add: convert_ok_writer_def upsert_repodata_def)
  have row: "sql_get rd_wheel_id i (sql_upsert rd_wheel_id ?upd ?new (wheel_repodata db)) = Some ?new"
  proof -
    have "sql_get rd_wheel_id i (sql_upsert rd_wheel_id ?upd ?new (wheel_repodata db))
        = Some (case sql_get rd_wheel_id i (wheel_repodata db) of None \<Rightarrow> ?new | Some r \<Rightarrow> ?upd r)"
      by (subst sql_get_upsert) simp_all
    then show ?thesis by (auto split: option.splits dest!: sql_get_Some)
  qed
  have wheel: "wheel_of j ?db2 = map_option (\<lambda>w. if w_id w = i then w\<lparr>w_state := state_int READY,
      w_change_seq := seq + 1, w_updated_at := t, w_conda_name := Some conda\<rparr> else w) (wheel_of j db)" for j
    unfolding wheel_of_def update_wheels_def
    by (simp add: sql_get_update get_set_wheel_state option.map_comp comp_def)
      (rule option.map_cong [OF refl], simp)
  have "w_id w = i" by (rule wheel_of_id [OF assms(1)])
  moreover have "wheel_of j ?db2 = wheel_of j db" if "j \<noteq> i" for j
    unfolding wheel by (cases "wheel_of j db") (use that wheel_of_id in auto)
  ultimately have res: "stage_result i (w\<lparr>w_state := state_int READY, w_change_seq := seq + 1, w_updated_at := t,
         w_conda_name := Some conda\<rparr>) db (delete_work i CONVERT ?db2)"
    using assms(1) unfolding stage_result_def
    by (simp add: work_of_delete) (simp add: delete_work_def wheel_of_def wheel [unfolded wheel_of_def])
  have "validate_transition NEED_CONVERT READY = Inr ()" by (simp add: validate_transition_def)
  then show ?thesis
    using written res row assms(2,3)
    by (simp add: ok_op_def next_seq_def Let_def) (simp add: delete_work_def update_wheels_def)
qed

lemma convert_skip_body:
  assumes "wheel_of i db = Some w" and "qi_id item = i" and "qi_state item = NEED_CONVERT"
  shows "\<exists>body db'. skip_op t version CONVERT item reason sub details permanent ver = Inr body
    \<and> body (db, seq) = (Inr VNone, (db', seq + 1))
    \<and> stage_result i (w\<lparr>w_state := state_int SKIPPED, w_change_seq := seq + 1, w_updated_at := t\<rparr>) db db'
    \<and> sql_get skip_key (i, ''convert'') (skips db') = Some (skip_row_of t CONVERT i reason permanent ver)
    \<and> length (errors db') = length (errors db) + 1"
proof -
  let ?db1 = "set_wheel_state i SKIPPED (seq + 1) t db"
  let ?new = "skip_row_of t CONVERT i reason permanent ver"
  let ?upd = "\<lambda>r. r\<lparr>sk_reason := sk_reason ?new, sk_permanent := sk_permanent ?new,
     sk_reroll_version := sk_reroll_version ?new, sk_created_at := sk_created_at ?new\<rparr>"
  let ?db2 = "?db1\<lparr>skips := sql_upsert skip_key ?upd ?new (skips db)\<rparr>"
  let ?e = "error_row_of t i reason (Some sub) details version"
  have id: "sk_wheel_id ?new = i" "skip_key ?new = (i, ''convert'')" "er_wheel_id ?e = Some i"
    by (simp_all add: skip_row_of_def skip_key_def error_row_of_def)
  have present: "i \<in> wheel_ids ?db1" using wheel_present [OF assms(1)] by simp
  then have "i \<in> wheel_ids ?db2" by (simp add: wheel_ids_def)
  then have written: "bind_res (upsert_skip ?upd ?new ?db1) (insert_error ?e)
      = Inr (?db2\<lparr>errors := errors db @ [?e\<lparr>er_id := next_rowid (map er_id (errors db))\<rparr>]\<rparr>)"
    using present by (simp add: upsert_skip_def insert_error_present id)
  have row: "sql_get skip_key (i, ''convert'') (sql_upsert skip_key ?upd ?new (skips db)) = Some ?new"
  proof -
    have "sql_get skip_key (skip_key ?new) (sql_upsert skip_key ?upd ?new (skips db))
        = Some (case sql_get skip_key (skip_key ?new) (skips db) of None \<Rightarrow> ?new | Some r \<Rightarrow> ?upd r)"
      by (subst sql_get_upsert) (simp_all add: skip_key_def)
    moreover have "?upd r = ?new" if "skip_key r = (i, ''convert'')" for r
      using that by (cases r) (simp add: skip_key_def skip_row_of_def)
    ultimately show ?thesis unfolding id(2) by (auto split: option.splits dest!: sql_get_Some)
  qed
  have wheel: "wheel_of j ?db1 = map_option (\<lambda>w. if w_id w = i then w\<lparr>w_state := state_int SKIPPED,
      w_change_seq := seq + 1, w_updated_at := t\<rparr> else w) (wheel_of j db)" for j
    unfolding wheel_of_def by (simp add: get_set_wheel_state)
  have "w_id w = i" by (rule wheel_of_id [OF assms(1)])
  moreover have "wheel_of j ?db1 = wheel_of j db" if "j \<noteq> i" for j
    unfolding wheel by (cases "wheel_of j db") (use that wheel_of_id in auto)
  moreover have "wheel_of j (delete_work i CONVERT (?db2\<lparr>errors := x\<rparr>)) = wheel_of j ?db1" for j x
    by (simp add: wheel_of_def delete_work_def)
  ultimately have res: "stage_result i (w\<lparr>w_state := state_int SKIPPED, w_change_seq := seq + 1, w_updated_at := t\<rparr>)
      db (delete_work i CONVERT (?db2\<lparr>errors := x\<rparr>))" for x
    using assms(1) unfolding stage_result_def by (simp add: work_of_delete wheel del: state_int.simps)
  have "validate_transition NEED_CONVERT SKIPPED = Inr ()" by (simp add: validate_transition_def)
  then show ?thesis
    using written res row assms(2,3)
    by (simp add: skip_op_def next_seq_def Let_def) (simp add: delete_work_def)
qed



text \<open>
  Outcomes are applied to the state the item was claimed in, not to the wheel's current state:
  if ingest tombstones a wheel while its conversion is in flight, the outcome still makes it
  \<^verbatim>\<open>READY\<close>, although no transition leaves \<^verbatim>\<open>DELETED\<close>.
\<close>

theorem stale_outcome_revives_tombstone:
  "(case apply_outcome \<lparr>or_now = 0, or_jitter = 1, or_penalize = 0, or_done = 1\<rparr> CONVERT demo_item
      (adapt_convert_outcome (\<lambda>_. [1]) (\<lambda>_. [2]) ''1'' (ConvertOk ([] :: nat wheel_record list) [] ''c'' False))
      (new_dispatcher ''1'' 8 1 None, (empty_db\<lparr>wheels := [(demo_wheel 1 DELETED 0)\<lparr>w_deleted_at := Some 5\<rparr>]\<rparr>, 2)) of
     (r, ds', (db', seq')) \<Rightarrow> map w_state (wheels db') = [state_int READY])
   \<and> allowed_transitions DELETED = {}"
  by (simp add: apply_outcome_def build_write_op_def adapt_convert_outcome_def ok_op_def validate_transition_def
      demo_item_def next_seq_def set_wheel_state_def update_wheels_def sql_update_def convert_ok_writer_def
      upsert_repodata_def wheel_ids_def empty_db_def demo_wheel_def exec_op_def delete_work_def Let_def)

end
