(* ===== verification/Touch.thy ===== *)
theory Touch
  imports Sqlite_Writer
begin

text \<open>
  The loop shared by the chunk operations of \<^verbatim>\<open>dispatcher.py\<close>, \<^verbatim>\<open>daemon/unquarantine.py\<close> and \<^verbatim>\<open>ingest.py\<close>:
  one \<^verbatim>\<open>UPDATE wheels ... WHERE id = ?\<close> per id, each with its own sequence number; what it changes, why
  the loops around it end, and how two such loops compose.
\<close>

section \<open>The loop\<close>

text \<open>
  The \<^verbatim>\<open>for\<close> loop of a chunk: one \<^verbatim>\<open>UPDATE ... WHERE id = ?\<close> (with a guard in \<^verbatim>\<open>unquarantine\<close>) and one
  sequence number per id; the result is the sum of the row counts.
\<close>

fun touch_each :: "(wheel_row \<Rightarrow> bool) \<Rightarrow> (wheel_row \<Rightarrow> wheel_row) \<Rightarrow> iso_time \<Rightarrow> int list \<Rightarrow> int
    \<Rightarrow> database op_state \<Rightarrow> int \<times> database op_state" where
  "touch_each guard change now_iso [] affected st = (affected, st)"
| "touch_each guard change now_iso (wheel_id # ids) affected st =
     (case next_seq st of (seq, (db, seq1)) \<Rightarrow>
        touch_each guard change now_iso ids
          (affected + rowcount (\<lambda>w. w_id w = wheel_id \<and> guard w) (wheels db))
          (update_wheels (\<lambda>w. w_id w = wheel_id \<and> guard w)
             (\<lambda>w. (change w)\<lparr>w_change_seq := seq, w_updated_at := now_iso\<rparr>) db, seq1))"

section \<open>Frame and weights\<close>

definition touch :: "(wheel_row \<Rightarrow> wheel_row) \<Rightarrow> int \<Rightarrow> iso_time \<Rightarrow> wheel_row \<Rightarrow> wheel_row" where
  "touch change seq now_iso w = (change w)\<lparr>w_change_seq := seq, w_updated_at := now_iso\<rparr>"

lemma touch_each_Cons:
  "touch_each guard change now_iso (i # ids) a (db, seq) =
     touch_each guard change now_iso ids (a + rowcount (\<lambda>w. w_id w = i \<and> guard w) (wheels db))
       (update_wheels (\<lambda>w. w_id w = i \<and> guard w) (touch change (seq + 1) now_iso) db, seq + 1)"
  by (simp add: next_seq_def touch_def [abs_def])

declare touch_each.simps(2) [simp del]

text \<open>Only the \<open>wheels\<close> table changes, one sequence number per id is used.\<close>

lemma touch_each_frame:
  "\<exists>n ws. touch_each guard change now_iso ids a (db, seq)
    = (n, (db\<lparr>wheels := ws\<rparr>, seq + int (length ids)))"
proof (induction ids arbitrary: a db seq)
  case Nil
  then show ?case by (auto intro: exI [of _ "wheels db"])
next
  case (Cons i ids)
  obtain n ws where "touch_each guard change now_iso ids
      (a + rowcount (\<lambda>w. w_id w = i \<and> guard w) (wheels db))
      (update_wheels (\<lambda>w. w_id w = i \<and> guard w) (touch change (seq + 1) now_iso) db, seq + 1)
    = (n, ((update_wheels (\<lambda>w. w_id w = i \<and> guard w) (touch change (seq + 1) now_iso) db)\<lparr>wheels := ws\<rparr>,
         seq + 1 + int (length ids)))"
    using Cons.IH by blast
  then show ?case by (auto simp: touch_each_Cons update_wheels_def)
qed

text \<open>A weight of the rows that touching never raises, and lowers on some row of the chunk.\<close>

definition total_weight :: "(wheel_row \<Rightarrow> nat) \<Rightarrow> database \<Rightarrow> nat" where
  "total_weight m db = sum_list (map m (wheels db))"

lemma total_weight_update:
  assumes "\<And>w. w \<in> set (wheels db) \<Longrightarrow> p w \<Longrightarrow> m (f w) \<le> m w"
  shows "total_weight m (update_wheels p f db) \<le> total_weight m db"
  unfolding total_weight_def update_wheels_def sql_update_def
  by (simp add: comp_def) (rule sum_list_mono, use assms in auto)

lemma total_weight_update_less:
  assumes "\<And>w. w \<in> set (wheels db) \<Longrightarrow> p w \<Longrightarrow> m (f w) \<le> m w"
    and "x \<in> set (wheels db)" and "p x" and "m (f x) < m x"
  shows "total_weight m (update_wheels p f db) < total_weight m db"
proof -
  obtain us vs where ws: "wheels db = us @ x # vs" using assms(2) by (meson split_list)
  have le: "sum_list (map (m \<circ> (\<lambda>w. if p w then f w else w)) ys) \<le> sum_list (map m ys)"
    if "set ys \<subseteq> set (wheels db)" for ys
    by (rule sum_list_mono) (use that assms(1) in auto)
  have "set us \<subseteq> set (wheels db)" "set vs \<subseteq> set (wheels db)" by (auto simp: ws)
  from this [THEN le] assms(3,4) show ?thesis
    by (simp add: total_weight_def update_wheels_def sql_update_def ws)
qed

lemma total_weight_less:
  assumes "\<And>w. w \<in> set (wheels db) \<Longrightarrow> m w \<le> m' w" and "x \<in> set (wheels db)" and "m x < m' x"
  shows "total_weight m db < total_weight m' db"
proof -
  obtain us vs where ws: "wheels db = us @ x # vs" using assms(2) by (meson split_list)
  have "sum_list (map m us) \<le> sum_list (map m' us)" "sum_list (map m vs) \<le> sum_list (map m' vs)"
    by (rule sum_list_mono, use assms(1) ws in auto)+
  then show ?thesis using assms(3) by (simp add: total_weight_def ws)
qed

lemma touch_each_weight:
  assumes "\<And>w q. guard w \<Longrightarrow> m (touch change q now_iso w) \<le> m w"
  shows "total_weight m (fst (snd (touch_each guard change now_iso ids a (db, seq)))) \<le> total_weight m db"
proof (induction ids arbitrary: a db seq)
  case Nil
  then show ?case by simp
next
  case (Cons i ids)
  show ?case
    unfolding touch_each_Cons
    by (rule order_trans [OF Cons.IH total_weight_update]) (use assms in auto)
qed

lemma touch_each_weight_less:
  assumes "\<And>w q. guard w \<Longrightarrow> m (touch change q now_iso w) \<le> m w"
    and "x \<in> set (wheels db)" and "guard x" and "w_id x \<in> set ids"
    and "\<And>q. m (touch change q now_iso x) < m x"
  shows "total_weight m (fst (snd (touch_each guard change now_iso ids a (db, seq)))) < total_weight m db"
  using assms(2,4)
proof (induction ids arbitrary: a db seq)
  case Nil
  then show ?case by simp
next
  case (Cons i ids)
  let ?db1 = "update_wheels (\<lambda>w. w_id w = i \<and> guard w) (touch change (seq + 1) now_iso) db"
  let ?a1 = "a + rowcount (\<lambda>w. w_id w = i \<and> guard w) (wheels db)"
  have le: "total_weight m ?db1 \<le> total_weight m db"
    by (rule total_weight_update) (use assms(1) in auto)
  show ?case
  proof (cases "w_id x = i")
    case True
    have "total_weight m ?db1 < total_weight m db"
      by (rule total_weight_update_less [OF _ Cons.prems(1)]) (use assms True in auto)
    with touch_each_weight [where m = m and guard = guard and change = change and now_iso = now_iso
        and ids = ids and a = ?a1 and db = ?db1 and seq = "seq + 1"] assms(1)
    show ?thesis by (simp add: touch_each_Cons)
  next
    case False
    then have "x \<in> set (wheels ?db1)"
      using Cons.prems(1) by (force simp: update_wheels_def sql_update_def image_iff)
    with Cons.IH [of ?db1 ?a1 "seq + 1"] Cons.prems(2) False le
    show ?thesis by (simp add: touch_each_Cons)
  qed
qed

section \<open>What the loop changes\<close>

text \<open>Exactly the rows with an id in \<open>S\<close> are changed, each under a fresh sequence number.\<close>

definition touched :: "(wheel_row \<Rightarrow> wheel_row) \<Rightarrow> int set \<Rightarrow> int \<Rightarrow> int \<Rightarrow> wheel_row list \<Rightarrow> wheel_row list \<Rightarrow> bool" where
  "touched change S seq seq' = list_all2 (\<lambda>w w'.
     if w_id w \<in> S then \<exists>q t. seq < q \<and> q \<le> seq' \<and> w' = touch change q t w else w' = w)"

lemma touched_refl: "touched change {} seq seq' ws ws"
  by (simp add: touched_def list_all2_refl)

lemma touched_ids:
  assumes "\<And>w. w_id (change w) = w_id w" and "touched change S seq seq' ws ws'"
  shows "map w_id ws' = map w_id ws"
  using assms(2) unfolding touched_def
  by (induction rule: list_all2_induct) (auto simp: touch_def assms(1) split: if_splits)

lemma touched_trans:
  assumes "\<And>w. w_id (change w) = w_id w"
    and "touched change S seq seq1 ws ws1" and "touched change T seq1 seq2 ws1 ws2"
    and "S \<inter> T = {}" and "seq \<le> seq1" and "seq1 \<le> seq2"
  shows "touched change (S \<union> T) seq seq2 ws ws2"
  using assms(2,3) unfolding touched_def
proof (rule list_all2_trans [rotated])
  fix w w1 w2
  assume 1: "if w_id w \<in> S then \<exists>q t. seq < q \<and> q \<le> seq1 \<and> w1 = touch change q t w else w1 = w"
    and 2: "if w_id w1 \<in> T then \<exists>q t. seq1 < q \<and> q \<le> seq2 \<and> w2 = touch change q t w1 else w2 = w1"
  have "w_id w1 = w_id w" using 1 assms(1) by (auto simp: touch_def split: if_splits)
  then show "if w_id w \<in> S \<union> T then \<exists>q t. seq < q \<and> q \<le> seq2 \<and> w2 = touch change q t w else w2 = w"
    using 1 2 assms(4-6) by (cases "w_id w \<in> S"; cases "w_id w \<in> T") force+
qed

lemma touched_outside:
  assumes "\<And>w. w_id (change w) = w_id w" and "touched change S seq seq' ws ws'" and "i \<notin> S"
  shows "(\<exists>w \<in> set ws'. w_id w = i \<and> Q w) \<longleftrightarrow> (\<exists>w \<in> set ws. w_id w = i \<and> Q w)"
  using assms(2) unfolding touched_def
proof (induction rule: list_all2_induct)
  case Nil
  then show ?case by simp
next
  case (Cons w ws w' ws')
  then show ?case using assms(1,3) by (cases "w_id w \<in> S") (auto simp: touch_def)
qed

lemma touched_inside:
  assumes "\<And>w. w_id (change w) = w_id w" and "touched change S seq seq' ws ws'"
    and "w' \<in> set ws'" and "w_id w' \<in> S"
  shows "\<exists>w \<in> set ws. \<exists>q t. w' = touch change q t w"
  using assms(2,3) unfolding touched_def
proof (induction rule: list_all2_induct)
  case Nil
  then show ?case by simp
next
  case (Cons w ws v ws')
  then show ?case using assms(1,4) by (cases "w_id w \<in> S") (auto simp: touch_def)
qed

text \<open>A chunk of distinct ids of rows that satisfy the guard has exactly that effect.\<close>

lemma touch_each_effect:
  assumes "\<And>w. w_id (change w) = w_id w" and "distinct ids" and "distinct (map w_id (wheels db))"
    and "set ids \<subseteq> w_id ` {w \<in> set (wheels db). guard w}"
  shows "touch_each guard change now_iso ids a (db, seq)
      = (a + int (length ids), (db\<lparr>wheels := wheels (fst (snd (touch_each guard change now_iso ids a (db, seq))))\<rparr>,
           seq + int (length ids)))
    \<and> touched change (set ids) seq (seq + int (length ids)) (wheels db)
        (wheels (fst (snd (touch_each guard change now_iso ids a (db, seq)))))"
  using assms(2-4)
proof (induction ids arbitrary: a db seq)
  case Nil
  then show ?case by (simp add: touched_refl)
next
  case (Cons i ids)
  let ?p = "\<lambda>w. w_id w = i \<and> guard w"
  let ?db1 = "update_wheels ?p (touch change (seq + 1) now_iso) db"
  obtain w where w: "w \<in> set (wheels db)" "w_id w = i" "guard w" using Cons.prems(3) by auto
  have guard: "guard v" if "v \<in> set (wheels db)" "w_id v = i" for v
    using that w Cons.prems(2) by (metis distinct_map inj_onD)
  have one: "touched change {i} seq (seq + 1) (wheels db) (wheels ?db1)"
    unfolding touched_def update_wheels_def sql_update_def
    by (auto simp: list_all2_conv_all_nth guard) (rule exI [of _ "seq + 1"], auto)
  have ids1: "map w_id (wheels ?db1) = map w_id (wheels db)" by (rule touched_ids [OF assms(1) one])
  have cnt: "rowcount ?p (wheels db) = 1"
  proof -
    have "filter ?p (wheels db) = filter (\<lambda>v. w_id v = w_id w) (wheels db)"
      by (rule filter_cong) (use guard w in auto)
    also have "\<dots> = [w]" by (rule filter_key_single [OF Cons.prems(2) w(1)])
    finally show ?thesis by (simp add: rowcount_def)
  qed
  have sub: "set ids \<subseteq> w_id ` {w \<in> set (wheels ?db1). guard w}"
  proof
    fix j assume j: "j \<in> set ids"
    then obtain v where v: "v \<in> set (wheels db)" "w_id v = j" "guard v" using Cons.prems(3) by auto
    have "j \<noteq> i" using j Cons.prems(1) by auto
    then have "v \<in> set (wheels ?db1)" using v by (force simp: update_wheels_def sql_update_def image_iff)
    then show "j \<in> w_id ` {w \<in> set (wheels ?db1). guard w}" using v by auto
  qed
  have db1: "?db1\<lparr>wheels := x\<rparr> = db\<lparr>wheels := x\<rparr>" for x by (simp add: update_wheels_def)
  note ih = Cons.IH [of ?db1 "a + 1" "seq + 1"]
  from ih [OF _ _ sub] have rest: "touch_each guard change now_iso ids (a + 1) (?db1, seq + 1)
      = (a + 1 + int (length ids), (db\<lparr>wheels := wheels (fst (snd (touch_each guard change now_iso ids (a + 1) (?db1, seq + 1))))\<rparr>,
           seq + 1 + int (length ids)))"
    "touched change (set ids) (seq + 1) (seq + 1 + int (length ids)) (wheels ?db1)
        (wheels (fst (snd (touch_each guard change now_iso ids (a + 1) (?db1, seq + 1)))))"
    using Cons.prems(1,2) by (simp_all add: ids1 db1)
  have "touched change ({i} \<union> set ids) seq (seq + 1 + int (length ids)) (wheels db)
        (wheels (fst (snd (touch_each guard change now_iso ids (a + 1) (?db1, seq + 1)))))"
    by (rule touched_trans [OF assms(1) one rest(2)]) (use Cons.prems(1) in auto)
  with rest(1) show ?case by (simp add: touch_each_Cons cnt add.assoc)
qed

end
