(* ===== verification/Reprocess.thy ===== *)
theory Reprocess
  imports Dispatcher Touch
begin

text \<open>
  The administrative campaigns: \<^verbatim>\<open>Dispatcher.reprocess\<close> with its selectors and previews
  (\<^verbatim>\<open>dispatcher.py\<close>) and \<^verbatim>\<open>unquarantine\<close> (\<^verbatim>\<open>daemon/unquarantine.py\<close>), each a loop of chunk queries and chunk
  operations.
\<close>

section \<open>Selectors and their queries\<close>

datatype selector = RerollVersionBelow string | StateSelector wheel_state | ProjectSelector string
  | SkippedOnly

definition live_wheel :: "database \<Rightarrow> int \<Rightarrow> bool" where
  "live_wheel db wheel_id = (\<exists>w \<in> set (wheels db). w_id w = wheel_id \<and> w_state w \<noteq> state_int DELETED)"

definition project_matches :: "string \<Rightarrow> wheel_row \<Rightarrow> bool" where
  "project_matches project w = (w_project w = project \<and> w_state w \<noteq> state_int DELETED)"

definition project_chunk_query :: "string \<Rightarrow> int \<Rightarrow> int \<Rightarrow> database \<Rightarrow> int list" where
  "project_chunk_query project last_id limit db =
     map w_id (sql_limit limit (sort_key w_id
       (filter (\<lambda>w. project_matches project w \<and> last_id < w_id w) (wheels db))))"

definition state_matches :: "wheel_state \<Rightarrow> wheel_row \<Rightarrow> bool" where
  "state_matches s w = (w_state w = state_int s \<and> w_state w \<noteq> state_int DELETED)"

definition state_chunk_query :: "wheel_state \<Rightarrow> lane_cursor \<Rightarrow> int \<Rightarrow> database \<Rightarrow> wheel_row list" where
  "state_chunk_query s cursor limit db =
     sql_limit limit (sort_key queue_key
       (filter (\<lambda>w. state_matches s w \<and> lane_project_id_keyset cursor w) (wheels db)))"

definition stale_repodata :: "string \<Rightarrow> database \<Rightarrow> repodata_row \<Rightarrow> bool" where
  "stale_repodata version db r = (rd_reroll_version r < version \<and> live_wheel db (rd_wheel_id r))"

text \<open>\<^verbatim>\<open>reroll_version < ?\<close> is not true of a \<^verbatim>\<open>NULL\<close>.\<close>

definition version_below :: "string \<Rightarrow> skip_row \<Rightarrow> bool" where
  "version_below version r =
     (\<not> sk_permanent r \<and> (case sk_reroll_version r of None \<Rightarrow> False | Some v \<Rightarrow> v < version))"

definition stale_skip :: "string \<Rightarrow> database \<Rightarrow> skip_row \<Rightarrow> bool" where
  "stale_skip version db r = (version_below version r \<and> live_wheel db (sk_wheel_id r))"

definition reroll_version_wheel_repodata_chunk_query :: "string \<Rightarrow> int \<Rightarrow> database \<Rightarrow> int list" where
  "reroll_version_wheel_repodata_chunk_query version limit db =
     map rd_wheel_id (sql_limit limit (sort_key rd_reroll_version
       (filter (stale_repodata version db) (wheel_repodata db))))"

definition reroll_version_skips_chunk_query :: "string \<Rightarrow> int \<Rightarrow> database \<Rightarrow> int list" where
  "reroll_version_skips_chunk_query version limit db =
     map sk_wheel_id (sql_limit limit (sort_key (\<lambda>r. the (sk_reroll_version r))
       (filter (stale_skip version db) (skips db))))"

section \<open>Chunks of a campaign\<close>

definition to_need_convert :: "wheel_row \<Rightarrow> wheel_row" where
  "to_need_convert w = w\<lparr>w_state := state_int NEED_CONVERT, w_lane := 1\<rparr>"

definition clears_skip :: "selector \<Rightarrow> skip_row \<Rightarrow> bool" where
  "clears_skip sel r = (case sel of RerollVersionBelow version \<Rightarrow> version_below version r | _ \<Rightarrow> False)"

definition reprocess_chunk :: "int list \<Rightarrow> selector \<Rightarrow> iso_time \<Rightarrow> database op_state \<Rightarrow> int \<times> database op_state" where
  "reprocess_chunk ids sel now_iso st =
     (case st of (db, seq) \<Rightarrow>
        let db1 = db\<lparr>wheel_repodata := sql_delete (\<lambda>r. rd_wheel_id r \<in> set ids) (wheel_repodata db)\<rparr>;
            db2 = db1\<lparr>skips := sql_delete (\<lambda>r. clears_skip sel r \<and> sk_wheel_id r \<in> set ids) (skips db1)\<rparr>;
            db3 = db2\<lparr>work := sql_delete (\<lambda>r. wk_wheel_id r \<in> set ids) (work db2)\<rparr>
        in touch_each (\<lambda>_. True) to_need_convert now_iso ids 0 (db3, seq))"

definition reprocess_chunk_op :: "int list \<Rightarrow> selector \<Rightarrow> iso_time \<Rightarrow> op_body" where
  "reprocess_chunk_op ids sel now_iso st =
     (case reprocess_chunk ids sel now_iso st of (affected, st1) \<Rightarrow> (Inr (VCount affected), st1))"

definition to_need_metadata :: "wheel_row \<Rightarrow> wheel_row" where
  "to_need_metadata w = w\<lparr>w_state := state_int NEED_METADATA\<rparr>"

definition is_quarantined :: "wheel_row \<Rightarrow> bool" where
  "is_quarantined w = (w_state w = state_int QUARANTINED)"

definition unquarantine_chunk :: "int list \<Rightarrow> iso_time \<Rightarrow> database op_state \<Rightarrow> int \<times> database op_state" where
  "unquarantine_chunk ids now_iso st =
     (case st of (db, seq) \<Rightarrow>
        let db1 = db\<lparr>work := sql_delete (\<lambda>r. wk_wheel_id r \<in> set ids) (work db)\<rparr>
        in touch_each is_quarantined to_need_metadata now_iso ids 0 (db1, seq))"

definition unquarantine_chunk_op :: "int list \<Rightarrow> iso_time \<Rightarrow> op_body" where
  "unquarantine_chunk_op ids now_iso st =
     (case unquarantine_chunk ids now_iso st of (affected, st1) \<Rightarrow> (Inr (VCount affected), st1))"

text \<open>
  The campaigns: each query reads what the previous chunk's operation committed. A chunk's body
  cannot raise, so its count is what \<^verbatim>\<open>submit_and_wait\<close> returns. The state of a campaign is the number
  of chunks so far, the running total and the connection's state; \<open>clock k\<close> is the time the \<open>k\<close>-th
  chunk reads.
\<close>

type_synonym campaign_state = "nat \<times> int \<times> database op_state"

definition cs_db :: "campaign_state \<Rightarrow> database" where
  "cs_db s = fst (snd (snd s))"

definition run_chunk :: "(nat \<Rightarrow> iso_time) \<Rightarrow> selector \<Rightarrow> int list \<Rightarrow> campaign_state \<Rightarrow> campaign_state" where
  "run_chunk clock sel ids s =
     (case s of (k, cnt, st) \<Rightarrow>
        case reprocess_chunk ids sel (clock k) st of (affected, st1) \<Rightarrow> (k + 1, cnt + affected, st1))"

definition run_unquarantine_chunk :: "(nat \<Rightarrow> iso_time) \<Rightarrow> int list \<Rightarrow> campaign_state \<Rightarrow> campaign_state" where
  "run_unquarantine_chunk clock ids s =
     (case s of (k, cnt, st) \<Rightarrow>
        case unquarantine_chunk ids (clock k) st of (affected, st1) \<Rightarrow> (k + 1, cnt + affected, st1))"

section \<open>Why the campaigns end\<close>

lemma total_weight_wheels: "total_weight m (db\<lparr>wheel_repodata := x, skips := y, work := z\<rparr>) = total_weight m db"
  by (simp add: total_weight_def)

lemma run_chunk_db:
  "cs_db (run_chunk clock sel ids s) = fst (snd (touch_each (\<lambda>_. True) to_need_convert (clock (fst s)) ids 0
     ((cs_db s)\<lparr>wheel_repodata := sql_delete (\<lambda>r. rd_wheel_id r \<in> set ids) (wheel_repodata (cs_db s)),
        skips := sql_delete (\<lambda>r. clears_skip sel r \<and> sk_wheel_id r \<in> set ids) (skips (cs_db s)),
        work := sql_delete (\<lambda>r. wk_wheel_id r \<in> set ids) (work (cs_db s))\<rparr>, snd (snd (snd s)))))"
  by (cases s) (simp add: run_chunk_def cs_db_def reprocess_chunk_def split: prod.splits)

lemma run_unquarantine_chunk_db:
  "cs_db (run_unquarantine_chunk clock ids s) = fst (snd (touch_each is_quarantined to_need_metadata
     (clock (fst s)) ids 0
     ((cs_db s)\<lparr>work := sql_delete (\<lambda>r. wk_wheel_id r \<in> set ids) (work (cs_db s))\<rparr>, snd (snd (snd s)))))"
  by (cases s) (simp add: run_unquarantine_chunk_def cs_db_def unquarantine_chunk_def split: prod.splits)

lemma run_chunk_tables:
  "wheel_repodata (cs_db (run_chunk clock sel ids s))
     = sql_delete (\<lambda>r. rd_wheel_id r \<in> set ids) (wheel_repodata (cs_db s))"
  "skips (cs_db (run_chunk clock sel ids s))
     = sql_delete (\<lambda>r. clears_skip sel r \<and> sk_wheel_id r \<in> set ids) (skips (cs_db s))"
proof -
  let ?st = "((cs_db s)\<lparr>wheel_repodata := sql_delete (\<lambda>r. rd_wheel_id r \<in> set ids) (wheel_repodata (cs_db s)),
        skips := sql_delete (\<lambda>r. clears_skip sel r \<and> sk_wheel_id r \<in> set ids) (skips (cs_db s)),
        work := sql_delete (\<lambda>r. wk_wheel_id r \<in> set ids) (work (cs_db s))\<rparr>)"
  obtain n ws where "touch_each (\<lambda>_. True) to_need_convert (clock (fst s)) ids 0 (?st, snd (snd (snd s)))
      = (n, (?st\<lparr>wheels := ws\<rparr>, snd (snd (snd s)) + int (length ids)))"
    using touch_each_frame by blast
  then have "cs_db (run_chunk clock sel ids s) = ?st\<lparr>wheels := ws\<rparr>"
    by (simp add: run_chunk_db)
  then show "wheel_repodata (cs_db (run_chunk clock sel ids s))
     = sql_delete (\<lambda>r. rd_wheel_id r \<in> set ids) (wheel_repodata (cs_db s))"
    and "skips (cs_db (run_chunk clock sel ids s))
     = sql_delete (\<lambda>r. clears_skip sel r \<and> sk_wheel_id r \<in> set ids) (skips (cs_db s))"
    by simp_all
qed

lemma length_sql_delete_less: "r \<in> set rs \<Longrightarrow> p r \<Longrightarrow> length (sql_delete p rs) < length rs"
  unfolding sql_delete_def by (rule length_filter_less [of r]) simp_all

section \<open>The campaigns\<close>

function reprocess_project :: "(nat \<Rightarrow> iso_time) \<Rightarrow> string \<Rightarrow> int \<Rightarrow> int \<Rightarrow> campaign_state \<Rightarrow> campaign_state" where
  "reprocess_project clock project chunk_size last_id s =
     (let ids = project_chunk_query project last_id chunk_size (cs_db s)
      in if ids = [] then s
         else let s1 = run_chunk clock (ProjectSelector project) ids s
              in if int (length ids) < chunk_size then s1
                 else reprocess_project clock project chunk_size (last ids) s1)"
  by pat_completeness auto
termination
proof (relation "measure (\<lambda>(clock, project, chunk_size, last_id, s).
    total_weight (\<lambda>w. if last_id < w_id w then 1 else 0) (cs_db s))")
  fix clock project chunk_size last_id s x xa
  assume x: "x = project_chunk_query project last_id chunk_size (cs_db s)" and ne: "x \<noteq> []"
    and xa: "xa = run_chunk clock (ProjectSelector project) x s"
  have "last x \<in> set x" using ne by simp
  then obtain w where w: "w \<in> set (wheels (cs_db s))" "w_id w = last x" "last_id < w_id w"
    using sql_limit_subset by (fastforce simp: x project_chunk_query_def)
  let ?old = "\<lambda>w. if last_id < w_id w then 1 else 0 :: nat"
  let ?new = "\<lambda>w. if last x < w_id w then 1 else 0 :: nat"
  have "total_weight ?new (cs_db xa) \<le> total_weight ?new (cs_db s)"
    unfolding xa run_chunk_db
    by (rule order_trans [OF touch_each_weight]) (simp_all add: total_weight_wheels touch_def to_need_convert_def)
  also have "\<dots> < total_weight ?old (cs_db s)"
    by (rule total_weight_less [OF _ w(1)]) (use w in auto)
  finally show "((clock, project, chunk_size, last x, xa), clock, project, chunk_size, last_id, s)
      \<in> measure (\<lambda>(clock, project, chunk_size, last_id, s).
          total_weight (\<lambda>w. if last_id < w_id w then 1 else 0) (cs_db s))"
    by simp
qed auto

text \<open>
  A chunk moves its rows to lane 1, possibly past the cursor again; a row is read at most twice,
  once in a lane below 1 and once in a lane from 1 on.
\<close>

definition queue_weight :: "lane_cursor \<Rightarrow> wheel_row \<Rightarrow> nat" where
  "queue_weight c w = (if w_lane w < 1 then 2 else if lane_project_id_keyset c w then 1 else 0)"

lemma queue_weight_mono:
  "lane_project_id_keyset c x \<Longrightarrow> queue_weight (Some (queue_key x)) w \<le> queue_weight c w"
  by (auto simp: queue_weight_def lane_project_id_keyset_def queue_key_def split: option.splits)

lemma queue_weight_touch: "queue_weight c (touch to_need_convert q now_iso w) \<le> queue_weight c w"
  by (cases c) (auto simp: queue_weight_def lane_project_id_keyset_def touch_def to_need_convert_def)

function reprocess_state :: "(nat \<Rightarrow> iso_time) \<Rightarrow> selector \<Rightarrow> wheel_state \<Rightarrow> int \<Rightarrow> lane_cursor \<Rightarrow> campaign_state
    \<Rightarrow> campaign_state" where
  "reprocess_state clock sel state chunk_size cursor s =
     (let rows = state_chunk_query state cursor chunk_size (cs_db s)
      in if rows = [] then s
         else let s1 = run_chunk clock sel (map w_id rows) s
              in if int (length rows) < chunk_size then s1
                 else reprocess_state clock sel state chunk_size (Some (queue_key (last rows))) s1)"
  by pat_completeness auto
termination
proof (relation "measure (\<lambda>(clock, sel, state, chunk_size, cursor, s).
    total_weight (queue_weight cursor) (cs_db s))")
  fix clock :: "nat \<Rightarrow> iso_time" and sel state chunk_size cursor s x xa
  assume x: "x = state_chunk_query state cursor chunk_size (cs_db s)" and ne: "x \<noteq> []"
    and xa: "xa = run_chunk clock sel (map w_id x) s"
  let ?c = "Some (queue_key (last x))"
  have w: "last x \<in> set (wheels (cs_db s))" "lane_project_id_keyset cursor (last x)" "w_id (last x) \<in> set (map w_id x)"
    using sql_limit_subset last_in_set [OF ne] by (fastforce simp: x state_chunk_query_def)+
  let ?db = "(cs_db s)\<lparr>wheel_repodata := sql_delete (\<lambda>r. rd_wheel_id r \<in> set (map w_id x)) (wheel_repodata (cs_db s)),
        skips := sql_delete (\<lambda>r. clears_skip sel r \<and> sk_wheel_id r \<in> set (map w_id x)) (skips (cs_db s)),
        work := sql_delete (\<lambda>r. wk_wheel_id r \<in> set (map w_id x)) (work (cs_db s))\<rparr>"
  have le: "queue_weight ?c v \<le> queue_weight cursor v" for v
    by (rule queue_weight_mono [OF w(2)])
  show "((clock, sel, state, chunk_size, ?c, xa), clock, sel, state, chunk_size, cursor, s)
      \<in> measure (\<lambda>(clock, sel, state, chunk_size, cursor, s). total_weight (queue_weight cursor) (cs_db s))"
  proof (cases "w_lane (last x) < 1")
    case True
    have "total_weight (queue_weight ?c) (cs_db xa) < total_weight (queue_weight ?c) ?db"
      unfolding xa run_chunk_db
      by (rule touch_each_weight_less [where x = "last x"])
        (use w True queue_weight_touch [of ?c] in \<open>auto simp: queue_weight_def touch_def to_need_convert_def\<close>)
    also have "\<dots> \<le> total_weight (queue_weight cursor) (cs_db s)"
      unfolding total_weight_wheels unfolding total_weight_def by (rule sum_list_mono) (rule le)
    finally show ?thesis by simp
  next
    case False
    have "total_weight (queue_weight ?c) (cs_db xa) \<le> total_weight (queue_weight ?c) ?db"
      unfolding xa run_chunk_db by (rule touch_each_weight) (rule queue_weight_touch)
    also have "\<dots> < total_weight (queue_weight cursor) (cs_db s)"
      unfolding total_weight_wheels
      by (rule total_weight_less [OF le w(1)])
        (use w(2) False in \<open>simp add: queue_weight_def lane_project_id_keyset_def queue_key_def\<close>)
    finally show ?thesis by simp
  qed
qed auto

function reprocess_stale_repodata :: "(nat \<Rightarrow> iso_time) \<Rightarrow> string \<Rightarrow> int \<Rightarrow> campaign_state \<Rightarrow> campaign_state" where
  "reprocess_stale_repodata clock version chunk_size s =
     (let ids = reroll_version_wheel_repodata_chunk_query version chunk_size (cs_db s)
      in if ids = [] then s
         else let s1 = run_chunk clock (RerollVersionBelow version) ids s
              in if int (length ids) < chunk_size then s1
                 else reprocess_stale_repodata clock version chunk_size s1)"
  by pat_completeness auto
termination
proof (relation "measure (\<lambda>(clock, version, chunk_size, s). length (wheel_repodata (cs_db s)))")
  fix clock :: "nat \<Rightarrow> iso_time" and version chunk_size s x xa
  assume x: "x = reroll_version_wheel_repodata_chunk_query version chunk_size (cs_db s)" and ne: "x \<noteq> []"
    and xa: "xa = run_chunk clock (RerollVersionBelow version) x s"
  obtain r where "r \<in> set (wheel_repodata (cs_db s))" "rd_wheel_id r \<in> set x"
    using sql_limit_subset last_in_set [OF ne]
    by (fastforce simp: x reroll_version_wheel_repodata_chunk_query_def)
  then show "((clock, version, chunk_size, xa), clock, version, chunk_size, s)
      \<in> measure (\<lambda>(clock, version, chunk_size, s). length (wheel_repodata (cs_db s)))"
    by (simp add: xa run_chunk_tables length_sql_delete_less)
qed auto

definition dict_fromkeys :: "'a list \<Rightarrow> 'a list" where
  "dict_fromkeys xs = rev (remdups (rev xs))"

lemma set_dict_fromkeys [simp]: "set (dict_fromkeys xs) = set xs"
  by (simp add: dict_fromkeys_def)

lemma distinct_dict_fromkeys [simp]: "distinct (dict_fromkeys xs)"
  by (simp add: dict_fromkeys_def)

text \<open>The second phase: \<^verbatim>\<open>dict.fromkeys\<close> keeps the first occurrence of each id.\<close>

function reprocess_stale_skips :: "(nat \<Rightarrow> iso_time) \<Rightarrow> string \<Rightarrow> int \<Rightarrow> campaign_state \<Rightarrow> campaign_state" where
  "reprocess_stale_skips clock version chunk_size s =
     (let ids = reroll_version_skips_chunk_query version chunk_size (cs_db s)
      in if ids = [] then s
         else let s1 = run_chunk clock (RerollVersionBelow version) (dict_fromkeys ids) s
              in if int (length ids) < chunk_size then s1
                 else reprocess_stale_skips clock version chunk_size s1)"
  by pat_completeness auto
termination
proof (relation "measure (\<lambda>(clock, version, chunk_size, s). length (skips (cs_db s)))")
  fix clock :: "nat \<Rightarrow> iso_time" and version chunk_size s x xa
  assume x: "x = reroll_version_skips_chunk_query version chunk_size (cs_db s)" and ne: "x \<noteq> []"
    and xa: "xa = run_chunk clock (RerollVersionBelow version) (dict_fromkeys x) s"
  obtain r where "r \<in> set (skips (cs_db s))" "sk_wheel_id r \<in> set x" "version_below version r"
    using sql_limit_subset last_in_set [OF ne]
    by (fastforce simp: x reroll_version_skips_chunk_query_def stale_skip_def)
  then show "((clock, version, chunk_size, xa), clock, version, chunk_size, s)
      \<in> measure (\<lambda>(clock, version, chunk_size, s). length (skips (cs_db s)))"
    by (simp add: xa run_chunk_tables length_sql_delete_less clears_skip_def)
qed auto

definition quarantined_chunk_query :: "string option \<Rightarrow> int \<Rightarrow> database \<Rightarrow> int list" where
  "quarantined_chunk_query project limit db =
     map w_id (sql_limit limit (filter
       (\<lambda>w. is_quarantined w \<and> (case project of None \<Rightarrow> True | Some p \<Rightarrow> w_project w = p)) (wheels db)))"

function unquarantine_chunks :: "(nat \<Rightarrow> iso_time) \<Rightarrow> string option \<Rightarrow> int \<Rightarrow> campaign_state \<Rightarrow> campaign_state" where
  "unquarantine_chunks clock project chunk_size s =
     (let ids = quarantined_chunk_query project chunk_size (cs_db s)
      in if ids = [] then s
         else let s1 = run_unquarantine_chunk clock ids s
              in if int (length ids) < chunk_size then s1
                 else unquarantine_chunks clock project chunk_size s1)"
  by pat_completeness auto
termination
proof (relation "measure (\<lambda>(clock, project, chunk_size, s).
    total_weight (\<lambda>w. if is_quarantined w then 1 else 0) (cs_db s))")
  fix clock :: "nat \<Rightarrow> iso_time" and project chunk_size s x xa
  assume x: "x = quarantined_chunk_query project chunk_size (cs_db s)" and ne: "x \<noteq> []"
    and xa: "xa = run_unquarantine_chunk clock x s"
  obtain w where w: "w \<in> set (wheels (cs_db s))" "is_quarantined w" "w_id w \<in> set x"
    using sql_limit_subset last_in_set [OF ne] by (fastforce simp: x quarantined_chunk_query_def)
  let ?m = "\<lambda>w. if is_quarantined w then 1 else 0 :: nat"
  have "total_weight ?m (cs_db xa)
      < total_weight ?m ((cs_db s)\<lparr>work := sql_delete (\<lambda>r. wk_wheel_id r \<in> set x) (work (cs_db s))\<rparr>)"
    unfolding xa run_unquarantine_chunk_db
    by (rule touch_each_weight_less [where x = w])
      (use w in \<open>auto simp: touch_def to_need_metadata_def is_quarantined_def\<close>)
  then show "((clock, project, chunk_size, xa), clock, project, chunk_size, s)
      \<in> measure (\<lambda>(clock, project, chunk_size, s). total_weight ?m (cs_db s))"
    by (simp add: total_weight_def)
qed auto

declare reprocess_project.simps [simp del] reprocess_state.simps [simp del]
  reprocess_stale_repodata.simps [simp del] reprocess_stale_skips.simps [simp del]
  unquarantine_chunks.simps [simp del]

fun reprocess :: "(nat \<Rightarrow> iso_time) \<Rightarrow> selector \<Rightarrow> int \<Rightarrow> database op_state \<Rightarrow> campaign_state" where
  "reprocess clock (RerollVersionBelow version) chunk_size st =
     reprocess_stale_skips clock version chunk_size
       (reprocess_stale_repodata clock version chunk_size (0, 0, st))"
| "reprocess clock (ProjectSelector project) chunk_size st =
     reprocess_project clock project chunk_size 0 (0, 0, st)"
| "reprocess clock (StateSelector state) chunk_size st =
     reprocess_state clock (StateSelector state) state chunk_size None (0, 0, st)"
| "reprocess clock SkippedOnly chunk_size st =
     reprocess_state clock SkippedOnly SKIPPED chunk_size None (0, 0, st)"

definition no_match_project :: string where
  "no_match_project = CHR 0x00 # ''no-such-project'' @ [CHR 0x00]"

fun project_filter :: "selector \<Rightarrow> string option res" where
  "project_filter (StateSelector state) = Inr (if state \<noteq> QUARANTINED then Some no_match_project else None)"
| "project_filter (ProjectSelector project) = Inr (Some project)"
| "project_filter _ = Inl UnsupportedSelectorError"

definition unquarantine :: "(nat \<Rightarrow> iso_time) \<Rightarrow> selector \<Rightarrow> int \<Rightarrow> database op_state \<Rightarrow> campaign_state res" where
  "unquarantine clock sel chunk_size st =
     bind_res (project_filter sel) (\<lambda>project. Inr (unquarantine_chunks clock project chunk_size (0, 0, st)))"

section \<open>Previews\<close>

record selector_preview =
  pv_wheel_count :: int
  pv_skips_to_clear_count :: int

definition stale_wheel_ids :: "string \<Rightarrow> database \<Rightarrow> int set" where
  "stale_wheel_ids version db =
     rd_wheel_id ` set (filter (stale_repodata version db) (wheel_repodata db))
     \<union> sk_wheel_id ` set (filter (stale_skip version db) (skips db))"

fun preview_selector :: "selector \<Rightarrow> database \<Rightarrow> selector_preview" where
  "preview_selector (ProjectSelector project) db =
     \<lparr>pv_wheel_count = rowcount (project_matches project) (wheels db), pv_skips_to_clear_count = 0\<rparr>"
| "preview_selector (StateSelector state) db =
     \<lparr>pv_wheel_count = rowcount (state_matches state) (wheels db), pv_skips_to_clear_count = 0\<rparr>"
| "preview_selector SkippedOnly db =
     \<lparr>pv_wheel_count = rowcount (state_matches SKIPPED) (wheels db), pv_skips_to_clear_count = 0\<rparr>"
| "preview_selector (RerollVersionBelow version) db =
     \<lparr>pv_wheel_count = int (card (stale_wheel_ids version db)),
      pv_skips_to_clear_count = rowcount (stale_skip version db) (skips db)\<rparr>"

section \<open>What a campaign does\<close>

text \<open>
  The specification of a campaign over a set \<open>S\<close> of wheel ids: exactly those wheels are changed, each
  with a fresh sequence number, their work rows (and repodata and skip rows, as asked) are gone, and
  nothing else differs.
\<close>

definition campaign_effect :: "(wheel_row \<Rightarrow> wheel_row) \<Rightarrow> bool \<Rightarrow> (skip_row \<Rightarrow> bool) \<Rightarrow> int set
    \<Rightarrow> database op_state \<Rightarrow> database op_state \<Rightarrow> bool" where
  "campaign_effect change drop_repodata drop_skip S st st' \<longleftrightarrow>
     snd st \<le> snd st' \<and> touched change S (snd st) (snd st') (wheels (fst st)) (wheels (fst st'))
     \<and> fst st' = (fst st)\<lparr>wheels := wheels (fst st'),
          wheel_repodata := sql_delete (\<lambda>r. drop_repodata \<and> rd_wheel_id r \<in> S) (wheel_repodata (fst st)),
          skips := sql_delete (\<lambda>r. drop_skip r \<and> sk_wheel_id r \<in> S) (skips (fst st)),
          work := sql_delete (\<lambda>r. wk_wheel_id r \<in> S) (work (fst st))\<rparr>"

definition tables_ok :: "database \<Rightarrow> bool" where
  "tables_ok db \<longleftrightarrow> distinct (map w_id (wheels db)) \<and> distinct (map rd_wheel_id (wheel_repodata db))"

lemma campaign_effectD:
  assumes "campaign_effect change dr dk S st st'"
  shows "snd st \<le> snd st'" "touched change S (snd st) (snd st') (wheels (fst st)) (wheels (fst st'))"
    "wheel_repodata (fst st') = sql_delete (\<lambda>r. dr \<and> rd_wheel_id r \<in> S) (wheel_repodata (fst st))"
    "skips (fst st') = sql_delete (\<lambda>r. dk r \<and> sk_wheel_id r \<in> S) (skips (fst st))"
    "work (fst st') = sql_delete (\<lambda>r. wk_wheel_id r \<in> S) (work (fst st))"
    "pypi_index (fst st') = pypi_index (fst st)" "segments (fst st') = segments (fst st)"
    "blobs (fst st') = blobs (fst st)" "errors (fst st') = errors (fst st)"
    "unlinked_blobs (fst st') = unlinked_blobs (fst st)"
proof -
  show "snd st \<le> snd st'" "touched change S (snd st) (snd st') (wheels (fst st)) (wheels (fst st'))"
    using assms by (simp_all add: campaign_effect_def)
  have eq: "fst st' = (fst st)\<lparr>wheels := wheels (fst st'),
          wheel_repodata := sql_delete (\<lambda>r. dr \<and> rd_wheel_id r \<in> S) (wheel_repodata (fst st)),
          skips := sql_delete (\<lambda>r. dk r \<and> sk_wheel_id r \<in> S) (skips (fst st)),
          work := sql_delete (\<lambda>r. wk_wheel_id r \<in> S) (work (fst st))\<rparr>"
    using assms unfolding campaign_effect_def by blast
  show "wheel_repodata (fst st') = sql_delete (\<lambda>r. dr \<and> rd_wheel_id r \<in> S) (wheel_repodata (fst st))"
    by (subst eq) simp
  show "skips (fst st') = sql_delete (\<lambda>r. dk r \<and> sk_wheel_id r \<in> S) (skips (fst st))"
    by (subst eq) simp
  show "work (fst st') = sql_delete (\<lambda>r. wk_wheel_id r \<in> S) (work (fst st))"
    by (subst eq) simp
  show "pypi_index (fst st') = pypi_index (fst st)" by (subst eq) simp
  show "segments (fst st') = segments (fst st)" by (subst eq) simp
  show "blobs (fst st') = blobs (fst st)" by (subst eq) simp
  show "errors (fst st') = errors (fst st)" by (subst eq) simp
  show "unlinked_blobs (fst st') = unlinked_blobs (fst st)" by (subst eq) simp
qed

lemma campaign_effectI:
  assumes "snd st \<le> snd st'" "touched change S (snd st) (snd st') (wheels (fst st)) (wheels (fst st'))"
    "wheel_repodata (fst st') = sql_delete (\<lambda>r. dr \<and> rd_wheel_id r \<in> S) (wheel_repodata (fst st))"
    "skips (fst st') = sql_delete (\<lambda>r. dk r \<and> sk_wheel_id r \<in> S) (skips (fst st))"
    "work (fst st') = sql_delete (\<lambda>r. wk_wheel_id r \<in> S) (work (fst st))"
    "pypi_index (fst st') = pypi_index (fst st)" "segments (fst st') = segments (fst st)"
    "blobs (fst st') = blobs (fst st)" "errors (fst st') = errors (fst st)"
    "unlinked_blobs (fst st') = unlinked_blobs (fst st)"
  shows "campaign_effect change dr dk S st st'"
  unfolding campaign_effect_def using assms by (cases "fst st'"; cases "fst st") simp

lemma campaign_effect_refl: "campaign_effect change dr dk {} st st"
  by (rule campaign_effectI) (simp_all add: touched_refl sql_delete_def)

lemma sql_delete_twice: "sql_delete p (sql_delete q rs) = sql_delete (\<lambda>r. q r \<or> p r) rs"
  by (simp add: sql_delete_def conj_commute)

lemma campaign_effect_trans:
  assumes "\<And>w. w_id (change w) = w_id w"
    and "campaign_effect change dr dk S st st1" and "campaign_effect change dr dk T st1 st2"
    and "S \<inter> T = {}"
  shows "campaign_effect change dr dk (S \<union> T) st st2"
proof (rule campaign_effectI)
  note d = campaign_effectD [OF assms(2)] and e = campaign_effectD [OF assms(3)]
  show "snd st \<le> snd st2" using d(1) e(1) by simp
  show "touched change (S \<union> T) (snd st) (snd st2) (wheels (fst st)) (wheels (fst st2))"
    by (rule touched_trans [OF assms(1) d(2) e(2) assms(4) d(1) e(1)])
qed (simp_all add: campaign_effectD(3-) [OF assms(2)] campaign_effectD(3-) [OF assms(3)] sql_delete_twice
      conj_disj_distribL disj_commute cong: conj_cong)

lemma run_chunk_effect:
  assumes "distinct ids" and "tables_ok (fst st)" and "set ids \<subseteq> wheel_ids (fst st)"
  shows "\<exists>st'. run_chunk clock sel ids (k, cnt, st) = (k + 1, cnt + int (length ids), st')
    \<and> campaign_effect to_need_convert True (clears_skip sel) (set ids) st st'"
proof -
  obtain db seq where st: "st = (db, seq)" by (cases st)
  let ?db = "db\<lparr>wheel_repodata := sql_delete (\<lambda>r. rd_wheel_id r \<in> set ids) (wheel_repodata db),
        skips := sql_delete (\<lambda>r. clears_skip sel r \<and> sk_wheel_id r \<in> set ids) (skips db),
        work := sql_delete (\<lambda>r. wk_wheel_id r \<in> set ids) (work db)\<rparr>"
  have "distinct (map w_id (wheels ?db))" "set ids \<subseteq> w_id ` {w \<in> set (wheels ?db). True}"
    using assms(2,3) by (auto simp: st tables_ok_def wheel_ids_def)
  from touch_each_effect [OF _ assms(1) this, of to_need_convert "clock k" 0 seq]
  obtain ws where t: "touch_each (\<lambda>_. True) to_need_convert (clock k) ids 0 (?db, seq)
      = (int (length ids), (?db\<lparr>wheels := ws\<rparr>, seq + int (length ids)))"
    "touched to_need_convert (set ids) seq (seq + int (length ids)) (wheels db) ws"
    by (auto simp: to_need_convert_def)
  have "campaign_effect to_need_convert True (clears_skip sel) (set ids) st
      (?db\<lparr>wheels := ws\<rparr>, seq + int (length ids))"
    by (rule campaign_effectI) (use t(2) in \<open>simp_all add: st\<close>)
  moreover have "run_chunk clock sel ids (k, cnt, st)
      = (k + 1, cnt + int (length ids), (?db\<lparr>wheels := ws\<rparr>, seq + int (length ids)))"
    using t(1) by (simp add: run_chunk_def reprocess_chunk_def st)
  ultimately show ?thesis by blast
qed

lemma run_unquarantine_chunk_effect:
  assumes "distinct ids" and "tables_ok (fst st)" and "set ids \<subseteq> w_id ` {w \<in> set (wheels (fst st)). is_quarantined w}"
  shows "\<exists>st'. run_unquarantine_chunk clock ids (k, cnt, st) = (k + 1, cnt + int (length ids), st')
    \<and> campaign_effect to_need_metadata False (\<lambda>_. False) (set ids) st st'"
proof -
  obtain db seq where st: "st = (db, seq)" by (cases st)
  let ?db = "db\<lparr>work := sql_delete (\<lambda>r. wk_wheel_id r \<in> set ids) (work db)\<rparr>"
  have "distinct (map w_id (wheels ?db))" "set ids \<subseteq> w_id ` {w \<in> set (wheels ?db). is_quarantined w}"
    using assms(2,3) by (auto simp: st tables_ok_def)
  from touch_each_effect [OF _ assms(1) this, of to_need_metadata "clock k" 0 seq]
  obtain ws where t: "touch_each is_quarantined to_need_metadata (clock k) ids 0 (?db, seq)
      = (int (length ids), (?db\<lparr>wheels := ws\<rparr>, seq + int (length ids)))"
    "touched to_need_metadata (set ids) seq (seq + int (length ids)) (wheels db) ws"
    by (auto simp: to_need_metadata_def)
  have "campaign_effect to_need_metadata False (\<lambda>_. False) (set ids) st
      (?db\<lparr>wheels := ws\<rparr>, seq + int (length ids))"
    by (rule campaign_effectI) (use t(2) in \<open>simp_all add: st sql_delete_def\<close>)
  moreover have "run_unquarantine_chunk clock ids (k, cnt, st)
      = (k + 1, cnt + int (length ids), (?db\<lparr>wheels := ws\<rparr>, seq + int (length ids)))"
    using t(1) by (simp add: run_unquarantine_chunk_def unquarantine_chunk_def st)
  ultimately show ?thesis by blast
qed

text \<open>
  The contract of a paginated campaign, whatever its paging discipline (a keyset cursor, or a page
  that empties itself): a page holds distinct remaining ids, an empty or short page is the whole
  rest, and once a page has been applied exactly its ids have left what the next page ranges over.
\<close>

locale chunk_campaign =
  fixes loop :: "'c \<Rightarrow> campaign_state \<Rightarrow> campaign_state"
    and ready :: "'c \<Rightarrow> bool"
    and page :: "'c \<Rightarrow> database \<Rightarrow> int list"
    and full :: "'c \<Rightarrow> database \<Rightarrow> bool"
    and advance :: "'c \<Rightarrow> database \<Rightarrow> 'c"
    and run :: "'c \<Rightarrow> int list \<Rightarrow> campaign_state \<Rightarrow> campaign_state"
    and remaining :: "'c \<Rightarrow> database \<Rightarrow> int set"
    and change :: "wheel_row \<Rightarrow> wheel_row"
    and dr :: bool
    and dk :: "'c \<Rightarrow> skip_row \<Rightarrow> bool"
  assumes loop_unfold: "loop c s =
      (if page c (cs_db s) = [] then s
       else if full c (cs_db s) then loop (advance c (cs_db s)) (run c (page c (cs_db s)) s)
       else run c (page c (cs_db s)) s)"
    and change_id: "w_id (change w) = w_id w"
    and page_distinct: "tables_ok db \<Longrightarrow> distinct (page c db)"
    and page_sub: "set (page c db) \<subseteq> remaining c db"
    and page_empty: "ready c \<Longrightarrow> page c db = [] \<Longrightarrow> remaining c db = {}"
    and page_short: "ready c \<Longrightarrow> \<not> full c db \<Longrightarrow> set (page c db) = remaining c db"
    and remaining_finite: "finite (remaining c db)"
    and run_effect: "tables_ok (fst st) \<Longrightarrow> \<exists>st'. run c (page c (fst st)) (k, cnt, st)
        = (k + 1, cnt + int (length (page c (fst st))), st')
      \<and> campaign_effect change dr (dk c) (set (page c (fst st))) st st'"
    and advance_ready: "ready c \<Longrightarrow> ready (advance c db)"
    and advance_dk: "dk (advance c db) = dk c"
    and remaining_advance: "ready c \<Longrightarrow> tables_ok db \<Longrightarrow> page c db \<noteq> []
      \<Longrightarrow> campaign_effect change dr (dk c) (set (page c db)) (db, seq) (db', seq')
      \<Longrightarrow> remaining (advance c db) db' = remaining c db - set (page c db)"
begin

lemma effect_tables_ok:
  assumes "campaign_effect change dr dk' S st st'" and "tables_ok (fst st)"
  shows "tables_ok (fst st')"
  using touched_ids [OF change_id campaign_effectD(2) [OF assms(1)]] campaign_effectD(3) [OF assms(1)] assms(2)
  by (simp add: tables_ok_def distinct_key_delete)

lemma loop_effect:
  assumes "tables_ok (fst st)" and "ready c"
  shows "\<exists>k' st'. loop c (k, cnt, st) = (k', cnt + int (card (remaining c (fst st))), st')
    \<and> campaign_effect change dr (dk c) (remaining c (fst st)) st st'"
  using assms
proof (induction "card (remaining c (fst st))" arbitrary: c k cnt st rule: less_induct)
  case less
  let ?P = "page c (fst st)" and ?R = "remaining c (fst st)"
  have card: "int (length ?P) = int (card (set ?P))"
    using distinct_card [OF page_distinct [OF less.prems(1), of c]] by simp
  show ?case
  proof (cases "?P = []")
    case True
    then have "?R = {}" by (rule page_empty [OF less.prems(2)])
    moreover have "loop c (k, cnt, st) = (k, cnt, st)"
      by (subst loop_unfold) (simp add: cs_db_def True)
    ultimately show ?thesis by (simp add: campaign_effect_refl)
  next
    case ne: False
    obtain st1 where run: "run c ?P (k, cnt, st) = (k + 1, cnt + int (length ?P), st1)"
      and eff: "campaign_effect change dr (dk c) (set ?P) st st1"
      using run_effect [OF less.prems(1)] by blast
    show ?thesis
    proof (cases "full c (fst st)")
      case False
      then have "set ?P = ?R" by (rule page_short [OF less.prems(2)])
      moreover have "loop c (k, cnt, st) = (k + 1, cnt + int (length ?P), st1)"
        by (subst loop_unfold) (simp add: cs_db_def ne False run)
      ultimately show ?thesis using eff card by auto
    next
      case True
      let ?c = "advance c (fst st)"
      have rem: "remaining ?c (fst st1) = ?R - set ?P"
        using remaining_advance [OF less.prems(2,1) ne, of "snd st" "fst st1" "snd st1"] eff by simp
      have sub: "set ?P \<subseteq> ?R" by (rule page_sub)
      have smaller: "card (remaining ?c (fst st1)) < card ?R"
      proof -
        have "hd ?P \<in> ?R" "hd ?P \<in> set ?P" using ne sub by auto
        then have "?R - set ?P \<subset> ?R" by blast
        then show ?thesis unfolding rem by (rule psubset_card_mono [OF remaining_finite])
      qed
      obtain k' st' where tail: "loop ?c (k + 1, cnt + int (length ?P), st1)
          = (k', cnt + int (length ?P) + int (card (?R - set ?P)), st')"
        "campaign_effect change dr (dk c) (?R - set ?P) st1 st'"
        using less.hyps [OF smaller effect_tables_ok [OF eff less.prems(1)] advance_ready [OF less.prems(2)],
            of "k + 1" "cnt + int (length ?P)"] by (auto simp: rem advance_dk)
      have "campaign_effect change dr (dk c) (set ?P \<union> (?R - set ?P)) st st'"
        by (rule campaign_effect_trans [OF change_id eff tail(2)]) simp
      then have "campaign_effect change dr (dk c) ?R st st'" using sub by (simp add: Un_absorb1)
      moreover have "loop c (k, cnt, st) = loop ?c (k + 1, cnt + int (length ?P), st1)"
        by (subst loop_unfold) (simp add: cs_db_def ne True run)
      moreover have "int (length ?P) + int (card (?R - set ?P)) = int (card ?R)"
        unfolding card using sub remaining_finite [of c "fst st"]
        by (metis card_Diff_subset card_mono finite_set le_add_diff_inverse of_nat_add)
      ultimately show ?thesis using tail(1) by (simp add: add.assoc)
    qed
  qed
qed

end

section \<open>The campaigns meet the contract\<close>

lemmas effect_outside = touched_outside [OF _ campaign_effectD(2)]
lemmas effect_inside = touched_inside [OF _ campaign_effectD(2)]

lemma w_id_to [simp]: "w_id (to_need_convert w) = w_id w" "w_id (to_need_metadata w) = w_id w"
  by (simp_all add: to_need_convert_def to_need_metadata_def)

lemma image_filter_id:
  "i \<in> w_id ` {w \<in> set ws. Q w} \<longleftrightarrow> (\<exists>w \<in> set ws. w_id w = i \<and> Q w)"
  by auto

lemma inj_ids: "tables_ok db \<Longrightarrow> inj_on w_id (set (wheels db))"
  by (simp add: tables_ok_def distinct_map)

lemma limited_ids_distinct:
  assumes "distinct (map f rs)"
  shows "distinct (map f (sql_limit n (sort_key g (filter p rs))))"
proof -
  have "distinct (map f (sort_key g (filter p rs)))"
    using assms by (simp add: distinct_map_sort distinct_map_filter)
  then show ?thesis by (auto simp: sql_limit_def take_map [symmetric] distinct_take)
qed

definition project_remaining :: "string \<Rightarrow> int \<Rightarrow> database \<Rightarrow> int set" where
  "project_remaining project last_id db = w_id ` {w \<in> set (wheels db). project_matches project w \<and> last_id < w_id w}"

lemma project_page_set:
  "set (project_chunk_query project last_id n db) \<subseteq> project_remaining project last_id db"
  using sql_limit_subset by (fastforce simp: project_chunk_query_def project_remaining_def)

lemma project_page_whole:
  assumes "project_chunk_query project last_id n db = [] \<and> n \<noteq> 0
    \<or> int (length (project_chunk_query project last_id n db)) < n"
  shows "set (project_chunk_query project last_id n db) = project_remaining project last_id db"
proof -
  let ?S = "sort_key w_id (filter (\<lambda>w. project_matches project w \<and> last_id < w_id w) (wheels db))"
  have "sql_limit n ?S = ?S"
    by (rule sql_limit_whole) (use assms in \<open>auto simp: project_chunk_query_def\<close>)
  then show ?thesis by (simp add: project_chunk_query_def project_remaining_def image_Collect Collect_conj_eq)
qed

lemma project_page_rest:
  assumes ok: "tables_ok db" and ne: "project_chunk_query project last_id n db \<noteq> []"
  shows "{i \<in> project_remaining project last_id db. last (project_chunk_query project last_id n db) < i}
    = project_remaining project last_id db - set (project_chunk_query project last_id n db)"
proof -
  let ?R = "filter (\<lambda>w. project_matches project w \<and> last_id < w_id w) (wheels db)"
  let ?P = "sql_limit n (sort_key w_id ?R)"
  have "distinct (map w_id ?R)" using ok by (simp add: tables_ok_def distinct_map_filter)
  then have rest: "{r \<in> set ?R. w_id (last ?P) < w_id r} = set ?R - set ?P"
    by (rule limit_page_rest) (use ne in \<open>simp add: project_chunk_query_def\<close>)
  have sub: "set ?P \<subseteq> set ?R" using sql_limit_subset [of n "sort_key w_id ?R"] by simp
  have inj: "inj_on w_id (set ?R)" using inj_ids [OF ok] by (auto simp: inj_on_def)
  have R: "project_remaining project last_id db = w_id ` set ?R"
    by (simp add: project_remaining_def)
  have L: "last (project_chunk_query project last_id n db) = w_id (last ?P)"
    using ne by (simp add: project_chunk_query_def last_map)
  have "{i \<in> w_id ` set ?R. w_id (last ?P) < i} = w_id ` {r \<in> set ?R. w_id (last ?P) < w_id r}" by auto
  also have "\<dots> = w_id ` set ?R - w_id ` set ?P"
    unfolding rest by (rule inj_on_image_set_diff [OF inj]) (use sub in auto)
  finally show ?thesis unfolding R L by (simp add: project_chunk_query_def)
qed

interpretation camp_project: chunk_campaign
  "\<lambda>(clock, project, n, last_id). reprocess_project clock project n last_id"
  "\<lambda>(clock, project, n, last_id). n \<noteq> 0"
  "\<lambda>(clock, project, n, last_id). project_chunk_query project last_id n"
  "\<lambda>(clock, project, n, last_id) db. \<not> int (length (project_chunk_query project last_id n db)) < n"
  "\<lambda>(clock, project, n, last_id) db. (clock, project, n, last (project_chunk_query project last_id n db))"
  "\<lambda>(clock, project, n, last_id). run_chunk clock (ProjectSelector project)"
  "\<lambda>(clock, project, n, last_id). project_remaining project last_id"
  to_need_convert True "\<lambda>(clock, project, n, last_id). clears_skip (ProjectSelector project)"
proof (unfold_locales, goal_cases)
  case (1 c s)
  then show ?case by (auto simp: reprocess_project.simps Let_def split: prod.splits)
next
  case (3 db c)
  then show ?case by (auto simp: project_chunk_query_def tables_ok_def limited_ids_distinct split: prod.splits)
next
  case (4 c db)
  then show ?case using project_page_set by (auto split: prod.splits)
next
  case (5 c db)
  then show ?case using project_page_whole by (fastforce split: prod.splits)
next
  case (6 c db)
  then show ?case by (auto simp: project_page_whole split: prod.splits)
next
  case (7 c db)
  then show ?case by (auto simp: project_remaining_def split: prod.splits)
next
  case (8 st c k cnt)
  obtain clock project n last_id where c: "c = (clock, project, n, last_id)" by (metis prod.exhaust)
  have "distinct (project_chunk_query project last_id n (fst st))"
    using 8 by (simp add: project_chunk_query_def tables_ok_def limited_ids_distinct)
  moreover have "set (project_chunk_query project last_id n (fst st)) \<subseteq> wheel_ids (fst st)"
    using project_page_set by (fastforce simp: project_remaining_def wheel_ids_def)
  ultimately show ?case unfolding c prod.case by (rule run_chunk_effect [OF _ 8])
next
  case (11 c db seq db' seq')
  obtain clock project n last_id where c: "c = (clock, project, n, last_id)" by (metis prod.exhaust)
  let ?P = "project_chunk_query project last_id n db"
  have eff: "campaign_effect to_need_convert True (clears_skip (ProjectSelector project)) (set ?P) (db, seq) (db', seq')"
    and ne: "?P \<noteq> []" and ok: "tables_ok db"
    using 11 by (simp_all add: c)
  have rest: "{i \<in> project_remaining project last_id db. last ?P < i} = project_remaining project last_id db - set ?P"
    by (rule project_page_rest [OF ok ne])
  have le: "last_id < last ?P" using project_page_set ne last_in_set by (fastforce simp: project_remaining_def)
  have not_later: "\<not> last ?P < i" if "i \<in> set ?P" for i
    using that rest project_page_set by blast
  have "i \<in> project_remaining project (last ?P) db' \<longleftrightarrow> i \<in> project_remaining project last_id db - set ?P" for i
  proof (cases "i \<in> set ?P")
    case True
    then show ?thesis using not_later by (auto simp: project_remaining_def)
  next
    case False
    from effect_outside [OF w_id_to(1) eff this]
    have "i \<in> project_remaining project (last ?P) db' \<longleftrightarrow> i \<in> project_remaining project (last ?P) db"
      by (simp add: project_remaining_def image_filter_id)
    also have "\<dots> \<longleftrightarrow> i \<in> {i \<in> project_remaining project last_id db. last ?P < i}"
      using le by (auto simp: project_remaining_def)
    finally show ?thesis unfolding rest .
  qed
  then show ?case by (auto simp: c)
qed (auto split: prod.splits)

text \<open>The campaigns by state; a wheel that is already \<^const>\<open>NEED_CONVERT\<close> would stay selected.\<close>

definition state_remaining :: "wheel_state \<Rightarrow> lane_cursor \<Rightarrow> database \<Rightarrow> int set" where
  "state_remaining state cursor db = w_id ` {w \<in> set (wheels db). state_matches state w \<and> lane_project_id_keyset cursor w}"

lemma keyset_after: "lane_project_id_keyset (Some (queue_key x)) w \<longleftrightarrow> queue_key x < queue_key w"
  by (auto simp: lane_project_id_keyset_def queue_key_def less_prod_def)

lemma keyset_trans:
  "lane_project_id_keyset c x \<Longrightarrow> lane_project_id_keyset (Some (queue_key x)) w \<Longrightarrow> lane_project_id_keyset c w"
  by (auto simp: lane_project_id_keyset_def queue_key_def split: option.splits)

lemma state_page_rows:
  "w \<in> set (state_chunk_query state cursor n db)
    \<Longrightarrow> w \<in> set (wheels db) \<and> state_matches state w \<and> lane_project_id_keyset cursor w"
  using sql_limit_subset by (fastforce simp: state_chunk_query_def)

lemma state_page_set: "set (map w_id (state_chunk_query state cursor n db)) \<subseteq> state_remaining state cursor db"
  using state_page_rows by (fastforce simp: state_remaining_def)

lemma state_page_whole:
  assumes "state_chunk_query state cursor n db = [] \<and> n \<noteq> 0
    \<or> int (length (state_chunk_query state cursor n db)) < n"
  shows "set (map w_id (state_chunk_query state cursor n db)) = state_remaining state cursor db"
proof -
  let ?S = "sort_key queue_key (filter (\<lambda>w. state_matches state w \<and> lane_project_id_keyset cursor w) (wheels db))"
  have "sql_limit n ?S = ?S"
    by (rule sql_limit_whole) (use assms in \<open>auto simp: state_chunk_query_def\<close>)
  then show ?thesis by (simp add: state_chunk_query_def state_remaining_def image_Collect Collect_conj_eq)
qed

lemma state_page_rest:
  assumes ok: "tables_ok db" and ne: "state_chunk_query state cursor n db \<noteq> []"
  shows "state_remaining state (Some (queue_key (last (state_chunk_query state cursor n db)))) db
    = state_remaining state cursor db - set (map w_id (state_chunk_query state cursor n db))"
proof -
  let ?R = "filter (\<lambda>w. state_matches state w \<and> lane_project_id_keyset cursor w) (wheels db)"
  let ?P = "state_chunk_query state cursor n db"
  have P: "?P = sql_limit n (sort_key queue_key ?R)" by (simp add: state_chunk_query_def)
  have inj: "inj_on w_id (set ?R)" using inj_ids [OF ok] by (auto simp: inj_on_def)
  have "distinct (map queue_key ?R)"
    using ok inj by (auto simp: tables_ok_def distinct_map queue_key_def inj_on_def)
  then have rest: "{r \<in> set ?R. queue_key (last ?P) < queue_key r} = set ?R - set ?P"
    unfolding P by (rule limit_page_rest) (use ne P in simp)
  have "lane_project_id_keyset cursor (last ?P)" using state_page_rows last_in_set [OF ne] by blast
  then have "{w \<in> set (wheels db). state_matches state w \<and> lane_project_id_keyset (Some (queue_key (last ?P))) w}
      = {r \<in> set ?R. queue_key (last ?P) < queue_key r}"
    using keyset_trans by (auto simp: keyset_after)
  then have "state_remaining state (Some (queue_key (last ?P))) db = w_id ` (set ?R - set ?P)"
    unfolding state_remaining_def rest by simp
  also have "\<dots> = w_id ` set ?R - w_id ` set ?P"
    by (rule inj_on_image_set_diff [OF inj]) (use state_page_rows in auto)
  finally show ?thesis by (simp add: state_remaining_def)
qed

interpretation camp_state: chunk_campaign
  "\<lambda>(clock, sel, state, n, cursor). reprocess_state clock sel state n cursor"
  "\<lambda>(clock, sel, state, n, cursor). n \<noteq> 0 \<and> state \<noteq> NEED_CONVERT"
  "\<lambda>(clock, sel, state, n, cursor) db. map w_id (state_chunk_query state cursor n db)"
  "\<lambda>(clock, sel, state, n, cursor) db. \<not> int (length (state_chunk_query state cursor n db)) < n"
  "\<lambda>(clock, sel, state, n, cursor) db. (clock, sel, state, n, Some (queue_key (last (state_chunk_query state cursor n db))))"
  "\<lambda>(clock, sel, state, n, cursor). run_chunk clock sel"
  "\<lambda>(clock, sel, state, n, cursor). state_remaining state cursor"
  to_need_convert True "\<lambda>(clock, sel, state, n, cursor). clears_skip sel"
proof (unfold_locales, goal_cases)
  case (1 c s)
  then show ?case by (auto simp: reprocess_state.simps Let_def split: prod.splits)
next
  case (3 db c)
  then show ?case by (auto simp: state_chunk_query_def tables_ok_def limited_ids_distinct split: prod.splits)
next
  case (4 c db)
  then show ?case using state_page_set by (fastforce split: prod.splits)
next
  case (5 c db)
  then show ?case using state_page_whole by (fastforce split: prod.splits)
next
  case (6 c db)
  then show ?case using state_page_whole by (fastforce split: prod.splits)
next
  case (7 c db)
  then show ?case by (auto simp: state_remaining_def split: prod.splits)
next
  case (8 st c k cnt)
  obtain clock sel state n cursor where c: "c = (clock, sel, state, n, cursor)" by (metis prod.exhaust)
  have "distinct (map w_id (state_chunk_query state cursor n (fst st)))"
    using 8 by (simp add: state_chunk_query_def tables_ok_def limited_ids_distinct)
  moreover have "set (map w_id (state_chunk_query state cursor n (fst st))) \<subseteq> wheel_ids (fst st)"
    using state_page_rows by (fastforce simp: wheel_ids_def)
  ultimately show ?case unfolding c prod.case by (rule run_chunk_effect [OF _ 8])
next
  case (11 c db seq db' seq')
  obtain clock sel state n cursor where c: "c = (clock, sel, state, n, cursor)" by (metis prod.exhaust)
  let ?P = "map w_id (state_chunk_query state cursor n db)"
  let ?c = "Some (queue_key (last (state_chunk_query state cursor n db)))"
  have eff: "campaign_effect to_need_convert True (clears_skip sel) (set ?P) (db, seq) (db', seq')"
    and ne: "state_chunk_query state cursor n db \<noteq> []" and ok: "tables_ok db" and state: "state \<noteq> NEED_CONVERT"
    using 11 by (simp_all add: c)
  have "i \<in> state_remaining state ?c db' \<longleftrightarrow> i \<in> state_remaining state ?c db \<and> i \<notin> set ?P" for i
  proof (cases "i \<in> set ?P")
    case True
    have "\<not> state_matches state w" if "w \<in> set (wheels db')" "w_id w = i" for w
      using effect_inside [OF w_id_to(1) eff, of w] that True state
      by (auto simp: state_matches_def touch_def to_need_convert_def simp del: state_int.simps)
    then show ?thesis using True by (auto simp: state_remaining_def)
  next
    case False
    then show ?thesis using effect_outside [OF w_id_to(1) eff False]
      by (simp add: state_remaining_def image_filter_id)
  qed
  then show ?case using state_page_rest [OF ok ne] by (auto simp: c)
qed (auto split: prod.splits)

text \<open>The two phases of a version campaign, and \<^verbatim>\<open>unquarantine\<close>: pages that empty themselves.\<close>

definition repodata_remaining :: "string \<Rightarrow> database \<Rightarrow> int set" where
  "repodata_remaining version db = rd_wheel_id ` set (filter (stale_repodata version db) (wheel_repodata db))"

definition skips_remaining :: "string \<Rightarrow> database \<Rightarrow> int set" where
  "skips_remaining version db = sk_wheel_id ` set (filter (stale_skip version db) (skips db))"

definition quarantined_remaining :: "string option \<Rightarrow> database \<Rightarrow> int set" where
  "quarantined_remaining project db = w_id ` {w \<in> set (wheels db). is_quarantined w
     \<and> (case project of None \<Rightarrow> True | Some p \<Rightarrow> w_project w = p)}"

lemma live_wheel_ids: "live_wheel db i \<Longrightarrow> i \<in> wheel_ids db"
  by (auto simp: live_wheel_def wheel_ids_def)

lemma live_outside:
  assumes "campaign_effect to_need_convert True dk S (db, seq) (db', seq')" and "i \<notin> S"
  shows "live_wheel db' i = live_wheel db i"
  using effect_outside [OF w_id_to(1) assms, where Q = "\<lambda>w. w_state w \<noteq> state_int DELETED"]
  by (simp add: live_wheel_def del: state_int.simps)

lemma repodata_page_set:
  "set (reroll_version_wheel_repodata_chunk_query version n db) \<subseteq> repodata_remaining version db"
  using sql_limit_subset by (fastforce simp: reroll_version_wheel_repodata_chunk_query_def repodata_remaining_def)

lemma repodata_page_whole:
  assumes "reroll_version_wheel_repodata_chunk_query version n db = [] \<and> n \<noteq> 0
    \<or> int (length (reroll_version_wheel_repodata_chunk_query version n db)) < n"
  shows "set (reroll_version_wheel_repodata_chunk_query version n db) = repodata_remaining version db"
proof -
  let ?S = "sort_key rd_reroll_version (filter (stale_repodata version db) (wheel_repodata db))"
  have "sql_limit n ?S = ?S"
    by (rule sql_limit_whole) (use assms in \<open>auto simp: reroll_version_wheel_repodata_chunk_query_def\<close>)
  then show ?thesis by (simp add: reroll_version_wheel_repodata_chunk_query_def repodata_remaining_def)
qed

lemma skips_page_set:
  "set (reroll_version_skips_chunk_query version n db) \<subseteq> skips_remaining version db"
  using sql_limit_subset by (fastforce simp: reroll_version_skips_chunk_query_def skips_remaining_def)

lemma skips_page_whole:
  assumes "reroll_version_skips_chunk_query version n db = [] \<and> n \<noteq> 0
    \<or> int (length (reroll_version_skips_chunk_query version n db)) < n"
  shows "set (reroll_version_skips_chunk_query version n db) = skips_remaining version db"
proof -
  let ?S = "sort_key (\<lambda>r. the (sk_reroll_version r)) (filter (stale_skip version db) (skips db))"
  have "sql_limit n ?S = ?S"
    by (rule sql_limit_whole) (use assms in \<open>auto simp: reroll_version_skips_chunk_query_def\<close>)
  then show ?thesis by (simp add: reroll_version_skips_chunk_query_def skips_remaining_def)
qed

lemma quarantined_page_set:
  "set (quarantined_chunk_query project n db) \<subseteq> quarantined_remaining project db"
  using sql_limit_subset by (fastforce simp: quarantined_chunk_query_def quarantined_remaining_def)

lemma quarantined_page_whole:
  assumes "quarantined_chunk_query project n db = [] \<and> n \<noteq> 0
    \<or> int (length (quarantined_chunk_query project n db)) < n"
  shows "set (quarantined_chunk_query project n db) = quarantined_remaining project db"
proof -
  let ?S = "filter (\<lambda>w. is_quarantined w \<and> (case project of None \<Rightarrow> True | Some p \<Rightarrow> w_project w = p)) (wheels db)"
  have "sql_limit n ?S = ?S"
    by (rule sql_limit_whole) (use assms in \<open>auto simp: quarantined_chunk_query_def\<close>)
  then show ?thesis
    by (simp add: quarantined_chunk_query_def quarantined_remaining_def image_Collect Collect_conj_eq)
qed

lemma dict_fromkeys_Nil [simp]: "dict_fromkeys xs = [] \<longleftrightarrow> xs = []"
  by (metis set_dict_fromkeys set_empty)

lemma dict_fromkeys_empty [simp]: "dict_fromkeys [] = []"
  by simp

interpretation camp_repodata: chunk_campaign
  "\<lambda>(clock, version, n). reprocess_stale_repodata clock version n"
  "\<lambda>(clock, version, n). n \<noteq> 0"
  "\<lambda>(clock, version, n). reroll_version_wheel_repodata_chunk_query version n"
  "\<lambda>(clock, version, n) db. \<not> int (length (reroll_version_wheel_repodata_chunk_query version n db)) < n"
  "\<lambda>c db. c"
  "\<lambda>(clock, version, n). run_chunk clock (RerollVersionBelow version)"
  "\<lambda>(clock, version, n). repodata_remaining version"
  to_need_convert True "\<lambda>(clock, version, n). clears_skip (RerollVersionBelow version)"
proof (unfold_locales, goal_cases)
  case (1 c s)
  obtain clock version n where c: "c = (clock, version, n)" by (metis prod.exhaust)
  show ?case unfolding c prod.case by (subst reprocess_stale_repodata.simps) (simp add: Let_def)
next
  case (3 db c)
  then show ?case by (auto simp: reroll_version_wheel_repodata_chunk_query_def tables_ok_def
        limited_ids_distinct split: prod.splits)
next
  case (4 c db)
  then show ?case using repodata_page_set by (fastforce split: prod.splits)
next
  case (5 c db)
  then show ?case using repodata_page_whole by (fastforce split: prod.splits)
next
  case (6 c db)
  then show ?case using repodata_page_whole by (fastforce split: prod.splits)
next
  case (7 c db)
  then show ?case by (auto simp: repodata_remaining_def split: prod.splits)
next
  case (8 st c k cnt)
  obtain clock version n where c: "c = (clock, version, n)" by (metis prod.exhaust)
  let ?ids = "reroll_version_wheel_repodata_chunk_query version n (fst st)"
  have "distinct ?ids"
    using 8 by (simp add: reroll_version_wheel_repodata_chunk_query_def tables_ok_def limited_ids_distinct)
  moreover have "set ?ids \<subseteq> wheel_ids (fst st)"
    using repodata_page_set live_wheel_ids by (fastforce simp: repodata_remaining_def stale_repodata_def)
  ultimately show ?case unfolding c prod.case by (rule run_chunk_effect [OF _ 8])
next
  case (11 c db seq db' seq')
  obtain clock version n where c: "c = (clock, version, n)" by (metis prod.exhaust)
  let ?P = "reroll_version_wheel_repodata_chunk_query version n db"
  have eff: "campaign_effect to_need_convert True (clears_skip (RerollVersionBelow version)) (set ?P) (db, seq) (db', seq')"
    using 11 by (simp add: c)
  have rd: "wheel_repodata db' = sql_delete (\<lambda>r. rd_wheel_id r \<in> set ?P) (wheel_repodata db)"
    using campaign_effectD(3) [OF eff] by simp
  show ?case unfolding c prod.case
    using live_outside [OF eff]
    by (auto simp: repodata_remaining_def stale_repodata_def rd sql_delete_def)
qed (auto split: prod.splits)

interpretation camp_skips: chunk_campaign
  "\<lambda>(clock, version, n). reprocess_stale_skips clock version n"
  "\<lambda>(clock, version, n). n \<noteq> 0"
  "\<lambda>(clock, version, n) db. dict_fromkeys (reroll_version_skips_chunk_query version n db)"
  "\<lambda>(clock, version, n) db. \<not> int (length (reroll_version_skips_chunk_query version n db)) < n"
  "\<lambda>c db. c"
  "\<lambda>(clock, version, n). run_chunk clock (RerollVersionBelow version)"
  "\<lambda>(clock, version, n). skips_remaining version"
  to_need_convert True "\<lambda>(clock, version, n). clears_skip (RerollVersionBelow version)"
proof (unfold_locales, goal_cases)
  case (1 c s)
  obtain clock version n where c: "c = (clock, version, n)" by (metis prod.exhaust)
  show ?case unfolding c prod.case by (subst reprocess_stale_skips.simps) (simp add: Let_def)
next
  case (4 c db)
  then show ?case using skips_page_set by (fastforce split: prod.splits)
next
  case (5 c db)
  then show ?case using skips_page_whole by (fastforce split: prod.splits)
next
  case (6 c db)
  then show ?case using skips_page_whole by (fastforce split: prod.splits)
next
  case (7 c db)
  then show ?case by (auto simp: skips_remaining_def split: prod.splits)
next
  case (8 st c k cnt)
  obtain clock version n where c: "c = (clock, version, n)" by (metis prod.exhaust)
  let ?ids = "reroll_version_skips_chunk_query version n (fst st)"
  have "set (dict_fromkeys ?ids) \<subseteq> wheel_ids (fst st)"
    using skips_page_set live_wheel_ids by (fastforce simp: skips_remaining_def stale_skip_def)
  then show ?case unfolding c prod.case by (rule run_chunk_effect [OF distinct_dict_fromkeys 8])
next
  case (11 c db seq db' seq')
  obtain clock version n where c: "c = (clock, version, n)" by (metis prod.exhaust)
  let ?P = "reroll_version_skips_chunk_query version n db"
  have eff: "campaign_effect to_need_convert True (clears_skip (RerollVersionBelow version)) (set ?P) (db, seq) (db', seq')"
    using 11 by (simp add: c)
  have sk: "skips db' = sql_delete (\<lambda>r. version_below version r \<and> sk_wheel_id r \<in> set ?P) (skips db)"
    using campaign_effectD(4) [OF eff] by (simp add: clears_skip_def)
  show ?case unfolding c prod.case
    using live_outside [OF eff]
    by (auto simp: skips_remaining_def stale_skip_def sk sql_delete_def)
qed (auto split: prod.splits)

interpretation camp_unquarantine: chunk_campaign
  "\<lambda>(clock, project, n). unquarantine_chunks clock project n"
  "\<lambda>(clock, project, n). n \<noteq> 0"
  "\<lambda>(clock, project, n). quarantined_chunk_query project n"
  "\<lambda>(clock, project, n) db. \<not> int (length (quarantined_chunk_query project n db)) < n"
  "\<lambda>c db. c"
  "\<lambda>(clock, project, n). run_unquarantine_chunk clock"
  "\<lambda>(clock, project, n). quarantined_remaining project"
  to_need_metadata False "\<lambda>_ _. False"
proof (unfold_locales, goal_cases)
  case (1 c s)
  obtain clock project n where c: "c = (clock, project, n)" by (metis prod.exhaust)
  show ?case unfolding c prod.case by (subst unquarantine_chunks.simps) (simp add: Let_def)
next
  case (3 db c)
  then show ?case by (auto simp: quarantined_chunk_query_def tables_ok_def sql_limit_def
        take_map [symmetric] distinct_take distinct_map_filter split: prod.splits)
next
  case (4 c db)
  then show ?case using quarantined_page_set by (fastforce split: prod.splits)
next
  case (5 c db)
  then show ?case using quarantined_page_whole by (fastforce split: prod.splits)
next
  case (6 c db)
  then show ?case using quarantined_page_whole by (fastforce split: prod.splits)
next
  case (7 c db)
  then show ?case by (auto simp: quarantined_remaining_def split: prod.splits)
next
  case (8 st c k cnt)
  obtain clock project n where c: "c = (clock, project, n)" by (metis prod.exhaust)
  let ?ids = "quarantined_chunk_query project n (fst st)"
  have "distinct ?ids"
    using 8 by (simp add: quarantined_chunk_query_def tables_ok_def sql_limit_def
        take_map [symmetric] distinct_take distinct_map_filter)
  moreover have "set ?ids \<subseteq> w_id ` {w \<in> set (wheels (fst st)). is_quarantined w}"
    using quarantined_page_set by (fastforce simp: quarantined_remaining_def)
  ultimately show ?case unfolding c prod.case by (rule run_unquarantine_chunk_effect [OF _ 8])
next
  case (11 c db seq db' seq')
  obtain clock project n where c: "c = (clock, project, n)" by (metis prod.exhaust)
  let ?P = "quarantined_chunk_query project n db"
  have eff: "campaign_effect to_need_metadata False (\<lambda>_. False) (set ?P) (db, seq) (db', seq')"
    using 11 by (simp add: c)
  have "i \<in> quarantined_remaining project db' \<longleftrightarrow> i \<in> quarantined_remaining project db \<and> i \<notin> set ?P" for i
  proof (cases "i \<in> set ?P")
    case True
    have "\<not> is_quarantined w" if "w \<in> set (wheels db')" "w_id w = i" for w
      using effect_inside [OF w_id_to(2) eff, of w] that True
      by (auto simp: is_quarantined_def touch_def to_need_metadata_def)
    then show ?thesis using True by (auto simp: quarantined_remaining_def)
  next
    case False
    then show ?thesis using effect_outside [OF w_id_to(2) eff False]
      by (simp add: quarantined_remaining_def image_filter_id)
  qed
  then show ?case by (auto simp: c)
qed (auto split: prod.splits)

section \<open>What each selector selects\<close>

fun selected :: "selector \<Rightarrow> database \<Rightarrow> int set" where
  "selected (RerollVersionBelow version) db = stale_wheel_ids version db"
| "selected (ProjectSelector project) db = w_id ` {w \<in> set (wheels db). project_matches project w}"
| "selected (StateSelector state) db = w_id ` {w \<in> set (wheels db). state_matches state w}"
| "selected SkippedOnly db = w_id ` {w \<in> set (wheels db). state_matches SKIPPED w}"

fun unquarantine_selected :: "selector \<Rightarrow> database \<Rightarrow> int set" where
  "unquarantine_selected (StateSelector state) db =
     (if state = QUARANTINED then w_id ` {w \<in> set (wheels db). is_quarantined w} else {})"
| "unquarantine_selected (ProjectSelector project) db =
     w_id ` {w \<in> set (wheels db). is_quarantined w \<and> w_project w = project}"
| "unquarantine_selected _ db = {}"

lemma card_ids: "tables_ok db \<Longrightarrow> int (card (w_id ` {w \<in> set (wheels db). Q w})) = rowcount Q (wheels db)"
proof -
  assume ok: "tables_ok db"
  have "distinct (map w_id (filter Q (wheels db)))" using ok by (simp add: tables_ok_def distinct_map_filter)
  then have "card (set (map w_id (filter Q (wheels db)))) = length (filter Q (wheels db))"
    by (metis distinct_card length_map)
  then show ?thesis by (simp add: rowcount_def)
qed

lemma project_start: "\<forall>w \<in> set (wheels db). 0 < w_id w \<Longrightarrow> project_remaining project 0 db = selected (ProjectSelector project) db"
  by (auto simp: project_remaining_def)

lemma state_start: "state_remaining state None db = selected (StateSelector state) db"
  by (simp add: state_remaining_def lane_project_id_keyset_def)

lemma version_campaign:
  assumes "tables_ok db" and "n \<noteq> 0"
  shows "\<exists>k st'. reprocess clock (RerollVersionBelow version) n (db, seq)
      = (k, int (card (stale_wheel_ids version db)), st')
    \<and> campaign_effect to_need_convert True (clears_skip (RerollVersionBelow version)) (stale_wheel_ids version db) (db, seq) st'"
proof -
  let ?sel = "RerollVersionBelow version" and ?A = "repodata_remaining version db"
  obtain k st1 where one: "reprocess_stale_repodata clock version n (0, 0, (db, seq)) = (k, int (card ?A), st1)"
    and eff1: "campaign_effect to_need_convert True (clears_skip ?sel) ?A (db, seq) st1"
    using camp_repodata.loop_effect [of "(db, seq)" "(clock, version, n)" 0 0] assms by auto
  have ok1: "tables_ok (fst st1)" using camp_repodata.effect_tables_ok [OF eff1] assms(1) by simp
  let ?B = "skips_remaining version (fst st1)"
  obtain k' st' where two: "reprocess_stale_skips clock version n (k, int (card ?A), st1)
      = (k', int (card ?A) + int (card ?B), st')"
    and eff2: "campaign_effect to_need_convert True (clears_skip ?sel) ?B st1 st'"
    using camp_skips.loop_effect [OF ok1, of "(clock, version, n)" k "int (card ?A)"] assms(2) by auto
  have sk: "skips (fst st1) = sql_delete (\<lambda>r. version_below version r \<and> sk_wheel_id r \<in> ?A) (skips db)"
    using campaign_effectD(4) [OF eff1] by (simp add: clears_skip_def)
  have eff1': "campaign_effect to_need_convert True (clears_skip ?sel) ?A (db, seq) (fst st1, snd st1)"
    using eff1 by simp
  have B: "?B = skips_remaining version db - ?A"
    using live_outside [OF eff1']
    by (auto simp: skips_remaining_def stale_skip_def sk sql_delete_def)
  have union: "?A \<union> ?B = stale_wheel_ids version db"
    unfolding B by (auto simp: stale_wheel_ids_def repodata_remaining_def skips_remaining_def)
  have "campaign_effect to_need_convert True (clears_skip ?sel) (?A \<union> ?B) (db, seq) st'"
    by (rule campaign_effect_trans [OF w_id_to(1) eff1 eff2]) (auto simp: B)
  moreover have "card (?A \<union> ?B) = card ?A + card ?B"
    by (rule card_Un_disjoint) (simp_all add: B, auto simp: repodata_remaining_def skips_remaining_def)
  ultimately show ?thesis using one two union by (auto simp: B)
qed

lemma campaign_of_selector:
  assumes "tables_ok db" and "\<forall>w \<in> set (wheels db). 0 < w_id w" and "n \<noteq> 0"
    and "sel \<noteq> StateSelector NEED_CONVERT"
  shows "\<exists>k st'. reprocess clock sel n (db, seq) = (k, int (card (selected sel db)), st')
    \<and> campaign_effect to_need_convert True (clears_skip sel) (selected sel db) (db, seq) st'"
proof (cases sel)
  case (RerollVersionBelow version)
  then show ?thesis using version_campaign [OF assms(1,3)] by simp
next
  case (StateSelector state)
  then show ?thesis
    using camp_state.loop_effect [of "(db, seq)" "(clock, sel, state, n, None)" 0 0] assms
    by (auto simp: state_start)
next
  case (ProjectSelector project)
  then show ?thesis
    using camp_project.loop_effect [of "(db, seq)" "(clock, project, n, 0)" 0 0] assms
    by (auto simp: project_start)
next
  case SkippedOnly
  then show ?thesis
    using camp_state.loop_effect [of "(db, seq)" "(clock, SkippedOnly, SKIPPED, n, None)" 0 0] assms
    by (auto simp: state_start)
qed

lemma preview_counts_wheels:
  "tables_ok db \<Longrightarrow> pv_wheel_count (preview_selector sel db) = int (card (selected sel db))"
  by (cases sel) (simp_all add: card_ids)

lemma preview_counts_skips:
  "pv_skips_to_clear_count (preview_selector sel db)
    = rowcount (\<lambda>r. clears_skip sel r \<and> sk_wheel_id r \<in> selected sel db) (skips db)"
proof (cases sel)
  case (RerollVersionBelow version)
  have "filter (stale_skip version db) (skips db)
      = filter (\<lambda>r. version_below version r \<and> sk_wheel_id r \<in> stale_wheel_ids version db) (skips db)"
    by (rule filter_cong) (auto simp: stale_wheel_ids_def stale_skip_def stale_repodata_def)
  then show ?thesis using RerollVersionBelow by (simp add: rowcount_def clears_skip_def)
qed (simp_all add: rowcount_def clears_skip_def)

section \<open>Properties of campaigns\<close>

definition campaign_db :: database where
  "campaign_db = empty_db\<lparr>wheels := [demo_wheel 1 READY 0, demo_wheel 2 QUARANTINED 0, demo_wheel 3 NEED_CONVERT 0]\<rparr>"

lemma campaign_db_ok: "tables_ok campaign_db" "\<forall>w \<in> set (wheels campaign_db). 0 < w_id w"
  "\<forall>w \<in> set (wheels campaign_db). w_project w \<noteq> no_match_project"
  by (simp_all add: tables_ok_def campaign_db_def demo_wheel_def empty_db_def no_match_project_def)

text \<open>
  C18. A reprocess campaign, whatever the chunk size, ends and has exactly its specified effect on the
  wheels its selector selects: each becomes \<^verbatim>\<open>NEED_CONVERT\<close> in lane 1 with a fresh sequence number, its
  repodata and work rows are gone, stale skip rows are cleared by a version campaign only, and every
  other row of every table is untouched. The count it returns, and the number of skip rows it
  clears, are what the preview announced.
\<close>

theorem reprocess_meets_specification:
  assumes "tables_ok db" and "\<forall>w \<in> set (wheels db). 0 < w_id w" and "chunk_size \<noteq> 0"
    and "sel \<noteq> StateSelector NEED_CONVERT"
  shows "\<exists>k st'. reprocess clock sel chunk_size (db, seq) = (k, pv_wheel_count (preview_selector sel db), st')
    \<and> campaign_effect to_need_convert True (clears_skip sel) (selected sel db) (db, seq) st'
    \<and> int (length (skips db)) - int (length (skips (fst st'))) = pv_skips_to_clear_count (preview_selector sel db)"
proof -
  obtain k st' where c: "reprocess clock sel chunk_size (db, seq) = (k, int (card (selected sel db)), st')"
    and eff: "campaign_effect to_need_convert True (clears_skip sel) (selected sel db) (db, seq) st'"
    using campaign_of_selector [OF assms] by blast
  have "int (length (skips db)) - int (length (skips (fst st'))) = pv_skips_to_clear_count (preview_selector sel db)"
    using campaign_effectD(4) [OF eff]
      sum_length_filter_compl [of "\<lambda>r. clears_skip sel r \<and> sk_wheel_id r \<in> selected sel db" "skips db"]
    by (simp add: preview_counts_skips rowcount_def sql_delete_def)
  then show ?thesis using c eff preview_counts_wheels [OF assms(1), of sel] by auto
qed

theorem reprocess_meets_specification_witness:
  "\<exists>k st'. reprocess (\<lambda>_. 9) (ProjectSelector ''p'') 1 (campaign_db, 3)
      = (k, pv_wheel_count (preview_selector (ProjectSelector ''p'') campaign_db), st')
    \<and> campaign_effect to_need_convert True (clears_skip (ProjectSelector ''p''))
        (selected (ProjectSelector ''p'') campaign_db) (campaign_db, 3) st'"
  using reprocess_meets_specification [OF campaign_db_ok(1,2), of 1 "ProjectSelector ''p''" "\<lambda>_. 9" 3] by auto

text \<open>
  C19. \<^verbatim>\<open>unquarantine\<close> ends, refuses the two selectors that have no meaning for it, and otherwise moves
  exactly the selected quarantined wheels to \<^verbatim>\<open>NEED_METADATA\<close> with fresh sequence numbers, clears their
  work rows so that they are claimable at once, returns their number, and touches nothing else.
\<close>

theorem unquarantine_meets_specification:
  assumes "tables_ok db" and "chunk_size \<noteq> 0" and "\<forall>w \<in> set (wheels db). w_project w \<noteq> no_match_project"
  shows "case sel of
      RerollVersionBelow version \<Rightarrow> unquarantine clock sel chunk_size (db, seq) = Inl UnsupportedSelectorError
    | SkippedOnly \<Rightarrow> unquarantine clock sel chunk_size (db, seq) = Inl UnsupportedSelectorError
    | _ \<Rightarrow> (\<exists>k st'. unquarantine clock sel chunk_size (db, seq)
               = Inr (k, int (card (unquarantine_selected sel db)), st')
             \<and> campaign_effect to_need_metadata False (\<lambda>_. False) (unquarantine_selected sel db) (db, seq) st')"
proof -
  have run: "\<exists>k st'. unquarantine_chunks clock project chunk_size (0, 0, (db, seq))
        = (k, int (card (quarantined_remaining project db)), st')
      \<and> campaign_effect to_need_metadata False (\<lambda>_. False) (quarantined_remaining project db) (db, seq) st'" for project
    using camp_unquarantine.loop_effect [of "(db, seq)" "(clock, project, chunk_size)" 0 0] assms(1,2) by simp
  have all: "quarantined_remaining None db = w_id ` {w \<in> set (wheels db). is_quarantined w}"
    "quarantined_remaining (Some project) db = w_id ` {w \<in> set (wheels db). is_quarantined w \<and> w_project w = project}"
    "quarantined_remaining (Some no_match_project) db = {}" for project
    using assms(3) by (auto simp: quarantined_remaining_def)
  show ?thesis
  proof (cases sel)
    case (StateSelector state)
    then show ?thesis
      using run [of None] run [of "Some no_match_project"]
      by (cases "state = QUARANTINED") (auto simp: unquarantine_def all(1,3))
  next
    case (ProjectSelector project)
    then show ?thesis using run [of "Some project"] by (auto simp: unquarantine_def all(2))
  qed (simp_all add: unquarantine_def)
qed

theorem unquarantine_meets_specification_witness:
  "\<exists>k st'. unquarantine (\<lambda>_. 9) (ProjectSelector ''p'') 1 (campaign_db, 3)
      = Inr (k, int (card (unquarantine_selected (ProjectSelector ''p'') campaign_db)), st')
    \<and> campaign_effect to_need_metadata False (\<lambda>_. False)
        (unquarantine_selected (ProjectSelector ''p'') campaign_db) (campaign_db, 3) st'"
  using unquarantine_meets_specification [OF campaign_db_ok(1) _ campaign_db_ok(3),
      where chunk_size = 1 and sel = "ProjectSelector ''p''" and clock = "\<lambda>_. 9" and seq = 3]
  by (simp del: unquarantine_selected.simps)

text \<open>
  The preview is not always exact: reprocessing the wheels that are already \<^verbatim>\<open>NEED_CONVERT\<close> moves
  each from lane 0 to lane 1, past the cursor, where a later page meets it again; it is counted twice
  although the preview announced one wheel.
\<close>

theorem reprocess_need_convert_counts_twice:
  "fst (snd (reprocess (\<lambda>_. 9) (StateSelector NEED_CONVERT) 1 (campaign_db, 3))) = 2
   \<and> pv_wheel_count (preview_selector (StateSelector NEED_CONVERT) campaign_db) = 1"
  by code_simp

end
