(* ===== verification/Pypi_Client.thy ===== *)
theory Pypi_Client
  imports Schema
begin

text \<open>
  \<^verbatim>\<open>pypi_client.py\<close>: the requests to the simple index, the mapping of HTTP statuses to the client's
  exceptions, and the parsing of the JSON bodies into the records the ingest stage works on.

  \<^verbatim>\<open>httpx\<close> is a parameter: \<open>host_of\<close> parses a URL (\<^const>\<open>None\<close> is \<^verbatim>\<open>InvalidURL\<close>), \<open>send\<close> answers a request and
  \<open>stream\<close> a streamed one. \<open>acquire\<close> is the limiter's answer for a host. The messages of the
  exceptions carry no information that any code reads, and are left out. A body is a JSON value; a
  value of an unexpected type makes Python raise \<^verbatim>\<open>TypeError\<close> or \<^verbatim>\<open>AttributeError\<close>, which the client does not
  catch.
\<close>

section \<open>JSON values\<close>

datatype json = JNull | JBool bool | JInt int | JReal real | JStr string | JList "json list"
  | JObj "(string \<times> json) list"

definition AttributeError :: py_exn where
  "AttributeError = OtherError ''AttributeError''"

text \<open>\<^verbatim>\<open>value.get(key, default)\<close>, \<^verbatim>\<open>value[key]\<close>, iteration and truth of a JSON value.\<close>

definition json_get :: "string \<Rightarrow> json \<Rightarrow> json \<Rightarrow> json res" where
  "json_get k d v = (case v of JObj kvs \<Rightarrow> Inr (case map_of kvs k of None \<Rightarrow> d | Some x \<Rightarrow> x)
     | _ \<Rightarrow> Inl AttributeError)"

definition json_item :: "string \<Rightarrow> json \<Rightarrow> json res" where
  "json_item k v = (case v of JObj kvs \<Rightarrow> (case map_of kvs k of None \<Rightarrow> Inl KeyError | Some x \<Rightarrow> Inr x)
     | _ \<Rightarrow> Inl PyTypeError)"

definition json_iter :: "json \<Rightarrow> json list res" where
  "json_iter v = (case v of JList xs \<Rightarrow> Inr xs | JObj kvs \<Rightarrow> Inr (map (\<lambda>kv. JStr (fst kv)) kvs)
     | JStr s \<Rightarrow> Inr (map (\<lambda>c. JStr [c]) s) | _ \<Rightarrow> Inl PyTypeError)"

definition json_true :: "json \<Rightarrow> bool" where
  "json_true v = (case v of JNull \<Rightarrow> False | JBool b \<Rightarrow> b | JInt n \<Rightarrow> n \<noteq> 0 | JReal x \<Rightarrow> x \<noteq> 0
     | JStr s \<Rightarrow> s \<noteq> [] | JList xs \<Rightarrow> xs \<noteq> [] | JObj kvs \<Rightarrow> kvs \<noteq> [])"

fun map_json :: "('a \<Rightarrow> 'b res) \<Rightarrow> 'a list \<Rightarrow> 'b list res" where
  "map_json f [] = Inr []"
| "map_json f (x # xs) = bind_res (f x) (\<lambda>y. bind_res (map_json f xs) (\<lambda>ys. Inr (y # ys)))"

section \<open>Exceptions and records\<close>

datatype pypi_exn = PyPITransientError | PyPIRateLimited "real option" | PyPINotFound
  | PyPIProtocolError | MetadataHashMismatch string string | Escapes py_exn

type_synonym 'a client_res = "pypi_exn + 'a"

text \<open>An \<^verbatim>\<open>IndexProject\<close> and a \<^verbatim>\<open>ProjectFile\<close> as parsed: whatever JSON value the field has, \<^verbatim>\<open>None\<close> being \<^const>\<open>JNull\<close>.\<close>

record index_project =
  ip_name :: json
  ip_serial :: json

record simple_index =
  si_last_serial :: json
  si_projects :: "index_project list"
  si_etag :: "string option"
  si_not_modified :: bool

record parsed_file =
  fj_filename :: json
  fj_url :: json
  fj_wheel_sha256 :: json
  fj_metadata_sha256 :: json
  fj_has_metadata :: bool
  fj_size :: json
  fj_upload_time :: json
  fj_requires_python :: json
  fj_yanked :: bool
  fj_yanked_reason :: "string option"

text \<open>The same file with the types the API documents; a page of another shape has no such view.\<close>

record project_file =
  pf_filename :: string
  pf_url :: string
  pf_wheel_sha256 :: "string option"
  pf_metadata_sha256 :: "string option"
  pf_has_metadata :: bool
  pf_size :: "int option"
  pf_upload_time :: "string option"
  pf_requires_python :: "string option"
  pf_yanked :: bool
  pf_yanked_reason :: "string option"

record project_page =
  pp_last_serial :: int
  pp_files :: "project_file list"

definition opt_str :: "json \<Rightarrow> string option option" where
  "opt_str v = (case v of JNull \<Rightarrow> Some None | JStr s \<Rightarrow> Some (Some s) | _ \<Rightarrow> None)"

definition opt_int :: "json \<Rightarrow> int option option" where
  "opt_int v = (case v of JNull \<Rightarrow> Some None | JInt n \<Rightarrow> Some (Some n) | _ \<Rightarrow> None)"

definition typed_file :: "parsed_file \<Rightarrow> project_file option" where
  "typed_file f =
     (case (fj_filename f, fj_url f, opt_str (fj_wheel_sha256 f), opt_str (fj_metadata_sha256 f),
            opt_int (fj_size f), opt_str (fj_upload_time f), opt_str (fj_requires_python f)) of
        (JStr filename, JStr url, Some wheel_sha, Some metadata_sha, Some file_size, Some upload, Some requires) \<Rightarrow>
          Some \<lparr>pf_filename = filename, pf_url = url, pf_wheel_sha256 = wheel_sha,
            pf_metadata_sha256 = metadata_sha, pf_has_metadata = fj_has_metadata f, pf_size = file_size,
            pf_upload_time = upload, pf_requires_python = requires, pf_yanked = fj_yanked f,
            pf_yanked_reason = fj_yanked_reason f\<rparr>
      | _ \<Rightarrow> None)"

section \<open>Parsing the bodies\<close>

definition metadata_hashes :: "json \<Rightarrow> json option res" where
  "metadata_hashes raw =
     bind_res (json_get ''core-metadata'' JNull raw) (\<lambda>core.
     bind_res (json_get ''dist-info-metadata'' JNull raw) (\<lambda>legacy.
       Inr (case find (\<lambda>v. case v of JObj _ \<Rightarrow> True | _ \<Rightarrow> False) [core, legacy] of
              Some v \<Rightarrow> Some v
            | None \<Rightarrow> if JBool True \<in> set [core, legacy] then Some (JObj []) else None)))"

definition parse_yanked :: "json \<Rightarrow> bool \<times> string option" where
  "parse_yanked v = (case v of JStr s \<Rightarrow> (True, if s = [] then None else Some s) | _ \<Rightarrow> (json_true v, None))"

definition parse_file :: "json \<Rightarrow> parsed_file res" where
  "parse_file raw =
     bind_res (json_get ''hashes'' JNull raw) (\<lambda>h.
     let hashes = (if json_true h then h else JObj []) in
     bind_res (metadata_hashes raw) (\<lambda>hashes_meta.
     bind_res (json_get ''yanked'' (JBool False) raw) (\<lambda>y.
     bind_res (json_item ''filename'' raw) (\<lambda>filename.
     bind_res (json_item ''url'' raw) (\<lambda>url.
     bind_res (json_get ''sha256'' JNull hashes) (\<lambda>wheel_sha.
     bind_res (case hashes_meta of None \<Rightarrow> Inr JNull | Some m \<Rightarrow> json_get ''sha256'' JNull m) (\<lambda>metadata_sha.
     bind_res (json_get ''size'' JNull raw) (\<lambda>file_size.
     bind_res (json_get ''upload-time'' JNull raw) (\<lambda>upload.
     bind_res (json_get ''requires-python'' JNull raw) (\<lambda>requires.
       Inr \<lparr>fj_filename = filename, fj_url = url, fj_wheel_sha256 = wheel_sha,
            fj_metadata_sha256 = metadata_sha, fj_has_metadata = (hashes_meta \<noteq> None), fj_size = file_size,
            fj_upload_time = upload, fj_requires_python = requires, fj_yanked = fst (parse_yanked y),
            fj_yanked_reason = snd (parse_yanked y)\<rparr>))))))))))"

text \<open>\<^verbatim>\<open>except KeyError\<close>: only a missing key becomes a protocol error.\<close>

definition key_error_is_protocol :: "'a res \<Rightarrow> 'a client_res" where
  "key_error_is_protocol r =
     (case r of Inr x \<Rightarrow> Inr x | Inl e \<Rightarrow> Inl (if e = KeyError then PyPIProtocolError else Escapes e))"

definition parse_index_body :: "json \<Rightarrow> (json \<times> index_project list) client_res" where
  "parse_index_body data = key_error_is_protocol
     (bind_res (bind_res (json_item ''meta'' data) (json_item ''_last-serial'')) (\<lambda>last_serial.
      bind_res (bind_res (json_item ''projects'' data) json_iter) (\<lambda>items.
      bind_res (map_json (\<lambda>project.
          bind_res (json_item ''name'' project) (\<lambda>name.
          bind_res (json_item ''_last-serial'' project) (\<lambda>serial.
            Inr \<lparr>ip_name = name, ip_serial = serial\<rparr>))) items) (\<lambda>projects.
        Inr (last_serial, projects)))))"

definition parse_project_body :: "json \<Rightarrow> (json \<times> parsed_file list) client_res" where
  "parse_project_body data = key_error_is_protocol
     (bind_res (bind_res (json_item ''meta'' data) (json_item ''_last-serial'')) (\<lambda>last_serial.
      bind_res (bind_res (json_item ''files'' data) json_iter) (\<lambda>items.
      bind_res (map_json parse_file items) (\<lambda>files. Inr (last_serial, files)))))"

section \<open>Responses\<close>

record response =
  rs_status :: int
  rs_headers :: "(string \<times> string) list"
  rs_text :: string
  rs_json :: "json option"

definition lower_char :: "char \<Rightarrow> char" where
  "lower_char c = (let n = of_char c :: nat in if 65 \<le> n \<and> n \<le> 90 then char_of (n + 32) else c)"

definition is_infix_of :: "string \<Rightarrow> string \<Rightarrow> bool" where
  "is_infix_of p s = (\<exists>i \<in> set [0..<length s + 1]. take (length p) (drop i s) = p)"

definition is_rate_limited_body :: "response \<Rightarrow> bool" where
  "is_rate_limited_body r = is_infix_of ''rate limit'' (map lower_char (rs_text r))"

text \<open>\<open>py_float\<close> and \<open>http_date\<close> are \<^verbatim>\<open>float\<close> and \<^verbatim>\<open>parsedate_to_datetime\<close> (as a timestamp, naive dates read as UTC).\<close>

definition parse_retry_after :: "(string \<Rightarrow> real option) \<Rightarrow> (string \<Rightarrow> real option) \<Rightarrow> real \<Rightarrow> string option
    \<Rightarrow> real option" where
  "parse_retry_after py_float http_date now v =
     (case v of None \<Rightarrow> None
      | Some s \<Rightarrow>
          if s = [] then None
          else (case py_float s of Some x \<Rightarrow> Some (max 0 x)
                | None \<Rightarrow> (case http_date s of None \<Rightarrow> None | Some t \<Rightarrow> Some (max 0 (t - now)))))"

definition check_status :: "(string option \<Rightarrow> real option) \<Rightarrow> response \<Rightarrow> unit client_res" where
  "check_status retry_after r =
     (let status = rs_status r
      in if status = 304 \<or> (200 \<le> status \<and> status < 300) then Inr ()
         else if status \<in> {404, 410} then Inl PyPINotFound
         else if status = 429 \<or> (status = 403 \<and> is_rate_limited_body r)
         then Inl (PyPIRateLimited (retry_after (map_of (rs_headers r) ''retry-after'')))
         else if 500 \<le> status \<and> status < 600 then Inl PyPITransientError
         else Inl PyPIProtocolError)"

definition ACCEPT_HEADER :: string where
  "ACCEPT_HEADER = ''application/vnd.pypi.simple.v1+json''"

definition SIMPLE_INDEX_URL :: string where
  "SIMPLE_INDEX_URL = ''https://pypi.org/simple/''"

definition MAX_METADATA_BYTES :: nat where
  "MAX_METADATA_BYTES = 32 * 1024 * 1024"

definition check_simple_content_type :: "response \<Rightarrow> unit client_res" where
  "check_simple_content_type r =
     (let content_type = (case map_of (rs_headers r) ''content-type'' of None \<Rightarrow> [] | Some t \<Rightarrow> t)
      in if take (length ACCEPT_HEADER) content_type = ACCEPT_HEADER then Inr () else Inl PyPIProtocolError)"

definition parse_json :: "response \<Rightarrow> json client_res" where
  "parse_json r = (case rs_json r of None \<Rightarrow> Inl PyPIProtocolError | Some v \<Rightarrow> Inr v)"

section \<open>Requests\<close>

record http =
  h_host_of :: "string \<Rightarrow> string option"
  h_acquire :: "string \<Rightarrow> bool res"
  h_send :: "string \<Rightarrow> (string \<times> string) list \<Rightarrow> response option"
  h_stream :: "string \<Rightarrow> (response \<times> bytes list \<times> bool) option"
  h_retry_after :: "string option \<Rightarrow> real option"

text \<open>Every request first takes a token for the host it goes to.\<close>

definition admit :: "http \<Rightarrow> string \<Rightarrow> unit client_res" where
  "admit h url =
     (case h_host_of h url of
        None \<Rightarrow> Inl PyPIProtocolError
      | Some host \<Rightarrow>
          (case h_acquire h host of
             Inl e \<Rightarrow> Inl (Escapes e)
           | Inr ok \<Rightarrow> if ok then Inr () else Inl (PyPIRateLimited None)))"

definition get_request :: "http \<Rightarrow> string \<Rightarrow> (string \<times> string) list \<Rightarrow> response client_res" where
  "get_request h url headers =
     bind_res (admit h url) (\<lambda>_.
       case h_send h url headers of None \<Rightarrow> Inl PyPITransientError | Some r \<Rightarrow> Inr r)"

record pypi_client =
  pc_index_url :: string
  pc_last_modified :: "string option"

definition fetch_simple_index :: "http \<Rightarrow> string option \<Rightarrow> pypi_client \<Rightarrow> (simple_index \<times> pypi_client) client_res" where
  "fetch_simple_index h etag c =
     (let headers = [(''Accept'', ACCEPT_HEADER)]
            @ (case etag of None \<Rightarrow> [] | Some e \<Rightarrow> [(''If-None-Match'', e)])
            @ (case pc_last_modified c of None \<Rightarrow> [] | Some m \<Rightarrow> [(''If-Modified-Since'', m)])
      in bind_res (get_request h (pc_index_url c) headers) (\<lambda>r.
         bind_res (check_status (h_retry_after h) r) (\<lambda>_.
           if rs_status r = 304
           then Inr (\<lparr>si_last_serial = JInt 0, si_projects = [],
                      si_etag = (case map_of (rs_headers r) ''etag'' of None \<Rightarrow> etag | Some e \<Rightarrow> Some e),
                      si_not_modified = True\<rparr>, c)
           else bind_res (check_simple_content_type r) (\<lambda>_.
                bind_res (parse_json r) (\<lambda>data.
                bind_res (parse_index_body data) (\<lambda>(last_serial, projects).
                  Inr (\<lparr>si_last_serial = last_serial, si_projects = projects,
                         si_etag = map_of (rs_headers r) ''etag'', si_not_modified = False\<rparr>,
                       c\<lparr>pc_last_modified := map_of (rs_headers r) ''last-modified''\<rparr>)))))))"

text \<open>PEP 503: runs of separators become one dash, letters are lowered (names are ASCII).\<close>

fun collapse_separators :: "bool \<Rightarrow> string \<Rightarrow> string" where
  "collapse_separators prev [] = []"
| "collapse_separators prev (c # cs) =
     (if c \<in> {CHR ''-'', CHR ''_'', CHR ''.''}
      then (if prev then collapse_separators True cs else CHR ''-'' # collapse_separators True cs)
      else c # collapse_separators False cs)"

definition normalize_project_name :: "string \<Rightarrow> string" where
  "normalize_project_name name = map lower_char (collapse_separators False name)"

definition url_unreserved :: string where
  "url_unreserved = ''ABCDEFGHIJKLMNOPQRSTUVWXYZabcdefghijklmnopqrstuvwxyz0123456789-._~''"

definition upper_hex_digit :: "nat \<Rightarrow> char" where
  "upper_hex_digit n = char_of (if n < 10 then 48 + n else 55 + n)"

definition percent_encode :: "string \<Rightarrow> string" where
  "percent_encode s = concat (map (\<lambda>c. if c \<in> set url_unreserved then [c]
     else [CHR ''%'', upper_hex_digit (of_char c div 16), upper_hex_digit (of_char c mod 16)]) s)"

definition fetch_project :: "http \<Rightarrow> pypi_client \<Rightarrow> string \<Rightarrow> (json \<times> parsed_file list) client_res" where
  "fetch_project h c name =
     (let url = pc_index_url c @ percent_encode (normalize_project_name name) @ ''/''
      in bind_res (get_request h url [(''Accept'', ACCEPT_HEADER)]) (\<lambda>r.
         bind_res (check_status (h_retry_after h) r) (\<lambda>_.
         bind_res (check_simple_content_type r) (\<lambda>_.
         bind_res (parse_json r) parse_project_body))))"

text \<open>The streamed download: \<open>broken\<close> says that the transport failed after the last chunk.\<close>

fun collect_chunks :: "bytes \<Rightarrow> bytes list \<Rightarrow> bool \<Rightarrow> bytes client_res" where
  "collect_chunks content [] broken = (if broken then Inl PyPITransientError else Inr content)"
| "collect_chunks content (chunk # chunks) broken =
     (let content = content @ chunk
      in if MAX_METADATA_BYTES < length content then Inl PyPIProtocolError
         else collect_chunks content chunks broken)"

definition fetch_metadata :: "(bytes \<Rightarrow> string) \<Rightarrow> http \<Rightarrow> string \<Rightarrow> string option \<Rightarrow> bytes client_res" where
  "fetch_metadata sha256_hex h url expected =
     bind_res (admit h url) (\<lambda>_.
       case h_stream h url of
         None \<Rightarrow> Inl PyPITransientError
       | Some (r, chunks, broken) \<Rightarrow>
           bind_res (check_status (h_retry_after h) r) (\<lambda>_.
           bind_res (collect_chunks [] chunks broken) (\<lambda>data.
             case expected of
               None \<Rightarrow> Inr data
             | Some e \<Rightarrow> if sha256_hex data \<noteq> e then Inl (MetadataHashMismatch e (sha256_hex data)) else Inr data)))"

section \<open>Facts about downloads and names\<close>

lemma collect_chunks_Inr:
  "collect_chunks content chunks broken = Inr data \<Longrightarrow> length content \<le> MAX_METADATA_BYTES
    \<Longrightarrow> data = content @ concat chunks \<and> length data \<le> MAX_METADATA_BYTES \<and> \<not> broken"
  by (induction content chunks broken rule: collect_chunks.induct) (auto simp: Let_def split: if_splits)

lemma collect_chunks_ok:
  "length (content @ concat chunks) \<le> MAX_METADATA_BYTES
    \<Longrightarrow> collect_chunks content chunks False = Inr (content @ concat chunks)"
  by (induction content chunks False rule: collect_chunks.induct) (auto simp: Let_def)

lemma separator_lowered: "lower_char CHR ''-'' = CHR ''-''"
  by (simp add: lower_char_def)

lemma fetch_metadata_Inr:
  assumes "fetch_metadata sha256_hex h url expected = Inr data"
  obtains r chunks broken where "h_stream h url = Some (r, chunks, broken)" "admit h url = Inr ()"
    "check_status (h_retry_after h) r = Inr ()" "collect_chunks [] chunks broken = Inr data"
    "expected \<in> {None, Some (sha256_hex data)}"
proof -
  have adm: "admit h url = Inr ()" using assms by (cases "admit h url") (simp_all add: fetch_metadata_def)
  obtain r chunks broken where str: "h_stream h url = Some (r, chunks, broken)"
    using assms adm by (cases "h_stream h url") (auto simp: fetch_metadata_def)
  have chk: "check_status (h_retry_after h) r = Inr ()"
    using assms adm str by (cases "check_status (h_retry_after h) r") (simp_all add: fetch_metadata_def)
  obtain d where d: "collect_chunks [] chunks broken = Inr d"
    using assms adm str chk by (cases "collect_chunks [] chunks broken") (simp_all add: fetch_metadata_def)
  have "d = data \<and> expected \<in> {None, Some (sha256_hex data)}"
    using assms adm str chk d by (cases expected) (simp_all add: fetch_metadata_def split: if_splits)
  then show thesis using that adm str chk d by blast
qed

text \<open>
  A metadata download that returns has been admitted by the limiter for the URL's own host, was
  answered with a success status, is the whole streamed body, at most 32 MB, and has the published
  digest when there is one; a complete body within the cap and with that digest is returned.
\<close>

theorem fetched_metadata_is_verified:
  "fetch_metadata sha256_hex h url expected = Inr data \<longleftrightarrow>
    (\<exists>host r chunks. h_host_of h url = Some host \<and> h_acquire h host = Inr True
       \<and> h_stream h url = Some (r, chunks, False)
       \<and> (rs_status r = 304 \<or> (200 \<le> rs_status r \<and> rs_status r < 300))
       \<and> data = concat chunks \<and> length data \<le> MAX_METADATA_BYTES
       \<and> expected \<in> {None, Some (sha256_hex data)})"
proof
  assume a: "fetch_metadata sha256_hex h url expected = Inr data"
  then obtain r chunks broken where s: "h_stream h url = Some (r, chunks, broken)" "admit h url = Inr ()"
    "check_status (h_retry_after h) r = Inr ()" "collect_chunks [] chunks broken = Inr data"
    and e: "expected \<in> {None, Some (sha256_hex data)}"
    by (rule fetch_metadata_Inr)
  have "data = concat chunks \<and> length data \<le> MAX_METADATA_BYTES \<and> \<not> broken"
    using collect_chunks_Inr [OF s(4)] unfolding append_Nil by auto
  moreover have "\<exists>host. h_host_of h url = Some host \<and> h_acquire h host = Inr True"
    using s(2) by (auto simp: admit_def split: option.splits sum.splits if_splits)
  moreover have "rs_status r = 304 \<or> (200 \<le> rs_status r \<and> rs_status r < 300)"
    using s(3) by (auto simp: check_status_def Let_def split: if_splits)
  ultimately show "\<exists>host r chunks. h_host_of h url = Some host \<and> h_acquire h host = Inr True
       \<and> h_stream h url = Some (r, chunks, False)
       \<and> (rs_status r = 304 \<or> (200 \<le> rs_status r \<and> rs_status r < 300))
       \<and> data = concat chunks \<and> length data \<le> MAX_METADATA_BYTES
       \<and> expected \<in> {None, Some (sha256_hex data)}"
    using s(1) e by auto
next
  assume "\<exists>host r chunks. h_host_of h url = Some host \<and> h_acquire h host = Inr True
       \<and> h_stream h url = Some (r, chunks, False)
       \<and> (rs_status r = 304 \<or> (200 \<le> rs_status r \<and> rs_status r < 300))
       \<and> data = concat chunks \<and> length data \<le> MAX_METADATA_BYTES
       \<and> expected \<in> {None, Some (sha256_hex data)}"
  then show "fetch_metadata sha256_hex h url expected = Inr data"
    using collect_chunks_ok [of "[]"] by (auto simp: fetch_metadata_def admit_def check_status_def)
qed

end
