(* ===== verification/Ingest.thy ===== *)
theory Ingest
  imports Dispatcher Touch Pypi_Client
begin

text \<open>
  \<^verbatim>\<open>ingest.py\<close>: which projects of the simple index are stale, the diff of a project page against the
  stored wheels, the write operations that apply the diff or tombstone a project that is gone, the
  in-memory backoff of projects, and one ingest pass over a list of projects.

  A read transaction sees one database; the pages of one read are taken from the same database. The
  outcomes of the worker threads arrive in any order: the pass takes the list of completed projects
  as they come. Exception texts are rendered by the argument \<open>describe\<close> (\<^verbatim>\<open>str(exc)\<close>).
\<close>

section \<open>Polling the index\<close>

record index_entry =
  ie_name :: string
  ie_serial :: int

record poll_result =
  pr_not_modified :: bool
  pr_etag :: "string option"
  pr_remote_global_serial :: "int option"
  pr_stale_projects :: "string list"

text \<open>The keyset loop starts past the empty name.\<close>

definition read_local_serials :: "int \<Rightarrow> database \<Rightarrow> (string \<times> int) list" where
  "read_local_serials chunk_size db =
     dict_of pi_name pi_serial (concat (keyset_pages pi_name chunk_size (pypi_index db) (Some [])))"

definition stale_projects :: "index_entry list \<Rightarrow> (string \<times> int) list \<Rightarrow> string list" where
  "stale_projects remote local_serials =
     map ie_name (filter (\<lambda>p. case map_of local_serials (ie_name p) of
        None \<Rightarrow> True | Some local_serial \<Rightarrow> local_serial < ie_serial p) remote)"

text \<open>\<^verbatim>\<open>poll_index\<close> on the response: \<^const>\<open>None\<close> is a 304.\<close>

definition poll_index :: "int \<Rightarrow> string option \<Rightarrow> (int \<times> index_entry list) option \<Rightarrow> database \<Rightarrow> poll_result" where
  "poll_index chunk_size etag response db =
     (case response of
        None \<Rightarrow> \<lparr>pr_not_modified = True, pr_etag = etag, pr_remote_global_serial = None, pr_stale_projects = []\<rparr>
      | Some (last_serial, projects) \<Rightarrow>
          \<lparr>pr_not_modified = False, pr_etag = etag, pr_remote_global_serial = Some last_serial,
           pr_stale_projects = stale_projects projects (read_local_serials chunk_size db)\<rparr>)"

section \<open>Plans\<close>

record new_wheel =
  nw_filename :: string
  nw_url :: string
  nw_wheel_sha256 :: "string option"
  nw_metadata_sha256 :: "string option"
  nw_size :: "int option"
  nw_upload_time :: "string option"
  nw_requires_python :: "string option"
  nw_yanked :: bool
  nw_yanked_reason :: "string option"
  nw_state :: wheel_state
  nw_blob_sha256 :: "string option"
  nw_unlinked_blob_filename :: "string option"

text \<open>An item of the \<^verbatim>\<open>changes\<close> dict: a column and its new value.\<close>

datatype column_change =
    Set_deleted_at "iso_time option" | Set_state wheel_state | Set_url string
  | Set_wheel_sha256 "string option" | Set_metadata_sha256 "string option" | Set_size "int option"
  | Set_upload_time "string option" | Set_requires_python "string option" | Set_yanked bool
  | Set_yanked_reason "string option" | Set_blob_sha256 "string option" | Set_conda_name "string option"

fun apply_change :: "column_change \<Rightarrow> wheel_row \<Rightarrow> wheel_row" where
  "apply_change (Set_deleted_at v) w = w\<lparr>w_deleted_at := v\<rparr>"
| "apply_change (Set_state v) w = w\<lparr>w_state := state_int v\<rparr>"
| "apply_change (Set_url v) w = w\<lparr>w_url := v\<rparr>"
| "apply_change (Set_wheel_sha256 v) w = w\<lparr>w_wheel_sha256 := v\<rparr>"
| "apply_change (Set_metadata_sha256 v) w = w\<lparr>w_metadata_sha256 := v\<rparr>"
| "apply_change (Set_size v) w = w\<lparr>w_size := v\<rparr>"
| "apply_change (Set_upload_time v) w = w\<lparr>w_upload_time := v\<rparr>"
| "apply_change (Set_requires_python v) w = w\<lparr>w_requires_python := v\<rparr>"
| "apply_change (Set_yanked v) w = w\<lparr>w_yanked := v\<rparr>"
| "apply_change (Set_yanked_reason v) w = w\<lparr>w_yanked_reason := v\<rparr>"
| "apply_change (Set_blob_sha256 v) w = w\<lparr>w_blob_sha256 := v\<rparr>"
| "apply_change (Set_conda_name v) w = w\<lparr>w_conda_name := v\<rparr>"

record changed_wheel =
  cw_wheel_id :: int
  cw_changes :: "column_change list"
  cw_delete_no_sidecar_skip :: bool
  cw_delete_repodata :: bool

record project_plan =
  pl_project :: string
  pl_remote_serial :: int
  pl_new_wheels :: "new_wheel list"
  pl_changed_wheels :: "changed_wheel list"
  pl_vanished_wheel_ids :: "int list"

datatype sync_outcome = SyncOk project_plan | SyncGone string | SyncRetry string string
  | SyncRateLimited string real

record local_wheel_row =
  lw_id :: int
  lw_state :: wheel_state
  lw_url :: string
  lw_wheel_sha256 :: "string option"
  lw_metadata_sha256 :: "string option"
  lw_size :: "int option"
  lw_upload_time :: "string option"
  lw_requires_python :: "string option"
  lw_yanked :: bool
  lw_yanked_reason :: "string option"
  lw_blob_sha256 :: "string option"
  lw_deleted_at :: "iso_time option"

definition local_row_of :: "wheel_row \<Rightarrow> wheel_state \<Rightarrow> local_wheel_row" where
  "local_row_of w s =
     \<lparr>lw_id = w_id w, lw_state = s, lw_url = w_url w, lw_wheel_sha256 = w_wheel_sha256 w,
      lw_metadata_sha256 = w_metadata_sha256 w, lw_size = w_size w, lw_upload_time = w_upload_time w,
      lw_requires_python = w_requires_python w, lw_yanked = w_yanked w,
      lw_yanked_reason = w_yanked_reason w, lw_blob_sha256 = w_blob_sha256 w, lw_deleted_at = w_deleted_at w\<rparr>"

text \<open>\<^verbatim>\<open>WheelState(state)\<close> raises \<^const>\<open>ValueError\<close> on a value that is none.\<close>

definition read_project_wheels :: "int \<Rightarrow> string \<Rightarrow> database \<Rightarrow> (string \<times> local_wheel_row) list res" where
  "read_project_wheels chunk_size project db =
     fold_res (\<lambda>w rows. case wheel_state_of_int (w_state w) of
          None \<Rightarrow> Inl ValueError
        | Some s \<Rightarrow> Inr (dict_set (w_filename w) (local_row_of w s) rows))
       (concat (keyset_pages w_id chunk_size (filter (\<lambda>w. w_project w = project) (wheels db)) (Some 0))) []"

text \<open>\<^verbatim>\<open>range(0, n, 0)\<close> raises, a negative step gives no chunk.\<close>

definition read_unlinked_blobs :: "string list \<Rightarrow> int \<Rightarrow> database \<Rightarrow> (string \<times> string) list res" where
  "read_unlinked_blobs filenames chunk_size db =
     (if chunk_size = 0 then Inl ValueError
      else Inr (fold (\<lambda>chunk result.
             fold (\<lambda>r. dict_set (ul_filename r) (ul_sha256 r))
               (filter (\<lambda>r. ul_filename r \<in> set chunk) (unlinked_blobs db)) result)
           (slices (nat chunk_size) filenames) []))"

definition initial_state :: "project_file \<Rightarrow> wheel_state" where
  "initial_state f = (if pf_has_metadata f then NEED_METADATA else NO_METADATA)"

definition plan_new_wheel :: "project_file \<Rightarrow> string option \<Rightarrow> new_wheel" where
  "plan_new_wheel f unlinked =
     \<lparr>nw_filename = pf_filename f, nw_url = pf_url f, nw_wheel_sha256 = pf_wheel_sha256 f,
      nw_metadata_sha256 = pf_metadata_sha256 f, nw_size = pf_size f, nw_upload_time = pf_upload_time f,
      nw_requires_python = pf_requires_python f, nw_yanked = pf_yanked f,
      nw_yanked_reason = pf_yanked_reason f,
      nw_state = (case unlinked of None \<Rightarrow> initial_state f | Some _ \<Rightarrow> NEED_CONVERT),
      nw_blob_sha256 = unlinked,
      nw_unlinked_blob_filename = (case unlinked of None \<Rightarrow> None | Some _ \<Rightarrow> Some (pf_filename f))\<rparr>"

text \<open>The blob rule: the published digest is not that of the archived bytes.\<close>

definition blob_mismatch :: "local_wheel_row \<Rightarrow> project_file \<Rightarrow> bool" where
  "blob_mismatch l f =
     (lw_blob_sha256 l \<noteq> None \<and> pf_metadata_sha256 f \<noteq> None \<and> pf_metadata_sha256 f \<noteq> lw_blob_sha256 l)"

definition sidecar_appeared :: "local_wheel_row \<Rightarrow> project_file \<Rightarrow> bool" where
  "sidecar_appeared l f = (lw_state l = NO_METADATA \<and> pf_has_metadata f)"

definition diff_new_state :: "local_wheel_row \<Rightarrow> project_file \<Rightarrow> wheel_state" where
  "diff_new_state l f =
     (if blob_mismatch l f \<or> sidecar_appeared l f then NEED_METADATA else lw_state l)"

definition diff_changes :: "local_wheel_row \<Rightarrow> project_file \<Rightarrow> column_change list" where
  "diff_changes l f =
     (if lw_yanked l \<noteq> pf_yanked f \<or> lw_yanked_reason l \<noteq> pf_yanked_reason f
      then [Set_yanked (pf_yanked f), Set_yanked_reason (pf_yanked_reason f)] else [])
     @ (if lw_metadata_sha256 l \<noteq> pf_metadata_sha256 f then [Set_metadata_sha256 (pf_metadata_sha256 f)] else [])
     @ (if blob_mismatch l f then [Set_blob_sha256 None, Set_conda_name None] else [])
     @ (if lw_url l \<noteq> pf_url f then [Set_url (pf_url f)] else [])
     @ (if lw_wheel_sha256 l \<noteq> pf_wheel_sha256 f then [Set_wheel_sha256 (pf_wheel_sha256 f)] else [])
     @ (if lw_size l \<noteq> pf_size f then [Set_size (pf_size f)] else [])
     @ (if lw_upload_time l \<noteq> pf_upload_time f then [Set_upload_time (pf_upload_time f)] else [])
     @ (if lw_requires_python l \<noteq> pf_requires_python f then [Set_requires_python (pf_requires_python f)] else [])
     @ (if diff_new_state l f \<noteq> lw_state l then [Set_state (diff_new_state l f)] else [])"

definition revive_changes :: "project_file \<Rightarrow> column_change list" where
  "revive_changes f =
     [Set_deleted_at None, Set_state (initial_state f), Set_url (pf_url f),
      Set_wheel_sha256 (pf_wheel_sha256 f), Set_metadata_sha256 (pf_metadata_sha256 f), Set_size (pf_size f),
      Set_upload_time (pf_upload_time f), Set_requires_python (pf_requires_python f),
      Set_yanked (pf_yanked f), Set_yanked_reason (pf_yanked_reason f), Set_blob_sha256 None]"

definition diff_common :: "local_wheel_row \<Rightarrow> project_file \<Rightarrow> changed_wheel option" where
  "diff_common l f =
     (if lw_deleted_at l \<noteq> None
      then Some \<lparr>cw_wheel_id = lw_id l, cw_changes = revive_changes f,
                 cw_delete_no_sidecar_skip = False, cw_delete_repodata = False\<rparr>
      else if diff_changes l f = [] then None
      else Some \<lparr>cw_wheel_id = lw_id l, cw_changes = diff_changes l f,
                 cw_delete_no_sidecar_skip = sidecar_appeared l f, cw_delete_repodata = blob_mismatch l f\<rparr>)"

definition ends_with_whl :: "string \<Rightarrow> bool" where
  "ends_with_whl s = (take 4 (rev s) = rev ''.whl'')"

definition DEFAULT_PROJECT_CHUNK_SIZE :: int where
  "DEFAULT_PROJECT_CHUNK_SIZE = 5000"

definition DEFAULT_UNLINKED_BLOB_CHUNK_SIZE :: int where
  "DEFAULT_UNLINKED_BLOB_CHUNK_SIZE = 500"

definition DEFAULT_GONE_CHUNK_SIZE :: int where
  "DEFAULT_GONE_CHUNK_SIZE = 5000"

text \<open>The diff of a page.\<close>

definition remote_files :: "project_file list \<Rightarrow> (string \<times> project_file) list" where
  "remote_files files = dict_of pf_filename (\<lambda>f. f) (filter (\<lambda>f. ends_with_whl (pf_filename f)) files)"

definition plan_project :: "int \<Rightarrow> int \<Rightarrow> string \<Rightarrow> project_page \<Rightarrow> database \<Rightarrow> project_plan res" where
  "plan_project project_chunk unlinked_chunk name page db =
     (let remote = remote_files (pp_files page) in
      bind_res (read_project_wheels project_chunk name db) (\<lambda>local_rows.
      let new_filenames = sort (filter (\<lambda>n. n \<notin> fst ` set local_rows) (map fst remote));
          common = sort (filter (\<lambda>n. n \<in> fst ` set local_rows) (map fst remote));
          vanished = sort (filter (\<lambda>n. n \<notin> fst ` set remote) (map fst local_rows))
      in bind_res (if new_filenames = [] then Inr []
                   else read_unlinked_blobs new_filenames unlinked_chunk db) (\<lambda>unlinked.
         Inr \<lparr>pl_project = name, pl_remote_serial = pp_last_serial page,
              pl_new_wheels = map (\<lambda>n. plan_new_wheel (the (map_of remote n)) (map_of unlinked n)) new_filenames,
              pl_changed_wheels = List.map_filter
                (\<lambda>n. diff_common (the (map_of local_rows n)) (the (map_of remote n))) common,
              pl_vanished_wheel_ids = map (\<lambda>n. lw_id (the (map_of local_rows n)))
                (filter (\<lambda>n. lw_deleted_at (the (map_of local_rows n)) = None) vanished)\<rparr>)))"

text \<open>\<^verbatim>\<open>sync_project\<close> on what \<^verbatim>\<open>client.fetch_project\<close> returned or raised; other exceptions escape.\<close>

definition sync_project :: "(pypi_exn \<Rightarrow> string) \<Rightarrow> string \<Rightarrow> int \<Rightarrow> int \<Rightarrow> string \<Rightarrow> pypi_exn + project_page \<Rightarrow> database
    \<Rightarrow> pypi_exn + sync_outcome" where
  "sync_project describe child project_chunk unlinked_chunk name fetched db =
     (case fetched of
        Inl PyPINotFound \<Rightarrow> Inr (SyncGone name)
      | Inl (PyPIRateLimited retry_after) \<Rightarrow>
          Inr (SyncRateLimited child (case retry_after of None \<Rightarrow> 0 | Some s \<Rightarrow> s))
      | Inl PyPITransientError \<Rightarrow> Inr (SyncRetry ''transient'' (describe PyPITransientError))
      | Inl PyPIProtocolError \<Rightarrow> Inr (SyncRetry ''protocol_error'' (describe PyPIProtocolError))
      | Inl e \<Rightarrow> Inl e
      | Inr page \<Rightarrow>
          (case plan_project project_chunk unlinked_chunk name page db of
             Inl e \<Rightarrow> Inl (Escapes e) | Inr plan \<Rightarrow> Inr (SyncOk plan)))"

section \<open>Write operations\<close>

record apply_result =
  ar_inserted :: int
  ar_updated :: int
  ar_tombstoned :: int
  ar_project_gone :: bool

definition new_wheel_row :: "string \<Rightarrow> int \<Rightarrow> int \<Rightarrow> iso_time \<Rightarrow> new_wheel \<Rightarrow> wheel_row" where
  "new_wheel_row project serial seq now_iso n =
     \<lparr>w_id = 0, w_filename = nw_filename n, w_project = project, w_conda_name = None,
      w_state = state_int (nw_state n), w_lane = 0, w_url = nw_url n, w_wheel_sha256 = nw_wheel_sha256 n,
      w_metadata_sha256 = nw_metadata_sha256 n, w_size = nw_size n, w_upload_time = nw_upload_time n,
      w_requires_python = nw_requires_python n, w_yanked = nw_yanked n,
      w_yanked_reason = nw_yanked_reason n, w_blob_sha256 = nw_blob_sha256 n, w_serial = serial,
      w_change_seq = seq, w_deleted_at = None, w_updated_at = now_iso\<rparr>"

definition record_duplicate_filename :: "string \<Rightarrow> string \<Rightarrow> iso_time \<Rightarrow> string \<Rightarrow> database \<Rightarrow> database res" where
  "record_duplicate_filename filename project now_iso reroll_version db =
     insert_error \<lparr>er_id = 0, er_wheel_id = map_option w_id (sql_get w_filename filename (wheels db)),
       er_category = ''duplicate_filename'', er_subcat = Some project,
       er_details = Some (''filename '' @ py_repr filename @ '' already exists under a different project''),
       er_reroll_version = reroll_version, er_created_at = now_iso\<rparr> db"

text \<open>The body of an operation that may raise: the connection's state is threaded through either way.\<close>

type_synonym 'a step = "database op_state \<Rightarrow> 'a res \<times> database op_state"

definition insert_new_wheel :: "project_plan \<Rightarrow> iso_time \<Rightarrow> string \<Rightarrow> new_wheel \<Rightarrow> int \<Rightarrow> int step" where
  "insert_new_wheel plan now_iso reroll_version n inserted st =
     (case next_seq st of (seq, (db, seq1)) \<Rightarrow>
        case insert_wheel (new_wheel_row (pl_project plan) (pl_remote_serial plan) seq now_iso n) db of
          Inl _ \<Rightarrow>
            (case record_duplicate_filename (nw_filename n) (pl_project plan) now_iso reroll_version db of
               Inl e \<Rightarrow> (Inl e, (db, seq1)) | Inr db1 \<Rightarrow> (Inr inserted, (db1, seq1)))
        | Inr db1 \<Rightarrow>
            (Inr (inserted + 1),
             ((case nw_unlinked_blob_filename n of None \<Rightarrow> db1
               | Some f \<Rightarrow> db1\<lparr>unlinked_blobs := sql_delete (\<lambda>r. ul_filename r = f) (unlinked_blobs db1)\<rparr>), seq1)))"

fun insert_new_wheels :: "project_plan \<Rightarrow> iso_time \<Rightarrow> string \<Rightarrow> new_wheel list \<Rightarrow> int \<Rightarrow> int step" where
  "insert_new_wheels plan now_iso ver [] inserted st = (Inr inserted, st)"
| "insert_new_wheels plan now_iso ver (n # ns) inserted st =
     (case insert_new_wheel plan now_iso ver n inserted st of
        (Inl e, st1) \<Rightarrow> (Inl e, st1)
      | (Inr k, st1) \<Rightarrow> insert_new_wheels plan now_iso ver ns k st1)"

definition NO_SIDECAR_SKIP_REASON :: string where
  "NO_SIDECAR_SKIP_REASON = ''no_sidecar''"

definition update_changed_wheel :: "iso_time \<Rightarrow> changed_wheel \<Rightarrow> database op_state \<Rightarrow> database op_state" where
  "update_changed_wheel now_iso c st =
     (case next_seq st of (seq, (db, seq1)) \<Rightarrow>
        let db1 = update_wheels (\<lambda>w. w_id w = cw_wheel_id c)
              (\<lambda>w. (fold apply_change (cw_changes c) w)\<lparr>w_change_seq := seq, w_updated_at := now_iso\<rparr>) db;
            db2 = (if cw_delete_no_sidecar_skip c
                   then db1\<lparr>skips := sql_delete (\<lambda>r. sk_wheel_id r = cw_wheel_id c
                          \<and> sk_reason r = NO_SIDECAR_SKIP_REASON \<and> sk_permanent r) (skips db1)\<rparr> else db1);
            db3 = (if cw_delete_repodata c
                   then db2\<lparr>wheel_repodata := sql_delete (\<lambda>r. rd_wheel_id r = cw_wheel_id c) (wheel_repodata db2)\<rparr>
                   else db2)
        in (db3, seq1))"

definition tombstone :: "iso_time \<Rightarrow> wheel_row \<Rightarrow> wheel_row" where
  "tombstone now_iso w = w\<lparr>w_deleted_at := Some now_iso, w_state := state_int DELETED\<rparr>"

definition tombstone_each :: "iso_time \<Rightarrow> int list \<Rightarrow> database op_state \<Rightarrow> database op_state" where
  "tombstone_each now_iso ids st = snd (touch_each (\<lambda>_. True) (tombstone now_iso) now_iso ids 0 st)"

definition upsert_index :: "string \<Rightarrow> int \<Rightarrow> iso_time \<Rightarrow> database \<Rightarrow> database" where
  "upsert_index name serial now_iso db =
     db\<lparr>pypi_index := sql_upsert pi_name (\<lambda>r. r\<lparr>pi_serial := serial, pi_updated_at := now_iso\<rparr>)
          \<lparr>pi_name = name, pi_serial = serial, pi_updated_at = now_iso\<rparr> (pypi_index db)\<rparr>"

definition project_write_op :: "project_plan \<Rightarrow> iso_time \<Rightarrow> string \<Rightarrow> apply_result step" where
  "project_write_op plan now_iso reroll_version st =
     (case insert_new_wheels plan now_iso reroll_version (pl_new_wheels plan) 0 st of
        (Inl e, st1) \<Rightarrow> (Inl e, st1)
      | (Inr inserted, st1) \<Rightarrow>
          (case tombstone_each now_iso (pl_vanished_wheel_ids plan)
                  (fold (update_changed_wheel now_iso) (pl_changed_wheels plan) st1) of
             (db, seq) \<Rightarrow>
               (Inr \<lparr>ar_inserted = inserted, ar_updated = int (length (pl_changed_wheels plan)),
                     ar_tombstoned = int (length (pl_vanished_wheel_ids plan)), ar_project_gone = False\<rparr>,
                (upsert_index (pl_project plan) (pl_remote_serial plan) now_iso db, seq))))"

definition gone_query :: "string \<Rightarrow> int \<Rightarrow> database \<Rightarrow> int list" where
  "gone_query name limit db =
     map w_id (sql_limit limit (filter (\<lambda>w. w_project w = name \<and> w_deleted_at w = None) (wheels db)))"

function tombstone_project :: "string \<Rightarrow> int \<Rightarrow> iso_time \<Rightarrow> int \<Rightarrow> database op_state \<Rightarrow> int \<times> database op_state" where
  "tombstone_project name limit now_iso tombstoned st =
     (let ids = gone_query name limit (fst st)
      in if ids = [] then (tombstoned, st)
         else tombstone_project name limit now_iso (tombstoned + int (length ids)) (tombstone_each now_iso ids st))"
  by pat_completeness auto
termination
proof (relation "measure (\<lambda>(name, limit, now_iso, tombstoned, st).
    total_weight (\<lambda>w. if w_deleted_at w = None then 1 else 0) (fst st))")
  fix name limit now_iso tombstoned x and st :: "database op_state"
  assume x: "x = gone_query name limit (fst st)" and ne: "x \<noteq> []"
  obtain w where w: "w \<in> set (wheels (fst st))" "w_deleted_at w = None" "w_id w \<in> set x"
    using sql_limit_subset last_in_set [OF ne] by (fastforce simp: x gone_query_def)
  let ?m = "\<lambda>w. if w_deleted_at w = None then 1 else 0 :: nat"
  have "total_weight ?m (fst (snd (touch_each (\<lambda>_. True) (tombstone now_iso) now_iso x 0 (fst st, snd st))))
      < total_weight ?m (fst st)"
    by (rule touch_each_weight_less [where x = w]) (use w in \<open>auto simp: touch_def tombstone_def\<close>)
  then show "((name, limit, now_iso, tombstoned + int (length x), tombstone_each now_iso x st),
      name, limit, now_iso, tombstoned, st) \<in> measure (\<lambda>(name, limit, now_iso, tombstoned, st).
        total_weight ?m (fst st))"
    by (simp add: tombstone_each_def)
qed auto

declare tombstone_project.simps [simp del]

definition gone_write_op :: "string \<Rightarrow> iso_time \<Rightarrow> apply_result step" where
  "gone_write_op name now_iso st =
     (case tombstone_project name DEFAULT_GONE_CHUNK_SIZE now_iso 0 st of
        (tombstoned, (db, seq)) \<Rightarrow>
          (Inr \<lparr>ar_inserted = 0, ar_updated = 0, ar_tombstoned = tombstoned, ar_project_gone = True\<rparr>,
           (db\<lparr>pypi_index := sql_delete (\<lambda>r. pi_name r = name) (pypi_index db)\<rparr>, seq)))"

definition quarantine_error_write_op :: "string \<Rightarrow> int \<Rightarrow> iso_time \<Rightarrow> string \<Rightarrow> unit step" where
  "quarantine_error_write_op project attempts now_iso reroll_version st =
     (case st of (db, seq) \<Rightarrow>
        case insert_error \<lparr>er_id = 0, er_wheel_id = None, er_category = ''project_ingest_quarantined'',
               er_subcat = Some project,
               er_details = Some (''project '' @ py_repr project @ '' quarantined after '' @ py_str_int attempts @ '' attempts''),
               er_reroll_version = reroll_version, er_created_at = now_iso\<rparr> db of
          Inl e \<Rightarrow> (Inl e, (db, seq)) | Inr db1 \<Rightarrow> (Inr (), (db1, seq)))"

text \<open>\<^verbatim>\<open>submit_and_wait\<close> of such a body: the savepoint undoes the database of one that raised.\<close>

definition exec_step :: "'a step \<Rightarrow> 'a step" where
  "exec_step f st =
     (case f st of (Inl e, (db', seq')) \<Rightarrow> (Inl e, (fst st, seq')) | (Inr v, st') \<Rightarrow> (Inr v, st'))"

section \<open>Applying outcomes\<close>

definition apply_project_outcome :: "real \<Rightarrow> real \<Rightarrow> string \<Rightarrow> string \<Rightarrow> sync_outcome
    \<Rightarrow> limiter option \<times> database op_state \<Rightarrow> apply_result option res \<times> limiter option \<times> database op_state" where
  "apply_project_outcome now penalize_at reroll_version name out s =
     (case s of (l, st) \<Rightarrow>
        case out of
          SyncRateLimited child seconds \<Rightarrow>
            (case l of None \<Rightarrow> (Inr None, l, st)
             | Some hl \<Rightarrow> (case hl_penalize penalize_at child seconds hl of
                 Inl e \<Rightarrow> (Inl e, l, st) | Inr hl1 \<Rightarrow> (Inr None, Some hl1, st)))
        | SyncRetry reason details \<Rightarrow> (Inr None, l, st)
        | SyncGone project \<Rightarrow>
            (case exec_step (gone_write_op name (iso now)) st of
               (Inl e, st1) \<Rightarrow> (Inl e, l, st1) | (Inr r, st1) \<Rightarrow> (Inr (Some r), l, st1))
        | SyncOk plan \<Rightarrow>
            (case exec_step (project_write_op plan (iso now) reroll_version) st of
               (Inl e, st1) \<Rightarrow> (Inl e, l, st1) | (Inr r, st1) \<Rightarrow> (Inr (Some r), l, st1)))"

section \<open>Project backoff\<close>

record project_backoff =
  pb_max_attempts :: int
  pb_attempts :: "(string \<times> int) list"
  pb_next_attempt_at :: "(string \<times> real) list"
  pb_quarantined :: "string list"

definition pb_attempts_of :: "string \<Rightarrow> project_backoff \<Rightarrow> int" where
  "pb_attempts_of project b = (case map_of (pb_attempts b) project of None \<Rightarrow> 0 | Some n \<Rightarrow> n)"

definition pb_record_failure :: "real \<Rightarrow> real \<Rightarrow> string \<Rightarrow> project_backoff \<Rightarrow> project_backoff" where
  "pb_record_failure now jitter project b =
     (let attempts = pb_attempts_of project b + 1;
          newly = (pb_max_attempts b < attempts \<and> project \<notin> set (pb_quarantined b))
      in b\<lparr>pb_attempts := dict_set project attempts (pb_attempts b),
           pb_quarantined := (if newly then pb_quarantined b @ [project] else pb_quarantined b),
           pb_next_attempt_at := dict_set project
             (now + compute_backoff BASE_BACKOFF_SECONDS MAX_BACKOFF_SECONDS jitter attempts) (pb_next_attempt_at b)\<rparr>)"

definition pb_record_success :: "string \<Rightarrow> project_backoff \<Rightarrow> project_backoff" where
  "pb_record_success project b =
     b\<lparr>pb_attempts := filter (\<lambda>kv. fst kv \<noteq> project) (pb_attempts b),
       pb_next_attempt_at := filter (\<lambda>kv. fst kv \<noteq> project) (pb_next_attempt_at b),
       pb_quarantined := filter (\<lambda>p. p \<noteq> project) (pb_quarantined b)\<rparr>"

definition pb_is_eligible :: "real \<Rightarrow> string \<Rightarrow> project_backoff \<Rightarrow> bool" where
  "pb_is_eligible now project b =
     (project \<notin> set (pb_quarantined b)
      \<and> (case map_of (pb_next_attempt_at b) project of None \<Rightarrow> True | Some t \<Rightarrow> t \<le> now))"

section \<open>One ingest pass\<close>

record ingest_summary =
  is_inserted :: int
  is_updated :: int
  is_tombstoned :: int
  is_projects_gone :: int
  is_retried :: "string list"
  is_rate_limited :: "string list"
  is_quarantined_projects :: int

text \<open>The clock readings and the draw made while one completed project is handled.\<close>

record ingest_readings =
  ir_now :: real
  ir_penalize :: real
  ir_failure :: real
  ir_jitter :: real
  ir_quarantine :: real

record ingest_state =
  ig_summary :: ingest_summary
  ig_backoff :: "project_backoff option"
  ig_limiter :: "limiter option"
  ig_conn :: "database op_state"

definition eligible_names :: "(string \<Rightarrow> real) \<Rightarrow> string list \<Rightarrow> project_backoff option \<Rightarrow> string list" where
  "eligible_names now names b =
     (case b of None \<Rightarrow> names | Some pb \<Rightarrow> filter (\<lambda>n. pb_is_eligible (now n) n pb) names)"

definition handle_retry :: "ingest_readings \<Rightarrow> string \<Rightarrow> string \<Rightarrow> ingest_state \<Rightarrow> ingest_state res" where
  "handle_retry rd reroll_version name s =
     (let s1 = s\<lparr>ig_summary := (ig_summary s)\<lparr>is_retried := is_retried (ig_summary s) @ [name]\<rparr>\<rparr>
      in case ig_backoff s of
           None \<Rightarrow> Inr s1
         | Some b \<Rightarrow>
             (let b1 = pb_record_failure (ir_failure rd) (ir_jitter rd) name b;
                  s2 = s1\<lparr>ig_backoff := Some b1\<rparr>
              in if name \<notin> set (pb_quarantined b) \<and> name \<in> set (pb_quarantined b1)
                 then (case exec_step (quarantine_error_write_op name (pb_attempts_of name b1)
                                (iso (ir_quarantine rd)) reroll_version) (ig_conn s2) of
                         (Inl e, st) \<Rightarrow> Inl e
                       | (Inr _, st) \<Rightarrow> Inr (s2\<lparr>ig_conn := st, ig_summary := (ig_summary s2)
                            \<lparr>is_quarantined_projects := is_quarantined_projects (ig_summary s2) + 1\<rparr>\<rparr>))
                 else Inr s2))"

definition handle_completed :: "string \<Rightarrow> ingest_readings \<times> string \<times> sync_outcome \<Rightarrow> ingest_state \<Rightarrow> ingest_state res" where
  "handle_completed reroll_version c s =
     (case c of (rd, name, out) \<Rightarrow>
        case apply_project_outcome (ir_now rd) (ir_penalize rd) reroll_version name out (ig_limiter s, ig_conn s) of
          (Inl e, _) \<Rightarrow> Inl e
        | (Inr result, l1, st1) \<Rightarrow>
            (let s1 = s\<lparr>ig_limiter := l1, ig_conn := st1\<rparr>; sm = ig_summary s1
             in case out of
                  SyncRetry _ _ \<Rightarrow> handle_retry rd reroll_version name s1
                | SyncRateLimited _ _ \<Rightarrow>
                    Inr (s1\<lparr>ig_summary := sm\<lparr>is_rate_limited := is_rate_limited sm @ [name]\<rparr>\<rparr>)
                | _ \<Rightarrow>
                    (case result of None \<Rightarrow> Inl (OtherError ''AssertionError'')
                     | Some r \<Rightarrow> Inr (s1\<lparr>ig_backoff := map_option (pb_record_success name) (ig_backoff s1),
                         ig_summary := sm\<lparr>is_inserted := is_inserted sm + ar_inserted r,
                           is_updated := is_updated sm + ar_updated r,
                           is_tombstoned := is_tombstoned sm + ar_tombstoned r,
                           is_projects_gone := is_projects_gone sm + (if ar_project_gone r then 1 else 0)\<rparr>\<rparr>))))"

definition ingest_stale_projects :: "string \<Rightarrow> (ingest_readings \<times> string \<times> sync_outcome) list \<Rightarrow> ingest_state
    \<Rightarrow> ingest_state res" where
  "ingest_stale_projects reroll_version completed s = fold_res (handle_completed reroll_version) completed s"

section \<open>Facts about the reads\<close>

text \<open>What the tables promise: unique ids and filenames, positive ids, known states.\<close>

definition wheels_ok :: "database \<Rightarrow> bool" where
  "wheels_ok db \<longleftrightarrow> distinct (map w_id (wheels db)) \<and> distinct (map w_filename (wheels db))
     \<and> (\<forall>w \<in> set (wheels db). 0 < w_id w \<and> w_state w \<in> range state_int)"

definition local_view :: "wheel_row \<Rightarrow> local_wheel_row" where
  "local_view w = local_row_of w (the (wheel_state_of_int (w_state w)))"

definition project_wheels :: "string \<Rightarrow> database \<Rightarrow> wheel_row list" where
  "project_wheels project db = filter (\<lambda>w. w_project w = project) (wheels db)"

lemma fold_res_dict:
  assumes "\<forall>w \<in> set ws. w_state w \<in> range state_int"
  shows "fold_res (\<lambda>w rows. case wheel_state_of_int (w_state w) of
          None \<Rightarrow> Inl ValueError
        | Some s \<Rightarrow> Inr (dict_set (w_filename w) (local_row_of w s) rows)) ws d
    = Inr (fold (\<lambda>w. dict_set (w_filename w) (local_view w)) ws d)"
  using assms
proof (induction ws arbitrary: d)
  case Nil
  then show ?case by simp
next
  case (Cons w ws)
  from Cons.prems obtain s where "w_state w = state_int s" by auto
  then show ?case using Cons by (simp add: local_view_def)
qed

lemma read_project_wheels_ok:
  assumes "wheels_ok db" and "chunk_size \<noteq> 0"
  shows "\<exists>d. read_project_wheels chunk_size project db = Inr d \<and> distinct (map fst d)
    \<and> (\<forall>n. map_of d n = map_option local_view (sql_get w_filename n (project_wheels project db)))"
proof -
  let ?P = "project_wheels project db"
  let ?S = "sort_key w_id ?P"
  have ids: "distinct (map w_id ?P)" and names: "distinct (map w_filename ?P)"
    using assms(1) by (simp_all add: wheels_ok_def project_wheels_def distinct_map_filter)
  have all: "filter (\<lambda>r. after (Some 0) (w_id r)) ?P = ?P"
    unfolding filter_id_conv using assms(1) by (auto simp: after_def wheels_ok_def project_wheels_def)
  have pages: "concat (keyset_pages w_id chunk_size ?P (Some 0)) = ?S"
    using concat_keyset_pages [OF ids assms(2), of "Some 0"] all by simp
  have "\<forall>w \<in> set ?S. w_state w \<in> range state_int"
    using assms(1) by (auto simp: wheels_ok_def project_wheels_def)
  then have r: "read_project_wheels chunk_size project db = Inr (dict_of w_filename local_view ?S)"
    by (simp add: read_project_wheels_def project_wheels_def [symmetric] pages fold_res_dict dict_of_def)
  have ns: "distinct (map w_filename ?S)" using names by (simp add: distinct_map_sort)
  have "map_of (dict_of w_filename local_view ?S) n = map_option local_view (sql_get w_filename n ?P)" for n
    using map_of_dict_of [OF ns, of local_view n] sql_get_same_set [OF ns names] by simp
  then show ?thesis using r distinct_dict_of by blast
qed

lemma unlinked_from_table:
  assumes "read_unlinked_blobs names chunk_size db = Inr d" and "map_of d n = Some sha"
  shows "\<exists>r \<in> set (unlinked_blobs db). ul_filename r = n \<and> ul_sha256 r = sha"
proof -
  let ?ok = "\<lambda>d. \<forall>n sha. map_of d n = Some sha
      \<longrightarrow> (\<exists>r \<in> set (unlinked_blobs db). ul_filename r = n \<and> ul_sha256 r = sha)"
  have inner: "?ok (fold (\<lambda>r. dict_set (ul_filename r) (ul_sha256 r)) rs d)"
    if "?ok d" "set rs \<subseteq> set (unlinked_blobs db)" for rs d
    using that
  proof (induction rs arbitrary: d)
    case Nil
    then show ?case by simp
  next
    case (Cons a rs)
    have "?ok (dict_set (ul_filename a) (ul_sha256 a) d)" using Cons.prems by (auto simp: map_of_dict_set)
    from Cons.IH [OF this] Cons.prems(2) show ?case by simp
  qed
  have "?ok (fold (\<lambda>chunk result.
             fold (\<lambda>r. dict_set (ul_filename r) (ul_sha256 r))
               (filter (\<lambda>r. ul_filename r \<in> set chunk) (unlinked_blobs db)) result) chunks d)"
    if "?ok d" for chunks d
    using that
  proof (induction chunks arbitrary: d)
    case Nil
    then show ?case by simp
  next
    case (Cons c chunks)
    have "?ok (fold (\<lambda>r. dict_set (ul_filename r) (ul_sha256 r))
        (filter (\<lambda>r. ul_filename r \<in> set c) (unlinked_blobs db)) d)"
      by (rule inner [OF Cons.prems]) auto
    from Cons.IH [OF this] show ?case by simp
  qed
  from this [of "[]"] show ?thesis using assms by (auto simp: read_unlinked_blobs_def split: if_splits)
qed

section \<open>Facts about the diff\<close>

lemma fold_if_list: "fold f (if c then xs else []) w = (if c then fold f xs w else w)"
  by simp

text \<open>A live row that agrees with a file needs no write.\<close>

definition settled :: "wheel_row \<Rightarrow> project_file \<Rightarrow> bool" where
  "settled w f \<longleftrightarrow> diff_common (local_view w) f = None"

lemma apply_change_frame [simp]:
  "w_id (apply_change c w) = w_id w" "w_filename (apply_change c w) = w_filename w"
  "w_project (apply_change c w) = w_project w" "w_lane (apply_change c w) = w_lane w"
  "w_serial (apply_change c w) = w_serial w"
  by (cases c; simp)+

lemma apply_changes_frame [simp]:
  "w_id (fold apply_change cs w) = w_id w" "w_filename (fold apply_change cs w) = w_filename w"
  "w_project (fold apply_change cs w) = w_project w" "w_lane (fold apply_change cs w) = w_lane w"
  by (induction cs arbitrary: w) simp_all

lemma diff_fields:
  assumes "l = local_view w"
  shows "w_url (fold apply_change (diff_changes l f) w) = pf_url f"
    and "w_wheel_sha256 (fold apply_change (diff_changes l f) w) = pf_wheel_sha256 f"
    and "w_metadata_sha256 (fold apply_change (diff_changes l f) w) = pf_metadata_sha256 f"
    and "w_size (fold apply_change (diff_changes l f) w) = pf_size f"
    and "w_upload_time (fold apply_change (diff_changes l f) w) = pf_upload_time f"
    and "w_requires_python (fold apply_change (diff_changes l f) w) = pf_requires_python f"
    and "w_yanked (fold apply_change (diff_changes l f) w) = pf_yanked f"
    and "w_yanked_reason (fold apply_change (diff_changes l f) w) = pf_yanked_reason f"
    and "w_deleted_at (fold apply_change (diff_changes l f) w) = w_deleted_at w"
    and "w_blob_sha256 (fold apply_change (diff_changes l f) w) = (if blob_mismatch l f then None else w_blob_sha256 w)"
    and "w_state (fold apply_change (diff_changes l f) w)
      = (if diff_new_state l f = lw_state l then w_state w else state_int (diff_new_state l f))"
  by (simp_all add: assms diff_changes_def local_view_def local_row_of_def fold_if_list
      if_distrib [where f = w_url] if_distrib [where f = w_wheel_sha256] if_distrib [where f = w_metadata_sha256]
      if_distrib [where f = w_size] if_distrib [where f = w_upload_time] if_distrib [where f = w_requires_python]
      if_distrib [where f = w_yanked] if_distrib [where f = w_yanked_reason] if_distrib [where f = w_deleted_at]
      if_distrib [where f = w_blob_sha256] if_distrib [where f = w_state] cong: if_cong)

lemma local_view_simps:
  assumes "w_state w = state_int s"
  shows "lw_id (local_view w) = w_id w" "lw_state (local_view w) = s" "lw_url (local_view w) = w_url w"
    "lw_wheel_sha256 (local_view w) = w_wheel_sha256 w" "lw_metadata_sha256 (local_view w) = w_metadata_sha256 w"
    "lw_size (local_view w) = w_size w" "lw_upload_time (local_view w) = w_upload_time w"
    "lw_requires_python (local_view w) = w_requires_python w" "lw_yanked (local_view w) = w_yanked w"
    "lw_yanked_reason (local_view w) = w_yanked_reason w" "lw_blob_sha256 (local_view w) = w_blob_sha256 w"
    "lw_deleted_at (local_view w) = w_deleted_at w"
  using assms by (simp_all add: local_view_def local_row_of_def)

lemma settled_iff:
  assumes "w_state w = state_int s"
  shows "settled w f \<longleftrightarrow> w_deleted_at w = None \<and> w_url w = pf_url f \<and> w_wheel_sha256 w = pf_wheel_sha256 f
    \<and> w_metadata_sha256 w = pf_metadata_sha256 f \<and> w_size w = pf_size f \<and> w_upload_time w = pf_upload_time f
    \<and> w_requires_python w = pf_requires_python f \<and> w_yanked w = pf_yanked f
    \<and> w_yanked_reason w = pf_yanked_reason f \<and> \<not> blob_mismatch (local_view w) f
    \<and> \<not> (s = NO_METADATA \<and> pf_has_metadata f)"
  by (auto simp: settled_def diff_common_def diff_changes_def diff_new_state_def sidecar_appeared_def
      local_view_simps [OF assms])

lemma blob_mismatch_view:
  "w_state w = state_int s \<Longrightarrow> blob_mismatch (local_view w) f
    \<longleftrightarrow> w_blob_sha256 w \<noteq> None \<and> pf_metadata_sha256 f \<noteq> None \<and> pf_metadata_sha256 f \<noteq> w_blob_sha256 w"
  by (simp add: blob_mismatch_def local_view_simps)

lemma settled_changed:
  assumes "w_state w = state_int s" and "w_deleted_at w = None"
  shows "settled ((fold apply_change (diff_changes (local_view w) f) w)\<lparr>w_change_seq := q, w_updated_at := t\<rparr>) f"
    and "w_state ((fold apply_change (diff_changes (local_view w) f) w)\<lparr>w_change_seq := q, w_updated_at := t\<rparr>)
      = state_int (diff_new_state (local_view w) f)"
proof -
  let ?l = "local_view w"
  let ?w = "(fold apply_change (diff_changes ?l f) w)\<lparr>w_change_seq := q, w_updated_at := t\<rparr>"
  show st: "w_state ?w = state_int (diff_new_state ?l f)"
    using assms(1) by (simp add: diff_fields(11) [OF refl] local_view_simps [OF assms(1)])
  show "settled ?w f"
    unfolding settled_iff [OF st] blob_mismatch_view [OF st]
    using assms by (auto simp: diff_fields [OF refl] diff_new_state_def sidecar_appeared_def
        blob_mismatch_view [OF assms(1)] local_view_simps [OF assms(1)])
qed

lemma settled_revived:
  "settled ((fold apply_change (revive_changes f) w)\<lparr>w_change_seq := q, w_updated_at := t\<rparr>) f"
  "w_state ((fold apply_change (revive_changes f) w)\<lparr>w_change_seq := q, w_updated_at := t\<rparr>) = state_int (initial_state f)"
proof -
  let ?w = "(fold apply_change (revive_changes f) w)\<lparr>w_change_seq := q, w_updated_at := t\<rparr>"
  show st: "w_state ?w = state_int (initial_state f)" by (simp add: revive_changes_def)
  show "settled ?w f"
    unfolding settled_iff [OF st] blob_mismatch_view [OF st]
    by (simp add: revive_changes_def initial_state_def)
qed

lemma settled_new:
  assumes "\<And>sha. unlinked = Some sha \<Longrightarrow> pf_metadata_sha256 f \<in> {None, Some sha}"
  shows "settled ((new_wheel_row p serial q t (plan_new_wheel f unlinked))\<lparr>w_id := i\<rparr>) f"
    and "w_state ((new_wheel_row p serial q t (plan_new_wheel f unlinked))\<lparr>w_id := i\<rparr>)
      = state_int (case unlinked of None \<Rightarrow> initial_state f | Some _ \<Rightarrow> NEED_CONVERT)"
proof -
  let ?w = "(new_wheel_row p serial q t (plan_new_wheel f unlinked))\<lparr>w_id := i\<rparr>"
  show st: "w_state ?w = state_int (case unlinked of None \<Rightarrow> initial_state f | Some _ \<Rightarrow> NEED_CONVERT)"
    by (simp add: new_wheel_row_def plan_new_wheel_def)
  show "settled ?w f"
    unfolding settled_iff [OF st] blob_mismatch_view [OF st]
    using assms by (auto simp: new_wheel_row_def plan_new_wheel_def initial_state_def split: option.splits)
qed

text \<open>
  The diff never disturbs a wheel for nothing: a stored row that agrees with the page is not
  written, a change of columns alone (a yank, a new URL, a published hash equal to the archived one)
  keeps the state, and the state is reset to \<^verbatim>\<open>NEED_METADATA\<close> exactly when the published digest contradicts
  the archived blob (whose link, conda name and repodata are then dropped) or a sidecar appeared.
\<close>

theorem diff_resets_state_only_when_needed:
  assumes "w_state w = state_int s" and "w_deleted_at w = None" and "diff_common (local_view w) f = Some c"
    and "w' = (fold apply_change (cw_changes c) w)\<lparr>w_change_seq := q, w_updated_at := t\<rparr>"
  shows "w_state w' = (if blob_mismatch (local_view w) f \<or> s = NO_METADATA \<and> pf_has_metadata f
       then state_int NEED_METADATA else w_state w)
    \<and> w_blob_sha256 w' = (if blob_mismatch (local_view w) f then None else w_blob_sha256 w)
    \<and> cw_delete_repodata c = blob_mismatch (local_view w) f
    \<and> w_yanked w' = pf_yanked f \<and> w_url w' = pf_url f \<and> w_metadata_sha256 w' = pf_metadata_sha256 f
    \<and> diff_common (local_view w') f = None"
proof -
  have c: "cw_changes c = diff_changes (local_view w) f" "cw_delete_repodata c = blob_mismatch (local_view w) f"
    using assms(2,3) by (auto simp: diff_common_def local_view_simps [OF assms(1)] split: if_splits)
  have w': "w' = (fold apply_change (diff_changes (local_view w) f) w)\<lparr>w_change_seq := q, w_updated_at := t\<rparr>"
    using assms(4) by (simp add: c)
  have "w_state w' = (if blob_mismatch (local_view w) f \<or> s = NO_METADATA \<and> pf_has_metadata f
       then state_int NEED_METADATA else w_state w)"
    unfolding w' settled_changed(2) [OF assms(1,2)]
    by (simp add: diff_new_state_def sidecar_appeared_def local_view_simps [OF assms(1)] assms(1))
  moreover have "diff_common (local_view w') f = None"
    using settled_changed(1) [OF assms(1,2), where f = f and q = q and t = t] unfolding w' settled_def .
  ultimately show ?thesis by (simp add: w' diff_fields [OF refl] c(2))
qed

definition demo_file :: project_file where
  "demo_file = \<lparr>pf_filename = ''1'', pf_url = ''u'', pf_wheel_sha256 = None, pf_metadata_sha256 = Some ''aa'',
     pf_has_metadata = True, pf_size = None, pf_upload_time = None, pf_requires_python = None,
     pf_yanked = True, pf_yanked_reason = None\<rparr>"

section \<open>Facts about the write operations\<close>

lemma insert_fresh_wheel:
  assumes "nw_filename n \<notin> w_filename ` set (wheels db)"
  shows "\<exists>db'. insert_new_wheel plan t ver n k (db, seq) = (Inr (k + 1), (db', seq + 1))
    \<and> wheels db' = wheels db @ [(new_wheel_row (pl_project plan) (pl_remote_serial plan) (seq + 1) t n)
         \<lparr>w_id := next_rowid (map w_id (wheels db))\<rparr>]
    \<and> pypi_index db' = pypi_index db"
  using assms by (auto simp: insert_new_wheel_def next_seq_def insert_wheel_def new_wheel_row_def split: option.splits)

lemma next_rowid_pos: "\<forall>i \<in> set ids. 0 < i \<Longrightarrow> 0 < next_rowid ids"
proof (cases "ids = []")
  case False
  assume "\<forall>i \<in> set ids. 0 < i"
  moreover have "Max (set ids) \<in> set ids" using False by simp
  ultimately have "0 < Max (set ids)" by blast
  then show ?thesis using False by (simp add: next_rowid_def)
qed (simp add: next_rowid_def)

text \<open>Inserting fresh filenames: one new row each, with a fresh id, after the old rows.\<close>

definition inserted_rows :: "project_plan \<Rightarrow> iso_time \<Rightarrow> new_wheel list \<Rightarrow> wheel_row list \<Rightarrow> bool" where
  "inserted_rows plan t = list_all2 (\<lambda>n w. \<exists>i q. w = (new_wheel_row (pl_project plan) (pl_remote_serial plan) q t n)\<lparr>w_id := i\<rparr>)"

lemma insert_new_wheels_fresh:
  assumes "distinct (map nw_filename ns)" and "nw_filename ` set ns \<inter> w_filename ` set (wheels db) = {}"
    and "distinct (map w_id (wheels db))" and "\<forall>w \<in> set (wheels db). 0 < w_id w"
  shows "\<exists>db' rows. insert_new_wheels plan t ver ns k (db, seq) = (Inr (k + int (length ns)), (db', seq + int (length ns)))
    \<and> wheels db' = wheels db @ rows \<and> inserted_rows plan t ns rows
    \<and> distinct (map w_id (wheels db')) \<and> (\<forall>w \<in> set (wheels db'). 0 < w_id w) \<and> pypi_index db' = pypi_index db"
  using assms
proof (induction ns arbitrary: k db seq)
  case Nil
  then show ?case by (auto simp: inserted_rows_def)
next
  case (Cons n ns)
  obtain db1 where one: "insert_new_wheel plan t ver n k (db, seq) = (Inr (k + 1), (db1, seq + 1))"
    and w1: "wheels db1 = wheels db @ [(new_wheel_row (pl_project plan) (pl_remote_serial plan) (seq + 1) t n)
         \<lparr>w_id := next_rowid (map w_id (wheels db))\<rparr>]" and i1: "pypi_index db1 = pypi_index db"
    using insert_fresh_wheel [of n db plan t ver k seq] Cons.prems(2) by auto
  have "nw_filename ` set ns \<inter> w_filename ` set (wheels db1) = {}"
    using Cons.prems(1,2) by (auto simp: w1 new_wheel_row_def)
  moreover have "distinct (map w_id (wheels db1))" "\<forall>w \<in> set (wheels db1). 0 < w_id w"
    using Cons.prems(3,4) next_rowid_fresh [of "map w_id (wheels db)"] next_rowid_pos [of "map w_id (wheels db)"]
    by (auto simp: w1)
  ultimately obtain db' rows where rest: "insert_new_wheels plan t ver ns (k + 1) (db1, seq + 1)
        = (Inr (k + 1 + int (length ns)), (db', seq + 1 + int (length ns)))"
      "wheels db' = wheels db1 @ rows" "inserted_rows plan t ns rows"
      "distinct (map w_id (wheels db'))" "\<forall>w \<in> set (wheels db'). 0 < w_id w" "pypi_index db' = pypi_index db1"
    using Cons.IH [of db1 "k + 1" "seq + 1"] Cons.prems(1) by auto
  have "inserted_rows plan t (n # ns) ((new_wheel_row (pl_project plan) (pl_remote_serial plan) (seq + 1) t n)
         \<lparr>w_id := next_rowid (map w_id (wheels db))\<rparr> # rows)"
    using rest(3) by (auto simp: inserted_rows_def)
  then show ?case using rest one w1 i1 by (auto simp: add.assoc)
qed

text \<open>The updates: each row with a plan entry is rewritten once, the others are kept.\<close>

definition updated_row :: "iso_time \<Rightarrow> changed_wheel list \<Rightarrow> wheel_row \<Rightarrow> wheel_row \<Rightarrow> bool" where
  "updated_row t cs w w' \<longleftrightarrow>
     (case find (\<lambda>c. cw_wheel_id c = w_id w) cs of
        None \<Rightarrow> w' = w
      | Some c \<Rightarrow> \<exists>q. w' = (fold apply_change (cw_changes c) w)\<lparr>w_change_seq := q, w_updated_at := t\<rparr>)"

lemma update_changed_wheel_wheels:
  "wheels (fst (update_changed_wheel t c (db, seq))) = map (\<lambda>w. if w_id w = cw_wheel_id c
     then (fold apply_change (cw_changes c) w)\<lparr>w_change_seq := seq + 1, w_updated_at := t\<rparr> else w) (wheels db)"
  "pypi_index (fst (update_changed_wheel t c (db, seq))) = pypi_index db"
  by (simp_all add: update_changed_wheel_def next_seq_def Let_def update_wheels_def sql_update_def)

lemma updated_rows:
  assumes "distinct (map cw_wheel_id cs)"
  shows "list_all2 (updated_row t cs) (wheels (fst st)) (wheels (fst (fold (update_changed_wheel t) cs st)))
    \<and> pypi_index (fst (fold (update_changed_wheel t) cs st)) = pypi_index (fst st)"
  using assms
proof (induction cs arbitrary: st)
  case Nil
  then show ?case by (simp add: updated_row_def list_all2_refl)
next
  case (Cons c cs)
  obtain db seq where st: "st = (db, seq)" by (cases st)
  let ?st = "update_changed_wheel t c st"
  have ih: "list_all2 (updated_row t cs) (wheels (fst ?st)) (wheels (fst (fold (update_changed_wheel t) cs ?st)))"
    "pypi_index (fst (fold (update_changed_wheel t) cs ?st)) = pypi_index (fst ?st)"
    using Cons.IH [of ?st] Cons.prems by auto
  have new: "find (\<lambda>d. cw_wheel_id d = cw_wheel_id c) cs = None"
    using Cons.prems unfolding find_None_iff by (metis distinct.simps(2) image_eqI list.set_map list.simps(9))
  have "list_all2 (updated_row t (c # cs)) (wheels db) (wheels (fst (fold (update_changed_wheel t) cs ?st)))"
    using ih(1) unfolding st update_changed_wheel_wheels list_all2_map1
  proof (rule list_all2_mono)
    fix w w'
    assume "updated_row t cs (if w_id w = cw_wheel_id c
       then (fold apply_change (cw_changes c) w)\<lparr>w_change_seq := seq + 1, w_updated_at := t\<rparr> else w) w'"
    then show "updated_row t (c # cs) w w'"
      by (cases "w_id w = cw_wheel_id c") (auto simp: updated_row_def new)
  qed
  then show ?case using ih(2) by (simp add: st update_changed_wheel_wheels)
qed

section \<open>What a plan says of each row\<close>

lemma remote_file_name: "map_of (remote_files files) n = Some f \<Longrightarrow> pf_filename f = n"
  unfolding remote_files_def by (auto dest!: map_of_dict_of_Some)

lemma distinct_remote: "distinct (map fst (remote_files files))"
  unfolding remote_files_def by (rule distinct_dict_of)

lemma find_map_filter_key:
  assumes "distinct ns" and "\<And>n c. n \<in> set ns \<Longrightarrow> g n = Some c \<Longrightarrow> key c = h n"
    and "inj_on h (set ns)" and "m \<in> set ns"
  shows "find (\<lambda>c. key c = h m) (List.map_filter g ns) = g m"
  using assms
proof (induction ns)
  case Nil
  then show ?case by simp
next
  case (Cons n ns)
  show ?case
  proof (cases "n = m")
    case True
    have "find (\<lambda>c. key c = h m) (List.map_filter g ns) = None"
    proof -
      have "key c \<noteq> h m" if "k \<in> set ns" "g k = Some c" for k c
      proof
        assume "key c = h m"
        then have "h k = h m" using Cons.prems(2) [of k c] that by simp
        then have "k = m" by (rule inj_onD [OF Cons.prems(3)]) (use that True in simp_all)
        then show False using that(1) Cons.prems(1) True by simp
      qed
      then show ?thesis by (auto simp: find_None_iff List.map_filter_def)
    qed
    then show ?thesis using True Cons.prems(2) [of n]
      by (cases "g n") (simp_all add: map_filter_simps)
  next
    case False
    then have m: "m \<in> set ns" using Cons.prems(4) by auto
    have "find (\<lambda>c. key c = h m) (List.map_filter g ns) = g m"
      by (rule Cons.IH [OF _ _ _ m]) (use Cons.prems in \<open>auto simp: inj_on_def\<close>)
    moreover have "h n \<noteq> h m" using inj_onD [OF Cons.prems(3), of n m] False m by auto
    ultimately show ?thesis using Cons.prems(2) [of n]
      by (cases "g n") (simp_all add: map_filter_simps)
  qed
qed

lemma distinct_map_filter_key:
  assumes "distinct ns" and "\<And>n c. n \<in> set ns \<Longrightarrow> g n = Some c \<Longrightarrow> key c = h n" and "inj_on h (set ns)"
  shows "distinct (map key (List.map_filter g ns))"
  using assms
proof (induction ns)
  case Nil
  then show ?case by (simp add: map_filter_simps)
next
  case (Cons n ns)
  have d: "distinct (map key (List.map_filter g ns))"
    by (rule Cons.IH) (use Cons.prems in \<open>auto simp: inj_on_def\<close>)
  show ?case
  proof (cases "g n")
    case None
    then show ?thesis using d by (simp add: map_filter_simps)
  next
    case (Some c)
    have "key c \<notin> key ` set (List.map_filter g ns)"
    proof
      assume "key c \<in> key ` set (List.map_filter g ns)"
      then obtain k e where k: "k \<in> set ns" "g k = Some e" "key e = key c"
        by (auto simp: List.map_filter_def)
      have "h k = h n" using k Cons.prems(2) [of k e] Cons.prems(2) [of n c] Some by simp
      then have "k = n" by (rule inj_onD [OF Cons.prems(3)]) (use k(1) in simp_all)
      then show False using k(1) Cons.prems(1) by simp
    qed
    then show ?thesis using d Some by (simp add: map_filter_simps)
  qed
qed

text \<open>The plan computed from a well-formed database, row by row.\<close>

lemma plan_facts:
  assumes ok: "wheels_ok db" and sizes: "pc \<noteq> 0" "uc \<noteq> 0"
    and plan: "plan_project pc uc p page db = Inr plan"
  defines "R \<equiv> map_of (remote_files (pp_files page))"
  shows "pl_project plan = p" and "pl_remote_serial plan = pp_last_serial page"
    and "distinct (map nw_filename (pl_new_wheels plan))"
    and "nw_filename ` set (pl_new_wheels plan) = dom R - w_filename ` set (project_wheels p db)"
    and "\<forall>n \<in> set (pl_new_wheels plan). \<exists>f u. R (nw_filename n) = Some f \<and> n = plan_new_wheel f u
           \<and> (\<forall>sha. u = Some sha \<longrightarrow> (\<exists>r \<in> set (unlinked_blobs db). ul_filename r = nw_filename n \<and> ul_sha256 r = sha))"
    and "distinct (map cw_wheel_id (pl_changed_wheels plan))"
    and "\<forall>w \<in> set (wheels db). find (\<lambda>c. cw_wheel_id c = w_id w) (pl_changed_wheels plan)
           = (if w_project w = p then Option.bind (R (w_filename w)) (diff_common (local_view w)) else None)"
    and "cw_wheel_id ` set (pl_changed_wheels plan) \<subseteq> w_id ` set (wheels db)"
    and "distinct (pl_vanished_wheel_ids plan)"
    and "set (pl_vanished_wheel_ids plan)
           = w_id ` {w \<in> set (project_wheels p db). R (w_filename w) = None \<and> w_deleted_at w = None}"
proof -
  let ?P = "project_wheels p db" and ?rem = "remote_files (pp_files page)"
  obtain d where rd: "read_project_wheels pc p db = Inr d" and dd: "distinct (map fst d)"
    and md: "\<And>n. map_of d n = map_option local_view (sql_get w_filename n ?P)"
    using read_project_wheels_ok [OF ok sizes(1)] by blast
  define new common vanished where "new = sort (filter (\<lambda>n. n \<notin> fst ` set d) (map fst ?rem))"
    and "common = sort (filter (\<lambda>n. n \<in> fst ` set d) (map fst ?rem))"
    and "vanished = sort (filter (\<lambda>n. n \<notin> fst ` set ?rem) (map fst d))"
  define W where "W = (\<lambda>n. the (sql_get w_filename n ?P))"
  have names: "distinct (map w_filename ?P)"
    using ok by (simp add: wheels_ok_def project_wheels_def distinct_map_filter)
  have sub: "set ?P \<subseteq> set (wheels db)" by (auto simp: project_wheels_def)
  have id_inj: "v = w" if "v \<in> set (wheels db)" "w \<in> set (wheels db)" "w_id v = w_id w" for v w
    using ok that by (auto simp: wheels_ok_def distinct_map dest!: inj_onD)
  have keys_d: "fst ` set d = w_filename ` set ?P"
  proof -
    have "n \<in> fst ` set d \<longleftrightarrow> n \<in> w_filename ` set ?P" for n
      using md [of n] map_of_eq_None_iff [of d n] sql_get_None [of w_filename n ?P]
      by (cases "sql_get w_filename n ?P") auto
    then show ?thesis by blast
  qed
  have keys_R: "fst ` set ?rem = dom R" by (simp add: R_def dom_map_of_conv_image_fst)
  have W: "W n \<in> set ?P" "w_filename (W n) = n" "map_of d n = Some (local_view (W n))" if "n \<in> fst ` set d" for n
  proof -
    have "sql_get w_filename n ?P \<noteq> None" using that unfolding sql_get_None keys_d by simp
    then obtain w where w: "sql_get w_filename n ?P = Some w" by blast
    then show "W n \<in> set ?P" "w_filename (W n) = n" "map_of d n = Some (local_view (W n))"
      using sql_get_Some [OF w] by (simp_all add: W_def md)
  qed
  have W_of: "W (w_filename w) = w" if "w \<in> set ?P" for w
    using sql_get_in [OF names that] by (simp add: W_def)
  have st: "\<exists>s. w_state w = state_int s" if "w \<in> set ?P" for w
    using ok that sub by (auto simp: wheels_ok_def)
  have lw: "lw_id (local_view (W n)) = w_id (W n)" "lw_deleted_at (local_view (W n)) = w_deleted_at (W n)"
    if "n \<in> fst ` set d" for n
    using st [OF W(1) [OF that]] local_view_simps by auto
  have h_inj: "inj_on (\<lambda>n. w_id (W n)) (fst ` set d)"
  proof (rule inj_onI)
    fix m n assume a: "m \<in> fst ` set d" "n \<in> fst ` set d" "w_id (W m) = w_id (W n)"
    then have "W m = W n" using id_inj [of "W m" "W n"] W(1) sub by blast
    then have "w_filename (W m) = w_filename (W n)" by (rule arg_cong)
    then show "m = n" unfolding W(2) [OF a(1)] W(2) [OF a(2)] .
  qed
  have "\<exists>u. (if new = [] then Inr [] else read_unlinked_blobs new uc db) = Inr u"
    by (cases "new = []") (simp_all add: read_unlinked_blobs_def sizes(2))
  then obtain u where u: "(if new = [] then Inr [] else read_unlinked_blobs new uc db) = Inr u" ..
  have u_table: "\<exists>r \<in> set (unlinked_blobs db). ul_filename r = n \<and> ul_sha256 r = sha" if "map_of u n = Some sha" for n sha
    using u that unlinked_from_table by (cases "new = []") auto
  have pl: "plan = \<lparr>pl_project = p, pl_remote_serial = pp_last_serial page,
       pl_new_wheels = map (\<lambda>n. plan_new_wheel (the (map_of ?rem n)) (map_of u n)) new,
       pl_changed_wheels = List.map_filter (\<lambda>n. diff_common (the (map_of d n)) (the (map_of ?rem n))) common,
       pl_vanished_wheel_ids = map (\<lambda>n. lw_id (the (map_of d n)))
         (filter (\<lambda>n. lw_deleted_at (the (map_of d n)) = None) vanished)\<rparr>"
  proof -
    have "plan_project pc uc p page db = bind_res (if new = [] then Inr [] else read_unlinked_blobs new uc db) (\<lambda>u.
       Inr \<lparr>pl_project = p, pl_remote_serial = pp_last_serial page,
         pl_new_wheels = map (\<lambda>n. plan_new_wheel (the (map_of ?rem n)) (map_of u n)) new,
         pl_changed_wheels = List.map_filter (\<lambda>n. diff_common (the (map_of d n)) (the (map_of ?rem n))) common,
         pl_vanished_wheel_ids = map (\<lambda>n. lw_id (the (map_of d n)))
           (filter (\<lambda>n. lw_deleted_at (the (map_of d n)) = None) vanished)\<rparr>)"
      unfolding plan_project_def rd Let_def bind_res_simps new_def common_def vanished_def by (rule refl)
    then show ?thesis unfolding u bind_res_simps plan by (simp only: sum.inject)
  qed
  have set_new: "set new = dom R - w_filename ` set ?P" and dnew: "distinct new"
    using distinct_remote [of "pp_files page"] by (auto simp: new_def keys_d keys_R [symmetric])
  have set_common: "set common = dom R \<inter> fst ` set d" and dcommon: "distinct common"
    using distinct_remote [of "pp_files page"] by (auto simp: common_def keys_R [symmetric])
  have set_van: "set vanished = fst ` set d - dom R" and dvan: "distinct vanished"
    using dd by (auto simp: vanished_def keys_R [symmetric])
  have nwf: "nw_filename (plan_new_wheel (the (map_of ?rem n)) (map_of u n)) = n" if "n \<in> set new" for n
  proof -
    obtain f where "R n = Some f" using \<open>n \<in> set new\<close> set_new by blast
    then show ?thesis using remote_file_name [of "pp_files page" n f] by (simp add: R_def plan_new_wheel_def)
  qed
  have mapnew: "map nw_filename (pl_new_wheels plan) = new"
    by (simp add: pl comp_def) (rule map_idI, use nwf in simp)
  show "pl_project plan = p" "pl_remote_serial plan = pp_last_serial page" by (simp_all add: pl)
  show "distinct (map nw_filename (pl_new_wheels plan))" unfolding mapnew by (rule dnew)
  show "nw_filename ` set (pl_new_wheels plan) = dom R - w_filename ` set ?P"
    using set_new mapnew by (metis list.set_map)
  show "\<forall>n \<in> set (pl_new_wheels plan). \<exists>f u. R (nw_filename n) = Some f \<and> n = plan_new_wheel f u
           \<and> (\<forall>sha. u = Some sha \<longrightarrow> (\<exists>r \<in> set (unlinked_blobs db). ul_filename r = nw_filename n \<and> ul_sha256 r = sha))"
  proof
    fix x assume "x \<in> set (pl_new_wheels plan)"
    then obtain n where n: "n \<in> set new" "x = plan_new_wheel (the (map_of ?rem n)) (map_of u n)" by (auto simp: pl)
    obtain f where f: "R n = Some f" using n(1) set_new by blast
    have x: "x = plan_new_wheel f (map_of u n)" and fn: "nw_filename x = n" using n nwf [OF n(1)] f by (simp_all add: R_def)
    show "\<exists>f u. R (nw_filename x) = Some f \<and> x = plan_new_wheel f u
           \<and> (\<forall>sha. u = Some sha \<longrightarrow> (\<exists>r \<in> set (unlinked_blobs db). ul_filename r = nw_filename x \<and> ul_sha256 r = sha))"
      unfolding fn
      by (intro exI [of _ f] exI [of _ "map_of u n"] conjI allI impI) (use f x u_table in simp_all)
  qed
  let ?g = "\<lambda>n. diff_common (the (map_of d n)) (the (map_of ?rem n))"
  have g_key: "cw_wheel_id c = w_id (W n)" if "n \<in> set common" "?g n = Some c" for n c
  proof -
    have "n \<in> fst ` set d" using that(1) set_common by blast
    then have "diff_common (local_view (W n)) (the (map_of ?rem n)) = Some c" using that(2) W(3) by simp
    then have "cw_wheel_id c = lw_id (local_view (W n))" by (auto simp: diff_common_def split: if_splits)
    then show ?thesis using lw \<open>n \<in> fst ` set d\<close> by simp
  qed
  have inj_common: "inj_on (\<lambda>n. w_id (W n)) (set common)" using h_inj set_common by (auto simp: inj_on_def)
  show "distinct (map cw_wheel_id (pl_changed_wheels plan))"
    unfolding pl project_plan.simps by (rule distinct_map_filter_key [OF dcommon g_key inj_common])
  have ch: "\<exists>n \<in> set common. cw_wheel_id c = w_id (W n)" if "c \<in> set (pl_changed_wheels plan)" for c
    using that g_key by (auto simp: pl List.map_filter_def)
  then show "cw_wheel_id ` set (pl_changed_wheels plan) \<subseteq> w_id ` set (wheels db)"
    using W(1) sub set_common by fastforce
  show "\<forall>w \<in> set (wheels db). find (\<lambda>c. cw_wheel_id c = w_id w) (pl_changed_wheels plan)
           = (if w_project w = p then Option.bind (R (w_filename w)) (diff_common (local_view w)) else None)"
  proof
    fix w assume w: "w \<in> set (wheels db)"
    show "find (\<lambda>c. cw_wheel_id c = w_id w) (pl_changed_wheels plan)
           = (if w_project w = p then Option.bind (R (w_filename w)) (diff_common (local_view w)) else None)"
    proof (cases "w_project w = p \<and> R (w_filename w) \<noteq> None")
      case True
      then have wP: "w \<in> set ?P" using w by (simp add: project_wheels_def)
      then have d: "w_filename w \<in> fst ` set d" unfolding keys_d by simp
      then have m: "w_filename w \<in> set common" unfolding set_common using True by blast
      have "find (\<lambda>c. cw_wheel_id c = w_id (W (w_filename w))) (List.map_filter ?g common) = ?g (w_filename w)"
        by (rule find_map_filter_key [OF dcommon g_key inj_common m])
      then show ?thesis using True W(3) [OF d] W_of [OF wP] by (auto simp: pl R_def)
    next
      case False
      have "find (\<lambda>c. cw_wheel_id c = w_id w) (pl_changed_wheels plan) = None"
        unfolding find_None_iff
      proof
        assume "\<exists>c. c \<in> set (pl_changed_wheels plan) \<and> cw_wheel_id c = w_id w"
        then obtain n where n: "n \<in> set common" "w_id w = w_id (W n)" using ch by metis
        have nd: "n \<in> fst ` set d" and nR: "n \<in> dom R" using n(1) unfolding set_common by simp_all
        have "W n \<in> set (wheels db)" using W(1) [OF nd] sub by (rule rev_subsetD)
        then have "w = W n" using id_inj [OF w _ n(2)] by blast
        then have "w_project w = p" "w_filename w = n"
          using W(1) [OF nd] W(2) [OF nd] by (simp_all add: project_wheels_def)
        then show False using False nR by auto
      qed
      then show ?thesis using False by auto
    qed
  qed
  let ?V = "filter (\<lambda>n. lw_deleted_at (the (map_of d n)) = None) vanished"
  have V: "map (\<lambda>n. lw_id (the (map_of d n))) ?V = map (\<lambda>n. w_id (W n)) ?V"
    by (rule map_cong [OF refl]) (use set_van W(3) lw(1) in simp)
  have del: "lw_deleted_at (the (map_of d n)) = w_deleted_at (W n)" if "n \<in> fst ` set d" for n
    using W(3) [OF that] lw(2) [OF that] by simp
  have V_set: "set ?V = {n \<in> fst ` set d. n \<notin> dom R \<and> w_deleted_at (W n) = None}"
    unfolding set_filter set_van
    by (rule Collect_cong, rename_tac n, case_tac "n \<in> fst ` set d") (simp_all add: del)
  show "distinct (pl_vanished_wheel_ids plan)"
    unfolding pl project_plan.simps V distinct_map
    using dvan inj_on_subset [OF h_inj] V_set by auto
  show "set (pl_vanished_wheel_ids plan)
           = w_id ` {w \<in> set ?P. R (w_filename w) = None \<and> w_deleted_at w = None}"
  proof -
    have Weq: "W ` {n \<in> fst ` set d. n \<notin> dom R \<and> w_deleted_at (W n) = None}
        = {w \<in> set ?P. R (w_filename w) = None \<and> w_deleted_at w = None}"
    proof (intro subset_antisym subsetI)
      fix w assume "w \<in> W ` {n \<in> fst ` set d. n \<notin> dom R \<and> w_deleted_at (W n) = None}"
      then obtain n where n: "w = W n" "n \<in> fst ` set d" "n \<notin> dom R" "w_deleted_at (W n) = None" by blast
      then show "w \<in> {w \<in> set ?P. R (w_filename w) = None \<and> w_deleted_at w = None}"
        using W(1) [OF n(2)] W(2) [OF n(2)] by (simp add: domIff)
    next
      fix w assume w: "w \<in> {w \<in> set ?P. R (w_filename w) = None \<and> w_deleted_at w = None}"
      then have "w_filename w \<in> {n \<in> fst ` set d. n \<notin> dom R \<and> w_deleted_at (W n) = None}"
        using W_of by (auto simp: keys_d)
      then show "w \<in> W ` {n \<in> fst ` set d. n \<notin> dom R \<and> w_deleted_at (W n) = None}"
        using W_of w by force
    qed
    have "set (pl_vanished_wheel_ids plan) = (\<lambda>n. w_id (W n)) ` set ?V"
      unfolding pl project_plan.simps V by (rule list.set_map)
    also have "\<dots> = w_id ` W ` {n \<in> fst ` set d. n \<notin> dom R \<and> w_deleted_at (W n) = None}"
      unfolding V_set image_image ..
    finally show ?thesis unfolding Weq .
  qed
qed

section \<open>What applying a plan does to each row\<close>

text \<open>
  The mirror relation: rows of other projects are untouched; a row of the project agrees with its
  file on the page, or is tombstoned when the page has no such file.
\<close>

definition synced :: "string \<Rightarrow> (string \<rightharpoonup> project_file) \<Rightarrow> wheel_row \<Rightarrow> wheel_row \<Rightarrow> bool" where
  "synced p R w w' \<longleftrightarrow> w_id w' = w_id w \<and> w_filename w' = w_filename w \<and> w_project w' = w_project w
     \<and> w_state w' \<in> range state_int
     \<and> (if w_project w \<noteq> p then w' = w
        else case R (w_filename w) of Some f \<Rightarrow> settled w' f | None \<Rightarrow> w_deleted_at w' \<noteq> None)"

lemma touched_row_tombstone:
  assumes "if w_id w \<in> S then \<exists>q t'. seq < q \<and> q \<le> seq' \<and> w' = touch (tombstone t) q t' w else w' = w"
  shows "w_id w' = w_id w \<and> w_filename w' = w_filename w \<and> w_project w' = w_project w
    \<and> (if w_id w \<in> S then w_deleted_at w' \<noteq> None \<and> w_state w' = state_int DELETED else w' = w)"
  using assms by (auto simp: touch_def tombstone_def split: if_splits)

text \<open>Between the updates and the tombstones.\<close>

definition halfway :: "string \<Rightarrow> (string \<rightharpoonup> project_file) \<Rightarrow> wheel_row \<Rightarrow> wheel_row \<Rightarrow> bool" where
  "halfway p R w v \<longleftrightarrow> w_id v = w_id w \<and> w_filename v = w_filename w \<and> w_project v = w_project w
     \<and> w_state v \<in> range state_int
     \<and> (if w_project w \<noteq> p then v = w else case R (w_filename w) of Some f \<Rightarrow> settled v f | None \<Rightarrow> v = w)"

lemma synced_of_halfway:
  assumes "halfway p R w v"
    and "w_id w \<in> S \<longleftrightarrow> w_project w = p \<and> R (w_filename w) = None \<and> w_deleted_at w = None"
    and "if w_id v \<in> S then \<exists>q t'. seq < q \<and> q \<le> seq' \<and> v' = touch (tombstone t) q t' v else v' = v"
  shows "synced p R w v'"
  using assms(1,2) touched_row_tombstone [OF assms(3)]
  by (cases "w_id w \<in> S") (auto simp: halfway_def synced_def simp del: state_int.simps split: option.splits if_splits)

lemma updated_row_synced:
  assumes "updated_row t cs w v" and "w_state w \<in> range state_int"
    and "find (\<lambda>c. cw_wheel_id c = w_id w) cs
      = (if w_project w = p then Option.bind (R (w_filename w)) (diff_common (local_view w)) else None)"
  shows "w_id v = w_id w \<and> w_filename v = w_filename w \<and> w_project v = w_project w \<and> w_state v \<in> range state_int
    \<and> (if w_project w \<noteq> p then v = w else case R (w_filename w) of Some f \<Rightarrow> settled v f | None \<Rightarrow> v = w)"
proof (cases "find (\<lambda>c. cw_wheel_id c = w_id w) cs")
  case None
  then have "v = w" using assms(1) by (simp add: updated_row_def)
  then show ?thesis using assms(2,3) None by (auto simp: settled_def split: option.splits if_splits)
next
  case (Some c)
  then obtain f where f: "w_project w = p" "R (w_filename w) = Some f" "diff_common (local_view w) f = Some c"
    using assms(3) by (auto split: if_splits bind_splits)
  obtain q where v: "v = (fold apply_change (cw_changes c) w)\<lparr>w_change_seq := q, w_updated_at := t\<rparr>"
    using assms(1) Some by (auto simp: updated_row_def)
  obtain s where s: "w_state w = state_int s" using assms(2) by auto
  have "settled v f \<and> w_state v \<in> range state_int"
  proof (cases "w_deleted_at w = None")
    case True
    then have "cw_changes c = diff_changes (local_view w) f"
      using f(3) by (auto simp: diff_common_def local_view_simps [OF s] split: if_splits)
    then show ?thesis using settled_changed [OF s True, where f = f and q = q and t = t] by (auto simp: v)
  next
    case False
    then have "cw_changes c = revive_changes f"
      using f(3) by (auto simp: diff_common_def local_view_simps [OF s] split: if_splits)
    then show ?thesis using settled_revived [where f = f and w = w and q = q and t = t] by (auto simp: v)
  qed
  then show ?thesis using f(1,2) by (simp add: v)
qed

lemma inserted_rows_settled:
  assumes "inserted_rows plan t ns rows"
    and "\<forall>n \<in> set ns. \<exists>f u. R (nw_filename n) = Some f \<and> n = plan_new_wheel f u
      \<and> (\<forall>sha. u = Some sha \<longrightarrow> pf_metadata_sha256 f \<in> {None, Some sha})"
  shows "map w_filename rows = map nw_filename ns"
    and "\<forall>w \<in> set rows. w_project w = pl_project plan \<and> w_state w \<in> range state_int
      \<and> (\<exists>f. R (w_filename w) = Some f \<and> settled w f)"
  using assms unfolding inserted_rows_def
proof (induction rule: list_all2_induct)
  case Nil
  case 1 show ?case by simp
  case 2 show ?case by simp
next
  case (Cons n ns w rows)
  obtain i q where w: "w = (new_wheel_row (pl_project plan) (pl_remote_serial plan) q t n)\<lparr>w_id := i\<rparr>"
    using Cons.hyps(1) by blast
  case 1
  show ?case using Cons.IH(1) 1 by (simp add: w new_wheel_row_def)
  case 2
  obtain f u where f: "R (nw_filename n) = Some f" "n = plan_new_wheel f u"
    "\<forall>sha. u = Some sha \<longrightarrow> pf_metadata_sha256 f \<in> {None, Some sha}"
    using 2 by (meson list.set_intros(1))
  have "settled w f" "w_state w \<in> range state_int"
    using settled_new [of u f] f(3) unfolding w f(2) by blast+
  moreover have "w_project w = pl_project plan" "w_filename w = nw_filename n" by (simp_all add: w new_wheel_row_def)
  ultimately show ?case using Cons.IH(2) 2 f(1) by simp
qed

text \<open>
  What the page and the tables must satisfy: no filename of the page belongs to another project, and
  an archived blob waiting for its wheel is the one the page announces.
\<close>

definition page_fits :: "string \<Rightarrow> (string \<rightharpoonup> project_file) \<Rightarrow> database \<Rightarrow> bool" where
  "page_fits p R db \<longleftrightarrow> (\<forall>w \<in> set (wheels db). w_filename w \<in> dom R \<longrightarrow> w_project w = p)
     \<and> (\<forall>r \<in> set (unlinked_blobs db). \<forall>f. R (ul_filename r) = Some f
          \<longrightarrow> pf_metadata_sha256 f \<in> {None, Some (ul_sha256 r)})"

lemma plan_project_total:
  assumes "wheels_ok db" and "pc \<noteq> 0" and "uc \<noteq> 0"
  shows "\<exists>plan. plan_project pc uc p page db = Inr plan"
proof -
  obtain d where "read_project_wheels pc p db = Inr d" using read_project_wheels_ok [OF assms(1,2)] by blast
  then show ?thesis using assms(3) by (simp add: plan_project_def Let_def read_unlinked_blobs_def)
qed

lemma tombstone_each_effect:
  assumes "distinct ids" and "distinct (map w_id (wheels db))" and "set ids \<subseteq> wheel_ids db"
  shows "\<exists>ws. tombstone_each t ids (db, seq) = (db\<lparr>wheels := ws\<rparr>, seq + int (length ids))
    \<and> touched (tombstone t) (set ids) seq (seq + int (length ids)) (wheels db) ws"
proof -
  have tid: "w_id (tombstone t w) = w_id w" for w by (simp add: tombstone_def)
  have sub: "set ids \<subseteq> w_id ` {w \<in> set (wheels db). True}" using assms(3) by (simp add: wheel_ids_def)
  from touch_each_effect [OF tid assms(1,2) sub, of t 0 seq]
  show ?thesis unfolding tombstone_each_def by (metis snd_conv)
qed

lemma project_op_rows:
  assumes ok: "wheels_ok db" and sizes: "pc \<noteq> 0" "uc \<noteq> 0"
    and plan: "plan_project pc uc p page db = Inr plan"
    and fits: "page_fits p (map_of (remote_files (pp_files page))) db"
  shows "\<exists>r db' seq' ws rows. project_write_op plan t ver (db, seq) = (Inr r, (db', seq'))
    \<and> wheels db' = ws @ rows \<and> list_all2 (synced p (map_of (remote_files (pp_files page)))) (wheels db) ws
    \<and> (\<forall>w \<in> set rows. w_project w = p \<and> w_state w \<in> range state_int
         \<and> (\<exists>f. map_of (remote_files (pp_files page)) (w_filename w) = Some f \<and> settled w f))
    \<and> distinct (map w_filename rows)
    \<and> w_filename ` set rows
        = dom (map_of (remote_files (pp_files page))) - w_filename ` set (project_wheels p db)
    \<and> distinct (map w_id (wheels db')) \<and> (\<forall>w \<in> set (wheels db'). 0 < w_id w)
    \<and> sql_get pi_name p (pypi_index db') = Some \<lparr>pi_name = p, pi_serial = pp_last_serial page, pi_updated_at = t\<rparr>"
proof -
  define R where "R = map_of (remote_files (pp_files page))"
  note facts = plan_facts [OF ok sizes plan, folded R_def]
  let ?ns = "pl_new_wheels plan" and ?cs = "pl_changed_wheels plan" and ?V = "pl_vanished_wheel_ids plan"
  have fits': "page_fits p R db" using fits by (simp add: R_def)
  have ids: "distinct (map w_id (wheels db))" "\<forall>w \<in> set (wheels db). 0 < w_id w"
    and valid: "\<forall>w \<in> set (wheels db). w_state w \<in> range state_int"
    using ok by (auto simp: wheels_ok_def)
  have fresh: "nw_filename ` set ?ns \<inter> w_filename ` set (wheels db) = {}"
    using fits' unfolding facts(4) by (auto simp: page_fits_def project_wheels_def)
  obtain db1 rows where ins: "insert_new_wheels plan t ver ?ns 0 (db, seq) = (Inr (0 + int (length ?ns)), (db1, seq + int (length ?ns)))"
    and w1: "wheels db1 = wheels db @ rows" and rows: "inserted_rows plan t ?ns rows"
    and ids1: "distinct (map w_id (wheels db1))" "\<forall>w \<in> set (wheels db1). 0 < w_id w"
    using insert_new_wheels_fresh [OF facts(3) fresh ids] by blast
  have news: "\<forall>n \<in> set ?ns. \<exists>f u. R (nw_filename n) = Some f \<and> n = plan_new_wheel f u
      \<and> (\<forall>sha. u = Some sha \<longrightarrow> pf_metadata_sha256 f \<in> {None, Some sha})"
    using facts(5) fits' unfolding page_fits_def by metis
  note rows_ok = inserted_rows_settled [OF rows news]
  define st2 where "st2 = fold (update_changed_wheel t) ?cs (db1, seq + int (length ?ns))"
  define st3 where "st3 = tombstone_each t ?V st2"
  have upd: "list_all2 (updated_row t ?cs) (wheels db @ rows) (wheels (fst st2))"
    using updated_rows [OF facts(6), of t "(db1, seq + int (length ?ns))"] by (simp add: st2_def w1)
  then obtain us rs where us: "wheels (fst st2) = us @ rs" "list_all2 (updated_row t ?cs) (wheels db) us"
    "list_all2 (updated_row t ?cs) rows rs"
    by (auto simp: list_all2_append1)
  have disj: "w_id w \<notin> w_id ` set (wheels db)" if "w \<in> set rows" for w
    using ids1(1) that by (auto simp: w1)
  have "rs = rows"
  proof -
    have "list_all2 (=) rows rs"
      using us(3)
    proof (rule list.rel_mono_strong)
      fix w v assume w: "w \<in> set rows" and "updated_row t ?cs w v"
      moreover have "find (\<lambda>c. cw_wheel_id c = w_id w) ?cs = None"
        unfolding find_None_iff using facts(8) disj [OF w] by (metis imageI subsetD)
      ultimately show "w = v" by (simp add: updated_row_def)
    qed
    then show ?thesis by (simp add: list.rel_eq)
  qed
  have mids: "list_all2 (halfway p R) (wheels db) us"
    using us(2)
  proof (rule list.rel_mono_strong)
    fix w v assume "w \<in> set (wheels db)" "updated_row t ?cs w v"
    then show "halfway p R w v" unfolding halfway_def using updated_row_synced facts(7) valid by blast
  qed
  have us_ids: "map w_id us = map w_id (wheels db)"
    using mids by (induction rule: list_all2_induct) (simp_all add: halfway_def)
  have ids2: "distinct (map w_id (wheels (fst st2)))"
    using ids1(1) by (simp add: us(1) \<open>rs = rows\<close> us_ids w1)
  obtain db2 seq2 where st2: "st2 = (db2, seq2)" by (cases st2)
  have w2: "wheels db2 = us @ rows" using us(1) \<open>rs = rows\<close> by (simp add: st2)
  have V_old: "set ?V \<subseteq> wheel_ids db" unfolding facts(10) by (auto simp: project_wheels_def wheel_ids_def)
  have "wheel_ids db = set (map w_id us)" by (simp only: us_ids) (simp add: wheel_ids_def)
  then have V_sub: "set ?V \<subseteq> wheel_ids db2" using V_old by (auto simp: wheel_ids_def w2)
  obtain ys where tomb: "tombstone_each t ?V st2 = (db2\<lparr>wheels := ys\<rparr>, seq2 + int (length ?V))"
    and touch: "touched (tombstone t) (set ?V) seq2 (seq2 + int (length ?V)) (us @ rows) ys"
    using tombstone_each_effect [OF facts(9) _ V_sub, of t seq2] ids2 by (auto simp: st2 w2)
  obtain vs zs where ys: "ys = vs @ zs"
    and vs: "touched (tombstone t) (set ?V) seq2 (seq2 + int (length ?V)) us vs"
    and zs: "touched (tombstone t) (set ?V) seq2 (seq2 + int (length ?V)) rows zs"
    using touch unfolding touched_def list_all2_append1 by blast
  have "zs = rows"
  proof -
    have "list_all2 (=) rows zs"
      using zs unfolding touched_def
    proof (rule list.rel_mono_strong)
      fix w v assume w: "w \<in> set rows" and "if w_id w \<in> set ?V then \<exists>q t'. seq2 < q \<and> q \<le> seq2 + int (length ?V)
          \<and> v = touch (tombstone t) q t' w else v = w"
      moreover have "w_id w \<notin> set ?V" using V_old disj [OF w] by (auto simp: wheel_ids_def)
      ultimately show "w = v" by simp
    qed
    then show ?thesis by (simp add: list.rel_eq)
  qed
  have in_V: "w_id w \<in> set ?V \<longleftrightarrow> w_project w = p \<and> R (w_filename w) = None \<and> w_deleted_at w = None"
    if "w \<in> set (wheels db)" for w
  proof -
    have "w = x" if "x \<in> set (wheels db)" "w_id w = w_id x" for x
      using that \<open>w \<in> set (wheels db)\<close> ids(1) by (auto simp: distinct_map dest: inj_onD)
    then show ?thesis unfolding facts(10) using that by (auto simp: project_wheels_def)
  qed
  have sync: "list_all2 (synced p R) (wheels db) vs"
  proof (rule list_all2_trans [OF _ _ vs [unfolded touched_def]])
    show "list_all2 (\<lambda>w v. w \<in> set (wheels db) \<and> halfway p R w v) (wheels db) us"
      using mids by (rule list.rel_mono_strong) simp
    fix w v v'
    assume w: "w \<in> set (wheels db) \<and> halfway p R w v"
      and v: "if w_id v \<in> set ?V then \<exists>q t'. seq2 < q \<and> q \<le> seq2 + int (length ?V) \<and> v' = touch (tombstone t) q t' v else v' = v"
    have "halfway p R w v" and mem: "w \<in> set (wheels db)" using w by simp_all
    then show "synced p R w v'" using synced_of_halfway [where S = "set ?V" and R = R and p = p and w = w and v = v and v' = v' and t = t,
          OF _ in_V [OF mem] v] by blast
  qed
  have "list_all2 (\<lambda>w w'. w_id w' = w_id w) (wheels db) vs"
    using sync by (rule list.rel_mono_strong) (simp add: synced_def)
  then have vs_ids: "map w_id vs = map w_id (wheels db)"
    by (induction rule: list_all2_induct) simp_all
  let ?db' = "upsert_index p (pl_remote_serial plan) t (db2\<lparr>wheels := ys\<rparr>)"
  have w': "wheels ?db' = vs @ rows" by (simp add: upsert_index_def ys \<open>zs = rows\<close>)
  have "map w_id (wheels ?db') = map w_id (wheels db1)" by (simp add: w' w1 vs_ids)
  then have "distinct (map w_id (wheels ?db'))" "\<forall>i \<in> set (map w_id (wheels ?db')). 0 < i"
    using ids1 by auto
  moreover have "sql_get pi_name p (pypi_index ?db') = Some \<lparr>pi_name = p, pi_serial = pp_last_serial page, pi_updated_at = t\<rparr>"
  proof -
    have "sql_get pi_name p (pypi_index ?db')
        = Some (case sql_get pi_name p (pypi_index db2) of None \<Rightarrow> \<lparr>pi_name = p, pi_serial = pl_remote_serial plan, pi_updated_at = t\<rparr>
            | Some r \<Rightarrow> r\<lparr>pi_serial := pl_remote_serial plan, pi_updated_at := t\<rparr>)"
      by (simp add: upsert_index_def sql_get_upsert)
    then show ?thesis by (auto simp: facts(2) split: option.splits dest!: sql_get_Some)
  qed
  moreover have "project_write_op plan t ver (db, seq)
      = (Inr \<lparr>ar_inserted = int (length ?ns), ar_updated = int (length ?cs), ar_tombstoned = int (length ?V), ar_project_gone = False\<rparr>,
         (?db', seq2 + int (length ?V)))"
    using ins tomb by (simp add: project_write_op_def st2_def [symmetric] facts(1))
  moreover have "distinct (map w_filename rows)" "w_filename ` set rows = dom R - w_filename ` set (project_wheels p db)"
    using rows_ok(1) facts(3,4) by (simp, metis list.set_map)
  ultimately show ?thesis
    unfolding R_def [symmetric]
    using sync w' rows_ok(2) facts(1) by (intro exI conjI) auto
qed

section \<open>Properties of ingest\<close>

definition columns_match :: "wheel_row \<Rightarrow> project_file \<Rightarrow> bool" where
  "columns_match w f \<longleftrightarrow> w_url w = pf_url f \<and> w_wheel_sha256 w = pf_wheel_sha256 f
     \<and> w_metadata_sha256 w = pf_metadata_sha256 f \<and> w_size w = pf_size f \<and> w_upload_time w = pf_upload_time f
     \<and> w_requires_python w = pf_requires_python f \<and> w_yanked w = pf_yanked f
     \<and> w_yanked_reason w = pf_yanked_reason f"

lemma settled_match: "settled w f \<Longrightarrow> w_state w \<in> range state_int \<Longrightarrow> w_deleted_at w = None \<and> columns_match w f"
  using settled_iff by (auto simp: columns_match_def)

lemma synced_filter_other:
  "list_all2 (synced p R) ws vs \<Longrightarrow> filter (\<lambda>w. w_project w \<noteq> p) vs = filter (\<lambda>w. w_project w \<noteq> p) ws"
  by (induction rule: list_all2_induct) (auto simp: synced_def)

lemma synced_names: "list_all2 (synced p R) ws vs \<Longrightarrow> map w_filename vs = map w_filename ws"
  by (induction rule: list_all2_induct) (simp_all add: synced_def)

text \<open>A database whose project rows all agree with the page gives an empty plan.\<close>

lemma empty_plan:
  assumes ok: "wheels_ok db" and sizes: "pc \<noteq> 0" "uc \<noteq> 0"
    and all: "dom (map_of (remote_files (pp_files page))) \<subseteq> w_filename ` set (project_wheels p db)"
    and rows: "\<forall>w \<in> set (project_wheels p db). case map_of (remote_files (pp_files page)) (w_filename w) of
       Some f \<Rightarrow> settled w f | None \<Rightarrow> w_deleted_at w \<noteq> None"
  shows "plan_project pc uc p page db = Inr \<lparr>pl_project = p, pl_remote_serial = pp_last_serial page,
    pl_new_wheels = [], pl_changed_wheels = [], pl_vanished_wheel_ids = []\<rparr>"
proof -
  define R where "R = map_of (remote_files (pp_files page))"
  obtain plan where plan: "plan_project pc uc p page db = Inr plan" using plan_project_total [OF ok sizes] by blast
  note facts = plan_facts [OF ok sizes plan, folded R_def]
  have "nw_filename ` set (pl_new_wheels plan) = {}" unfolding facts(4) using all by (simp add: R_def)
  then have "pl_new_wheels plan = []" by simp
  moreover have "pl_changed_wheels plan = []"
  proof (rule ccontr)
    assume "pl_changed_wheels plan \<noteq> []"
    then obtain c where c: "c \<in> set (pl_changed_wheels plan)" by (meson last_in_set)
    then obtain w where w: "w \<in> set (wheels db)" "w_id w = cw_wheel_id c" using facts(8) by force
    have "find (\<lambda>c. cw_wheel_id c = w_id w) (pl_changed_wheels plan) \<noteq> None"
      unfolding find_None_iff using c w(2) by auto
    then obtain f where "w_project w = p" "R (w_filename w) = Some f" "diff_common (local_view w) f \<noteq> None"
      using bspec [OF facts(7) w(1)] by (auto split: if_splits bind_splits)
    then show False using rows w(1) by (auto simp: R_def project_wheels_def settled_def)
  qed
  moreover have "pl_vanished_wheel_ids plan = []"
  proof -
    have "{w \<in> set (project_wheels p db). R (w_filename w) = None \<and> w_deleted_at w = None} = {}"
      using rows by (auto simp: R_def split: option.splits)
    then have "set (pl_vanished_wheel_ids plan) = {}" unfolding facts(10) by (simp only: image_empty)
    then show ?thesis by (simp only: set_empty)
  qed
  ultimately show ?thesis using plan facts(1,2) by (cases plan) simp
qed

text \<open>
  C2. Reconciliation: applying the plan of a project page makes the stored rows of the project a mirror
  of the page. Every wheel file of the page has a live row with exactly its columns, every other row
  of the project is tombstoned and none is removed, no row of another project changes, the project's
  serial is the page's, and syncing the same page again finds nothing to write.
\<close>

theorem sync_reconciles_project:
  assumes ok: "wheels_ok db" and sizes: "pc \<noteq> 0" "uc \<noteq> 0"
    and plan: "plan_project pc uc p page db = Inr plan"
    and fits: "page_fits p (map_of (remote_files (pp_files page))) db"
  shows "\<exists>r db' seq'. exec_step (project_write_op plan t ver) (db, seq) = (Inr r, (db', seq'))
    \<and> wheels_ok db'
    \<and> (\<forall>n f. map_of (remote_files (pp_files page)) n = Some f \<longrightarrow>
         (\<exists>w \<in> set (wheels db'). w_filename w = n \<and> w_project w = p \<and> w_deleted_at w = None \<and> columns_match w f))
    \<and> (\<forall>w \<in> set (project_wheels p db'). map_of (remote_files (pp_files page)) (w_filename w) = None \<longrightarrow> w_deleted_at w \<noteq> None)
    \<and> w_filename ` set (wheels db) \<subseteq> w_filename ` set (wheels db')
    \<and> filter (\<lambda>w. w_project w \<noteq> p) (wheels db') = filter (\<lambda>w. w_project w \<noteq> p) (wheels db)
    \<and> sql_get pi_name p (pypi_index db') = Some \<lparr>pi_name = p, pi_serial = pp_last_serial page, pi_updated_at = t\<rparr>
    \<and> plan_project pc uc p page db' = Inr \<lparr>pl_project = p, pl_remote_serial = pp_last_serial page,
         pl_new_wheels = [], pl_changed_wheels = [], pl_vanished_wheel_ids = []\<rparr>"
proof -
  define R where "R = map_of (remote_files (pp_files page))"
  obtain r db' seq' ws rows where op: "project_write_op plan t ver (db, seq) = (Inr r, (db', seq'))"
    and w': "wheels db' = ws @ rows" and sync: "list_all2 (synced p R) (wheels db) ws"
    and rows: "\<forall>w \<in> set rows. w_project w = p \<and> w_state w \<in> range state_int \<and> (\<exists>f. R (w_filename w) = Some f \<and> settled w f)"
    and names: "distinct (map w_filename rows)" "w_filename ` set rows = dom R - w_filename ` set (project_wheels p db)"
    and ids: "distinct (map w_id (wheels db'))" "\<forall>w \<in> set (wheels db'). 0 < w_id w"
    and idx: "sql_get pi_name p (pypi_index db') = Some \<lparr>pi_name = p, pi_serial = pp_last_serial page, pi_updated_at = t\<rparr>"
    using project_op_rows [OF ok sizes plan fits, where t = t and ver = ver and seq = seq] unfolding R_def by blast
  have ws_names: "map w_filename ws = map w_filename (wheels db)" by (rule synced_names [OF sync])
  have old: "\<exists>v \<in> set (wheels db). synced p R v w" if "w \<in> set ws" for w
    using list_all2_preimage [OF sync that] .
  have img: "\<exists>w \<in> set ws. synced p R v w" if "v \<in> set (wheels db)" for v
    using list_all2_image [OF sync that] .
  have fresh: "w_filename ` set rows \<inter> w_filename ` set (wheels db) = {}"
    using fits names(2) by (auto simp: page_fits_def project_wheels_def R_def)
  have states: "\<forall>w \<in> set (wheels db'). w_state w \<in> range state_int"
    using old rows by (auto simp: w' synced_def)
  have "distinct (map w_filename (wheels db'))"
  proof -
    have "set (map w_filename ws) = w_filename ` set (wheels db)" by (simp only: ws_names list.set_map)
    then show ?thesis using ok names(1) fresh by (auto simp: w' ws_names wheels_ok_def)
  qed
  then have ok': "wheels_ok db'" using ids states by (simp add: wheels_ok_def)
  have proj: "case R (w_filename w) of Some f \<Rightarrow> settled w f | None \<Rightarrow> w_deleted_at w \<noteq> None"
    if w: "w \<in> set (project_wheels p db')" for w
  proof (cases "w \<in> set rows")
    case True
    then show ?thesis using rows by auto
  next
    case False
    then obtain v where "synced p R v w" using w old by (auto simp: project_wheels_def w')
    then show ?thesis using w by (auto simp: synced_def project_wheels_def)
  qed
  have all: "dom R \<subseteq> w_filename ` set (project_wheels p db')"
  proof
    fix n assume n: "n \<in> dom R"
    show "n \<in> w_filename ` set (project_wheels p db')"
    proof (cases "n \<in> w_filename ` set (project_wheels p db)")
      case True
      then obtain v where v: "v \<in> set (wheels db)" "w_project v = p" "w_filename v = n" by (auto simp: project_wheels_def)
      then obtain w where "w \<in> set ws" "synced p R v w" using img by blast
      then have "w_filename w = n" "w \<in> set (project_wheels p db')"
        using v by (auto simp: synced_def project_wheels_def w')
      then show ?thesis by (rule image_eqI [OF sym])
    next
      case False
      then have "n \<in> w_filename ` set rows" using n names(2) by blast
      then show ?thesis using rows by (auto simp: project_wheels_def w')
    qed
  qed
  have mirror: "\<exists>w \<in> set (wheels db'). w_filename w = n \<and> w_project w = p \<and> w_deleted_at w = None \<and> columns_match w f"
    if f: "R n = Some f" for n f
  proof -
    obtain w where w: "w \<in> set (project_wheels p db')" "w_filename w = n" using all f by blast
    then have "settled w f" using proj [OF w(1)] f by simp
    then show ?thesis using w states settled_match by (auto simp: project_wheels_def)
  qed
  have "filter (\<lambda>w. w_project w \<noteq> p) (wheels db') = filter (\<lambda>w. w_project w \<noteq> p) (wheels db)"
    using synced_filter_other [OF sync] rows by (simp add: w' filter_empty_conv)
  moreover have "w_filename ` set (wheels db) \<subseteq> w_filename ` set (wheels db')"
    using arg_cong [OF ws_names, of set] by (auto simp: w')
  moreover have "plan_project pc uc p page db' = Inr \<lparr>pl_project = p, pl_remote_serial = pp_last_serial page,
         pl_new_wheels = [], pl_changed_wheels = [], pl_vanished_wheel_ids = []\<rparr>"
    by (rule empty_plan [OF ok' sizes]) (use all proj in \<open>simp_all add: R_def\<close>)
  moreover have "\<forall>w \<in> set (project_wheels p db'). R (w_filename w) = None \<longrightarrow> w_deleted_at w \<noteq> None"
  proof (intro ballI impI)
    fix w assume "w \<in> set (project_wheels p db')" "R (w_filename w) = None"
    then show "w_deleted_at w \<noteq> None" using proj [of w] by simp
  qed
  moreover have "exec_step (project_write_op plan t ver) (db, seq) = (Inr r, (db', seq'))"
    by (simp add: exec_step_def op)
  ultimately show ?thesis unfolding R_def [symmetric] using ok' mirror idx by blast
qed

definition demo_page :: project_page where
  "demo_page = \<lparr>pp_last_serial = 7, pp_files = [demo_file\<lparr>pf_filename := ''1.whl''\<rparr>, demo_file\<lparr>pf_filename := ''n.whl''\<rparr>]\<rparr>"

definition ingest_db :: database where
  "ingest_db = empty_db\<lparr>wheels := [(demo_wheel 1 READY 0)\<lparr>w_filename := ''1.whl''\<rparr>, (demo_wheel 2 READY 0)\<lparr>w_filename := ''gone.whl''\<rparr>]\<rparr>"

theorem sync_reconciles_project_witness:
  "\<exists>plan r db' seq'. plan_project 5000 500 ''p'' demo_page ingest_db = Inr plan
    \<and> exec_step (project_write_op plan 9 ''1'') (ingest_db, 2) = (Inr r, (db', seq'))
    \<and> plan_project 5000 500 ''p'' demo_page db' = Inr \<lparr>pl_project = ''p'', pl_remote_serial = 7,
         pl_new_wheels = [], pl_changed_wheels = [], pl_vanished_wheel_ids = []\<rparr>"
proof -
  have ok: "wheels_ok ingest_db" by (simp add: wheels_ok_def ingest_db_def empty_db_def demo_wheel_def) (metis rangeI state_int.simps(4))
  have sz: "(5000 :: int) \<noteq> 0" "(500 :: int) \<noteq> 0" by simp_all
  have fits: "page_fits ''p'' (map_of (remote_files (pp_files demo_page))) ingest_db"
    by (simp add: page_fits_def ingest_db_def empty_db_def demo_wheel_def)
  obtain plan where plan: "plan_project 5000 500 ''p'' demo_page ingest_db = Inr plan"
    using plan_project_total [OF ok sz] by blast
  have "pp_last_serial demo_page = 7" by (simp add: demo_page_def)
  then show ?thesis using sync_reconciles_project [OF ok sz plan fits, where t = 9 and ver = "''1''" and seq = 2] plan by metis
qed

end
