(* ===== verification/Ingest_Effects.thy ===== *)
theory Ingest_Effects
  imports Ingest
begin

text \<open>
  What the operations of \<^verbatim>\<open>ingest.py\<close> amount to: which projects a poll finds stale, what the operation for
  a project that is gone does to the tables, and that no sync touches the \<open>work\<close> table, so that a
  quarantine outlives the reset of its wheel.
\<close>

section \<open>Staleness, gone projects and quarantine\<close>

lemma map_of_local_serials:
  assumes "distinct (map pi_name (pypi_index db))" and "\<forall>r \<in> set (pypi_index db). pi_name r \<noteq> []" and "chunk_size \<noteq> 0"
  shows "map_of (read_local_serials chunk_size db) n = map_option pi_serial (sql_get pi_name n (pypi_index db))"
proof -
  have "after (Some []) s" if "s \<noteq> []" for s :: string
    using that by (simp add: after_def less_le)
  then have all: "filter (\<lambda>r. after (Some []) (pi_name r)) (pypi_index db) = pypi_index db"
    unfolding filter_id_conv using assms(2) by auto
  have pages: "concat (keyset_pages pi_name chunk_size (pypi_index db) (Some [])) = sort_key pi_name (pypi_index db)"
    using concat_keyset_pages [OF assms(1,3), of "Some []"] all by simp
  have ns: "distinct (map pi_name (sort_key pi_name (pypi_index db)))" using assms(1) by (simp add: distinct_map_sort)
  show ?thesis
    unfolding read_local_serials_def pages
    using map_of_dict_of [OF ns, of pi_serial n] sql_get_same_set [OF ns assms(1)] by simp
qed

text \<open>
  A poll reports exactly the projects that need a sync, in the order of the index: those with no
  local row and those whose local serial is behind, whatever the size of the pages in which the local
  serials are read.
\<close>

theorem poll_finds_stale_projects:
  assumes "distinct (map pi_name (pypi_index db))" and "\<forall>r \<in> set (pypi_index db). pi_name r \<noteq> []" and "chunk_size \<noteq> 0"
  shows "pr_stale_projects (poll_index chunk_size etag (Some (last_serial, projects)) db)
    = map ie_name (filter (\<lambda>p. \<not> (\<exists>r \<in> set (pypi_index db). pi_name r = ie_name p \<and> ie_serial p \<le> pi_serial r)) projects)"
proof -
  have "(case map_of (read_local_serials chunk_size db) (ie_name p) of None \<Rightarrow> True | Some s \<Rightarrow> s < ie_serial p)
      \<longleftrightarrow> \<not> (\<exists>r \<in> set (pypi_index db). pi_name r = ie_name p \<and> ie_serial p \<le> pi_serial r)" for p :: index_entry
  proof (cases "sql_get pi_name (ie_name p) (pypi_index db)")
    case None
    then have "\<not> (\<exists>r \<in> set (pypi_index db). pi_name r = ie_name p)" by (auto simp: sql_get_def find_None_iff)
    then show ?thesis using None by (auto simp: map_of_local_serials [OF assms])
  next
    case (Some r)
    then have r: "r \<in> set (pypi_index db)" "pi_name r = ie_name p"
      using sql_get_iff [OF assms(1)] by auto
    have inj: "inj_on pi_name (set (pypi_index db))" using assms(1) by (simp add: distinct_map)
    have "r' = r" if "r' \<in> set (pypi_index db)" "pi_name r' = ie_name p" for r'
      by (rule inj_onD [OF inj]) (use that r in simp_all)
    then have "(\<exists>r \<in> set (pypi_index db). pi_name r = ie_name p \<and> ie_serial p \<le> pi_serial r) \<longleftrightarrow> ie_serial p \<le> pi_serial r"
      using r by blast
    then show ?thesis using Some by (simp add: map_of_local_serials [OF assms] not_le)
  qed
  then show ?thesis by (simp only: poll_index_def stale_projects_def option.case prod.case poll_result.simps)
qed

definition live_in :: "string \<Rightarrow> wheel_row \<Rightarrow> bool" where
  "live_in name w \<longleftrightarrow> w_project w = name \<and> w_deleted_at w = None"

lemma tombstone_id [simp]: "w_id (tombstone t w) = w_id w"
  by (simp add: tombstone_def)

lemma touched_live:
  "touched (tombstone t) S seq seq' ws ws' \<Longrightarrow> filter (live_in name) ws' = filter (\<lambda>w. w_id w \<notin> S) (filter (live_in name) ws)"
  unfolding touched_def
proof (induction rule: list_all2_induct)
  case Nil
  then show ?case by simp
next
  case (Cons w ws w' ws')
  have "\<not> live_in name w'" if "w_id w \<in> S"
    using Cons(1) that by (auto simp: touch_def tombstone_def live_in_def)
  then show ?case using Cons by (cases "w_id w \<in> S") auto
qed

lemma filter_drop_page:
  assumes "distinct (map key (P @ ys))"
  shows "filter (\<lambda>r. key r \<notin> key ` set P) (P @ ys) = ys"
  using assms by (auto simp: filter_empty_conv filter_id_conv)

lemma tombstone_project_effect:
  assumes "distinct (map w_id (wheels db))" and "limit \<noteq> 0"
  shows "\<exists>ws. tombstone_project name limit t k (db, seq)
      = (k + rowcount (live_in name) (wheels db), (db\<lparr>wheels := ws\<rparr>, seq + rowcount (live_in name) (wheels db)))
    \<and> touched (tombstone t) (w_id ` {w \<in> set (wheels db). live_in name w}) seq
        (seq + rowcount (live_in name) (wheels db)) (wheels db) ws"
  using assms(1)
proof (induction "length (filter (live_in name) (wheels db))" arbitrary: db seq k rule: less_induct)
  case less
  define L where "L = filter (live_in name) (wheels db)"
  define P where "P = sql_limit limit L"
  have q: "gone_query name limit db = map w_id P"
    by (simp add: gone_query_def P_def L_def live_in_def [abs_def])
  show ?case
  proof (cases "L = []")
    case True
    then have "P = []" by (simp add: P_def sql_limit_def)
    then have "gone_query name limit db = []" using q by simp
    moreover have none: "{w \<in> set (wheels db). live_in name w} = {}" using True by (auto simp: L_def filter_empty_conv)
    moreover have "touched (tombstone t) (w_id ` {w \<in> set (wheels db). live_in name w}) seq seq (wheels db) (wheels db)"
      unfolding none by (simp add: touched_refl)
    moreover have "rowcount (live_in name) (wheels db) = 0" using True by (simp add: rowcount_def L_def)
    ultimately show ?thesis
      by (subst tombstone_project.simps) (intro exI [of _ "wheels db"], simp)
  next
    case False
    then have P: "P \<noteq> []" using assms(2) by (simp add: P_def sql_limit_neq_Nil)
    obtain ys where L: "L = P @ ys" using sql_limit_append_rest [of L limit] by (auto simp: P_def)
    have dL: "distinct (map w_id L)" using less.prems by (simp add: L_def distinct_map_filter)
    have sub: "set (map w_id P) \<subseteq> w_id ` {w \<in> set (wheels db). True}"
      using sql_limit_subset [of limit L] by (auto simp: P_def L_def)
    define ws1 where "ws1 = wheels (fst (snd (touch_each (\<lambda>_. True) (tombstone t) t (map w_id P) 0 (db, seq))))"
    have dP: "distinct (map w_id P)" using dL L by simp
    from touch_each_effect [OF tombstone_id dP less.prems sub, where a = 0 and seq = seq and now_iso = t]
    have eff: "touch_each (\<lambda>_. True) (tombstone t) t (map w_id P) 0 (db, seq) = (int (length P), (db\<lparr>wheels := ws1\<rparr>, seq + int (length P)))"
      and tch: "touched (tombstone t) (w_id ` set P) seq (seq + int (length P)) (wheels db) ws1"
      by (simp_all add: ws1_def)
    have L1: "filter (live_in name) ws1 = ys"
      unfolding touched_live [OF tch] L_def [symmetric] L by (rule filter_drop_page) (use dL L in simp)
    have n: "rowcount (live_in name) (wheels db) = int (length P) + int (length ys)"
      using L by (simp add: rowcount_def L_def)
    have d1: "distinct (map w_id ws1)" using touched_ids [OF tombstone_id tch] less.prems by simp
    have shorter: "length (filter (live_in name) (wheels (db\<lparr>wheels := ws1\<rparr>))) < length (filter (live_in name) (wheels db))"
      using L1 L P by (simp add: L_def)
    obtain ws where rest: "tombstone_project name limit t (k + int (length P)) (db\<lparr>wheels := ws1\<rparr>, seq + int (length P))
        = (k + int (length P) + int (length ys), (db\<lparr>wheels := ws\<rparr>, seq + int (length P) + int (length ys)))"
      and tch2: "touched (tombstone t) (w_id ` {w \<in> set ws1. live_in name w}) (seq + int (length P))
        (seq + int (length P) + int (length ys)) ws1 ws"
      using less.hyps [OF shorter, where seq = "seq + int (length P)" and k = "k + int (length P)"] d1 L1
      by (auto simp: rowcount_def)
    have ys: "{w \<in> set ws1. live_in name w} = set ys" using arg_cong [OF L1, of set] by simp
    have "touched (tombstone t) (w_id ` set P \<union> w_id ` set ys) seq (seq + int (length P) + int (length ys)) (wheels db) ws"
      by (rule touched_trans [OF tombstone_id tch tch2 [unfolded ys]]) (use dL L in auto)
    moreover have "w_id ` set P \<union> w_id ` set ys = w_id ` {w \<in> set (wheels db). live_in name w}"
      using arg_cong [OF L, of set] by (simp add: L_def image_Un [symmetric])
    moreover have "tombstone_project name limit t k (db, seq)
        = tombstone_project name limit t (k + int (length P)) (db\<lparr>wheels := ws1\<rparr>, seq + int (length P))"
      by (subst tombstone_project.simps) (simp add: q P tombstone_each_def eff)
    ultimately show ?thesis using rest by (intro exI [of _ ws]) (simp add: n add.assoc)
  qed
qed

lemma gone_write_op_effect:
  assumes "distinct (map w_id (wheels db))"
  shows "\<exists>ws. exec_step (gone_write_op name t) (db, seq)
      = (Inr \<lparr>ar_inserted = 0, ar_updated = 0,
              ar_tombstoned = int (length (filter (live_in name) (wheels db))), ar_project_gone = True\<rparr>,
         (db\<lparr>wheels := ws, pypi_index := filter (\<lambda>r. pi_name r \<noteq> name) (pypi_index db)\<rparr>,
          seq + int (length (filter (live_in name) (wheels db)))))
    \<and> list_all2 (\<lambda>w w'. if live_in name w
          then \<exists>q u. seq < q \<and> q \<le> seq + int (length (filter (live_in name) (wheels db)))
            \<and> w' = w\<lparr>w_deleted_at := Some t, w_state := state_int DELETED, w_change_seq := q, w_updated_at := u\<rparr>
          else w' = w) (wheels db) ws"
proof -
  have nz: "DEFAULT_GONE_CHUNK_SIZE \<noteq> 0" by (simp add: DEFAULT_GONE_CHUNK_SIZE_def)
  obtain ws where op: "tombstone_project name DEFAULT_GONE_CHUNK_SIZE t 0 (db, seq)
      = (0 + rowcount (live_in name) (wheels db), (db\<lparr>wheels := ws\<rparr>, seq + rowcount (live_in name) (wheels db)))"
    and tch: "touched (tombstone t) (w_id ` {w \<in> set (wheels db). live_in name w}) seq
        (seq + rowcount (live_in name) (wheels db)) (wheels db) ws"
    using tombstone_project_effect [OF assms nz] by blast
  have mem: "w_id w \<in> w_id ` {w \<in> set (wheels db). live_in name w} \<longleftrightarrow> live_in name w" if "w \<in> set (wheels db)" for w
    using that assms by (auto simp: distinct_map dest: inj_onD)
  have "list_all2 (\<lambda>w w'. if live_in name w
          then \<exists>q u. seq < q \<and> q \<le> seq + int (length (filter (live_in name) (wheels db)))
            \<and> w' = w\<lparr>w_deleted_at := Some t, w_state := state_int DELETED, w_change_seq := q, w_updated_at := u\<rparr>
          else w' = w) (wheels db) ws"
    using tch unfolding touched_def rowcount_def
    by (rule list.rel_mono_strong) (simp only: mem touch_def tombstone_def)
  moreover have "exec_step (gone_write_op name t) (db, seq)
      = (Inr \<lparr>ar_inserted = 0, ar_updated = 0,
              ar_tombstoned = int (length (filter (live_in name) (wheels db))), ar_project_gone = True\<rparr>,
         (db\<lparr>wheels := ws, pypi_index := filter (\<lambda>r. pi_name r \<noteq> name) (pypi_index db)\<rparr>,
          seq + int (length (filter (live_in name) (wheels db)))))"
    using op by (simp add: exec_step_def gone_write_op_def rowcount_def sql_delete_def)
  ultimately show ?thesis by blast
qed

text \<open>
  A project that is gone (a 404) loses its index row and every one of its live wheels is tombstoned
  exactly once, each under its own new sequence number, and counted; rows already tombstoned, the
  wheels of other projects and every other table stay as they are. The unbounded loop of the
  operation ends for every number of wheels.
\<close>

theorem gone_project_is_tombstoned:
  assumes "distinct (map w_id (wheels db))"
  shows "\<exists>ws. exec_step (gone_write_op name t) (db, seq)
      = (Inr \<lparr>ar_inserted = 0, ar_updated = 0,
              ar_tombstoned = int (length (filter (live_in name) (wheels db))), ar_project_gone = True\<rparr>,
         (db\<lparr>wheels := ws, pypi_index := filter (\<lambda>r. pi_name r \<noteq> name) (pypi_index db)\<rparr>,
          seq + int (length (filter (live_in name) (wheels db)))))
    \<and> list_all2 (\<lambda>w w'. if live_in name w
          then \<exists>q u. seq < q \<and> q \<le> seq + int (length (filter (live_in name) (wheels db)))
            \<and> w' = w\<lparr>w_deleted_at := Some t, w_state := state_int DELETED, w_change_seq := q, w_updated_at := u\<rparr>
          else w' = w) (wheels db) ws"
  by (rule gone_write_op_effect [OF assms])

text \<open>No operation of ingest writes the \<open>work\<close> table.\<close>

lemma insert_new_wheels_work:
  "work (fst (snd (insert_new_wheels plan t ver ns k st))) = work (fst st)"
proof (induction ns arbitrary: k st)
  case Nil
  then show ?case by simp
next
  case (Cons n ns)
  have "work (fst (snd (insert_new_wheel plan t ver n k st))) = work (fst st)"
    by (auto simp: insert_new_wheel_def next_seq_def record_duplicate_filename_def insert_wheel_def insert_error_def
        split: prod.splits sum.splits if_splits option.splits)
  then show ?case using Cons.IH by (auto split: prod.splits sum.splits)
qed

lemma update_changed_wheels_work: "work (fst (fold (update_changed_wheel t) cs st)) = work (fst st)"
  by (induction cs arbitrary: st)
    (simp_all add: update_changed_wheel_def next_seq_def update_wheels_def Let_def split: prod.splits)

lemma tombstone_each_work: "work (fst (tombstone_each t ids st)) = work (fst st)"
  using touch_each_frame [of "\<lambda>_. True" "tombstone t" t ids 0 "fst st" "snd st"]
  by (auto simp: tombstone_each_def)

lemma project_write_op_work:
  "work (fst (snd (project_write_op plan t ver st))) = work (fst st)"
proof -
  obtain r st1 where ins: "insert_new_wheels plan t ver (pl_new_wheels plan) 0 st = (r, st1)" by (metis surj_pair)
  then have "work (fst st1) = work (fst st)"
    using insert_new_wheels_work [of plan t ver "pl_new_wheels plan" 0 st] by simp
  moreover obtain db seq where st2: "tombstone_each t (pl_vanished_wheel_ids plan)
      (fold (update_changed_wheel t) (pl_changed_wheels plan) st1) = (db, seq)" by fastforce
  moreover have "work db = work (fst st1)"
    using tombstone_each_work [of t "pl_vanished_wheel_ids plan"] update_changed_wheels_work [of t "pl_changed_wheels plan" st1] st2
    by (metis fst_conv)
  ultimately show ?thesis using ins
    by (cases r) (simp_all add: project_write_op_def upsert_index_def)
qed

text \<open>
  Quarantine survives a reset by ingest: a sync puts a wheel that reappeared, or whose published hash
  changed, back to \<^verbatim>\<open>NEED_METADATA\<close>, but no sync clears its work row, so a wheel quarantined at a stage is
  never claimed at that stage again, at any time, whatever the syncs write.
\<close>

theorem sync_keeps_quarantine:
  assumes "r \<in> set (work db)" and "wk_stage r = stage_value stg" and "wk_quarantined_at r \<noteq> None"
  shows "\<forall>w \<in> set (claim_query stg cursor fl now limit
      (fst (snd (exec_step (project_write_op plan t ver) (db, seq))))). w_id w \<noteq> wk_wheel_id r"
proof -
  let ?db = "fst (snd (exec_step (project_write_op plan t ver) (db, seq)))"
  have "work ?db = work db"
    using project_write_op_work [of plan t ver "(db, seq)"]
    by (auto simp: exec_step_def split: prod.splits sum.splits)
  then have "deferred stg now ?db (wk_wheel_id r)" using assms by (auto simp: deferred_def)
  then show ?thesis using sql_limit_subset by (fastforce simp: claim_query_def)
qed

definition quarantined_db :: database where
  "quarantined_db = empty_db\<lparr>wheels := [(demo_wheel 1 DELETED 0)\<lparr>w_filename := ''1.whl'', w_deleted_at := Some 5\<rparr>],
     work := [\<lparr>wk_wheel_id = 1, wk_stage = stage_value FETCH, wk_attempts = 9, wk_next_attempt_at = 0,
               wk_last_error = None, wk_quarantined_at = Some 4\<rparr>]\<rparr>"

end
