(* ===== verification/Byte_Queue.thy ===== *)
theory Byte_Queue
  imports Schema
begin

text \<open>
  The byte-budgeted handoff queue of \<^verbatim>\<open>fetch.py\<close>. The critical sections are functions on the queue; a
  result \<^const>\<open>None\<close> is a thread that waits on its condition variable. The interleavings of producers and
  consumers, with the wait sets of the two condition variables and the wake-ups that \<^verbatim>\<open>notify\<close> sends, are
  a step relation over those functions. An item is charged \<open>sz item\<close> bytes, the length of its data, by
  both \<^verbatim>\<open>put\<close> and \<^verbatim>\<open>release\<close>.
\<close>

section \<open>Critical sections\<close>

record 'a byte_queue =
  bq_budget :: int
  bq_items :: "'a list"
  bq_current :: int
  bq_closed :: bool

definition DEFAULT_QUEUE_BUDGET_BYTES :: int where
  "DEFAULT_QUEUE_BUDGET_BYTES = 256 * 1024 * 1024"

definition new_queue :: "int \<Rightarrow> 'a byte_queue res" where
  "new_queue budget =
     (if budget \<le> 0 then Inl ValueError
      else Inr \<lparr>bq_budget = budget, bq_items = [], bq_current = 0, bq_closed = False\<rparr>)"

text \<open>The loop condition of \<^verbatim>\<open>put\<close>.\<close>

definition must_wait :: "int \<Rightarrow> 'a byte_queue \<Rightarrow> bool" where
  "must_wait n q \<longleftrightarrow> \<not> bq_closed q \<and> 0 < bq_current q \<and> bq_budget q < bq_current q + n"

definition bq_put :: "'a \<Rightarrow> int \<Rightarrow> 'a byte_queue \<Rightarrow> 'a byte_queue res option" where
  "bq_put item n q =
     (if must_wait n q then None
      else if bq_closed q then Some (Inl QueueClosed)
      else Some (Inr (q\<lparr>bq_items := bq_items q @ [item], bq_current := bq_current q + n\<rparr>)))"

definition bq_get :: "'a byte_queue \<Rightarrow> ('a option \<times> 'a byte_queue) option" where
  "bq_get q =
     (case bq_items q of
        [] \<Rightarrow> if bq_closed q then Some (None, q) else None
      | item # rest \<Rightarrow> Some (Some item, q\<lparr>bq_items := rest\<rparr>))"

definition bq_release :: "int \<Rightarrow> 'a byte_queue \<Rightarrow> 'a byte_queue" where
  "bq_release n q = q\<lparr>bq_current := bq_current q - n\<rparr>"

definition bq_close :: "'a byte_queue \<Rightarrow> 'a byte_queue" where
  "bq_close q = q\<lparr>bq_closed := True\<rparr>"

section \<open>Threads\<close>

text \<open>
  The waiting producers with their items, in the order they wait; those notified that have not yet
  taken the lock again; the same for consumers; the items popped and not yet released; and the
  histories of items accepted and handed out.
\<close>

record 'a queue_sys =
  qs_queue :: "'a byte_queue"
  qs_putting :: "'a list"
  qs_put_woken :: "'a list"
  qs_getting :: nat
  qs_get_woken :: nat
  qs_held :: "'a list"
  qs_accepted :: "'a list"
  qs_handed_out :: "'a list"

definition notify_get :: "'a queue_sys \<Rightarrow> 'a queue_sys" where
  "notify_get s = (if qs_getting s = 0 then s
     else s\<lparr>qs_getting := qs_getting s - 1, qs_get_woken := qs_get_woken s + 1\<rparr>)"

definition notify_put :: "'a queue_sys \<Rightarrow> 'a queue_sys" where
  "notify_put s = (case qs_putting s of [] \<Rightarrow> s
     | x # xs \<Rightarrow> s\<lparr>qs_putting := xs, qs_put_woken := qs_put_woken s @ [x]\<rparr>)"

text \<open>One pass of a producer and of a consumer through their loops, holding the lock.\<close>

definition try_put :: "('a \<Rightarrow> nat) \<Rightarrow> 'a \<Rightarrow> 'a queue_sys \<Rightarrow> 'a queue_sys" where
  "try_put sz x s =
     (case bq_put x (int (sz x)) (qs_queue s) of
        None \<Rightarrow> s\<lparr>qs_putting := qs_putting s @ [x]\<rparr>
      | Some (Inl e) \<Rightarrow> s
      | Some (Inr q) \<Rightarrow> notify_get (s\<lparr>qs_queue := q, qs_accepted := qs_accepted s @ [x]\<rparr>))"

definition try_get :: "'a queue_sys \<Rightarrow> 'a queue_sys" where
  "try_get s =
     (case bq_get (qs_queue s) of
        None \<Rightarrow> s\<lparr>qs_getting := qs_getting s + 1\<rparr>
      | Some (None, q) \<Rightarrow> s\<lparr>qs_queue := q\<rparr>
      | Some (Some x, q) \<Rightarrow> s\<lparr>qs_queue := q, qs_held := qs_held s @ [x], qs_handed_out := qs_handed_out s @ [x]\<rparr>)"

inductive queue_step :: "('a \<Rightarrow> nat) \<Rightarrow> 'a queue_sys \<Rightarrow> 'a queue_sys \<Rightarrow> bool" for sz :: "'a \<Rightarrow> nat" where
  put: "queue_step sz s (try_put sz x s)"
| put_wakes: "qs_put_woken s = us @ x # vs \<Longrightarrow> queue_step sz s (try_put sz x (s\<lparr>qs_put_woken := us @ vs\<rparr>))"
| get: "queue_step sz s (try_get s)"
| get_wakes: "qs_get_woken s = Suc n \<Longrightarrow> queue_step sz s (try_get (s\<lparr>qs_get_woken := n\<rparr>))"
| released: "qs_held s = us @ x # vs \<Longrightarrow>
    queue_step sz s (notify_put (s\<lparr>qs_held := us @ vs, qs_queue := bq_release (int (sz x)) (qs_queue s)\<rparr>))"
| closed: "queue_step sz s (s\<lparr>qs_queue := bq_close (qs_queue s), qs_putting := [],
    qs_put_woken := qs_put_woken s @ qs_putting s, qs_getting := 0, qs_get_woken := qs_get_woken s + qs_getting s\<rparr>)"

inductive queue_run :: "('a \<Rightarrow> nat) \<Rightarrow> int \<Rightarrow> 'a queue_sys \<Rightarrow> bool" for sz :: "'a \<Rightarrow> nat" and budget :: int where
  start: "new_queue budget = Inr q \<Longrightarrow>
    queue_run sz budget \<lparr>qs_queue = q, qs_putting = [], qs_put_woken = [], qs_getting = 0, qs_get_woken = 0,
      qs_held = [], qs_accepted = [], qs_handed_out = []\<rparr>"
| step: "queue_run sz budget s \<Longrightarrow> queue_step sz s s' \<Longrightarrow> queue_run sz budget s'"

inductive_cases queue_stepE: "queue_step sz s s'"

section \<open>The invariant\<close>

text \<open>The items whose bytes are charged: queued, or popped and not released.\<close>

definition charged :: "'a queue_sys \<Rightarrow> 'a list" where
  "charged s = bq_items (qs_queue s) @ qs_held s"

text \<open>The accounts: bytes, order, and the one exception to the budget.\<close>

definition within_budget :: "('a \<Rightarrow> nat) \<Rightarrow> int \<Rightarrow> int \<Rightarrow> 'a set \<Rightarrow> bool" where
  "within_budget sz budget n X \<longleftrightarrow> n \<le> budget \<or> (\<exists>x \<in> X. n = int (sz x))"

definition accounts :: "('a \<Rightarrow> nat) \<Rightarrow> int \<Rightarrow> 'a queue_sys \<Rightarrow> bool" where
  "accounts sz budget s \<longleftrightarrow>
     bq_budget (qs_queue s) = budget
     \<and> bq_current (qs_queue s) = int (sum_list (map sz (charged s)))
     \<and> within_budget sz budget (int (sum_list (map sz (charged s)))) (set (charged s))
     \<and> qs_accepted s = qs_handed_out s @ bq_items (qs_queue s)"

text \<open>No wake-up is lost.\<close>

definition wakeups :: "'a queue_sys \<Rightarrow> bool" where
  "wakeups s \<longleftrightarrow>
     (qs_putting s \<noteq> [] \<longrightarrow> qs_put_woken s \<noteq> [] \<or> charged s \<noteq> [])
     \<and> (0 < qs_getting s \<longrightarrow> length (bq_items (qs_queue s)) \<le> qs_get_woken s)
     \<and> (bq_closed (qs_queue s) \<longrightarrow> qs_putting s = [] \<and> qs_getting s = 0)"

lemma notify_get_frame [simp]:
  "qs_queue (notify_get s) = qs_queue s" "qs_putting (notify_get s) = qs_putting s"
  "qs_put_woken (notify_get s) = qs_put_woken s" "qs_held (notify_get s) = qs_held s"
  "qs_accepted (notify_get s) = qs_accepted s" "qs_handed_out (notify_get s) = qs_handed_out s"
  by (simp_all add: notify_get_def)

lemma notify_put_frame [simp]:
  "qs_queue (notify_put s) = qs_queue s" "qs_getting (notify_put s) = qs_getting s"
  "qs_get_woken (notify_put s) = qs_get_woken s" "qs_held (notify_put s) = qs_held s"
  "qs_accepted (notify_put s) = qs_accepted s" "qs_handed_out (notify_put s) = qs_handed_out s"
  by (simp_all add: notify_put_def split: list.splits)

lemma waiting_charged:
  "accounts sz budget s \<Longrightarrow> must_wait n (qs_queue s) \<Longrightarrow> charged s \<noteq> []"
  by (auto simp: accounts_def must_wait_def)

text \<open>The three outcomes of a producer's pass, and of a consumer's.\<close>

lemma try_put_cases:
  obtains (waits) "must_wait (int (sz x)) (qs_queue s)" "try_put sz x s = s\<lparr>qs_putting := qs_putting s @ [x]\<rparr>"
  | (refused) "bq_closed (qs_queue s)" "try_put sz x s = s"
  | (accepted) "\<not> bq_closed (qs_queue s)" "\<not> must_wait (int (sz x)) (qs_queue s)"
      "try_put sz x s = notify_get (s\<lparr>qs_queue := (qs_queue s)\<lparr>bq_items := bq_items (qs_queue s) @ [x],
         bq_current := bq_current (qs_queue s) + int (sz x)\<rparr>, qs_accepted := qs_accepted s @ [x]\<rparr>)"
  by (cases "must_wait (int (sz x)) (qs_queue s)"; cases "bq_closed (qs_queue s)")
    (auto simp: try_put_def bq_put_def must_wait_def)

lemma try_get_cases:
  obtains (waits) "bq_items (qs_queue s) = []" "\<not> bq_closed (qs_queue s)" "try_get s = s\<lparr>qs_getting := qs_getting s + 1\<rparr>"
  | (ended) "bq_items (qs_queue s) = []" "bq_closed (qs_queue s)" "try_get s = s"
  | (popped) x xs where "bq_items (qs_queue s) = x # xs"
      "try_get s = s\<lparr>qs_queue := (qs_queue s)\<lparr>bq_items := xs\<rparr>, qs_held := qs_held s @ [x],
         qs_handed_out := qs_handed_out s @ [x]\<rparr>"
  by (cases "bq_items (qs_queue s)"; cases "bq_closed (qs_queue s)") (auto simp: try_get_def bq_get_def)

lemma accounts_woken [simp]: "accounts sz budget (s\<lparr>qs_put_woken := ws\<rparr>) = accounts sz budget s"
  "accounts sz budget (s\<lparr>qs_get_woken := n\<rparr>) = accounts sz budget s"
  "accounts sz budget (s\<lparr>qs_putting := ws\<rparr>) = accounts sz budget s"
  "accounts sz budget (s\<lparr>qs_getting := n\<rparr>) = accounts sz budget s"
  "accounts sz budget (notify_get s) = accounts sz budget s"
  "accounts sz budget (notify_put s) = accounts sz budget s"
  by (simp_all add: accounts_def charged_def)

lemma try_put_accounts: "accounts sz budget s \<Longrightarrow> accounts sz budget (try_put sz x s)"
proof (cases rule: try_put_cases [of sz x s])
  case accepted
  assume a: "accounts sz budget s"
  then have "bq_current (qs_queue s) + int (sz x) \<le> budget \<or> bq_current (qs_queue s) = 0"
    using accepted(1,2) by (auto simp: must_wait_def accounts_def)
  then have "within_budget sz budget (bq_current (qs_queue s) + int (sz x)) (insert x (set (charged s)))"
    by (auto simp: within_budget_def)
  then show ?thesis unfolding accepted(3) accounts_woken using a by (simp add: accounts_def charged_def ac_simps)
qed simp_all

lemma try_get_accounts: "accounts sz budget s \<Longrightarrow> accounts sz budget (try_get s)"
  by (cases rule: try_get_cases [of s]) (simp_all add: accounts_def charged_def ac_simps)

lemma release_accounts:
  assumes "accounts sz budget s" and "qs_held s = us @ x # vs" and "0 < budget"
  shows "accounts sz budget (s\<lparr>qs_held := us @ vs, qs_queue := bq_release (int (sz x)) (qs_queue s)\<rparr>)"
proof -
  define rest where "rest = bq_items (qs_queue s) @ us @ vs"
  have total: "bq_current (qs_queue s) = int (sz x) + int (sum_list (map sz rest))"
    using assms(1,2) by (simp add: accounts_def charged_def rest_def)
  have all: "set (charged s) = insert x (set rest)" using assms(2) by (auto simp: charged_def rest_def)
  have "within_budget sz budget (bq_current (qs_queue s) - int (sz x)) (set rest)"
  proof (cases "bq_current (qs_queue s) \<le> budget")
    case False
    moreover have "within_budget sz budget (bq_current (qs_queue s)) (insert x (set rest))"
      using assms(1) unfolding accounts_def all by simp
    ultimately obtain y where y: "y \<in> insert x (set rest)" "bq_current (qs_queue s) = int (sz y)"
      unfolding within_budget_def by blast
    show ?thesis
    proof (cases "y \<in> set rest")
      case True
      then have "sz y \<le> sum_list (map sz rest)" by (simp add: member_le_sum_list)
      then have "bq_current (qs_queue s) - int (sz x) = int (sz y)" using y(2) total by simp
      then show ?thesis using True unfolding within_budget_def by blast
    next
      case False
      then show ?thesis using y assms(3) by (auto simp: within_budget_def)
    qed
  qed (simp add: within_budget_def)
  then show ?thesis using assms(1,2) total by (simp add: accounts_def charged_def bq_release_def rest_def Un_assoc)
qed

lemma queue_run_accounts: "queue_run sz budget s \<Longrightarrow> 0 < budget \<and> accounts sz budget s"
proof (induction rule: queue_run.induct)
  case (start q)
  then show ?case by (auto simp: new_queue_def accounts_def charged_def within_budget_def split: if_splits)
next
  case (step s s')
  note acc = step.IH [THEN conjunct2]
  from step.hyps(2) have "accounts sz budget s'"
  proof cases
    case (put x)
    then show ?thesis using try_put_accounts [OF acc] by simp
  next
    case (put_wakes us x vs)
    have "accounts sz budget (s\<lparr>qs_put_woken := us @ vs\<rparr>)" using acc by simp
    from try_put_accounts [OF this] show ?thesis using put_wakes(1) by simp
  next
    case get
    then show ?thesis using try_get_accounts [OF acc] by simp
  next
    case (get_wakes n)
    have "accounts sz budget (s\<lparr>qs_get_woken := n\<rparr>)" using acc by simp
    from try_get_accounts [OF this] show ?thesis using get_wakes(1) by simp
  next
    case (released us x vs)
    then show ?thesis using release_accounts [OF acc] step.IH by simp
  next
    case closed
    have "accounts sz budget (s\<lparr>qs_queue := bq_close (qs_queue s)\<rparr>)"
      using step.IH by (simp add: accounts_def bq_close_def charged_def)
    then show ?thesis unfolding closed by (simp add: accounts_def charged_def)
  qed
  then show ?case using step.IH by simp
qed

text \<open>A pass of a producer that was woken may be the last woken one.\<close>

lemma try_put_wakeups:
  assumes "accounts sz budget s" and "wakeups (s\<lparr>qs_put_woken := us\<rparr>)"
  shows "wakeups (try_put sz x s)"
proof (cases rule: try_put_cases [of sz x s])
  case waits
  have "charged s \<noteq> []" using waiting_charged [OF assms(1) waits(1)] .
  then show ?thesis using assms(2) waits by (auto simp: wakeups_def charged_def must_wait_def)
next
  case refused
  then show ?thesis using assms(2) by (auto simp: wakeups_def charged_def)
next
  case accepted
  then show ?thesis using assms(2) by (auto simp: wakeups_def charged_def notify_get_def)
qed

lemma try_get_wakeups:
  assumes "wakeups (s\<lparr>qs_get_woken := n\<rparr>)" and "n = qs_get_woken s \<or> n = Suc (qs_get_woken s)"
  shows "wakeups (try_get s)"
  using assms by (cases rule: try_get_cases [of s]) (auto simp: wakeups_def charged_def)

lemma release_wakeups:
  assumes "wakeups s"
  shows "wakeups (notify_put (s\<lparr>qs_held := hs, qs_queue := bq_release n (qs_queue s)\<rparr>))"
  using assms by (auto simp: wakeups_def charged_def notify_put_def bq_release_def split: list.splits)

lemma queue_run_wakeups: "queue_run sz budget s \<Longrightarrow> wakeups s"
proof (induction rule: queue_run.induct)
  case (start q)
  then show ?case by (auto simp: new_queue_def wakeups_def charged_def split: if_splits)
next
  case (step s s')
  have acc: "accounts sz budget s" using queue_run_accounts [OF step.hyps(1)] by simp
  from step.hyps(2) show ?case
  proof cases
    case (put x)
    then show ?thesis using try_put_wakeups [OF acc, of "qs_put_woken s"] step.IH by simp
  next
    case (put_wakes us x vs)
    have "accounts sz budget (s\<lparr>qs_put_woken := us @ vs\<rparr>)" using acc by simp
    from try_put_wakeups [OF this, of "qs_put_woken s"] show ?thesis using put_wakes(1) step.IH by simp
  next
    case get
    then show ?thesis using try_get_wakeups [where s = s and n = "qs_get_woken s"] step.IH by simp
  next
    case (get_wakes n)
    have "s\<lparr>qs_get_woken := Suc n\<rparr> = s" using get_wakes(2) by simp
    then show ?thesis using try_get_wakeups [where s = "s\<lparr>qs_get_woken := n\<rparr>" and n = "Suc n"] step.IH get_wakes(1) by simp
  next
    case (released us x vs)
    then show ?thesis using release_wakeups [OF step.IH] by simp
  next
    case closed
    then show ?thesis by (simp add: wakeups_def)
  qed
qed

text \<open>
  C9. The handoff queue is a FIFO queue with a byte budget and no lost wake-up, whatever the
  interleaving of any number of producers and consumers: items leave in the order they were accepted
  and none is lost or duplicated; the bytes charged are those of the items queued or in use, and stay
  within the budget except while a single oversized item holds them all; as long as a producer waits,
  some item is charged (whose release will wake it) or a producer has been woken; a consumer never
  waits for an item that is there and for which no consumer was woken; after \<^verbatim>\<open>close\<close> nobody waits.
\<close>

theorem handoff_queue_correct:
  assumes "queue_run sz budget s"
  shows "qs_accepted s = qs_handed_out s @ bq_items (qs_queue s)
    \<and> bq_current (qs_queue s) = int (sum_list (map sz (bq_items (qs_queue s) @ qs_held s)))
    \<and> (bq_current (qs_queue s) \<le> budget
        \<or> (\<exists>x \<in> set (bq_items (qs_queue s) @ qs_held s). bq_current (qs_queue s) = int (sz x)))
    \<and> (qs_putting s \<noteq> [] \<longrightarrow> qs_put_woken s \<noteq> [] \<or> bq_items (qs_queue s) \<noteq> [] \<or> qs_held s \<noteq> [])
    \<and> (0 < qs_getting s \<longrightarrow> length (bq_items (qs_queue s)) \<le> qs_get_woken s)
    \<and> (bq_closed (qs_queue s) \<longrightarrow> qs_putting s = [] \<and> qs_getting s = 0)"
  using queue_run_accounts [OF assms] queue_run_wakeups [OF assms]
  by (simp add: accounts_def wakeups_def charged_def within_budget_def)

definition demo_sys :: "nat queue_sys" where
  "demo_sys = \<lparr>qs_queue = \<lparr>bq_budget = 10, bq_items = [7], bq_current = 7, bq_closed = False\<rparr>, qs_putting = [5],
     qs_put_woken = [], qs_getting = 0, qs_get_woken = 0, qs_held = [], qs_accepted = [7], qs_handed_out = []\<rparr>"

lemma demo_sys_run: "queue_run (\<lambda>n. n) 10 demo_sys"
proof -
  let ?s = "\<lparr>qs_queue = \<lparr>bq_budget = 10, bq_items = [], bq_current = 0, bq_closed = False\<rparr>, qs_putting = [],
     qs_put_woken = [], qs_getting = 0, qs_get_woken = 0, qs_held = [], qs_accepted = [], qs_handed_out = []\<rparr> :: nat queue_sys"
  have "queue_run (\<lambda>n. n) 10 ?s" by (rule queue_run.start) (simp add: new_queue_def)
  from queue_run.step [OF this queue_step.put [of _ _ 7]]
  have "queue_run (\<lambda>n. n) 10 (try_put (\<lambda>n. n) 7 ?s)" .
  from queue_run.step [OF this queue_step.put [of _ _ 5]] show ?thesis
    by (simp add: try_put_def bq_put_def must_wait_def notify_get_def demo_sys_def)
qed

theorem handoff_queue_correct_witness:
  "queue_run (\<lambda>n. n) 10 demo_sys \<and> qs_putting demo_sys = [5]
    \<and> qs_accepted demo_sys = qs_handed_out demo_sys @ bq_items (qs_queue demo_sys)
    \<and> bq_current (qs_queue demo_sys) = 7"
  using handoff_queue_correct [OF demo_sys_run] demo_sys_run by (simp add: demo_sys_def)

end
