(* ===== verification/Fetch.thy ===== *)
theory Fetch
  imports Dispatcher Pypi_Client Archive_Store Byte_Queue
begin

text \<open>
  \<^verbatim>\<open>fetch.py\<close>: the download of one sidecar (with the lookup in the old corpus), the routing of its outcome,
  the archive thread that stores the bytes and links them to the wheel, the recovery of the wheels of a
  truncated segment, and the bulk source that feeds convert from archived blobs.

  The old corpus, \<^verbatim>\<open>zlib\<close> and \<^verbatim>\<open>httpx\<close> are parameters; \<open>describe\<close> is \<^verbatim>\<open>str(exc)\<close>. The archive thread, the writer
  and the readers work on one database file: it is the \<open>as_db\<close> of the store, and a submitted operation
  runs on it with the sequence counter. The steps of one item run without other threads in between.
\<close>

section \<open>Fetching one sidecar\<close>

text \<open>
  The old corpus: whether the path is configured and exists, whether \<^verbatim>\<open>connect\<close> succeeds, the row of a
  digest (or the exception of the query), and \<^verbatim>\<open>zlib.decompress\<close>.
\<close>

record bridge =
  br_present :: bool
  br_connects :: bool
  br_select :: "string \<Rightarrow> bytes option res"
  br_decompress :: "bytes \<Rightarrow> bytes res"

definition bridge_lookup :: "(bytes \<Rightarrow> string) \<Rightarrow> bridge \<Rightarrow> string option \<Rightarrow> bytes option res" where
  "bridge_lookup sha256_hex br metadata_sha256 =
     (case metadata_sha256 of
        None \<Rightarrow> Inr None
      | Some sha \<Rightarrow>
          if \<not> br_present br \<or> \<not> br_connects br then Inr None
          else bind_res (br_select br sha) (\<lambda>row.
                 case row of
                   None \<Rightarrow> Inr None
                 | Some z \<Rightarrow> bind_res (br_decompress br z) (\<lambda>data.
                     Inr (if sha256_hex data \<noteq> sha then None else Some data))))"

record fetch_item =
  fi_id :: int
  fi_project :: string
  fi_lane :: int
  fi_state :: wheel_state
  fi_filename :: string
  fi_url :: string
  fi_metadata_sha256 :: "string option"
  fi_has_metadata :: bool

datatype fetch_outcome =
    FetchOk bytes string
  | FetchSkip string string string bool "string option"
  | FetchRetry string string
  | FetchRateLimited string "real option"

definition NOT_A_REROLL_ERROR :: string where
  "NOT_A_REROLL_ERROR = ''reroll-sync''"

text \<open>An exception of the client that \<^verbatim>\<open>fetch_one\<close> does not catch escapes it.\<close>

definition fetch_one :: "(pypi_exn \<Rightarrow> string) \<Rightarrow> (bytes \<Rightarrow> string) \<Rightarrow> bridge \<Rightarrow> http \<Rightarrow> fetch_item \<Rightarrow> fetch_outcome res" where
  "fetch_one describe sha256_hex br h wheel =
     (if fi_metadata_sha256 wheel = None \<and> \<not> fi_has_metadata wheel
      then Inr (FetchRetry ''missing_metadata_hash_and_flag''
             (''wheel '' @ py_repr (fi_filename wheel) @ '' (id='' @ py_str_int (fi_id wheel)
                @ '') should have been NO_METADATA''))
      else bind_res (bridge_lookup sha256_hex br (fi_metadata_sha256 wheel)) (\<lambda>bridged.
        case bridged of
          Some data \<Rightarrow> Inr (FetchOk data (sha256_hex data))
        | None \<Rightarrow>
            (let url = fi_url wheel @ ''.metadata''
             in case fetch_metadata sha256_hex h url (fi_metadata_sha256 wheel) of
                  Inr data \<Rightarrow> Inr (FetchOk data (sha256_hex data))
                | Inl PyPINotFound \<Rightarrow>
                    Inr (FetchSkip ''metadata_missing'' ''PyPINotFound'' (describe PyPINotFound) True None)
                | Inl (MetadataHashMismatch expected actual) \<Rightarrow>
                    Inr (FetchSkip ''metadata_hash_mismatch'' ''MetadataHashMismatch''
                           (''expected sha256='' @ expected @ '', actual sha256='' @ actual) False
                           (Some NOT_A_REROLL_ERROR))
                | Inl PyPITransientError \<Rightarrow> Inr (FetchRetry ''pypi_transient_error'' (describe PyPITransientError))
                | Inl PyPIProtocolError \<Rightarrow> Inr (FetchRetry ''pypi_transient_error'' (describe PyPIProtocolError))
                | Inl (PyPIRateLimited retry_after) \<Rightarrow>
                    (case h_host_of h url of
                       None \<Rightarrow> Inl (OtherError ''InvalidURL'')
                     | Some host \<Rightarrow> Inr (FetchRateLimited host retry_after))
                | Inl (Escapes e) \<Rightarrow> Inl e)))"

definition adapt_fetch_outcome :: "fetch_outcome \<Rightarrow> outcome res" where
  "adapt_fetch_outcome out =
     (case out of
        FetchOk _ _ \<Rightarrow> Inl PyTypeError
      | FetchSkip reason _ details _ _ \<Rightarrow> Inr (Retry reason details)
      | FetchRetry reason details \<Rightarrow> Inr (Retry reason details)
      | FetchRateLimited child retry_after \<Rightarrow>
          Inr (RateLimited child (case retry_after of None \<Rightarrow> 0 | Some s \<Rightarrow> s)))"

definition as_queue_item :: "fetch_item \<Rightarrow> queue_item" where
  "as_queue_item item = \<lparr>qi_id = fi_id item, qi_project = fi_project item, qi_lane = fi_lane item, qi_state = fi_state item\<rparr>"

text \<open>\<open>enqueue\<close> is the callback that takes a success.\<close>

definition dispatch_fetch_item ::
    "(pypi_exn \<Rightarrow> string) \<Rightarrow> (bytes \<Rightarrow> string) \<Rightarrow> bridge \<Rightarrow> http \<Rightarrow> (fetch_item \<Rightarrow> bytes \<Rightarrow> string \<Rightarrow> 'q \<Rightarrow> unit res \<times> 'q)
      \<Rightarrow> outcome_readings \<Rightarrow> fetch_item \<Rightarrow> 'q \<times> dispatcher \<times> database op_state
      \<Rightarrow> fetch_outcome res \<times> 'q \<times> dispatcher \<times> database op_state" where
  "dispatch_fetch_item describe sha256_hex br h enqueue rd item s =
     (case s of (q, ds, st) \<Rightarrow>
        case fetch_one describe sha256_hex br h item of
          Inl e \<Rightarrow> (Inl e, s)
        | Inr (FetchOk data sha) \<Rightarrow>
            (case enqueue item data sha q of
               (Inl e, q1) \<Rightarrow> (Inl e, (q1, ds, st))
             | (Inr _, q1) \<Rightarrow> (Inr (FetchOk data sha), (q1, ds, st)))
        | Inr out \<Rightarrow>
            (case adapt_fetch_outcome out of
               Inl e \<Rightarrow> (Inl e, s)
             | Inr adapted \<Rightarrow>
                 (case apply_outcome rd FETCH (as_queue_item item) adapted (ds, st) of
                    (Inl e, ds1, st1) \<Rightarrow> (Inl e, (q, ds1, st1))
                  | (Inr _, ds1, st1) \<Rightarrow> (Inr out, (q, ds1, st1)))))"

section \<open>The archive thread\<close>

record handoff_item =
  hi_queue_item :: queue_item
  hi_filename :: string
  hi_data :: bytes
  hi_sha256 :: string

definition handoff_size :: "handoff_item \<Rightarrow> int" where
  "handoff_size item = int (length (hi_data item))"

record 'c handoff =
  ho_queue :: "handoff_item byte_queue"
  ho_store :: archive_store
  ho_seq :: int
  ho_dispatcher :: dispatcher
  ho_convert :: 'c

text \<open>The clock readings while one item is processed.\<close>

record handoff_readings =
  hr_add :: real
  hr_current :: real
  hr_should_seal :: real
  hr_wall :: iso_time
  hr_open :: real
  hr_outcome :: outcome_readings

text \<open>
  \<^verbatim>\<open>_maybe_seal\<close> seals the current writer itself, submits the row update, and opens the next segment:
  the store keeps the sealed writer until \<^verbatim>\<open>open_writer\<close> replaces it. \<open>due\<close> is the \<^verbatim>\<open>should_seal\<close> of the writer
  that the store's \<^verbatim>\<open>current_writer\<close> returns.
\<close>

definition maybe_seal :: "codec \<Rightarrow> (real \<Rightarrow> seg_writer \<Rightarrow> bool) \<Rightarrow> handoff_readings \<Rightarrow> archive_store \<Rightarrow> unit res \<times> archive_store" where
  "maybe_seal cd due rd s =
     (case current_writer (hr_current rd) s of
        (Inl e, s1) \<Rightarrow> (Inl e, s1)
      | (Inr w, s1) \<Rightarrow>
          if \<not> due (hr_should_seal rd) w then (Inr (), s1)
          else (case seal cd (as_fs s1, w) of
                  (Inl e, fs, w1) \<Rightarrow> (Inl e, s1\<lparr>as_fs := fs, as_writer := Some w1\<rparr>)
                | (Inr stats, fs, w1) \<Rightarrow>
                    (case open_writer (hr_open rd)
                            (s1\<lparr>as_fs := fs, as_writer := Some w1, as_db := update_sealed (hr_wall rd) stats (as_db s1)\<rparr>) of
                       (Inl e, s2) \<Rightarrow> (Inl e, s2)
                     | (Inr _, s2) \<Rightarrow> (Inr (), s2))))"

definition blob_link_writer :: "string \<Rightarrow> payload_writer" where
  "blob_link_writer blob_sha256 wheel_id db =
     Inr (update_wheels (\<lambda>w. w_id w = wheel_id) (\<lambda>w. w\<lparr>w_blob_sha256 := Some blob_sha256\<rparr>) db)"

text \<open>
  The handoff's store is any object with the methods \<^verbatim>\<open>add\<close> and \<^verbatim>\<open>current_writer\<close>; the first two arguments of
  what follows are its \<^verbatim>\<open>add\<close> and the \<^verbatim>\<open>_maybe_seal\<close> on its writer. Of an \<^verbatim>\<open>ArchiveStore\<close> they are these.
\<close>

definition add_to_store :: "codec \<Rightarrow> handoff_readings \<Rightarrow> bytes \<Rightarrow> ('c, 'z) handoff_scheme \<Rightarrow> blob_location res \<times> ('c, 'z) handoff_scheme" where
  "add_to_store cd rd data s =
     (case store_add cd (hr_add rd) data (ho_store s) of (r, st) \<Rightarrow> (r, s\<lparr>ho_store := st\<rparr>))"

definition seal_if_due :: "codec \<Rightarrow> handoff_readings \<Rightarrow> ('c, 'z) handoff_scheme \<Rightarrow> unit res \<times> ('c, 'z) handoff_scheme" where
  "seal_if_due cd rd s =
     (case maybe_seal cd should_seal rd (ho_store s) of (r, st) \<Rightarrow> (r, s\<lparr>ho_store := st\<rparr>))"

type_synonym ('c, 'z) adder = "handoff_readings \<Rightarrow> bytes \<Rightarrow> ('c, 'z) handoff_scheme \<Rightarrow> blob_location res \<times> ('c, 'z) handoff_scheme"
type_synonym ('c, 'z) sealer = "handoff_readings \<Rightarrow> ('c, 'z) handoff_scheme \<Rightarrow> unit res \<times> ('c, 'z) handoff_scheme"
type_synonym 'c archived = "queue_item \<Rightarrow> string \<Rightarrow> bytes \<Rightarrow> 'c \<Rightarrow> unit res \<times> 'c"

text \<open>The body of the \<^verbatim>\<open>try\<close>; \<open>on_archived\<close> is the convert stage's callback.\<close>

definition archive_item :: "('c, 'z) adder \<Rightarrow> ('c, 'z) sealer \<Rightarrow> 'c archived \<Rightarrow> handoff_readings \<Rightarrow> handoff_item
    \<Rightarrow> ('c, 'z) handoff_scheme \<Rightarrow> unit res \<times> ('c, 'z) handoff_scheme" where
  "archive_item add sealing on_archived rd item s =
     (case add rd (hi_data item) s of
        (Inl e, s1) \<Rightarrow> (Inl e, s1)
      | (Inr location, s1) \<Rightarrow>
          (case sealing rd s1 of
             (Inl e, s2) \<Rightarrow> (Inl e, s2)
           | (Inr _, s2) \<Rightarrow>
               (case apply_outcome (hr_outcome rd) FETCH (hi_queue_item item)
                       (Ok NEED_CONVERT (blob_link_writer (bl_sha256 location)))
                       (ho_dispatcher s2, (as_db (ho_store s2), ho_seq s2)) of
                  (r, ds, (db, seq)) \<Rightarrow>
                    (let s3 = s2\<lparr>ho_store := (ho_store s2)\<lparr>as_db := db\<rparr>, ho_seq := seq, ho_dispatcher := ds\<rparr>
                     in case r of
                          Inl e \<Rightarrow> (Inl e, s3)
                        | Inr _ \<Rightarrow>
                            (case on_archived (hi_queue_item item) (hi_filename item) (hi_data item) (ho_convert s3) of
                               (r1, c) \<Rightarrow> (r1, s3\<lparr>ho_convert := c\<rparr>))))))"

text \<open>\<^verbatim>\<open>process_one\<close>: \<^const>\<open>None\<close> when it blocks on an empty queue; the bytes are released whatever happens.\<close>

definition process_one :: "('c, 'z) adder \<Rightarrow> ('c, 'z) sealer \<Rightarrow> 'c archived \<Rightarrow> handoff_readings
    \<Rightarrow> ('c, 'z) handoff_scheme \<Rightarrow> (bool res \<times> ('c, 'z) handoff_scheme) option" where
  "process_one add sealing on_archived rd s =
     (case bq_get (ho_queue s) of
        None \<Rightarrow> None
      | Some (None, q) \<Rightarrow> Some (Inr False, s\<lparr>ho_queue := q\<rparr>)
      | Some (Some item, q) \<Rightarrow>
          (case archive_item add sealing on_archived rd item (s\<lparr>ho_queue := q\<rparr>) of
             (r, s1) \<Rightarrow> Some (bind_res r (\<lambda>_. Inr True), s1\<lparr>ho_queue := bq_release (handoff_size item) (ho_queue s1)\<rparr>)))"

text \<open>\<^verbatim>\<open>run\<close>, with one set of readings per item, until it blocks, ends or raises.\<close>

fun run_handoff :: "('c, 'z) adder \<Rightarrow> ('c, 'z) sealer \<Rightarrow> 'c archived \<Rightarrow> handoff_readings list
    \<Rightarrow> ('c, 'z) handoff_scheme \<Rightarrow> unit res \<times> ('c, 'z) handoff_scheme" where
  "run_handoff add sealing on_archived [] s = (Inr (), s)"
| "run_handoff add sealing on_archived (rd # rds) s =
     (case process_one add sealing on_archived rd s of
        None \<Rightarrow> (Inr (), s)
      | Some (Inl e, s1) \<Rightarrow> (Inl e, s1)
      | Some (Inr again, s1) \<Rightarrow> if again then run_handoff add sealing on_archived rds s1 else (Inr (), s1))"

section \<open>Recovery of a truncated segment\<close>

definition recover_chunk :: "string list \<Rightarrow> database \<Rightarrow> int \<times> database" where
  "recover_chunk chunk db =
     (let ids = map w_id (filter (\<lambda>w. (\<exists>sha. w_blob_sha256 w = Some sha \<and> sha \<in> set chunk)
                   \<and> w_state w \<noteq> state_int DELETED) (wheels db));
          db1 = update_wheels (\<lambda>w. w_id w \<in> set ids)
                  (\<lambda>w. w\<lparr>w_state := state_int NEED_METADATA, w_blob_sha256 := None, w_conda_name := None\<rparr>) db;
          db2 = db1\<lparr>wheel_repodata := sql_delete (\<lambda>r. rd_wheel_id r \<in> set ids) (wheel_repodata db1)\<rparr>
      in (int (length ids),
          (if ids = [] then db else db2)
            \<lparr>blobs := sql_delete (\<lambda>b. b_sha256 b \<in> set chunk) (blobs db)\<rparr>))"

definition recover_chunk_op :: "string list \<Rightarrow> op_body" where
  "recover_chunk_op chunk st =
     (case st of (db, seq) \<Rightarrow> case recover_chunk chunk db of (n, db1) \<Rightarrow> (Inr (VCount n), (db1, seq)))"

fun recover_chunks :: "string list list \<Rightarrow> int \<Rightarrow> database op_state \<Rightarrow> int res \<times> database op_state" where
  "recover_chunks [] count st = (Inr count, st)"
| "recover_chunks (chunk # chunks) count st =
     (case exec_op (recover_chunk_op chunk) st of
        (Inl e, st1) \<Rightarrow> (Inl e, st1)
      | (Inr (VCount n), st1) \<Rightarrow> recover_chunks chunks (count + n) st1
      | (Inr _, st1) \<Rightarrow> (Inl PyTypeError, st1))"

definition RECOVERY_CHUNK_SIZE :: int where
  "RECOVERY_CHUNK_SIZE = 500"

definition recover_unsealed_segment :: "int \<Rightarrow> int \<Rightarrow> database op_state \<Rightarrow> int res \<times> database op_state" where
  "recover_unsealed_segment segment_id chunk_size st =
     (let sha256s = map fst (blob_rows_for_segment segment_id (fst st))
      in if chunk_size = 0 then (Inl ValueError, st)
         else recover_chunks (slices (nat chunk_size) sha256s) 0 st)"

section \<open>Bulk convert from the archive\<close>

record bulk_ready =
  bk_queue_item :: queue_item
  bk_filename :: string
  bk_data :: bytes

record bulk_state =
  bs_dispatcher :: dispatcher
  bs_conn :: "database op_state"
  bs_reader :: reader
  bs_ready :: "bulk_ready list"

definition load_rows :: "int list \<Rightarrow> database \<Rightarrow> (int \<times> string \<times> string option) list" where
  "load_rows ids db =
     dict_of w_id (\<lambda>w. (w_filename w, w_blob_sha256 w)) (filter (\<lambda>w. w_id w \<in> set ids) (wheels db))"

definition load_locations :: "string list \<Rightarrow> database \<Rightarrow> (string \<times> blob_location) list" where
  "load_locations sha256s db =
     dict_of b_sha256 (\<lambda>b. \<lparr>bl_sha256 = b_sha256 b, bl_segment_id = b_segment_id b, bl_block_no = b_block_no b,
         bl_offset = b_offset b, bl_length = b_length b\<rparr>)
       (filter (\<lambda>b. b_sha256 b \<in> set sha256s) (blobs db))"

text \<open>\<^verbatim>\<open>d.setdefault(k, []).append(v)\<close>.\<close>

definition dict_append :: "'k \<Rightarrow> 'v \<Rightarrow> ('k \<times> 'v list) list \<Rightarrow> ('k \<times> 'v list) list" where
  "dict_append k v d =
     (case map_of d k of None \<Rightarrow> d @ [(k, [v])]
      | Some _ \<Rightarrow> map (\<lambda>(j, vs). (j, if j = k then vs @ [v] else vs)) d)"

definition bulk_outcome :: "outcome_readings \<Rightarrow> queue_item \<Rightarrow> outcome \<Rightarrow> bulk_state \<Rightarrow> unit res \<times> bulk_state" where
  "bulk_outcome rd item out s =
     (case apply_outcome rd CONVERT item out (bs_dispatcher s, bs_conn s) of
        (r, ds, st) \<Rightarrow> (bind_res r (\<lambda>_. Inr ()), s\<lparr>bs_dispatcher := ds, bs_conn := st\<rparr>))"

text \<open>The items with a blob, grouped by digest; the others are released.\<close>

definition group_claimed :: "(int \<times> string \<times> string option) list \<Rightarrow> queue_item list
    \<Rightarrow> (string \<times> (queue_item \<times> string) list) list \<times> dispatcher \<Rightarrow> (string \<times> (queue_item \<times> string) list) list \<times> dispatcher" where
  "group_claimed rows items =
     fold (\<lambda>item (by_sha256, ds).
       case map_of rows (qi_id item) of
         Some (filename, Some sha) \<Rightarrow> (dict_append sha (item, filename) by_sha256, ds)
       | _ \<Rightarrow> (by_sha256, release CONVERT (qi_id item) ds)) items"

text \<open>A digest without a \<^verbatim>\<open>blobs\<close> row sends its items to retry; the others are grouped by block.\<close>

type_synonym block_groups = "((int \<times> int) \<times> (string \<times> queue_item \<times> string) list) list"

definition group_by_block :: "(queue_item \<Rightarrow> outcome_readings) \<Rightarrow> (string \<times> blob_location) list
    \<Rightarrow> string \<times> (queue_item \<times> string) list \<Rightarrow> block_groups \<times> bulk_state \<Rightarrow> unit res \<times> block_groups \<times> bulk_state" where
  "group_by_block rd locations entry gs =
     (case (entry, gs) of ((sha, entries), (grouped, s)) \<Rightarrow>
        case map_of locations sha of
          None \<Rightarrow>
            (case for_each (\<lambda>(item, _). bulk_outcome (rd item) item
                     (Retry ''archive_blob_missing'' (''no blobs row for '' @ sha))) entries s of
               (r, s1) \<Rightarrow> (r, grouped, s1))
        | Some l \<Rightarrow>
            (Inr (), fold (\<lambda>(item, filename). dict_append (bl_segment_id l, bl_block_no l) (sha, item, filename)) entries grouped, s))"

definition read_claimed :: "codec \<Rightarrow> fs \<Rightarrow> (py_exn \<Rightarrow> string) \<Rightarrow> (queue_item \<Rightarrow> outcome_readings) \<Rightarrow> (string \<times> blob_location) list
    \<Rightarrow> int \<Rightarrow> string \<times> queue_item \<times> string \<Rightarrow> bulk_state \<Rightarrow> unit res \<times> bulk_state" where
  "read_claimed cd fs describe rd locations segment_id entry s =
     (case entry of (sha, item, filename) \<Rightarrow>
        case map_of locations sha of
          None \<Rightarrow> (Inl KeyError, s)
        | Some l \<Rightarrow>
            (case read_location cd fs l (bs_reader s) of
               (r, rdr) \<Rightarrow>
                 (let s1 = s\<lparr>bs_reader := rdr\<rparr>
                  in case r of
                       Inr data \<Rightarrow> (Inr (), s1\<lparr>bs_ready := bs_ready s1
                          @ [\<lparr>bk_queue_item = item, bk_filename = filename, bk_data = data\<rparr>]\<rparr>)
                     | Inl FileNotFoundError \<Rightarrow> bulk_outcome (rd item) item
                         (Retry ''archive_segment_missing'' (''segment '' @ fmt_06d segment_id @ '' missing on disk'')) s1
                     | Inl (CorruptSegmentError i) \<Rightarrow> bulk_outcome (rd item) item
                         (Skip ''corrupt_blob'' ''CorruptSegmentError''
                            (''blob '' @ sha @ '': '' @ describe (CorruptSegmentError i)) False None) s1
                     | Inl e \<Rightarrow> (Inl e, s1))))"

definition claim_batch :: "codec \<Rightarrow> fs \<Rightarrow> (py_exn \<Rightarrow> string) \<Rightarrow> real \<Rightarrow> (queue_item \<Rightarrow> outcome_readings) \<Rightarrow> int \<Rightarrow> bulk_state
    \<Rightarrow> bulk_ready list res \<times> bulk_state" where
  "claim_batch cd fs describe now rd limit s0 =
     (let s = s0\<lparr>bs_ready := []\<rparr>
      in case claim now CONVERT limit (fst (bs_conn s)) (bs_dispatcher s) of
           Inl e \<Rightarrow> (Inl e, s)
         | Inr (items, ds1) \<Rightarrow>
             if items = [] then (Inr [], s\<lparr>bs_dispatcher := ds1\<rparr>)
             else (case group_claimed (load_rows (map qi_id items) (fst (bs_conn s))) items ([], ds1) of
                     (by_sha256, ds2) \<Rightarrow>
                       (let locations = load_locations (map fst by_sha256) (fst (bs_conn s))
                        in case for_each (group_by_block rd locations) by_sha256 ([], s\<lparr>bs_dispatcher := ds2\<rparr>) of
                             (Inl e, _, s1) \<Rightarrow> (Inl e, s1)
                           | (Inr _, grouped, s1) \<Rightarrow>
                               (case for_each (\<lambda>key. for_each (read_claimed cd fs describe rd locations (fst key))
                                        (the (map_of grouped key))) (sort (map fst grouped)) s1 of
                                  (Inl e, s2) \<Rightarrow> (Inl e, s2)
                                | (Inr _, s2) \<Rightarrow> (Inr (bs_ready s2), s2)))))"

section \<open>What the archive thread does\<close>

text \<open>The store touches the \<open>segments\<close> and \<open>blobs\<close> tables only.\<close>

definition archive_frame :: "database \<Rightarrow> database \<Rightarrow> bool" where
  "archive_frame db db' \<longleftrightarrow> db' = db\<lparr>segments := segments db', blobs := blobs db'\<rparr>"

lemma archive_frame_refl [simp]: "archive_frame db db"
  by (simp add: archive_frame_def)

lemma archive_frame_trans: "archive_frame a b \<Longrightarrow> archive_frame b c \<Longrightarrow> archive_frame a c"
  unfolding archive_frame_def by (cases a, cases b, cases c) simp

lemma archive_frame_tables:
  "archive_frame db db' \<Longrightarrow> wheels db' = wheels db \<and> work db' = work db \<and> wheel_repodata db' = wheel_repodata db
    \<and> skips db' = skips db \<and> errors db' = errors db \<and> pypi_index db' = pypi_index db \<and> unlinked_blobs db' = unlinked_blobs db"
  unfolding archive_frame_def by (cases db, cases db') simp

lemma open_writer_frame: "archive_frame (as_db s) (as_db (snd (open_writer now s)))"
  by (auto simp: open_writer_def Let_def archive_frame_def split: sum.splits prod.splits)

lemma current_writer_frame: "archive_frame (as_db s) (as_db (snd (current_writer now s)))"
  using open_writer_frame by (simp add: current_writer_def split: option.splits)

lemma insert_or_ignore_frame: "insert_or_ignore_blob l db = Inr db' \<Longrightarrow> archive_frame db db'"
  by (auto simp: insert_or_ignore_blob_def archive_frame_def split: if_splits)

lemma store_add_frame: "archive_frame (as_db s) (as_db (snd (store_add cd now data s)))"
proof -
  have "archive_frame (as_db s1) (as_db (snd (store_add cd now data s)))"
    if "current_writer now s = (Inr w, s1)" for w s1
    using that insert_or_ignore_frame by (auto simp: store_add_def Let_def split: prod.splits sum.splits)
  then show ?thesis using archive_frame_trans [OF current_writer_frame [of s now]]
    by (cases "current_writer now s") (auto simp: store_add_def split: sum.splits)
qed

text \<open>A seal by the handoff is the store's own seal followed by opening the next segment.\<close>

lemma open_writer_any: 
  "open_writer now (s\<lparr>as_writer := w\<rparr>) = (case open_writer now s of (Inr v, s1) \<Rightarrow> (Inr v, s1) | (Inl e, s1) \<Rightarrow> (Inl e, s1\<lparr>as_writer := w\<rparr>))"
  by (simp add: open_writer_def Let_def next_segment_id_def split: sum.splits prod.splits)

lemma current_writer_inv:
  assumes "store_inv cd D s"
  shows "\<exists>w s1. current_writer now s = (Inr w, s1) \<and> store_inv cd D s1 \<and> as_writer s1 = Some w
    \<and> archive_frame (as_db s) (as_db s1)"
proof (cases "as_writer s")
  case None
  obtain r s1 where o: "open_writer now s = (r, s1)" by (metis prod.exhaust)
  from open_writer_inv [OF assms None this] open_writer_frame [of s now] o show ?thesis
    by (auto simp: current_writer_def None)
next
  case (Some w)
  then show ?thesis using assms by (simp add: current_writer_def)
qed

lemma maybe_seal_inv:
  assumes "store_inv cd D s" and "maybe_seal cd due rd s = (Inr u, s1)"
  shows "store_inv cd D s1 \<and> archive_frame (as_db s) (as_db s1)"
proof -
  obtain w s0 where cw: "current_writer (hr_current rd) s = (Inr w, s0)" and i0: "store_inv cd D s0"
    and w0: "as_writer s0 = Some w" and f0: "archive_frame (as_db s) (as_db s0)"
    using current_writer_inv [OF assms(1)] by blast
  show ?thesis
  proof (cases "due (hr_should_seal rd) w")
    case False
    then show ?thesis using assms(2) cw i0 f0 by (simp add: maybe_seal_def)
  next
    case True
    obtain stats fs w1 where sl: "seal cd (as_fs s0, w) = (Inr stats, fs, w1)"
      using assms(2) cw True by (auto simp: maybe_seal_def split: prod.splits sum.splits)
    define s2 where "s2 = s0\<lparr>as_fs := fs, as_db := update_sealed (hr_wall rd) stats (as_db s0), as_writer := None\<rparr>"
    have "seal_writer cd (hr_wall rd) s0 = (Inr stats, s2)" by (simp add: seal_writer_def w0 sl s2_def)
    from seal_writer_inv [OF i0 this] have i2: "store_inv cd D s2" .
    obtain r s3 where o: "open_writer (hr_open rd) s2 = (r, s3)" by (metis prod.exhaust)
    have w2: "as_writer s2 = None" by (simp add: s2_def)
    obtain v where v: "r = Inr v" and i3: "store_inv cd D s3" using open_writer_inv [OF i2 w2 o] by blast
    have "s0\<lparr>as_fs := fs, as_writer := Some w1, as_db := update_sealed (hr_wall rd) stats (as_db s0)\<rparr> = s2\<lparr>as_writer := Some w1\<rparr>"
      by (simp add: s2_def)
    then have "s1 = s3" using assms(2) cw True sl o v by (simp add: maybe_seal_def open_writer_any)
    moreover have "archive_frame (as_db s0) (as_db s2)" by (simp add: s2_def archive_frame_def update_sealed_def)
    moreover have "archive_frame (as_db s2) (as_db s3)" using open_writer_frame [of s2 "hr_open rd"] o by simp
    ultimately show ?thesis using i3 f0 archive_frame_trans by blast
  qed
qed

lemma open_writer_blobs: "blobs (as_db (snd (open_writer now s))) = blobs (as_db s)"
  by (simp add: open_writer_def Let_def split: sum.splits prod.splits)

lemma maybe_seal_blobs: "blobs (as_db (snd (maybe_seal cd due rd s))) = blobs (as_db s)"
proof -
  have c: "blobs (as_db (snd (current_writer (hr_current rd) s))) = blobs (as_db s)"
    using open_writer_blobs by (simp add: current_writer_def split: option.splits)
  have "blobs (as_db s') = blobs (as_db s1)"
    if "open_writer t (s1\<lparr>as_fs := fs, as_writer := w, as_db := update_sealed u stats (as_db s1)\<rparr>) = (r, s')" for t s1 fs w u stats r s'
    using open_writer_blobs [of t "s1\<lparr>as_fs := fs, as_writer := w, as_db := update_sealed u stats (as_db s1)\<rparr>"] that
    by (simp add: update_sealed_def)
  then show ?thesis using c by (fastforce simp: maybe_seal_def split: prod.splits sum.splits)
qed

text \<open>The invariant of the store depends on the two tables only.\<close>

lemma store_inv_other_tables:
  assumes "store_inv cd D s" and "segments db = segments (as_db s)" and "blobs db = blobs (as_db s)"
  shows "store_inv cd D (s\<lparr>as_db := db\<rparr>)"
proof -
  have "is_sealed i db = is_sealed i (as_db s)" for i using assms(2) by (simp add: is_sealed_def)
  then have "segment_view cd D (s\<lparr>as_db := db\<rparr>) i rs = segment_view cd D s i rs" for i rs
    by (simp add: segment_view_def open_view_def)
  then show ?thesis using assms by (simp add: store_inv_def is_sealed_def)
qed

text \<open>The outcome that links the blob.\<close>

definition linked_db :: "int \<Rightarrow> string \<Rightarrow> int \<Rightarrow> iso_time \<Rightarrow> database \<Rightarrow> database" where
  "linked_db i sha seq t db = delete_work i FETCH (update_wheels (\<lambda>w. w_id w = i) (\<lambda>w. w\<lparr>w_blob_sha256 := Some sha\<rparr>)
     (set_wheel_state i NEED_CONVERT seq t db))"

lemma link_outcome:
  assumes "qi_state item = NEED_METADATA"
  shows "apply_outcome rd FETCH item (Ok NEED_CONVERT (blob_link_writer sha)) (ds, (db, seq))
    = (Inr VNone, release FETCH (qi_id item) (record_outcome (or_done rd) FETCH (Ok NEED_CONVERT (blob_link_writer sha)) VNone ds),
       (linked_db (qi_id item) sha (seq + 1) (iso (or_now rd)) db, seq + 1))"
proof (rule apply_outcome_body)
  show "build_write_op rd ds FETCH item (Ok NEED_CONVERT (blob_link_writer sha)) = Inr (\<lambda>st.
       case next_seq st of (seq, (db, seq1)) \<Rightarrow>
         let db1 = set_wheel_state (qi_id item) NEED_CONVERT seq (iso (or_now rd)) db
         in case blob_link_writer sha (qi_id item) db1 of
              Inl e \<Rightarrow> (Inl e, (db1, seq1))
            | Inr db2 \<Rightarrow> (Inr VNone, (delete_work (qi_id item) FETCH db2, seq1)))"
    using assms by (simp add: build_write_op_def ok_op_def validate_transition_def)
qed (simp add: next_seq_def blob_link_writer_def linked_db_def)

lemma linked_wheel:
  "wheel_of j (linked_db i sha seq t db) = map_option (\<lambda>w. if w_id w = i
     then w\<lparr>w_state := state_int NEED_CONVERT, w_change_seq := seq, w_updated_at := t, w_blob_sha256 := Some sha\<rparr> else w)
     (wheel_of j db)"
  unfolding wheel_of_def linked_db_def delete_work_def update_wheels_def
  by (simp add: sql_get_update get_set_wheel_state option.map_comp comp_def) (rule option.map_cong [OF refl], simp)

lemma linked_tables:
  "segments (linked_db i sha seq t db) = segments db" "blobs (linked_db i sha seq t db) = blobs db"
  "work_of i FETCH (linked_db i sha seq t db) = None"
  by (simp_all add: linked_db_def work_of_delete) (simp_all add: delete_work_def update_wheels_def set_wheel_state_def)

text \<open>
  C6. The archive thread never links a wheel to bytes it has not stored: processing an item of the
  handoff queue stores the data, links the wheel to exactly the digest of the data, moves it to
  \<^verbatim>\<open>NEED_CONVERT\<close> and clears its fetch attempts in one operation with a new sequence number, hands the same
  bytes to convert and frees their budget. The digest is indexed, \<^verbatim>\<open>get\<close> returns the data once the
  segment is sealed (also when this very item seals it), everything indexed before stays readable,
  and no other wheel changes.
\<close>

theorem archived_wheel_is_linked:
  assumes codec: "codec_ok cd" and inv: "store_inv cd D (ho_store s)"
    and inj: "inj_on (sha256_digest cd) (insert (hi_data item) D)"
    and q: "bq_items (ho_queue s) = item # rest" and st: "qi_state (hi_queue_item item) = NEED_METADATA"
    and w: "wheel_of (qi_id (hi_queue_item item)) (as_db (ho_store s)) = Some w"
    and seals: "is_ok (fst (maybe_seal cd should_seal rd (snd (store_add cd (hr_add rd) (hi_data item) (ho_store s)))))"
    and arch: "on_archived (hi_queue_item item) (hi_filename item) (hi_data item) (ho_convert s) = (Inr (), c)"
  shows "\<exists>s'. process_one (add_to_store cd) (seal_if_due cd) on_archived rd s = Some (Inr True, s')
    \<and> store_inv cd (insert (hi_data item) D) (ho_store s')
    \<and> (\<forall>d \<in> insert (hi_data item) {d \<in> D. hexdigest cd d \<in> b_sha256 ` set (blobs (as_db (ho_store s)))}. \<exists>l. location_for (hexdigest cd d) (ho_store s') = Some l
        \<and> fst (store_get cd (hexdigest cd d) (ho_store s'))
          = (if is_sealed (bl_segment_id l) (as_db (ho_store s')) then Inr d else Inl FileNotFoundError))
    \<and> wheel_of (qi_id (hi_queue_item item)) (as_db (ho_store s')) = Some (w\<lparr>w_state := state_int NEED_CONVERT,
        w_change_seq := ho_seq s + 1, w_updated_at := iso (or_now (hr_outcome rd)),
        w_blob_sha256 := Some (hexdigest cd (hi_data item))\<rparr>)
    \<and> work_of (qi_id (hi_queue_item item)) FETCH (as_db (ho_store s')) = None
    \<and> (\<forall>j. j \<noteq> qi_id (hi_queue_item item) \<longrightarrow> wheel_of j (as_db (ho_store s')) = wheel_of j (as_db (ho_store s)))
    \<and> qi_id (hi_queue_item item) \<notin> set (ds_in_flight (ho_dispatcher s') FETCH)
    \<and> ho_convert s' = c \<and> bq_items (ho_queue s') = rest
    \<and> bq_current (ho_queue s') = bq_current (ho_queue s) - int (length (hi_data item))"
proof -
  let ?i = "qi_id (hi_queue_item item)" and ?sha = "hexdigest cd (hi_data item)" and ?D = "insert (hi_data item) D"
  obtain r st1 where add: "store_add cd (hr_add rd) (hi_data item) (ho_store s) = (r, st1)" by (metis prod.exhaust)
  obtain l where l: "r = Inr l" "bl_sha256 l = ?sha" and i1: "store_inv cd ?D st1"
    and b1: "b_sha256 ` set (blobs (as_db st1)) = insert ?sha (b_sha256 ` set (blobs (as_db (ho_store s))))"
    using store_add_inv [OF inv add] by blast
  have f1: "archive_frame (as_db (ho_store s)) (as_db st1)"
    using store_add_frame [of "ho_store s" cd "hr_add rd" "hi_data item"] add by simp
  obtain u st2 where ms: "maybe_seal cd should_seal rd st1 = (Inr u, st2)"
    using seals add by (cases "maybe_seal cd should_seal rd st1") (auto simp: is_ok_iff)
  have b2: "blobs (as_db st2) = blobs (as_db st1)" using maybe_seal_blobs [of cd should_seal rd st1] ms by simp
  have i2: "store_inv cd ?D st2" and f2: "archive_frame (as_db st1) (as_db st2)" using maybe_seal_inv [OF i1 ms] by auto
  define db where "db = linked_db ?i ?sha (ho_seq s + 1) (iso (or_now (hr_outcome rd))) (as_db st2)"
  have i3: "store_inv cd ?D (st2\<lparr>as_db := db\<rparr>)"
    by (rule store_inv_other_tables [OF i2]) (simp_all add: db_def linked_tables)
  have whl: "wheels (as_db st2) = wheels (as_db (ho_store s))"
    using archive_frame_tables [OF archive_frame_trans [OF f1 f2]] by simp
  have wheel: "wheel_of j db = map_option (\<lambda>w. if w_id w = ?i
     then w\<lparr>w_state := state_int NEED_CONVERT, w_change_seq := ho_seq s + 1, w_updated_at := iso (or_now (hr_outcome rd)),
       w_blob_sha256 := Some ?sha\<rparr> else w) (wheel_of j (as_db (ho_store s)))" for j
    unfolding db_def linked_wheel by (simp add: wheel_of_def whl)
  have other: "wheel_of j db = wheel_of j (as_db (ho_store s))" if "j \<noteq> ?i" for j
    unfolding wheel by (cases "wheel_of j (as_db (ho_store s))") (use that wheel_of_id in auto)
  define ds where "ds = release FETCH ?i (record_outcome (or_done (hr_outcome rd)) FETCH
      (Ok NEED_CONVERT (blob_link_writer ?sha)) VNone (ho_dispatcher s))"
  have run: "process_one (add_to_store cd) (seal_if_due cd) on_archived rd s = Some (Inr True, s\<lparr>ho_store := st2\<lparr>as_db := db\<rparr>, ho_seq := ho_seq s + 1,
      ho_dispatcher := ds, ho_convert := c, ho_queue := bq_release (handoff_size item) ((ho_queue s)\<lparr>bq_items := rest\<rparr>)\<rparr>)"
    using q add l ms arch link_outcome [OF st, where sha = ?sha]
    by (simp add: process_one_def bq_get_def archive_item_def add_to_store_def seal_if_due_def db_def ds_def)
  have fl: "?i \<notin> set (ds_in_flight ds FETCH)" unfolding ds_def by (rule Dispatcher.released)
  have b3: "b_sha256 ` set (blobs (as_db (st2\<lparr>as_db := db\<rparr>))) = insert ?sha (b_sha256 ` set (blobs (as_db (ho_store s))))"
    using b1 b2 by (simp add: db_def linked_tables)
  have reads: "\<forall>d \<in> insert (hi_data item) {d \<in> D. hexdigest cd d \<in> b_sha256 ` set (blobs (as_db (ho_store s)))}. \<exists>l. location_for (hexdigest cd d) (st2\<lparr>as_db := db\<rparr>) = Some l
        \<and> fst (store_get cd (hexdigest cd d) (st2\<lparr>as_db := db\<rparr>))
          = (if is_sealed (bl_segment_id l) (as_db (st2\<lparr>as_db := db\<rparr>)) then Inr d else Inl FileNotFoundError)"
    using store_inv_readable [OF codec i3 inj] unfolding b3 by blast
  have work: "work_of ?i FETCH db = None" unfolding db_def by (rule linked_tables)
  have this_wheel: "wheel_of ?i db = Some (w\<lparr>w_state := state_int NEED_CONVERT,
        w_change_seq := ho_seq s + 1, w_updated_at := iso (or_now (hr_outcome rd)), w_blob_sha256 := Some ?sha\<rparr>)"
    unfolding wheel w using wheel_of_id [OF w] by simp
  show ?thesis
    by (rule exI, intro conjI, rule run) (use i3 reads this_wheel work other fl in \<open>simp_all add: bq_release_def handoff_size_def\<close>)
qed

definition demo_handoff :: "nat handoff" where
  "demo_handoff = \<lparr>ho_queue = \<lparr>bq_budget = 10, bq_items = [\<lparr>hi_queue_item = \<lparr>qi_id = 1, qi_project = ''p'', qi_lane = 0,
      qi_state = NEED_METADATA\<rparr>, hi_filename = ''1'', hi_data = [1, 2], hi_sha256 = ''''\<rparr>], bq_current = 2, bq_closed = False\<rparr>,
    ho_store = twice0\<lparr>as_db := empty_db\<lparr>wheels := [demo_wheel 1 NEED_METADATA 0]\<rparr>\<rparr>, ho_seq = 1,
    ho_dispatcher = new_dispatcher ''1'' 8 1 None, ho_convert = 0\<rparr>"

definition demo_readings :: handoff_readings where
  "demo_readings = \<lparr>hr_add = 0, hr_current = 0, hr_should_seal = 0, hr_wall = 0, hr_open = 0,
    hr_outcome = \<lparr>or_now = 0, or_jitter = 1, or_penalize = 0, or_done = 0\<rparr>\<rparr>"

theorem archived_wheel_is_linked_witness:
  "\<exists>s'. process_one (add_to_store twice_codec) (seal_if_due twice_codec) (\<lambda>_ _ _ n. (Inr (), n + 1)) demo_readings demo_handoff = Some (Inr True, s')
    \<and> ho_convert s' = 1 \<and> bq_items (ho_queue s') = []"
proof -
  have "new_store [] empty_db False = Inr twice0" by (simp add: new_store_def twice0_def)
  then have "store_inv twice_codec {} twice0" by (rule store_run_inv [OF store_run.Created])
  from store_inv_other_tables [OF this, of "empty_db\<lparr>wheels := [demo_wheel 1 NEED_METADATA 0]\<rparr>"]
  have inv: "store_inv twice_codec {} (ho_store demo_handoff)" by (simp add: demo_handoff_def twice0_def)
  have seals: "is_ok (fst (maybe_seal twice_codec should_seal demo_readings (snd (store_add twice_codec (hr_add demo_readings) [1, 2] (ho_store demo_handoff)))))"
    by code_simp
  show ?thesis
    using archived_wheel_is_linked [where s = demo_handoff and rd = demo_readings, OF twice_facts(1) inv, where
        item = "hd (bq_items (ho_queue demo_handoff))" and rest = "[]" and w = "demo_wheel 1 NEED_METADATA 0" and
        on_archived = "\<lambda>_ _ _ n. (Inr (), n + 1)" and c = 1] seals
    by (simp add: demo_handoff_def wheel_of_def sql_get_def demo_wheel_def) blast
qed

section \<open>Recovery\<close>

definition lost :: "string set \<Rightarrow> wheel_row \<Rightarrow> bool" where
  "lost S w \<longleftrightarrow> (\<exists>sha. w_blob_sha256 w = Some sha \<and> sha \<in> S) \<and> w_state w \<noteq> state_int DELETED"

definition reset_wheel :: "wheel_row \<Rightarrow> wheel_row" where
  "reset_wheel w = w\<lparr>w_state := state_int NEED_METADATA, w_blob_sha256 := None, w_conda_name := None\<rparr>"

definition recovered :: "string set \<Rightarrow> database \<Rightarrow> database" where
  "recovered S db = db\<lparr>wheels := map (\<lambda>w. if lost S w then reset_wheel w else w) (wheels db),
     wheel_repodata := filter (\<lambda>r. rd_wheel_id r \<notin> w_id ` {w \<in> set (wheels db). lost S w}) (wheel_repodata db),
     blobs := filter (\<lambda>b. b_sha256 b \<notin> S) (blobs db)\<rparr>"

lemma recover_chunk_effect:
  assumes "distinct (map w_id (wheels db))"
  shows "recover_chunk chunk db = (rowcount (lost (set chunk)) (wheels db), recovered (set chunk) db)"
proof -
  let ?S = "set chunk"
  have ids: "map w_id (filter (\<lambda>w. (\<exists>sha. w_blob_sha256 w = Some sha \<and> sha \<in> set chunk) \<and> w_state w \<noteq> state_int DELETED) (wheels db))
      = map w_id (filter (lost ?S) (wheels db))"
    by (simp add: lost_def [abs_def])
  have set_ids: "set (map w_id (filter (lost ?S) (wheels db))) = w_id ` {w \<in> set (wheels db). lost ?S w}" by simp
  have mem: "w_id w \<in> w_id ` {w \<in> set (wheels db). lost ?S w} \<longleftrightarrow> lost ?S w" if "w \<in> set (wheels db)" for w
    using that assms by (auto simp: distinct_map dest: inj_onD)
  have upd: "sql_update (\<lambda>w. w_id w \<in> w_id ` {w \<in> set (wheels db). lost ?S w})
      (\<lambda>w. w\<lparr>w_state := state_int NEED_METADATA, w_blob_sha256 := None, w_conda_name := None\<rparr>) (wheels db)
      = map (\<lambda>w. if lost ?S w then reset_wheel w else w) (wheels db)"
    unfolding sql_update_def by (rule map_cong [OF refl]) (simp only: mem reset_wheel_def)
  have none: "recovered ?S db = db\<lparr>blobs := filter (\<lambda>b. b_sha256 b \<notin> ?S) (blobs db)\<rparr>" if "filter (lost ?S) (wheels db) = []"
  proof -
    have no: "\<not> lost ?S w" if "w \<in> set (wheels db)" for w
      using that \<open>filter (lost ?S) (wheels db) = []\<close> by (simp add: filter_empty_conv)
    have "map (\<lambda>w. if lost ?S w then reset_wheel w else w) (wheels db) = wheels db" by (rule map_idI) (simp add: no)
    moreover have "{w \<in> set (wheels db). lost ?S w} = {}" using no by blast
    ultimately show ?thesis unfolding recovered_def by (simp only: image_empty empty_iff not_False_eq_True filter_True) simp
  qed
  show ?thesis
  proof (cases "filter (lost ?S) (wheels db) = []")
    case True
    then show ?thesis unfolding recover_chunk_def ids set_ids Let_def by (simp add: none rowcount_def sql_delete_def)
  next
    case False
    then show ?thesis unfolding recover_chunk_def ids set_ids Let_def update_wheels_def upd
      by (simp add: recovered_def rowcount_def sql_delete_def)
  qed
qed

lemma lost_after: "lost T (if lost S w then reset_wheel w else w) \<longleftrightarrow> \<not> lost S w \<and> lost T w"
  by (simp add: lost_def reset_wheel_def)

lemma lost_Un: "lost (S \<union> T) w \<longleftrightarrow> lost S w \<or> lost T w"
  by (auto simp: lost_def)

lemma recovered_wheels: "wheels (recovered S db) = map (\<lambda>w. if lost S w then reset_wheel w else w) (wheels db)"
  by (simp add: recovered_def)

lemma recovered_Un: "recovered T (recovered S db) = recovered (S \<union> T) db"
proof -
  let ?f = "\<lambda>w. if lost S w then reset_wheel w else w"
  have w: "wheels (recovered T (recovered S db)) = wheels (recovered (S \<union> T) db)"
    by (simp add: recovered_def lost_after lost_Un)
  have "{w \<in> set (map ?f (wheels db)). lost T w} = {w \<in> set (wheels db). \<not> lost S w \<and> lost T w}"
  proof (intro equalityI subsetI)
    fix w assume "w \<in> {w \<in> set (map ?f (wheels db)). lost T w}"
    then obtain v where "v \<in> set (wheels db)" "w = ?f v" "lost T (?f v)" by auto
    then show "w \<in> {w \<in> set (wheels db). \<not> lost S w \<and> lost T w}" unfolding lost_after by simp
  next
    fix w assume w: "w \<in> {w \<in> set (wheels db). \<not> lost S w \<and> lost T w}"
    then have "w \<in> ?f ` set (wheels db)" by (intro image_eqI [of _ _ w]) simp_all
    then show "w \<in> {w \<in> set (map ?f (wheels db)). lost T w}" using w by simp
  qed
  then have ids: "w_id ` {w \<in> set (wheels db). lost S w} \<union> w_id ` {w \<in> set (map ?f (wheels db)). lost T w}
      = w_id ` {w \<in> set (wheels db). lost (S \<union> T) w}"
    unfolding lost_Un by auto
  have rd: "wheel_repodata (recovered X y) = filter (\<lambda>r. rd_wheel_id r \<notin> w_id ` {w \<in> set (wheels y). lost X w}) (wheel_repodata y)" for X y
    by (simp add: recovered_def)
  have r: "wheel_repodata (recovered T (recovered S db)) = wheel_repodata (recovered (S \<union> T) db)"
    unfolding rd recovered_wheels filter_filter ids [symmetric] by (rule filter_cong) simp_all
  have b: "blobs (recovered T (recovered S db)) = blobs (recovered (S \<union> T) db)"
    by (auto simp: recovered_def intro: filter_cong)
  have "recovered T (recovered S db) = (recovered (S \<union> T) db)\<lparr>wheels := wheels (recovered T (recovered S db)),
      wheel_repodata := wheel_repodata (recovered T (recovered S db)), blobs := blobs (recovered T (recovered S db))\<rparr>"
    unfolding recovered_def by simp
  then show ?thesis unfolding w r b by simp
qed

lemma rowcount_recovered:
  "rowcount (lost S) (wheels db) + rowcount (lost T) (wheels (recovered S db)) = rowcount (lost (S \<union> T)) (wheels db)"
proof -
  have "length (filter (lost S) ws) + length (filter (lost T) (map (\<lambda>w. if lost S w then reset_wheel w else w) ws))
      = length (filter (lost (S \<union> T)) ws)" for ws
    by (induction ws) (simp_all add: lost_after lost_Un)
  then show ?thesis unfolding rowcount_def recovered_def by (simp flip: of_nat_add)
qed

lemma recovered_ids: "map w_id (wheels (recovered S db)) = map w_id (wheels db)"
  by (auto simp: recovered_def reset_wheel_def)

lemma recover_chunks_effect:
  assumes "distinct (map w_id (wheels db))"
  shows "recover_chunks chunks k (db, seq)
    = (Inr (k + rowcount (lost (set (concat chunks))) (wheels db)), (recovered (set (concat chunks)) db, seq))"
  using assms
proof (induction chunks arbitrary: k db)
  case Nil
  have "lost {} w = False" for w by (simp add: lost_def)
  then show ?case by (simp add: recovered_def rowcount_def)
next
  case (Cons c chunks)
  have d: "distinct (map w_id (wheels (recovered (set c) db)))" using Cons.prems by (simp add: recovered_ids)
  have "recover_chunks (c # chunks) k (db, seq)
      = recover_chunks chunks (k + rowcount (lost (set c)) (wheels db)) (recovered (set c) db, seq)"
    by (simp add: exec_op_def recover_chunk_op_def recover_chunk_effect [OF Cons.prems])
  also have "\<dots> = (Inr (k + rowcount (lost (set c)) (wheels db) + rowcount (lost (set (concat chunks))) (wheels (recovered (set c) db))),
      (recovered (set (concat chunks)) (recovered (set c) db), seq))"
    by (rule Cons.IH [OF d])
  finally show ?case
    using rowcount_recovered [of "set c" db "set (concat chunks)"] by (simp add: recovered_Un add.assoc)
qed

definition segment_shas :: "int \<Rightarrow> database \<Rightarrow> string set" where
  "segment_shas segment_id db = b_sha256 ` {b \<in> set (blobs db). b_segment_id b = segment_id}"

lemma recover_segment_effect:
  assumes "distinct (map w_id (wheels db))" and "0 < chunk_size"
  shows "recover_unsealed_segment segment_id chunk_size (db, seq)
    = (Inr (rowcount (lost (segment_shas segment_id db)) (wheels db)), (recovered (segment_shas segment_id db) db, seq))"
proof -
  let ?shas = "map fst (blob_rows_for_segment segment_id db)"
  have "set (concat (slices (nat chunk_size) ?shas)) = segment_shas segment_id db"
    using assms(2) by (simp add: concat_slices) (force simp: blob_rows_for_segment_def segment_shas_def)
  then show ?thesis
    using assms(2) recover_chunks_effect [OF assms(1), where chunks = "slices (nat chunk_size) ?shas" and k = 0 and seq = seq]
    by (simp add: recover_unsealed_segment_def)
qed

lemma blobs_recovered_segment:
  "distinct (map b_sha256 (blobs db)) \<Longrightarrow> blobs (recovered (segment_shas segment_id db) db) = filter (\<lambda>b. b_segment_id b \<noteq> segment_id) (blobs db)"
  by (auto simp: recovered_def segment_shas_def distinct_map intro!: filter_cong dest: inj_onD)

text \<open>
  Recovery of a truncated segment, in chunks of any size, removes exactly the segment's \<^verbatim>\<open>blobs\<close> rows and
  sends exactly the wheels that pointed into it back to \<^verbatim>\<open>NEED_METADATA\<close>, without their blob link, conda
  name and repodata; tombstones and all other rows stay, and the number of wheels reset is returned.
  The rows keep their \<^verbatim>\<open>change_seq\<close> and \<^verbatim>\<open>updated_at\<close>.
\<close>

theorem recovery_forgets_segment:
  assumes "distinct (map w_id (wheels db))" and "distinct (map b_sha256 (blobs db))" and "0 < chunk_size"
  shows "recover_unsealed_segment segment_id chunk_size (db, seq)
    = (Inr (int (length (filter (lost (b_sha256 ` {b \<in> set (blobs db). b_segment_id b = segment_id})) (wheels db)))),
       (db\<lparr>wheels := map (\<lambda>w. if lost (b_sha256 ` {b \<in> set (blobs db). b_segment_id b = segment_id}) w
              then w\<lparr>w_state := state_int NEED_METADATA, w_blob_sha256 := None, w_conda_name := None\<rparr> else w) (wheels db),
           wheel_repodata := filter (\<lambda>r. rd_wheel_id r \<notin> w_id ` {w \<in> set (wheels db).
              lost (b_sha256 ` {b \<in> set (blobs db). b_segment_id b = segment_id}) w}) (wheel_repodata db),
           blobs := filter (\<lambda>b. b_segment_id b \<noteq> segment_id) (blobs db)\<rparr>, seq))"
  using recover_segment_effect [OF assms(1,3), of segment_id seq] blobs_recovered_segment [OF assms(2), of segment_id]
  by (simp add: recovered_def segment_shas_def rowcount_def reset_wheel_def [abs_def])

end
