(* ===== verification/Fetch_Bulk.thy ===== *)
theory Fetch_Bulk
  imports Fetch
begin

text \<open>
  What \<^verbatim>\<open>fetch_one\<close> lets through, and what a bulk claim hands to convert: only bytes whose digest was
  checked, and no claimed wheel is lost on the way.
\<close>

section \<open>One sidecar\<close>

lemma bridge_lookup_digest:
  "bridge_lookup sha256_hex br (Some e) = Inr (Some data) \<Longrightarrow> sha256_hex data = e"
  by (auto simp: bridge_lookup_def bind_res_Inr_iff split: if_splits option.splits)

lemma fetch_metadata_digest:
  "fetch_metadata sha256_hex h url (Some e) = Inr data \<Longrightarrow> sha256_hex data = e"
  by (auto simp: fetch_metadata_def bind_res_Inr_iff split: if_splits option.splits)


definition demo_http :: http where
  "demo_http = \<lparr>h_host_of = (\<lambda>_. Some ''files''), h_acquire = (\<lambda>_. Inr True), h_send = (\<lambda>_ _. None),
     h_stream = (\<lambda>_. Some (\<lparr>rs_status = 200, rs_headers = [], rs_text = [], rs_json = None\<rparr>, [[1]], False)),
     h_retry_after = (\<lambda>_. None)\<rparr>"

definition demo_fetch_item :: fetch_item where
  "demo_fetch_item = \<lparr>fi_id = 1, fi_project = ''p'', fi_lane = 0, fi_state = NEED_METADATA, fi_filename = ''f'', fi_url = ''u'',
     fi_metadata_sha256 = Some ''x'', fi_has_metadata = True\<rparr>"


section \<open>Grouping\<close>

text \<open>The pairs a dict of lists holds.\<close>

definition members :: "('k \<times> 'v list) list \<Rightarrow> ('k \<times> 'v) set" where
  "members d = {(k, v). \<exists>vs. (k, vs) \<in> set d \<and> v \<in> set vs}"

lemma members_simps [simp]:
  "members [] = {}" "members ((k, vs) # d) = Pair k ` set vs \<union> members d"
  by (auto simp: members_def)

lemma members_dict_append: "members (dict_append k v d) = insert (k, v) (members d)"
proof (cases "map_of d k")
  case None
  then show ?thesis by (auto simp: dict_append_def members_def)
next
  case (Some us)
  then have "(k, us) \<in> set d" by (rule map_of_SomeD)
  then show ?thesis using Some by (force simp: dict_append_def members_def split: if_splits)
qed

lemma keys_dict_append: "distinct (map fst d) \<Longrightarrow> distinct (map fst (dict_append k v d))"
  by (auto simp: dict_append_def map_of_eq_None_iff comp_def case_prod_unfold split: option.splits)

text \<open>The ids a stage has in flight.\<close>

abbreviation flying :: "dispatcher \<Rightarrow> int set" where
  "flying ds \<equiv> set (ds_in_flight ds CONVERT)"

lemma bulk_outcome_effect:
  "flying (bs_dispatcher (snd (bulk_outcome rd item out s))) = flying (bs_dispatcher s) - {qi_id item}"
  "bs_ready (snd (bulk_outcome rd item out s)) = bs_ready s"
proof -
  obtain r ds st where a: "apply_outcome rd CONVERT item out (bs_dispatcher s, bs_conn s) = (r, ds, st)"
    by (metis prod.exhaust)
  show "flying (bs_dispatcher (snd (bulk_outcome rd item out s))) = flying (bs_dispatcher s) - {qi_id item}"
    using apply_outcome_in_flight [of rd CONVERT item out "bs_dispatcher s" "bs_conn s"] a by (simp add: bulk_outcome_def)
  show "bs_ready (snd (bulk_outcome rd item out s)) = bs_ready s" using a by (simp add: bulk_outcome_def)
qed

lemma group_claimed_effect:
  assumes "group_claimed rows items (d, ds) = (d', ds')"
    and "flying ds \<subseteq> F \<union> qi_id ` set items \<union> (\<lambda>(_, item, _). qi_id item) ` members d"
    and "\<forall>(sha, item, filename) \<in> members d. map_of rows (qi_id item) = Some (filename, Some sha)"
  shows "flying ds' \<subseteq> F \<union> (\<lambda>(_, item, _). qi_id item) ` members d'
    \<and> (\<forall>(sha, item, filename) \<in> members d'. map_of rows (qi_id item) = Some (filename, Some sha))"
  using assms
proof (induction items arbitrary: d ds)
  case Nil
  then show ?case by (simp add: group_claimed_def)
next
  case (Cons item items)
  show ?case
  proof (cases "\<exists>filename sha. map_of rows (qi_id item) = Some (filename, Some sha)")
    case True
    then obtain filename sha where r: "map_of rows (qi_id item) = Some (filename, Some sha)" by blast
    have "group_claimed rows items (dict_append sha (item, filename) d, ds) = (d', ds')"
      using Cons.prems(1) r by (simp add: group_claimed_def)
    from Cons.IH [OF this] show ?thesis using Cons.prems(2,3) r by (auto simp: members_dict_append)
  next
    case False
    then have "(case map_of rows (qi_id item) of Some (filename, Some sha) \<Rightarrow> (dict_append sha (item, filename) d, ds)
       | _ \<Rightarrow> (d, release CONVERT (qi_id item) ds)) = (d, release CONVERT (qi_id item) ds)"
      by (auto split: option.splits)
    then have "group_claimed rows items (d, release CONVERT (qi_id item) ds) = (d', ds')"
      using Cons.prems(1) by (simp add: group_claimed_def)
    then show ?thesis
      by (rule Cons.IH [OF _ _ Cons.prems(3)]) (use Cons.prems(2) in \<open>auto simp: release_def\<close>)
  qed
qed

section \<open>Reading\<close>

text \<open>A loop that ends without raising has run its body on every element.\<close>

lemma for_each_rule:
  assumes "for_each f xs s = (Inr u, s')" and "J xs s"
    and "\<And>x xs s s1. J (x # xs) s \<Longrightarrow> f x s = (Inr (), s1) \<Longrightarrow> J xs s1"
  shows "J [] s'"
  using assms(1,2)
proof (induction xs arbitrary: s)
  case Nil
  then show ?case by simp
next
  case (Cons x xs)
  then obtain s1 where "f x s = (Inr (), s1)" "for_each f xs s1 = (Inr u, s')"
    by (auto split: prod.splits sum.splits)
  then show ?case using Cons.IH assms(3) [OF Cons.prems(2)] by blast
qed

lemma bulk_outcomes_flying:
  assumes "for_each (\<lambda>(item, _). bulk_outcome (rd item) item out) entries s = (Inr u, s')"
  shows "flying (bs_dispatcher s') \<subseteq> flying (bs_dispatcher s) - (qi_id \<circ> fst) ` set entries \<and> bs_ready s' = bs_ready s"
  using assms
proof (induction entries arbitrary: s)
  case Nil
  then show ?case by simp
next
  case (Cons e entries)
  obtain item x where e: "e = (item, x)" by (metis prod.exhaust)
  obtain s1 where "bulk_outcome (rd item) item out s = (Inr (), s1)"
      "for_each (\<lambda>(item, _). bulk_outcome (rd item) item out) entries s1 = (Inr u, s')"
    using Cons.prems by (auto simp: e split: prod.splits sum.splits)
  then show ?case using Cons.IH bulk_outcome_effect [of "rd item" item out s] by (auto simp: e)
qed

definition item_id :: "string \<times> queue_item \<times> string \<Rightarrow> int" where
  "item_id e = qi_id (fst (snd e))"

lemma fold_dict_append:
  "members (fold (\<lambda>(item, filename). dict_append key (sha, item, filename)) entries g)
    = (\<lambda>(item, filename). (key, sha, item, filename)) ` set entries \<union> members g"
  "distinct (map fst g) \<Longrightarrow> distinct (map fst (fold (\<lambda>(item, filename). dict_append key (sha, item, filename)) entries g))"
  by (induction entries arbitrary: g) (auto simp: members_dict_append keys_dict_append)

definition grouping :: "int set \<Rightarrow> (int \<times> string \<times> string option) list \<Rightarrow> (string \<times> (queue_item \<times> string) list) list
    \<Rightarrow> block_groups \<times> bulk_state \<Rightarrow> bool" where
  "grouping F rows todo gs \<longleftrightarrow>
     flying (bs_dispatcher (snd gs)) \<subseteq> F \<union> item_id ` members todo \<union> (item_id \<circ> snd) ` members (fst gs)
     \<and> (\<forall>(sha, item, filename) \<in> members todo. map_of rows (qi_id item) = Some (filename, Some sha))
     \<and> (\<forall>(key, sha, item, filename) \<in> members (fst gs). map_of rows (qi_id item) = Some (filename, Some sha))
     \<and> distinct (map fst (fst gs)) \<and> bs_ready (snd gs) = []"

lemma group_by_block_grouping:
  assumes "grouping F rows (e # todo) gs" and "group_by_block rd locations e gs = (Inr (), gs')"
  shows "grouping F rows todo gs'"
proof -
  obtain sha entries grouped s where e: "e = (sha, entries)" "gs = (grouped, s)" by (metis prod.exhaust)
  show ?thesis
  proof (cases "map_of locations sha")
    case None
    then obtain s' where f: "for_each (\<lambda>(item, _). bulk_outcome (rd item) item
          (Retry ''archive_blob_missing'' (''no blobs row for '' @ sha))) entries s = (Inr (), s')" and gs': "gs' = (grouped, s')"
      using assms(2) by (auto simp: group_by_block_def e split: prod.splits)
    have "item_id ` Pair sha ` set entries = (qi_id \<circ> fst) ` set entries" by (force simp: item_id_def image_iff)
    then show ?thesis
      using bulk_outcomes_flying [OF f] assms(1) unfolding grouping_def e gs' by (simp add: image_Un) blast
  next
    case (Some l)
    let ?g = "fold (\<lambda>(item, filename). dict_append (bl_segment_id l, bl_block_no l) (sha, item, filename)) entries grouped"
    have gs': "gs' = (?g, s)" using assms(2) Some by (simp add: group_by_block_def e)
    have "item_id ` Pair sha ` set entries
        = (item_id \<circ> snd) ` (\<lambda>(item, filename). ((bl_segment_id l, bl_block_no l), sha, item, filename)) ` set entries"
      by (force simp: item_id_def image_iff)
    moreover have "map_of rows (qi_id item) = Some (filename, Some sha)" if "(item, filename) \<in> set entries" for item filename
    proof -
      have "(sha, item, filename) \<in> members (e # todo)" using that by (simp add: e)
      then show ?thesis using assms(1) unfolding grouping_def by fastforce
    qed
    ultimately show ?thesis
      using assms(1) unfolding grouping_def e gs' by (auto simp: fold_dict_append image_Un)
  qed
qed

text \<open>Reading the groups: the entries still to be read, and the records already read.\<close>

definition reading :: "codec \<Rightarrow> int set \<Rightarrow> (int \<times> string \<times> string option) list \<Rightarrow> (string \<times> queue_item \<times> string) set \<Rightarrow> bulk_state \<Rightarrow> bool" where
  "reading cd F rows todo s \<longleftrightarrow>
     flying (bs_dispatcher s) \<subseteq> F \<union> item_id ` todo \<union> (qi_id \<circ> bk_queue_item) ` set (bs_ready s)
     \<and> (\<forall>(sha, item, filename) \<in> todo. map_of rows (qi_id item) = Some (filename, Some sha))
     \<and> (\<forall>r \<in> set (bs_ready s). map_of rows (qi_id (bk_queue_item r)) = Some (bk_filename r, Some (hexdigest cd (bk_data r))))"

lemma read_location_digest: "read_location cd fs l rdr = (Inr data, rdr') \<Longrightarrow> hexdigest cd data = bl_sha256 l"
  by (auto simp: read_location_def Let_def split: prod.splits sum.splits if_splits)

lemma read_claimed_reading:
  assumes "reading cd F rows (insert e todo) s" and "\<And>sha l. map_of locations sha = Some l \<Longrightarrow> bl_sha256 l = sha"
    and "read_claimed cd fs describe rd locations segment_id e s = (Inr (), s1)"
  shows "reading cd F rows todo s1"
proof -
  obtain sha item filename where e: "e = (sha, item, filename)" by (metis prod.exhaust)
  have id: "item_id e = qi_id item" by (simp add: e item_id_def)
  have row: "map_of rows (qi_id item) = Some (filename, Some sha)" using assms(1) by (auto simp: reading_def e)
  obtain l where l: "map_of locations sha = Some l"
    using assms(3) by (cases "map_of locations sha") (simp_all add: read_claimed_def e)
  obtain res rdr where rd: "read_location cd fs l (bs_reader s) = (res, rdr)" by (metis prod.exhaust)
  have resolved: "reading cd F rows todo s1" if b: "bulk_outcome rd' item out (s\<lparr>bs_reader := rdr\<rparr>) = (Inr (), s1)" for rd' out
    using bulk_outcome_effect [of rd' item out "s\<lparr>bs_reader := rdr\<rparr>"] assms(1) id
    unfolding b reading_def by auto
  show ?thesis
  proof (cases res)
    case (Inr data)
    then have "s1 = s\<lparr>bs_reader := rdr, bs_ready := bs_ready s @ [\<lparr>bk_queue_item = item, bk_filename = filename, bk_data = data\<rparr>]\<rparr>"
      using assms(3) l rd by (simp add: read_claimed_def e Let_def)
    moreover have "hexdigest cd data = sha" using read_location_digest rd Inr assms(2) [OF l] by simp
    ultimately show ?thesis using assms(1) row id by (auto simp: reading_def)
  next
    case (Inl x)
    then show ?thesis using assms(3) l rd resolved by (cases x) (auto simp: read_claimed_def e Let_def)
  qed
qed

lemma read_block_reading:
  assumes "for_each (read_claimed cd fs describe rd locations segment_id) es s = (Inr u, s1)"
    and "reading cd F rows (set es \<union> todo) s" and "\<And>sha l. map_of locations sha = Some l \<Longrightarrow> bl_sha256 l = sha"
  shows "reading cd F rows todo s1"
proof -
  have "reading cd F rows (set [] \<union> todo) s1"
  proof (rule for_each_rule [where J = "\<lambda>es s. reading cd F rows (set es \<union> todo) s", OF assms(1,2)])
    fix x xs s s1
    assume "reading cd F rows (set (x # xs) \<union> todo) s"
      and c: "read_claimed cd fs describe rd locations segment_id x s = (Inr (), s1)"
    then have "reading cd F rows (insert x (set xs \<union> todo)) s" by simp
    from read_claimed_reading [OF this assms(3) c] show "reading cd F rows (set xs \<union> todo) s1" .
  qed
  then show ?thesis by simp
qed

text \<open>All the groups, in the order of their blocks.\<close>

lemma read_blocks_reading:
  assumes "for_each (\<lambda>key. for_each (read_claimed cd fs describe rd locations (fst key)) (the (map_of grouped key))) keys s = (Inr u, s1)"
    and "reading cd F rows (\<Union>key \<in> set keys. set (the (map_of grouped key))) s"
    and "\<And>sha l. map_of locations sha = Some l \<Longrightarrow> bl_sha256 l = sha"
  shows "reading cd F rows {} s1"
proof -
  have "reading cd F rows (\<Union>key \<in> set []. set (the (map_of grouped key))) s1"
  proof (rule for_each_rule [where J = "\<lambda>keys s. reading cd F rows (\<Union>key \<in> set keys. set (the (map_of grouped key))) s", OF assms(1,2)])
    fix x xs s s1
    assume "reading cd F rows (\<Union>key \<in> set (x # xs). set (the (map_of grouped key))) s"
      and c: "for_each (read_claimed cd fs describe rd locations (fst x)) (the (map_of grouped x)) s = (Inr (), s1)"
    then have "reading cd F rows (set (the (map_of grouped x)) \<union> (\<Union>key \<in> set xs. set (the (map_of grouped key)))) s" by simp
    from read_block_reading [OF c this assms(3)]
    show "reading cd F rows (\<Union>key \<in> set xs. set (the (map_of grouped key))) s1" .
  qed
  then show ?thesis by simp
qed

lemma members_groups:
  assumes "distinct (map fst g)"
  shows "(\<Union>key \<in> fst ` set g. set (the (map_of g key))) = snd ` members g"
proof -
  have "the (map_of g k) = vs" if "(k, vs) \<in> set g" for k vs
    using map_of_is_SomeI [OF assms that] by simp
  then show ?thesis by (force simp: members_def image_iff)
qed


definition demo_bulk :: bulk_state where
  "demo_bulk = \<lparr>bs_dispatcher = new_dispatcher ''1'' 8 1 None,
     bs_conn = ((as_db twice2)\<lparr>wheels := [demo_wheel 2 NEED_CONVERT 0,
        (demo_wheel 1 NEED_CONVERT 0)\<lparr>w_blob_sha256 := Some (hex (re_sha256 twice_record))\<rparr>]\<rparr>, 5),
     bs_reader = new_reader 4, bs_ready = []\<rparr>"

lemma demo_bulk_claim:
  "case claim_batch twice_codec (as_fs twice2) (\<lambda>_. []) 0 (\<lambda>_. \<lparr>or_now = 0, or_jitter = 1, or_penalize = 0, or_done = 0\<rparr>) 10 demo_bulk
   of (Inl e, s) \<Rightarrow> False | (Inr ready, s) \<Rightarrow> map bk_data ready = [[1, 2]] \<and> ds_in_flight (bs_dispatcher s) CONVERT = [1]"
  by code_simp


end
