(* ===== verification/Stages.thy ===== *)
theory Stages
  imports Fetch Ingest Circuit_Breaker Disk_Guard Stage_Loop
begin

text \<open>
  \<^verbatim>\<open>daemon/stages/*.py\<close>: the bodies of the stage loops. A stage's \<^verbatim>\<open>iterate\<close> is a function from its state to
  its result and new state; the exceptions that leave it are values. What worker threads and processes
  return, and in which order, is an argument: the list of completed futures. Clock readings are
  arguments too.
\<close>

section \<open>Polling the index\<close>

record index_poll =
  ix_etag :: "string option"
  ix_last_remote_serial :: "int option"
  ix_last_poll_at :: "real option"
  ix_last_change_at :: "real option"

definition new_index_poll :: index_poll where
  "new_index_poll = \<lparr>ix_etag = None, ix_last_remote_serial = None, ix_last_poll_at = None, ix_last_change_at = None\<rparr>"

record poll_readings =
  pq_allow :: real
  pq_failure :: real
  pq_now :: real

text \<open>The stage after a successful poll; \<open>enqueue\<close> is the callback of \<^verbatim>\<open>project_sync\<close>.\<close>

definition poll_applied :: "(string \<Rightarrow> 'q \<Rightarrow> 'q) \<Rightarrow> real \<Rightarrow> poll_result \<Rightarrow> index_poll \<times> 'q \<Rightarrow> bool \<times> index_poll \<times> 'q" where
  "poll_applied enqueue now r s =
     (case s of (st, q) \<Rightarrow>
        let st1 = st\<lparr>ix_last_poll_at := Some now,
                     ix_etag := (case pr_etag r of None \<Rightarrow> ix_etag st | Some e \<Rightarrow> Some e)\<rparr>
        in if pr_not_modified r then (False, st1, q)
           else let st2 = st1\<lparr>ix_last_remote_serial := pr_remote_global_serial r\<rparr>;
                    st3 = (if pr_stale_projects r \<noteq> [] then st2\<lparr>ix_last_change_at := Some now\<rparr> else st2)
                in (pr_stale_projects r \<noteq> [], st3, fold enqueue (pr_stale_projects r) q))"

definition index_poll_iterate :: "(string \<Rightarrow> 'q \<Rightarrow> 'q) \<Rightarrow> (string option \<Rightarrow> pypi_exn + poll_result) \<Rightarrow> poll_readings
    \<Rightarrow> breaker \<times> index_poll \<times> 'q \<Rightarrow> (pypi_exn + bool) \<times> breaker \<times> index_poll \<times> 'q" where
  "index_poll_iterate enqueue poll rd s =
     (case s of (b, st, q) \<Rightarrow>
        case allow (pq_allow rd) b of
          Inl e \<Rightarrow> (Inl (Escapes e), s)
        | Inr (False, b1) \<Rightarrow> (Inr False, b1, st, q)
        | Inr (True, b1) \<Rightarrow>
            (case poll (ix_etag st) of
               Inl (PyPIRateLimited _) \<Rightarrow> (Inr False, b1, st, q)
             | Inl e \<Rightarrow>
                 if e \<in> {PyPITransientError, PyPIProtocolError, PyPINotFound}
                 then (Inr False, record_failure (pq_failure rd) b1, st, q)
                 else (Inl e, b1, st, q)
             | Inr r \<Rightarrow> (case poll_applied enqueue (pq_now rd) r (st, q) of
                 (worked, st1, q1) \<Rightarrow> (Inr worked, record_success b1, st1, q1))))"

section \<open>Syncing projects\<close>

record project_sync =
  pj_batch_limit :: int
  pj_pending :: "string list"

definition ps_enqueue :: "string \<Rightarrow> project_sync \<Rightarrow> project_sync" where
  "ps_enqueue name p = (if name \<in> set (pj_pending p) then p else p\<lparr>pj_pending := pj_pending p @ [name]\<rparr>)"

definition ps_drain :: "int \<Rightarrow> project_sync \<Rightarrow> string list \<times> project_sync" where
  "ps_drain limit p =
     (let names = py_slice 0 limit (pj_pending p)
      in (names, p\<lparr>pj_pending := filter (\<lambda>n. n \<notin> set names) (pj_pending p)\<rparr>))"

definition ps_requeue :: "string list \<Rightarrow> project_sync \<Rightarrow> project_sync" where
  "ps_requeue names p = fold ps_enqueue names p"

definition empty_summary :: ingest_summary where
  "empty_summary = \<lparr>is_inserted = 0, is_updated = 0, is_tombstoned = 0, is_projects_gone = 0, is_retried = [],
     is_rate_limited = [], is_quarantined_projects = 0\<rparr>"

definition succeeded_anything :: "ingest_summary \<Rightarrow> bool" where
  "succeeded_anything sm \<longleftrightarrow> is_inserted sm \<noteq> 0 \<or> is_updated sm \<noteq> 0 \<or> is_tombstoned sm \<noteq> 0 \<or> is_projects_gone sm \<noteq> 0"

record sync_readings =
  pv_allow :: real
  pv_eligible :: "string \<Rightarrow> real"
  pv_failure :: real

text \<open>\<open>workers\<close> gives the completed syncs of the names that were submitted, in the order they finish.\<close>

definition project_sync_iterate :: "string \<Rightarrow> (string list \<Rightarrow> (ingest_readings \<times> string \<times> sync_outcome) list) \<Rightarrow> sync_readings
    \<Rightarrow> breaker \<times> project_sync \<times> ingest_state \<Rightarrow> bool res \<times> breaker \<times> project_sync \<times> ingest_state" where
  "project_sync_iterate reroll_version workers rd s =
     (case s of (b, p, ig) \<Rightarrow>
        case ps_drain (pj_batch_limit p) p of
          (names, p1) \<Rightarrow>
            if names = [] then (Inr False, b, p1, ig)
            else (case allow (pv_allow rd) b of
                    Inl e \<Rightarrow> (Inl e, b, p1, ig)
                  | Inr (False, b1) \<Rightarrow> (Inr False, b1, ps_requeue names p1, ig)
                  | Inr (True, b1) \<Rightarrow>
                      (case ingest_stale_projects reroll_version
                              (workers (eligible_names (pv_eligible rd) names (ig_backoff ig)))
                              (ig\<lparr>ig_summary := empty_summary\<rparr>) of
                         Inl e \<Rightarrow> (Inl e, b1, p1, ig)
                       | Inr ig1 \<Rightarrow>
                           (let sm = ig_summary ig1
                            in (Inr True,
                                (if is_retried sm \<noteq> [] \<and> \<not> succeeded_anything sm then record_failure (pv_failure rd) b1
                                 else if succeeded_anything sm then record_success b1 else b1), p1, ig1)))))"

section \<open>Fetching\<close>

record 'q fetch_stage =
  fg_breaker :: breaker
  fg_disk_guard :: "disk_guard option"
  fg_dispatcher :: dispatcher
  fg_conn :: "database op_state"
  fg_handoff :: 'q

text \<open>The rows of the claimed items; an item without a row is released.\<close>

definition fetch_pairs :: "database \<Rightarrow> queue_item list \<Rightarrow> dispatcher \<Rightarrow> (queue_item \<times> fetch_item) list \<times> dispatcher" where
  "fetch_pairs db items ds =
     fold (\<lambda>item (pairs, ds). case sql_get w_id (qi_id item) (wheels db) of
         None \<Rightarrow> (pairs, release FETCH (qi_id item) ds)
       | Some w \<Rightarrow> (pairs @ [(item, \<lparr>fi_id = qi_id item, fi_project = qi_project item, fi_lane = qi_lane item,
             fi_state = qi_state item, fi_filename = w_filename w, fi_url = w_url w,
             fi_metadata_sha256 = w_metadata_sha256 w, fi_has_metadata = True\<rparr>)], ds)) items ([], ds)"

text \<open>A future that has completed: its item, its result, the readings of its handling, the shutdown flag seen after it.\<close>

record fetch_done =
  fd_item :: queue_item
  fd_fetch_item :: fetch_item
  fd_result :: "fetch_outcome res"
  fd_readings :: outcome_readings
  fd_shutdown :: bool

record 'q batch_state =
  ba_stage :: "'q fetch_stage"
  ba_pending :: "int list"
  ba_saw_ok :: bool
  ba_saw_failure :: bool

text \<open>The handling of one outcome; \<open>put\<close> is the handoff queue's.\<close>

definition handle_fetched :: "(handoff_item \<Rightarrow> 'q \<Rightarrow> unit res \<times> 'q) \<Rightarrow> fetch_done \<Rightarrow> fetch_outcome \<Rightarrow> 'q batch_state
    \<Rightarrow> unit res \<times> 'q batch_state" where
  "handle_fetched put d out s =
     (let st = ba_stage s in
      case out of
        FetchOk data sha \<Rightarrow>
          (case put \<lparr>hi_queue_item = fd_item d, hi_filename = fi_filename (fd_fetch_item d), hi_data = data, hi_sha256 = sha\<rparr>
                  (fg_handoff st) of
             (r, q) \<Rightarrow> (r, s\<lparr>ba_saw_ok := True, ba_stage := st\<lparr>fg_handoff := q\<rparr>\<rparr>))
      | _ \<Rightarrow>
          (let s1 = (case out of FetchRetry _ _ \<Rightarrow> s\<lparr>ba_saw_failure := True\<rparr> | _ \<Rightarrow> s)
           in case adapt_fetch_outcome out of
                Inl e \<Rightarrow> (Inl e, s1)
              | Inr adapted \<Rightarrow>
                  (case apply_outcome (fd_readings d) FETCH (fd_item d) adapted (fg_dispatcher st, fg_conn st) of
                     (r, ds, conn) \<Rightarrow> (bind_res r (\<lambda>_. Inr ()),
                        s1\<lparr>ba_stage := st\<lparr>fg_dispatcher := ds, fg_conn := conn\<rparr>\<rparr>))))"

fun collect_fetched :: "(handoff_item \<Rightarrow> 'q \<Rightarrow> unit res \<times> 'q) \<Rightarrow> fetch_done list \<Rightarrow> 'q batch_state \<Rightarrow> unit res \<times> 'q batch_state" where
  "collect_fetched put [] s = (Inr (), s)"
| "collect_fetched put (d # ds) s =
     (let s1 = s\<lparr>ba_pending := filter (\<lambda>i. i \<noteq> qi_id (fd_item d)) (ba_pending s)\<rparr>
      in case fd_result d of
           Inl e \<Rightarrow> (Inl e, s1)
         | Inr out \<Rightarrow>
             (case handle_fetched put d out s1 of
                (Inl e, s2) \<Rightarrow> (Inl e, s2)
              | (Inr _, s2) \<Rightarrow> if fd_shutdown d then (Inr (), s2) else collect_fetched put ds s2))"

definition abandon_pending :: "int list \<Rightarrow> dispatcher \<Rightarrow> dispatcher" where
  "abandon_pending ids ds = fold (release FETCH) ids ds"

definition dispatch_batch :: "(handoff_item \<Rightarrow> 'q \<Rightarrow> unit res \<times> 'q) \<Rightarrow> ((queue_item \<times> fetch_item) list \<Rightarrow> fetch_done list)
    \<Rightarrow> real \<Rightarrow> queue_item list \<Rightarrow> 'q fetch_stage \<Rightarrow> bool res \<times> 'q fetch_stage" where
  "dispatch_batch put workers failed_at items st =
     (case fetch_pairs (fst (fg_conn st)) items (fg_dispatcher st) of
        (pairs, ds) \<Rightarrow>
          (let st1 = st\<lparr>fg_dispatcher := ds\<rparr>
           in if pairs = [] then (Inr False, st1)
              else (case collect_fetched put (workers pairs)
                           \<lparr>ba_stage = st1, ba_pending = map (qi_id \<circ> fst) pairs, ba_saw_ok = False, ba_saw_failure = False\<rparr> of
                      (Inl e, s) \<Rightarrow> (Inl e, ba_stage s)
                    | (Inr _, s) \<Rightarrow>
                        (let st2 = (ba_stage s)\<lparr>fg_dispatcher := abandon_pending (ba_pending s) (fg_dispatcher (ba_stage s))\<rparr>
                         in (Inr True, st2\<lparr>fg_breaker := (if ba_saw_failure s then record_failure failed_at (fg_breaker st2)
                              else if ba_saw_ok s then record_success (fg_breaker st2) else fg_breaker st2)\<rparr>)))))"

record fetch_readings =
  ff_allow :: real
  ff_claim :: real
  ff_failure :: real

definition fetch_iterate :: "(handoff_item \<Rightarrow> 'q \<Rightarrow> unit res \<times> 'q) \<Rightarrow> ((queue_item \<times> fetch_item) list \<Rightarrow> fetch_done list)
    \<Rightarrow> fetch_readings \<Rightarrow> int \<Rightarrow> 'q fetch_stage \<Rightarrow> bool res \<times> 'q fetch_stage" where
  "fetch_iterate put workers rd limit st =
     (if (case fg_disk_guard st of None \<Rightarrow> False | Some g \<Rightarrow> is_paused g) then (Inr False, st)
      else (case allow (ff_allow rd) (fg_breaker st) of
              Inl e \<Rightarrow> (Inl e, st)
            | Inr (False, b) \<Rightarrow> (Inr False, st\<lparr>fg_breaker := b\<rparr>)
            | Inr (True, b) \<Rightarrow>
                (let st1 = st\<lparr>fg_breaker := b\<rparr>
                 in case claim (ff_claim rd) FETCH limit (fst (fg_conn st1)) (fg_dispatcher st1) of
                      Inl e \<Rightarrow> (Inl e, st1)
                    | Inr (items, ds) \<Rightarrow>
                        if items = [] then (Inr False, st1\<lparr>fg_dispatcher := ds\<rparr>)
                        else dispatch_batch put workers (ff_failure rd) items (st1\<lparr>fg_dispatcher := ds\<rparr>))))"

section \<open>Converting\<close>

record convert_item =
  ci_queue_item :: queue_item
  ci_filename :: string
  ci_data :: bytes

definition on_archived :: "queue_item \<Rightarrow> string \<Rightarrow> bytes \<Rightarrow> convert_item list \<Rightarrow> unit res \<times> convert_item list" where
  "on_archived item filename data fed =
     (Inr (), fed @ [\<lparr>ci_queue_item = \<lparr>qi_id = qi_id item, qi_project = qi_project item, qi_lane = qi_lane item,
        qi_state = NEED_CONVERT\<rparr>, ci_filename = filename, ci_data = data\<rparr>])"

text \<open>A converted item: the result of its future and the readings of the outcome's application.\<close>

record 'p convert_done =
  cd_item :: convert_item
  cd_result :: "'p convert_outcome res"
  cd_readings :: outcome_readings

definition apply_converted :: "('p wheel_record list \<Rightarrow> bytes) \<Rightarrow> ('p name_resolution list \<Rightarrow> bytes) \<Rightarrow> string \<Rightarrow> 'p convert_done
    \<Rightarrow> bulk_state \<Rightarrow> unit res \<times> bulk_state" where
  "apply_converted dump dumpr reroll_version d s =
     (case cd_result d of
        Inl e \<Rightarrow> (Inl e, s)
      | Inr out \<Rightarrow> bulk_outcome (cd_readings d) (ci_queue_item (cd_item d)) (adapt_convert_outcome dump dumpr reroll_version out) s)"

record convert_readings =
  cv_claim :: real
  cv_bulk :: "queue_item \<Rightarrow> outcome_readings"

definition convert_iterate :: "('p wheel_record list \<Rightarrow> bytes) \<Rightarrow> ('p name_resolution list \<Rightarrow> bytes) \<Rightarrow> string
    \<Rightarrow> codec \<Rightarrow> fs \<Rightarrow> (py_exn \<Rightarrow> string) \<Rightarrow> (convert_item list \<Rightarrow> 'p convert_done list) \<Rightarrow> convert_readings \<Rightarrow> int
    \<Rightarrow> convert_item list \<times> bulk_state \<Rightarrow> bool res \<times> convert_item list \<times> bulk_state" where
  "convert_iterate dump dumpr reroll_version cd fs describe pool rd limit s =
     (case s of (fed, bulk) \<Rightarrow>
        let taken = take (nat limit) fed; fed1 = drop (nat limit) fed;
            (batch, bulk1) = (if taken \<noteq> [] then (Inr taken, bulk)
              else (case claim_batch cd fs describe (cv_claim rd) (cv_bulk rd) limit bulk of
                      (r, bulk1) \<Rightarrow> (bind_res r (\<lambda>ready. Inr (map (\<lambda>x. \<lparr>ci_queue_item = bk_queue_item x,
                          ci_filename = bk_filename x, ci_data = bk_data x\<rparr>) ready)), bulk1)))
        in case batch of
             Inl e \<Rightarrow> (Inl e, fed1, bulk1)
           | Inr items \<Rightarrow>
               if items = [] then (Inr False, fed1, bulk1)
               else (case for_each (apply_converted dump dumpr reroll_version) (pool items) bulk1 of
                       (r, bulk2) \<Rightarrow> (bind_res r (\<lambda>_. Inr True), fed1, bulk2)))"

section \<open>Trimming the errors table\<close>

definition gc_errors :: "iso_time \<Rightarrow> int \<Rightarrow> database \<Rightarrow> int \<times> database" where
  "gc_errors cutoff_iso chunk_size db =
     (let ids = map er_id (sql_limit chunk_size (filter (\<lambda>r. er_created_at r < cutoff_iso) (errors db)))
      in (rowcount (\<lambda>r. er_id r \<in> set ids) (errors db),
          db\<lparr>errors := sql_delete (\<lambda>r. er_id r \<in> set ids) (errors db)\<rparr>))"

definition gc_errors_op :: "iso_time \<Rightarrow> int \<Rightarrow> op_body" where
  "gc_errors_op cutoff_iso chunk_size st =
     (case st of (db, seq) \<Rightarrow> case gc_errors cutoff_iso chunk_size db of (n, db1) \<Rightarrow> (Inr (VCount n), (db1, seq)))"

definition gc_iterate :: "int \<Rightarrow> int \<Rightarrow> real \<Rightarrow> database op_state \<Rightarrow> bool res \<times> database op_state" where
  "gc_iterate retention_days chunk_size now st =
     (case exec_op (gc_errors_op (iso (now - of_int retention_days * 86400)) chunk_size) st of
        (Inr (VCount n), st1) \<Rightarrow> (Inr (0 < n), st1)
      | (Inr _, st1) \<Rightarrow> (Inl PyTypeError, st1)
      | (Inl e, st1) \<Rightarrow> (Inl e, st1))"

section \<open>The two stages that share a breaker\<close>

text \<open>
  \<^verbatim>\<open>service.py\<close> gives \<^verbatim>\<open>index_poll\<close> and \<^verbatim>\<open>project_sync\<close> one breaker, and \<^verbatim>\<open>index_poll\<close> the other's \<^verbatim>\<open>enqueue\<close>.
  A pass of either, on the state they share.
\<close>

datatype pypi_pass =
    Poll_Pass poll_readings "string option \<Rightarrow> pypi_exn + poll_result"
  | Sync_Pass sync_readings "string list \<Rightarrow> (ingest_readings \<times> string \<times> sync_outcome) list"

type_synonym pypi_system = "breaker \<times> index_poll \<times> project_sync \<times> ingest_state"

fun pypi_step :: "string \<Rightarrow> pypi_pass \<Rightarrow> pypi_system \<Rightarrow> bool \<times> pypi_system" where
  "pypi_step v (Poll_Pass rd poll) (b, st, p, ig) =
     (case index_poll_iterate ps_enqueue poll rd (b, st, p) of (r, b1, st1, p1) \<Rightarrow> (r = Inr True, b1, st1, p1, ig))"
| "pypi_step v (Sync_Pass rd workers) (b, st, p, ig) =
     (case project_sync_iterate v workers rd (b, p, ig) of (r, b1, p1, ig1) \<Rightarrow> (r = Inr True, b1, st, p1, ig1))"

fun pypi_run :: "string \<Rightarrow> pypi_pass list \<Rightarrow> pypi_system \<Rightarrow> bool list \<times> pypi_system" where
  "pypi_run v [] s = ([], s)"
| "pypi_run v (x # xs) s = (case pypi_step v x s of (worked, s1) \<Rightarrow> case pypi_run v xs s1 of (ws, s2) \<Rightarrow> (worked # ws, s2))"

end
