(* ===== verification/Stage_Effects.thy ===== *)
theory Stage_Effects
  imports Stages
begin

text \<open>
  What one pass of a stage does for good: which wheels a fetch pass still holds when it returns or
  raises, what the collector removes, and what the breaker shared by \<^verbatim>\<open>index_poll\<close> and \<^verbatim>\<open>project_sync\<close>
  remembers of a throttled trial.
\<close>

section \<open>A trial that is never answered\<close>

text \<open>A trial that was let through and never answered.\<close>

definition wedged :: "breaker \<Rightarrow> bool" where
  "wedged b \<longleftrightarrow> circuit b = HALF_OPEN \<and> half_open_trial_in_flight b"

lemma wedged_refuses: "wedged b \<Longrightarrow> allow t b = Inr (False, b)"
  by (simp add: wedged_def allow_def half_open_gate_def)

lemma due_trial_wedges:
  assumes "circuit b = OPEN" and "opened_at b = Some t0" and "recovery_timeout b \<le> t - t0"
  shows "\<exists>b1. allow t b = Inr (True, b1) \<and> wedged b1"
  using assms by (simp add: allow_def recovery_due_def half_open_gate_def wedged_def)

lemma set_requeue: "set (pj_pending (ps_requeue names p)) = set names \<union> set (pj_pending p)"
  unfolding ps_requeue_def
  by (induction names arbitrary: p) (auto simp: ps_enqueue_def)

lemma drain_requeue: "ps_drain n p = (names, p1) \<Longrightarrow> set (pj_pending (ps_requeue names p1)) = set (pj_pending p)"
  using py_slice_subset [of 0 n "pj_pending p"] by (auto simp: ps_drain_def set_requeue Let_def)

lemma pypi_step_wedged:
  assumes "wedged b" and "pypi_step v pass (b, st, p, ig) = (worked, b1, st1, p1, ig1)"
  shows "\<not> worked \<and> b1 = b \<and> st1 = st \<and> ig1 = ig \<and> set (pj_pending p1) = set (pj_pending p)"
proof (cases pass)
  case (Poll_Pass rd poll)
  then show ?thesis using assms by (simp add: index_poll_iterate_def wedged_refuses)
next
  case (Sync_Pass rd workers)
  obtain names p2 where d: "ps_drain (pj_batch_limit p) p = (names, p2)" by (metis prod.exhaust)
  have "set (pj_pending p2) = set (pj_pending p)" if "names = []"
    using drain_requeue [OF d] that by (simp add: ps_requeue_def)
  then show ?thesis
    using assms drain_requeue [OF d] by (auto simp: Sync_Pass project_sync_iterate_def d wedged_refuses split: if_splits)
qed

lemma pypi_run_wedged:
  assumes "wedged b" and "pypi_run v passes (b, st, p, ig) = (ws, b1, st1, p1, ig1)"
  shows "True \<notin> set ws \<and> b1 = b \<and> st1 = st \<and> ig1 = ig \<and> set (pj_pending p1) = set (pj_pending p)"
  using assms(2)
proof (induction passes arbitrary: p ws)
  case Nil
  then show ?case by simp
next
  case (Cons x xs)
  obtain worked b2 st2 p2 ig2 where x: "pypi_step v x (b, st, p, ig) = (worked, b2, st2, p2, ig2)" by (metis prod.exhaust)
  note e = pypi_step_wedged [OF assms(1) x]
  obtain ws2 s2 where xs: "pypi_run v xs (b, st, p2, ig) = (ws2, s2)" by (metis prod.exhaust)
  then have "ws = worked # ws2" "pypi_run v xs (b, st, p2, ig) = (ws2, b1, st1, p1, ig1)" using Cons.prems x e by auto
  then show ?case using Cons.IH [of p2 ws2] e by auto
qed

text \<open>
  C11. A throttled trial closes the daemon's only door to the index for good. Once the breaker of
  \<^verbatim>\<open>pypi.org\<close> is open and due for its trial, a poll that is answered with a rate limit takes the trial
  and never gives it back: from then on no pass of \<^verbatim>\<open>index_poll\<close> or \<^verbatim>\<open>project_sync\<close> does any work, however
  often they run and however well the server answers, and the pending projects stay pending.
\<close>

theorem throttled_trial_wedges_ingest:
  assumes "circuit b = OPEN" and "opened_at b = Some t0" and "recovery_timeout b \<le> pq_allow rd - t0"
    and "poll (ix_etag st) = Inl (PyPIRateLimited retry_after)"
  shows "\<exists>b1. index_poll_iterate ps_enqueue poll rd (b, st, p) = (Inr False, b1, st, p)
    \<and> (\<forall>passes. \<exists>ws p1. pypi_run v passes (b1, st, p, ig) = (ws, b1, st, p1, ig)
          \<and> True \<notin> set ws \<and> set (pj_pending p1) = set (pj_pending p))"
proof -
  obtain b1 where b1: "allow (pq_allow rd) b = Inr (True, b1)" "wedged b1"
    using due_trial_wedges [OF assms(1-3)] by blast
  have "\<exists>ws p1. pypi_run v passes (b1, st, p, ig) = (ws, b1, st, p1, ig)
      \<and> True \<notin> set ws \<and> set (pj_pending p1) = set (pj_pending p)" for passes
  proof -
    obtain ws b2 st2 p2 ig2 where r: "pypi_run v passes (b1, st, p, ig) = (ws, b2, st2, p2, ig2)" by (metis prod.exhaust)
    from pypi_run_wedged [OF b1(2) r] r show ?thesis by auto
  qed
  moreover have "index_poll_iterate ps_enqueue poll rd (b, st, p) = (Inr False, b1, st, p)"
    using assms(4) b1(1) by (simp add: index_poll_iterate_def)
  ultimately show ?thesis by blast
qed

definition demo_opened_breaker :: breaker where
  "demo_opened_breaker = record_failure 0 (new_breaker 1 60)"

definition demo_ingest_state :: ingest_state where
  "demo_ingest_state = \<lparr>ig_summary = empty_summary, ig_backoff = None, ig_limiter = None, ig_conn = (empty_db, 0)\<rparr>"

definition demo_pending :: project_sync where
  "demo_pending = \<lparr>pj_batch_limit = 32, pj_pending = [''numpy'']\<rparr>"

theorem throttled_trial_wedges_ingest_witness:
  "\<exists>b1. index_poll_iterate ps_enqueue (\<lambda>_. Inl (PyPIRateLimited None)) \<lparr>pq_allow = 60, pq_failure = 60, pq_now = 60\<rparr>
      (demo_opened_breaker, new_index_poll, demo_pending) = (Inr False, b1, new_index_poll, demo_pending)
    \<and> True \<notin> set (fst (pypi_run ''1'' [Poll_Pass \<lparr>pq_allow = 1000, pq_failure = 1000, pq_now = 1000\<rparr>
          (\<lambda>_. Inr \<lparr>pr_not_modified = False, pr_etag = None, pr_remote_global_serial = Some 7, pr_stale_projects = [''numpy'']\<rparr>)]
        (b1, new_index_poll, demo_pending, demo_ingest_state)))"
proof -
  let ?rd = "\<lparr>pq_allow = 60, pq_failure = 60, pq_now = 60\<rparr> :: poll_readings"
  have "circuit demo_opened_breaker = OPEN" "opened_at demo_opened_breaker = Some 0"
    "recovery_timeout demo_opened_breaker \<le> pq_allow ?rd - 0"
    by (simp_all add: demo_opened_breaker_def record_failure_def new_breaker_def Let_def)
  from throttled_trial_wedges_ingest [OF this, of "\<lambda>_. Inl (PyPIRateLimited None)" new_index_poll None demo_pending
      "''1''" demo_ingest_state]
  show ?thesis by (metis fst_conv)
qed

section \<open>No claimed wheel is forgotten\<close>

text \<open>A queue that also remembers what it accepted.\<close>

definition logged :: "(handoff_item \<Rightarrow> 'q \<Rightarrow> unit res \<times> 'q) \<Rightarrow> handoff_item \<Rightarrow> 'q \<times> handoff_item list \<Rightarrow> unit res \<times> 'q \<times> handoff_item list" where
  "logged put x ql = (case put x (fst ql) of (r, q) \<Rightarrow> (r, q, if is_ok r then snd ql @ [x] else snd ql))"

abbreviation fetching :: "'q fetch_stage \<Rightarrow> int set" where
  "fetching st \<equiv> set (ds_in_flight (fg_dispatcher st) FETCH)"

abbreviation handed_over :: "('q \<times> handoff_item list) fetch_stage \<Rightarrow> handoff_item list" where
  "handed_over st \<equiv> snd (fg_handoff st)"

lemma set_release: "set (ds_in_flight (release stg i ds) stg) = set (ds_in_flight ds stg) - {i}"
  by (auto simp: release_def)

lemma set_abandon: "set (ds_in_flight (abandon_pending ids ds) FETCH) = set (ds_in_flight ds FETCH) - set ids"
  unfolding abandon_pending_def by (induction ids arbitrary: ds) (auto simp: set_release)

lemma claim_in_flight:
  "claim now stg limit db ds = Inr (items, ds1) \<Longrightarrow> set (ds_in_flight ds1 stg) = set (ds_in_flight ds stg) \<union> qi_id ` set items"
  by (auto simp: claim_def Let_def split: if_splits)

lemma fetch_pairs_in_flight:
  assumes "fetch_pairs db items ds = (pairs, ds')" and "set (ds_in_flight ds FETCH) \<subseteq> F \<union> qi_id ` set items"
  shows "set (ds_in_flight ds' FETCH) \<subseteq> F \<union> (qi_id \<circ> fst) ` set pairs"
proof -
  have "set (ds_in_flight ds' FETCH) \<subseteq> F \<union> (qi_id \<circ> fst) ` set pairs"
    if "fold (\<lambda>item (pairs, ds). case sql_get w_id (qi_id item) (wheels db) of
           None \<Rightarrow> (pairs, release FETCH (qi_id item) ds)
         | Some w \<Rightarrow> (pairs @ [(item, \<lparr>fi_id = qi_id item, fi_project = qi_project item, fi_lane = qi_lane item,
               fi_state = qi_state item, fi_filename = w_filename w, fi_url = w_url w,
               fi_metadata_sha256 = w_metadata_sha256 w, fi_has_metadata = True\<rparr>)], ds)) items (acc, ds) = (pairs, ds')"
      "set (ds_in_flight ds FETCH) \<subseteq> F \<union> (qi_id \<circ> fst) ` set acc \<union> qi_id ` set items" for acc ds
    using that
  proof (induction items arbitrary: acc ds)
    case Nil
    then show ?case by simp
  next
    case (Cons item items)
    show ?case
    proof (cases "sql_get w_id (qi_id item) (wheels db)")
      case None
      show ?thesis by (rule Cons.IH [of acc "release FETCH (qi_id item) ds"]) (use Cons.prems None in \<open>auto simp: set_release\<close>)
    next
      case (Some w)
      show ?thesis by (rule Cons.IH [of "acc @ [(item, _)]" ds]) (use Cons.prems Some in auto)
    qed
  qed
  from this [of "[]" ds] show ?thesis using assms by (simp add: fetch_pairs_def)
qed

text \<open>Handling one outcome without raising: its item is no longer in flight, or its bytes are in the queue.\<close>

lemma handle_fetched_accounts:
  assumes "handle_fetched (logged put) d out s = (Inr (), s')"
  shows "ba_pending s' = ba_pending s
    \<and> (case out of
         FetchOk data sha \<Rightarrow> fetching (ba_stage s') = fetching (ba_stage s)
           \<and> handed_over (ba_stage s') = handed_over (ba_stage s) @ [\<lparr>hi_queue_item = fd_item d,
               hi_filename = fi_filename (fd_fetch_item d), hi_data = data, hi_sha256 = sha\<rparr>]
       | _ \<Rightarrow> fetching (ba_stage s') = fetching (ba_stage s) - {qi_id (fd_item d)} \<and> handed_over (ba_stage s') = handed_over (ba_stage s))"
proof -
  have app: "fetching (ba_stage s') = fetching (ba_stage s) - {qi_id (fd_item d)} \<and> handed_over (ba_stage s') = handed_over (ba_stage s)
      \<and> ba_pending s' = ba_pending s"
    if "apply_outcome (fd_readings d) FETCH (fd_item d) adapted (fg_dispatcher (ba_stage s), fg_conn (ba_stage s)) = (r, ds, conn)"
      "s' = s1\<lparr>ba_stage := (ba_stage s)\<lparr>fg_dispatcher := ds, fg_conn := conn\<rparr>\<rparr>" "ba_pending s1 = ba_pending s"
    for adapted r ds conn and s1 :: "('a \<times> handoff_item list) batch_state"
    using apply_outcome_in_flight [of "fd_readings d" FETCH "fd_item d" adapted "fg_dispatcher (ba_stage s)" "fg_conn (ba_stage s)"] that
    by simp
  show ?thesis
  proof (cases out)
    case (FetchOk data sha)
    then show ?thesis using assms by (auto simp: handle_fetched_def logged_def Let_def split: prod.splits)
  next
    case (FetchSkip a b c e f)
    then show ?thesis
      using assms by (auto simp: handle_fetched_def Let_def adapt_fetch_outcome_def dest: app split: prod.splits sum.splits)
  next
    case (FetchRetry a b)
    then show ?thesis
      using assms by (auto simp: handle_fetched_def Let_def adapt_fetch_outcome_def dest: app split: prod.splits sum.splits)
  next
    case (FetchRateLimited a b)
    then show ?thesis
      using assms by (auto simp: handle_fetched_def Let_def adapt_fetch_outcome_def dest: app split: prod.splits sum.splits)
  qed
qed

text \<open>Where a handed-over item came from.\<close>

definition delivered :: "fetch_done list \<Rightarrow> handoff_item \<Rightarrow> bool" where
  "delivered dones x \<longleftrightarrow> (\<exists>d \<in> set dones. fd_result d = Inr (FetchOk (hi_data x) (hi_sha256 x))
     \<and> hi_queue_item x = fd_item d \<and> hi_filename x = fi_filename (fd_fetch_item d))"

definition accounted :: "int set \<Rightarrow> fetch_done list \<Rightarrow> ('q \<times> handoff_item list) batch_state \<Rightarrow> bool" where
  "accounted F dones s \<longleftrightarrow>
     fetching (ba_stage s) \<subseteq> F \<union> set (ba_pending s) \<union> (qi_id \<circ> hi_queue_item) ` set (handed_over (ba_stage s))
     \<and> (\<forall>x \<in> set (handed_over (ba_stage s)). delivered dones x)"

lemma collect_fetched_accounts:
  assumes "collect_fetched (logged put) dones s = (Inr (), s')" and "accounted F all s" and "set dones \<subseteq> set all"
  shows "accounted F all s'"
  using assms
proof (induction dones arbitrary: s)
  case Nil
  then show ?case by simp
next
  case (Cons d dones)
  let ?s = "s\<lparr>ba_pending := filter (\<lambda>i. i \<noteq> qi_id (fd_item d)) (ba_pending s)\<rparr>"
  obtain out where out: "fd_result d = Inr out" using Cons.prems(1) by (cases "fd_result d") (simp_all add: Let_def)
  obtain s2 where h: "handle_fetched (logged put) d out ?s = (Inr (), s2)"
    and r: "(if fd_shutdown d then (Inr (), s2) else collect_fetched (logged put) dones s2) = (Inr (), s')"
    using Cons.prems(1) by (auto simp: out Let_def split: prod.splits sum.splits)
  note e = handle_fetched_accounts [OF h]
  have "accounted F all s2"
  proof (cases out)
    case (FetchOk data sha)
    let ?x = "\<lparr>hi_queue_item = fd_item d, hi_filename = fi_filename (fd_fetch_item d), hi_data = data, hi_sha256 = sha\<rparr>"
    have "delivered all ?x" using Cons.prems(3) by (auto simp: delivered_def out FetchOk intro!: bexI [of _ d])
    then show ?thesis using e Cons.prems(2) unfolding accounted_def FetchOk by auto
  qed (use e Cons.prems(2) in \<open>auto simp: accounted_def\<close>)
  then show ?case using Cons.IH [of s2] r Cons.prems(3) by (auto split: if_splits)
qed

lemma dispatch_batch_accounts:
  assumes "dispatch_batch (logged put) workers t items st = (Inr worked, st')" and "handed_over st = []"
    and "fetching st \<subseteq> F \<union> qi_id ` set items"
  shows "\<exists>pairs. fetching st' \<subseteq> F \<union> (qi_id \<circ> hi_queue_item) ` set (handed_over st')
    \<and> (\<forall>x \<in> set (handed_over st'). delivered (workers pairs) x)"
proof -
  obtain pairs ds where p: "fetch_pairs (fst (fg_conn st)) items (fg_dispatcher st) = (pairs, ds)" by (metis prod.exhaust)
  note f = fetch_pairs_in_flight [OF p assms(3)]
  show ?thesis
  proof (cases "pairs = []")
    case True
    then show ?thesis using assms p f by (auto simp: dispatch_batch_def)
  next
    case False
    let ?s = "\<lparr>ba_stage = st\<lparr>fg_dispatcher := ds\<rparr>, ba_pending = map (qi_id \<circ> fst) pairs, ba_saw_ok = False, ba_saw_failure = False\<rparr>"
    obtain s where c: "collect_fetched (logged put) (workers pairs) ?s = (Inr (), s)"
      using assms(1) False by (auto simp: dispatch_batch_def p split: prod.splits sum.splits)
    have "accounted F (workers pairs) ?s" using f assms(2) by (simp add: accounted_def)
    then have a: "accounted F (workers pairs) s" using collect_fetched_accounts [OF c] by blast
    have st': "fetching st' = fetching (ba_stage s) - set (ba_pending s)" "handed_over st' = handed_over (ba_stage s)"
      using assms(1) False by (auto simp: dispatch_batch_def p c set_abandon Let_def)
    show ?thesis using a by (intro exI [of _ pairs]) (auto simp: accounted_def st')
  qed
qed

text \<open>
  C10. A fetch pass that ends normally accounts for every wheel it claimed, whatever the pool returns, in
  whichever order, and whenever shutdown is seen: a wheel that is still marked as being fetched was so
  before the pass or its bytes were accepted by the handoff queue, exactly as a completed download
  delivered them; all others have been retried, penalised or released.
\<close>

theorem fetch_pass_accounts_for_claims:
  assumes "fetch_iterate (logged put) workers rd limit st = (Inr worked, st')" and "snd (fg_handoff st) = []"
  shows "set (ds_in_flight (fg_dispatcher st') FETCH)
      \<subseteq> set (ds_in_flight (fg_dispatcher st) FETCH) \<union> (qi_id \<circ> hi_queue_item) ` set (snd (fg_handoff st'))
    \<and> (\<forall>x \<in> set (snd (fg_handoff st')). \<exists>pairs. \<exists>d \<in> set (workers pairs).
          fd_result d = Inr (FetchOk (hi_data x) (hi_sha256 x)) \<and> fd_item d = hi_queue_item x)"
proof (cases "case fg_disk_guard st of None \<Rightarrow> False | Some g \<Rightarrow> is_paused g")
  case True
  then show ?thesis using assms by (auto simp: fetch_iterate_def)
next
  case False
  then obtain ok b where a: "allow (ff_allow rd) (fg_breaker st) = Inr (ok, b)"
    using assms(1) by (auto simp: fetch_iterate_def split: sum.splits)
  show ?thesis
  proof (cases ok)
    case False': False
    then show ?thesis using assms a False by (auto simp: fetch_iterate_def)
  next
    case True
    obtain items ds where c: "claim (ff_claim rd) FETCH limit (fst (fg_conn st)) (fg_dispatcher st) = Inr (items, ds)"
      using assms(1) a False True by (auto simp: fetch_iterate_def Let_def split: sum.splits)
    note fl = claim_in_flight [OF c]
    show ?thesis
    proof (cases "items = []")
      case True': True
      then show ?thesis using assms a c False True fl by (auto simp: fetch_iterate_def Let_def)
    next
      case False': False
      let ?st = "st\<lparr>fg_breaker := b, fg_dispatcher := ds\<rparr>"
      have d: "dispatch_batch (logged put) workers (ff_failure rd) items ?st = (Inr worked, st')"
        using assms(1) a c False False' True by (simp add: fetch_iterate_def Let_def)
      have "fetching ?st \<subseteq> fetching st \<union> qi_id ` set items" using fl by simp
      from dispatch_batch_accounts [OF d _ this] show ?thesis using assms(2) by (fastforce simp: delivered_def)
    qed
  qed
qed


definition pair_of :: "database \<Rightarrow> queue_item \<Rightarrow> queue_item \<times> fetch_item" where
  "pair_of db item = (let w = the (sql_get w_id (qi_id item) (wheels db)) in
     (item, \<lparr>fi_id = qi_id item, fi_project = qi_project item, fi_lane = qi_lane item, fi_state = qi_state item,
        fi_filename = w_filename w, fi_url = w_url w, fi_metadata_sha256 = w_metadata_sha256 w, fi_has_metadata = True\<rparr>))"

lemma fetch_pairs_present:
  assumes "qi_id ` set items \<subseteq> w_id ` set (wheels db)"
  shows "fetch_pairs db items ds = (map (pair_of db) items, ds)"
proof -
  have "fold (\<lambda>item (pairs, ds). case sql_get w_id (qi_id item) (wheels db) of
         None \<Rightarrow> (pairs, release FETCH (qi_id item) ds)
       | Some w \<Rightarrow> (pairs @ [(item, \<lparr>fi_id = qi_id item, fi_project = qi_project item, fi_lane = qi_lane item,
             fi_state = qi_state item, fi_filename = w_filename w, fi_url = w_url w,
             fi_metadata_sha256 = w_metadata_sha256 w, fi_has_metadata = True\<rparr>)], ds)) items (acc, ds) = (acc @ map (pair_of db) items, ds)" for acc
    using assms
  proof (induction items arbitrary: acc)
    case (Cons item items)
    then obtain w where "sql_get w_id (qi_id item) (wheels db) = Some w"
      using sql_get_None [of w_id "qi_id item" "wheels db"] by fastforce
    then show ?case using Cons by (simp add: pair_of_def Let_def)
  qed simp
  from this [of "[]"] show ?thesis by (simp add: fetch_pairs_def)
qed

lemma claimed_rows: "claim now stg limit db ds = Inr (items, ds1) \<Longrightarrow> qi_id ` set items \<subseteq> w_id ` set (wheels db)"
  using sql_limit_subset by (fastforce simp: claim_def claim_query_def item_of_def Let_def split: if_splits)

text \<open>
  One download that raises strands its whole batch: when the first future to complete ends in an
  exception (a locked import-bridge database raises one out of \<^verbatim>\<open>fetch_one\<close>), the pass raises it and every
  wheel of the batch stays marked as being fetched, so that no later claim of this process returns any
  of them, whatever the tables say.
\<close>

theorem raising_fetch_strands_batch:
  assumes "fg_disk_guard st = None" and "allow (ff_allow rd) (fg_breaker st) = Inr (True, b)"
    and "claim (ff_claim rd) FETCH limit (fst (fg_conn st)) (fg_dispatcher st) = Inr (items, ds)" and "items \<noteq> []"
    and "workers (fst (fetch_pairs (fst (fg_conn st)) items ds)) = d # rest" and "fd_result d = Inl e"
  shows "\<exists>st'. fetch_iterate put workers rd limit st = (Inl e, st')
    \<and> set (ds_in_flight (fg_dispatcher st') FETCH) = set (ds_in_flight (fg_dispatcher st) FETCH) \<union> qi_id ` set items
    \<and> (\<forall>now n db later ds'. claim now FETCH n db (fg_dispatcher st') = Inr (later, ds') \<longrightarrow> qi_id ` set later \<inter> qi_id ` set items = {})"
proof -
  let ?st = "st\<lparr>fg_breaker := b, fg_dispatcher := ds\<rparr>"
  have w: "workers (map (pair_of (fst (fg_conn st))) items) = d # rest"
    using assms(5) by (simp add: fetch_pairs_present [OF claimed_rows [OF assms(3)]])
  have "dispatch_batch put workers (ff_failure rd) items ?st = (Inl e, ?st)"
    using assms(4,6) w by (simp add: dispatch_batch_def fetch_pairs_present [OF claimed_rows [OF assms(3)]] Let_def)
  then have it: "fetch_iterate put workers rd limit st = (Inl e, ?st)"
    using assms(1-4) by (simp add: fetch_iterate_def Let_def)
  note fl = claim_in_flight [OF assms(3)]
  have "qi_id ` set later \<inter> qi_id ` set items = {}" if "claim now FETCH n db ds = Inr (later, ds')" for now n db later ds'
  proof -
    have "set later \<subseteq> item_of FETCH ` {w. w_id w \<notin> set (ds_in_flight ds FETCH)}"
      using that sql_limit_subset by (fastforce simp: claim_def claim_query_def Let_def split: if_splits)
    then show ?thesis using fl by (auto simp: item_of_def)
  qed
  then show ?thesis using it fl by (intro exI [of _ ?st]) simp
qed


definition demo_fetching :: "(unit \<times> handoff_item list) fetch_stage" where
  "demo_fetching = \<lparr>fg_breaker = new_breaker 5 60, fg_disk_guard = None, fg_dispatcher = new_dispatcher ''1'' 8 1 None,
     fg_conn = (empty_db\<lparr>wheels := [(demo_wheel 1 NEED_METADATA 0)\<lparr>w_metadata_sha256 := Some ''x''\<rparr>,
        (demo_wheel 2 NEED_METADATA 0)\<lparr>w_metadata_sha256 := Some ''x''\<rparr>]\<rparr>, 5), fg_handoff = ((), [])\<rparr>"

definition demo_pool :: "fetch_outcome res \<Rightarrow> (queue_item \<times> fetch_item) list \<Rightarrow> fetch_done list" where
  "demo_pool r = map (\<lambda>(item, fi). \<lparr>fd_item = item, fd_fetch_item = fi, fd_result = r,
     fd_readings = \<lparr>or_now = 0, or_jitter = 1, or_penalize = 0, or_done = 0\<rparr>, fd_shutdown = True\<rparr>)"

definition demo_fetch_readings :: fetch_readings where
  "demo_fetch_readings = \<lparr>ff_allow = 0, ff_claim = 0, ff_failure = 0\<rparr>"

lemma demo_fetch_pass:
  "case fetch_iterate (logged (\<lambda>_ q. (Inr (), q))) (demo_pool (Inr (FetchOk [1] ''x''))) demo_fetch_readings 10 demo_fetching of
     (Inl e, st) \<Rightarrow> False
   | (Inr worked, st) \<Rightarrow> worked \<and> ds_in_flight (fg_dispatcher st) FETCH = [1] \<and> map hi_data (snd (fg_handoff st)) = [[1]]"
  by code_simp

theorem fetch_pass_accounts_for_claims_witness:
  "\<exists>st'. fetch_iterate (logged (\<lambda>_ q. (Inr (), q))) (demo_pool (Inr (FetchOk [1] ''x''))) demo_fetch_readings 10 demo_fetching = (Inr True, st')
    \<and> {1} \<subseteq> (qi_id \<circ> hi_queue_item) ` set (snd (fg_handoff st'))"
proof -
  obtain st' where f: "fetch_iterate (logged (\<lambda>_ q. (Inr (), q))) (demo_pool (Inr (FetchOk [1] ''x''))) demo_fetch_readings 10 demo_fetching = (Inr True, st')"
    and fl: "ds_in_flight (fg_dispatcher st') FETCH = [1]"
    using demo_fetch_pass by (auto split: prod.splits sum.splits)
  have "snd (fg_handoff demo_fetching) = []" "ds_in_flight (fg_dispatcher demo_fetching) FETCH = []"
    by (simp_all add: demo_fetching_def new_dispatcher_def)
  then show ?thesis using fetch_pass_accounts_for_claims [OF f] f fl by auto
qed

text \<open>An old corpus whose database is locked, in the words of \<^verbatim>\<open>sqlite3\<close>.\<close>

definition locked_bridge :: bridge where
  "locked_bridge = \<lparr>br_present = True, br_connects = True, br_select = (\<lambda>_. Inl (OtherError ''OperationalError'')), br_decompress = Inr\<rparr>"

definition locked_pool :: "(queue_item \<times> fetch_item) list \<Rightarrow> fetch_done list" where
  "locked_pool pairs = concat (map (\<lambda>p. demo_pool (fetch_one (\<lambda>_. []) (\<lambda>_. []) locked_bridge
     \<lparr>h_host_of = (\<lambda>_. Some ''files''), h_acquire = (\<lambda>_. Inr True), h_send = (\<lambda>_ _. None), h_stream = (\<lambda>_. None),
       h_retry_after = (\<lambda>_. None)\<rparr> (snd p)) [p]) pairs)"

lemma demo_claim:
  "case claim 0 FETCH 10 (fst (fg_conn demo_fetching)) (fg_dispatcher demo_fetching) of
     Inl e \<Rightarrow> False
   | Inr (items, ds) \<Rightarrow> map qi_id items = [1, 2]
       \<and> map fd_result (locked_pool (fst (fetch_pairs (fst (fg_conn demo_fetching)) items ds))) = replicate 2 (Inl (OtherError ''OperationalError''))"
  by code_simp


definition demo_waiting :: "unit fetch_stage" where
  "demo_waiting = \<lparr>fg_breaker = demo_opened_breaker, fg_disk_guard = None, fg_dispatcher = new_dispatcher ''1'' 8 1 None,
     fg_conn = (empty_db, 5), fg_handoff = ()\<rparr>"


section \<open>Trimming in bounded steps\<close>

lemma gc_delete_length:
  assumes "distinct (map key rs)"
  shows "rowcount (\<lambda>r. key r \<in> set (map key (sql_limit n (filter p rs)))) rs = int (length (sql_limit n (filter p rs)))"
    and "sql_delete (\<lambda>r. key r \<in> set (map key (sql_limit n (filter p rs)))) rs = filter (\<lambda>r. r \<notin> set (sql_limit n (filter p rs))) rs"
proof -
  let ?L = "sql_limit n (filter p rs)"
  have sub: "set ?L \<subseteq> set rs" using sql_limit_subset by fastforce
  have iff: "key r \<in> set (map key ?L) \<longleftrightarrow> r \<in> set ?L" if "r \<in> set rs" for r
    using that sub assms by (auto simp: distinct_map inj_on_def)
  show "sql_delete (\<lambda>r. key r \<in> set (map key ?L)) rs = filter (\<lambda>r. r \<notin> set ?L) rs"
    unfolding sql_delete_def by (rule filter_cong) (use iff in auto)
  have d: "distinct rs" using assms by (simp add: distinct_map)
  have dl: "distinct ?L" using d sql_limit_append_rest [of "filter p rs" n] by (metis distinct_append distinct_filter)
  have "filter (\<lambda>r. key r \<in> set (map key ?L)) rs = filter (\<lambda>r. r \<in> set ?L) rs" by (rule filter_cong) (use iff in auto)
  also have "length \<dots> = card (set ?L)"
  proof -
    have "set (filter (\<lambda>r. r \<in> set ?L) rs) = set ?L" using sub by auto
    then show ?thesis using d by (metis distinct_card distinct_filter)
  qed
  finally show "rowcount (\<lambda>r. key r \<in> set (map key ?L)) rs = int (length ?L)"
    using dl by (simp add: rowcount_def distinct_card)
qed


definition expired :: "int \<Rightarrow> real \<Rightarrow> error_row \<Rightarrow> bool" where
  "expired retention_days now r \<longleftrightarrow> er_created_at r < iso (now - of_int retention_days * 86400)"

lemma filter_not_in_take:
  assumes "distinct rs"
  shows "filter (\<lambda>r. r \<notin> set (take k rs)) rs = drop k rs"
proof -
  have "set (take k rs) \<inter> set (drop k rs) = {}" using assms by (simp add: set_take_disj_set_drop_if_distinct)
  then have "filter (\<lambda>r. r \<notin> set (take k rs)) (take k rs @ drop k rs) = drop k rs"
    unfolding filter_append by (auto simp: filter_empty_conv filter_id_conv)
  then show ?thesis by simp
qed

text \<open>
  One pass of the collector removes only expired errors, at most a chunk of them, reports whether it
  removed any, keeps every row that is still within the retention time and touches nothing else.
\<close>

theorem gc_trims_one_chunk:
  assumes "distinct (map er_id (errors db))" and "0 \<le> chunk_size"
  shows "let k = min (nat chunk_size) (length (filter (expired days now) (errors db))) in
    \<exists>kept. gc_iterate days chunk_size now (db, seq) = (Inr (0 < k), (db\<lparr>errors := kept\<rparr>, seq))
      \<and> filter (\<lambda>r. \<not> expired days now r) kept = filter (\<lambda>r. \<not> expired days now r) (errors db)
      \<and> filter (expired days now) kept = drop k (filter (expired days now) (errors db))"
proof -
  let ?E = "filter (expired days now) (errors db)" and ?p = "expired days now"
  let ?L = "sql_limit chunk_size ?E"
  define kept where "kept = filter (\<lambda>r. r \<notin> set ?L) (errors db)"
  have lim: "?L = take (nat chunk_size) ?E" using assms(2) by (simp add: sql_limit_def)
  have d: "distinct ?E" using assms(1) by (simp add: distinct_map)
  have p: "?p = (\<lambda>r. er_created_at r < iso (now - of_int days * 86400))" by (simp add: expired_def [abs_def])
  have "gc_errors (iso (now - of_int days * 86400)) chunk_size db = (int (length ?L), db\<lparr>errors := kept\<rparr>)"
    using gc_delete_length [OF assms(1), of chunk_size ?p] by (simp add: gc_errors_def kept_def p Let_def)
  then have g: "gc_iterate days chunk_size now (db, seq) = (Inr (0 < min (nat chunk_size) (length ?E)), (db\<lparr>errors := kept\<rparr>, seq))"
    by (simp add: gc_iterate_def gc_errors_op_def exec_op_def lim min.commute)
  have "filter ?p kept = filter (\<lambda>r. r \<notin> set ?L) ?E" by (simp add: kept_def conj_commute)
  also have "\<dots> = drop (min (nat chunk_size) (length ?E)) ?E"
    unfolding lim using filter_not_in_take [OF d] by (metis drop_all min.cobounded2 min_def nle_le)
  finally have "filter ?p kept = drop (min (nat chunk_size) (length ?E)) ?E" .
  moreover have "filter (\<lambda>r. \<not> ?p r) kept = filter (\<lambda>r. \<not> ?p r) (errors db)"
  proof -
    have "set ?L \<subseteq> {r. ?p r}" unfolding lim by (auto dest: in_set_takeD)
    then show ?thesis unfolding kept_def filter_filter by (intro filter_cong) auto
  qed
  ultimately show ?thesis using g by (auto simp: Let_def)
qed

end
