(* ===== verification/Startup.thy ===== *)
theory Startup
  imports Fetch
begin

text \<open>
  The archive half of the daemon's startup in \<^verbatim>\<open>daemon/service.py\<close>: the segments that a previous run left
  open are truncated by the store's constructor and the wheels whose blobs they held are reset. The
  life of an archive is then followed over any number of crashes and restarts.
\<close>

section \<open>Startup\<close>

text \<open>\<^verbatim>\<open>int(path.stem)\<close> of every file with the suffix \<^verbatim>\<open>.open\<close>; the set as a list.\<close>

definition open_segment_ids :: "fs \<Rightarrow> int list res" where
  "open_segment_ids fs =
     fold_res (\<lambda>name ids. bind_res (py_int (take (length name - 5) name)) (\<lambda>i. Inr (if i \<in> set ids then ids else ids @ [i])))
       (filter (ends_with ''.open'') (remdups (map fst fs))) []"

fun recover_segments :: "int list \<Rightarrow> database op_state \<Rightarrow> unit res \<times> database op_state" where
  "recover_segments [] st = (Inr (), st)"
| "recover_segments (i # is) st =
     (case recover_unsealed_segment i RECOVERY_CHUNK_SIZE st of
        (Inl e, st1) \<Rightarrow> (Inl e, st1)
      | (Inr _, st1) \<Rightarrow> recover_segments is st1)"

definition recover_archive :: "fs \<Rightarrow> database op_state \<Rightarrow> (int list \<times> archive_store) res \<times> database op_state" where
  "recover_archive fs st =
     (case open_segment_ids fs of
        Inl e \<Rightarrow> (Inl e, st)
      | Inr stale_before \<Rightarrow>
          (case new_store fs (fst st) True of
             Inl e \<Rightarrow> (Inl e, st)
           | Inr s \<Rightarrow>
               (let recovered_ids = sort (filter (\<lambda>i. i \<notin> set (sealed_segment_ids (fst st))) stale_before)
                in case recover_segments recovered_ids st of
                     (Inl e, st1) \<Rightarrow> (Inl e, st1)
                   | (Inr _, st1) \<Rightarrow> (Inr (recovered_ids, s\<lparr>as_db := fst st1\<rparr>), st1))))"

section \<open>Which segments are found\<close>

lemma open_name_suffix:
  assumes "0 \<le> i"
  shows "ends_with ''.open'' (open_name i)" and "py_int (take (length (open_name i) - 5) (open_name i)) = Inr i"
proof -
  have n: "open_name i = fmt_06d i @ ''.open''" by (simp add: open_name_def)
  show "ends_with ''.open'' (open_name i)" by (simp add: n ends_with_def)
  have "fmt_06d i \<noteq> []" using dec_digits_facts [of "nat i"] assms by (auto simp: fmt_06d_def zero_pad_def)
  then show "py_int (take (length (open_name i) - 5) (open_name i)) = Inr i"
    using fmt_06d_facts(1,2) [OF assms] by (simp add: n py_int_def)
qed

lemma zst_not_open: "\<not> ends_with ''.open'' (zst_name i)"
  by (simp add: zst_name_def ends_with_def)

lemma open_ids_fold:
  assumes "fold_res (\<lambda>name ids. bind_res (py_int (take (length name - 5) name)) (\<lambda>i. Inr (if i \<in> set ids then ids else ids @ [i]))) names acc = Inr ids"
  shows "set ids = set acc \<union> {i. \<exists>n \<in> set names. py_int (take (length n - 5) n) = Inr i}"
  using assms
proof (induction names arbitrary: acc)
  case Nil
  then show ?case by simp
next
  case (Cons n names)
  then obtain i where i: "py_int (take (length n - 5) n) = Inr i"
    by (cases "py_int (take (length n - 5) n)") simp_all
  from Cons.IH [of "if i \<in> set acc then acc else acc @ [i]"] Cons.prems i show ?case by auto
qed

lemma open_segment_ids_set:
  assumes "open_segment_ids fs = Inr ids"
  shows "set ids = {i. \<exists>n \<in> dom (map_of fs). ends_with ''.open'' n \<and> py_int (take (length n - 5) n) = Inr i}"
proof -
  have "set (filter (ends_with ''.open'') (remdups (map fst fs))) = {n \<in> dom (map_of fs). ends_with ''.open'' n}"
    unfolding dom_map_of_conv_image_fst by auto
  then show ?thesis using open_ids_fold [OF assms [unfolded open_segment_ids_def]] by simp blast
qed

text \<open>Truncation touches only files with the suffix \<^verbatim>\<open>.open\<close>, and creates none.\<close>

lemma recover_files_frame:
  assumes "fold_res (recover_file db) names fs = Inr fs'" and "set names \<subseteq> dom (map_of fs)" and "\<forall>n \<in> set names. ends_with ''.open'' n"
  shows "dom (map_of fs') = dom (map_of fs) \<and> (\<forall>n. \<not> ends_with ''.open'' n \<longrightarrow> map_of fs' n = map_of fs n)"
  using assms
proof (induction names arbitrary: fs)
  case Nil
  then show ?case by simp
next
  case (Cons n names)
  obtain fs1 where f: "recover_file db n fs = Inr fs1" "fold_res (recover_file db) names fs1 = Inr fs'"
    using Cons.prems(1) by (cases "recover_file db n fs") simp_all
  have one: "fs1 = fs \<or> fs1 = fs_put n [] fs" using f(1) by (auto simp: recover_file_def bind_res_Inr_iff)
  have "dom (map_of (fs_put n [] fs)) = dom (map_of fs)" using Cons.prems(2) by (auto simp: dom_def)
  then have d: "dom (map_of fs1) = dom (map_of fs)" and e: "\<forall>m. \<not> ends_with ''.open'' m \<longrightarrow> map_of fs1 m = map_of fs m"
    using one Cons.prems(3) by auto
  show ?case using Cons.IH [OF f(2)] d e Cons.prems(2,3) by auto
qed

lemma new_store_recovers:
  assumes "new_store fs db True = Inr s"
  shows "as_db s = db \<and> as_writer s = None \<and> as_reader s = new_reader DEFAULT_BLOCK_CACHE_SIZE
    \<and> dom (map_of (as_fs s)) = dom (map_of fs) \<and> (\<forall>n. \<not> ends_with ''.open'' n \<longrightarrow> map_of (as_fs s) n = map_of fs n)"
proof -
  define names where "names = sort (filter (ends_with ''.open'') (remdups (map fst fs)))"
  have n: "set names = {n \<in> dom (map_of fs). ends_with ''.open'' n}"
    unfolding names_def dom_map_of_conv_image_fst by auto
  have eq: "new_store fs db True = bind_res (fold_res (recover_file db) names fs)
      (\<lambda>fs'. Inr \<lparr>as_fs = fs', as_db = db, as_writer = None, as_reader = new_reader DEFAULT_BLOCK_CACHE_SIZE\<rparr>)"
    unfolding names_def new_store_def recover_stale_open_segments_def Let_def by simp
  obtain fs' where f: "fold_res (recover_file db) names fs = Inr fs'"
    and s: "Inr \<lparr>as_fs = fs', as_db = db, as_writer = None, as_reader = new_reader DEFAULT_BLOCK_CACHE_SIZE\<rparr> = (Inr s :: archive_store res)"
    using assms unfolding eq bind_res_Inr_iff by blast
  have "dom (map_of fs') = dom (map_of fs) \<and> (\<forall>n. \<not> ends_with ''.open'' n \<longrightarrow> map_of fs' n = map_of fs n)"
    by (rule recover_files_frame [OF f]) (use n in auto)
  moreover have "s = \<lparr>as_fs = fs', as_db = db, as_writer = None, as_reader = new_reader DEFAULT_BLOCK_CACHE_SIZE\<rparr>"
    using s by simp
  ultimately show ?thesis by simp
qed

section \<open>What is reset\<close>

lemma recovered_none: "recovered {} db = db"
  by (simp add: recovered_def lost_def)

lemma recover_segments_effect:
  assumes "distinct (map w_id (wheels db))"
  shows "recover_segments is (db, seq) = (Inr (), (recovered (\<Union>i \<in> set is. segment_shas i db) db, seq))"
proof -
  have "recover_segments is (recovered S db, seq) = (Inr (), (recovered (S \<union> (\<Union>i \<in> set is. segment_shas i db)) db, seq))" for S
  proof (induction "is" arbitrary: S)
    case Nil
    then show ?case by simp
  next
    case (Cons i "is")
    have d: "distinct (map w_id (wheels (recovered S db)))" using assms by (simp add: recovered_ids)
    have "segment_shas i (recovered S db) = segment_shas i db - S" by (auto simp: segment_shas_def recovered_def)
    then have "recovered (segment_shas i (recovered S db)) (recovered S db) = recovered (S \<union> segment_shas i db) db"
      unfolding recovered_Un by (simp add: Un_Diff_cancel)
    then have "recover_segments (i # is) (recovered S db, seq) = recover_segments is (recovered (S \<union> segment_shas i db) db, seq)"
      by (simp add: recover_segment_effect [OF d] RECOVERY_CHUNK_SIZE_def)
    also have "\<dots> = (Inr (), (recovered (S \<union> segment_shas i db \<union> (\<Union>i \<in> set is. segment_shas i db)) db, seq))" by (rule Cons.IH)
    finally show ?case by (simp add: Un_assoc)
  qed
  from this [of "{}"] show ?thesis by (simp add: recovered_none)
qed


section \<open>After a crash\<close>

text \<open>
  What a crash may leave of the directory: the same files; the contents of the open segments are lost
  or torn in any way, sealed files are intact. The tables are as last committed.
\<close>

definition crash :: "fs \<Rightarrow> fs \<Rightarrow> bool" where
  "crash fs fs' \<longleftrightarrow> dom (map_of fs') = dom (map_of fs) \<and> (\<forall>n. \<not> ends_with ''.open'' n \<longrightarrow> map_of fs' n = map_of fs n)"

lemma crash_trans: "crash a b \<Longrightarrow> crash b c \<Longrightarrow> crash a c"
  by (simp add: crash_def)

text \<open>The blobs that were written to a segment which is not sealed.\<close>

definition unsealed_shas :: "database \<Rightarrow> string set" where
  "unsealed_shas db = b_sha256 ` {b \<in> set (blobs db). \<not> is_sealed (b_segment_id b) db}"

lemma sealed_ids_set:
  assumes "distinct (map sg_id (segments db))"
  shows "set (sealed_segment_ids db) = {i. is_sealed i db}"
proof -
  have "is_sealed i db \<longleftrightarrow> (\<exists>r \<in> set (segments db). sg_id r = i \<and> sg_sealed_at r \<noteq> None)" for i
  proof (cases "sql_get sg_id i (segments db)")
    case None
    moreover from this have "i \<notin> sg_id ` set (segments db)" by (simp add: sql_get_None)
    ultimately show ?thesis by (auto simp: is_sealed_def)
  next
    case (Some r)
    have "r' = r" if "r' \<in> set (segments db)" "sg_id r' = i" for r'
      using sql_get_iff [OF assms, of i r'] that Some by simp
    then show ?thesis using Some sql_get_Some [OF Some] by (auto simp: is_sealed_def)
  qed
  then show ?thesis by (auto simp: sealed_segment_ids_def)
qed

text \<open>An unsealed segment with a blob has its file in the directory, so that startup finds it.\<close>

lemma unsealed_is_found:
  assumes inv: "store_inv cd D s" and fs: "crash (as_fs s) fs" and ids: "open_segment_ids fs = Inr ids"
    and b: "b \<in> set (blobs (as_db s))" "\<not> is_sealed (b_segment_id b) (as_db s)"
  shows "b_segment_id b \<in> set ids"
proof -
  let ?i = "b_segment_id b"
  have i: "0 \<le> ?i" using store_inv_blob [OF inv b(1)] store_inv_row [OF inv] by blast
  obtain rs e where "segment_view cd D s ?i rs" "e \<in> set rs" using store_inv_blob [OF inv b(1)] by blast
  then have "open_view cd D s ?i rs" using b(2) by (auto simp: segment_view_def split: if_splits)
  then have "open_name ?i \<in> dom (map_of fs)"
    using fs by (auto simp: open_view_def stores_def seg_inv_def crash_def)
  then show ?thesis using open_segment_ids_set [OF ids] open_name_suffix [OF i] by blast
qed

lemma recovered_union:
  assumes inv: "store_inv cd D s" and fs: "crash (as_fs s) fs" and ids: "open_segment_ids fs = Inr ids"
  shows "(\<Union>i \<in> set (filter (\<lambda>i. i \<notin> set (sealed_segment_ids (as_db s))) ids). segment_shas i (as_db s)) = unsealed_shas (as_db s)"
proof -
  have "distinct (map sg_id (segments (as_db s)))" using inv by (simp add: store_inv_def)
  note seal = sealed_ids_set [OF this]
  show ?thesis
    unfolding segment_shas_def unsealed_shas_def using unsealed_is_found [OF assms] by (auto simp: seal)
qed

lemma blobs_after_recovery:
  assumes "distinct (map b_sha256 (blobs db))"
  shows "blobs (recovered (unsealed_shas db) db) = filter (\<lambda>b. is_sealed (b_segment_id b) db) (blobs db)"
  using assms by (auto simp: recovered_def unsealed_shas_def distinct_map intro!: filter_cong dest: inj_onD)

text \<open>The store that startup leaves behind keeps the invariant, with every blob in a sealed segment.\<close>

lemma restart_inv:
  assumes inv: "store_inv cd D s" and fs: "crash (as_fs s) (as_fs s')" and w: "as_writer s' = None"
    and rdr: "as_reader s' = new_reader DEFAULT_BLOCK_CACHE_SIZE"
    and db: "segments (as_db s') = segments (as_db s)" "blobs (as_db s') = filter (\<lambda>b. is_sealed (b_segment_id b) (as_db s)) (blobs (as_db s))"
  shows "store_inv cd D s'"
proof -
  have zst: "map_of (as_fs s') (zst_name i) = map_of (as_fs s) (zst_name i)" for i using fs zst_not_open by (simp add: crash_def)
  have sealed: "is_sealed i (as_db s') = is_sealed i (as_db s)" for i using db(1) by (simp add: is_sealed_def)
  have keep: "segment_view cd D s' i rs" if "segment_view cd D s i rs" "is_sealed i (as_db s)" for i rs
    using that sealed sealed_view_fs [OF _ zst subset_refl] by (simp add: segment_view_def)
  have none: "segment_view cd D s' i []" if "\<not> is_sealed i (as_db s)" for i
    using that sealed w by (simp add: segment_view_def)
  have rows: "\<forall>r \<in> set (segments (as_db s')). 0 \<le> sg_id r \<and> (\<exists>rs. segment_view cd D s' (sg_id r) rs)"
    using store_inv_row [OF inv] keep none unfolding db(1) by (metis image_eqI)
  have bl: "\<forall>b \<in> set (blobs (as_db s')). b_segment_id b \<in> sg_id ` set (segments (as_db s'))
      \<and> (\<exists>rs e. segment_view cd D s' (b_segment_id b) rs \<and> e \<in> set rs \<and> b = blob_of (b_segment_id b) e)"
  proof
    fix b assume "b \<in> set (blobs (as_db s'))"
    then have b: "b \<in> set (blobs (as_db s))" "is_sealed (b_segment_id b) (as_db s)" using db(2) by auto
    from store_inv_blob [OF inv b(1)] keep [OF _ b(2)]
    show "b_segment_id b \<in> sg_id ` set (segments (as_db s')) \<and> (\<exists>rs e. segment_view cd D s' (b_segment_id b) rs
        \<and> e \<in> set rs \<and> b = blob_of (b_segment_id b) e)" unfolding db(1) by blast
  qed
  have names: "\<forall>i \<ge> 0. (open_name i \<in> dom (map_of (as_fs s')) \<or> zst_name i \<in> dom (map_of (as_fs s')))
      \<longrightarrow> i \<in> sg_id ` set (segments (as_db s'))"
    using store_inv_name [OF inv] fs unfolding db(1) crash_def by metis
  have "distinct (map sg_id (segments (as_db s')))" "distinct (map b_sha256 (blobs (as_db s')))"
    using inv unfolding store_inv_def db by (simp_all add: distinct_map_filter)
  then show ?thesis unfolding store_inv_def using rows bl names w rdr new_reader_ok by simp
qed

lemma recover_archive_effect:
  assumes inv: "store_inv cd D s" and fs: "crash (as_fs s) fs" and dist: "distinct (map w_id (wheels (as_db s)))"
    and rec: "recover_archive fs (as_db s, seq) = (Inr (ids, s'), st')"
  shows "store_inv cd D s' \<and> as_db s' = recovered (unsealed_shas (as_db s)) (as_db s) \<and> st' = (as_db s', seq) \<and> as_writer s' = None
    \<and> (\<forall>b \<in> set (blobs (as_db s')). is_sealed (b_segment_id b) (as_db s'))"
proof -
  let ?db = "as_db s" and ?S = "unsealed_shas (as_db s)"
  obtain stale where st: "open_segment_ids fs = Inr stale" using rec by (auto simp: recover_archive_def split: sum.splits)
  obtain s0 where s0: "new_store fs ?db True = Inr s0" using rec st by (auto simp: recover_archive_def split: sum.splits)
  note n = new_store_recovers [OF s0]
  let ?ids = "sort (filter (\<lambda>i. i \<notin> set (sealed_segment_ids ?db)) stale)"
  have "recover_segments ?ids (?db, seq) = (Inr (), (recovered ?S ?db, seq))"
    using recover_segments_effect [OF dist, of ?ids seq] recovered_union [OF inv fs st] by simp
  then have s': "s' = s0\<lparr>as_db := recovered ?S ?db\<rparr>" "st' = (recovered ?S ?db, seq)"
    using rec by (simp_all add: recover_archive_def st s0 Let_def)
  have bl: "blobs (as_db s') = filter (\<lambda>b. is_sealed (b_segment_id b) ?db) (blobs ?db)"
    using blobs_after_recovery [of ?db] inv by (simp add: s' store_inv_def)
  have sg: "segments (as_db s') = segments ?db" by (simp add: s' recovered_def)
  have "store_inv cd D s'"
    by (rule restart_inv [OF inv _ _ _ sg bl]) (use n fs in \<open>simp_all add: s' crash_def\<close>)
  moreover have "is_sealed i (as_db s') = is_sealed i ?db" for i using sg by (simp add: is_sealed_def)
  ultimately show ?thesis using bl s' n by simp
qed


text \<open>Startup succeeds as long as every name with the suffix \<^verbatim>\<open>.open\<close> is a number.\<close>

definition open_names_ok :: "fs \<Rightarrow> bool" where
  "open_names_ok fs \<longleftrightarrow> (\<forall>n \<in> fst ` set fs. ends_with ''.open'' n \<longrightarrow> is_ok (py_int (take (length n - 5) n)))"

lemma recover_archive_total:
  assumes "open_names_ok fs" and "distinct (map w_id (wheels db))"
  shows "\<exists>ids s' st'. recover_archive fs (db, seq) = (Inr (ids, s'), st')"
proof -
  let ?step = "\<lambda>name ids. bind_res (py_int (take (length name - 5) name)) (\<lambda>i. Inr (if i \<in> set ids then ids else ids @ [i]))"
  have "\<exists>ids. fold_res ?step names acc = Inr ids" if "\<forall>n \<in> set names. is_ok (py_int (take (length n - 5) n))" for names acc
    using that by (induction names arbitrary: acc) (auto simp: is_ok_iff)
  moreover have "\<exists>fs'. fold_res (recover_file db) names fs = Inr fs'" if "\<forall>n \<in> set names. is_ok (py_int (take (length n - 5) n))" for names fs
    using that by (induction names arbitrary: fs) (auto simp: is_ok_iff recover_file_def)
  moreover have "\<forall>n \<in> set (filter (ends_with ''.open'') (remdups (map fst fs))). is_ok (py_int (take (length n - 5) n))"
    and "\<forall>n \<in> set (sort (filter (ends_with ''.open'') (remdups (map fst fs)))). is_ok (py_int (take (length n - 5) n))"
    using assms(1) by (auto simp: open_names_ok_def)
  ultimately obtain ids fs' where "open_segment_ids fs = Inr ids"
      "fold_res (recover_file db) (sort (filter (ends_with ''.open'') (remdups (map fst fs)))) fs = Inr fs'"
    unfolding open_segment_ids_def by meson
  then show ?thesis
    using recover_segments_effect [OF assms(2)]
    by (simp add: recover_archive_def new_store_def recover_stale_open_segments_def Let_def)
qed

section \<open>The life of an archive\<close>

text \<open>
  What may happen to an archive and its tables: data are added, segments sealed, records read, other
  operations change other tables, and the process may crash at any of these moments and start again.
  \<open>D\<close> is the set of all data ever added.
\<close>

inductive archive_life :: "codec \<Rightarrow> bytes set \<Rightarrow> archive_store \<Rightarrow> bool" for cd where
  Fresh: "segments db = [] \<Longrightarrow> blobs db = [] \<Longrightarrow> new_store [] db True = Inr s \<Longrightarrow> archive_life cd {} s"
| Add: "archive_life cd D s \<Longrightarrow> store_add cd now data s = (r, s1) \<Longrightarrow> archive_life cd (insert data D) s1"
| Seal: "archive_life cd D s \<Longrightarrow> maybe_seal cd due rd s = (Inr u, s1) \<Longrightarrow> archive_life cd D s1"
| Get: "archive_life cd D s \<Longrightarrow> store_get cd sha s = (r, s1) \<Longrightarrow> archive_life cd D s1"
| Other: "archive_life cd D s \<Longrightarrow> segments db = segments (as_db s) \<Longrightarrow> blobs db = blobs (as_db s)
    \<Longrightarrow> archive_life cd D (s\<lparr>as_db := db\<rparr>)"
| Restart: "archive_life cd D s \<Longrightarrow> crash (as_fs s) fs \<Longrightarrow> distinct (map w_id (wheels (as_db s)))
    \<Longrightarrow> recover_archive fs (as_db s, seq) = (Inr (ids, s'), st') \<Longrightarrow> archive_life cd D s'"

lemma archive_life_inv: "archive_life cd D s \<Longrightarrow> store_inv cd D s"
proof (induction rule: archive_life.induct)
  case (Fresh db s)
  then have "as_fs s = [] \<and> as_db s = db \<and> as_writer s = None \<and> as_reader s = new_reader DEFAULT_BLOCK_CACHE_SIZE"
    by (auto simp: new_store_def recover_stale_open_segments_def Let_def)
  then show ?case using new_reader_ok Fresh(1,2) by (simp add: store_inv_def)
next
  case (Add D s now data r s1)
  then show ?case using store_add_inv by blast
next
  case (Seal D s due rd u s1)
  then show ?case using maybe_seal_inv by blast
next
  case (Get D s sha r s1)
  then show ?case using store_get_inv by blast
next
  case (Other D s db)
  then show ?case using store_inv_other_tables by blast
next
  case (Restart D s fs seq ids s' st')
  then show ?case using recover_archive_effect by blast
qed




section \<open>A concrete life\<close>

definition life1 :: archive_store where
  "life1 = snd (store_add twice_codec 0 [1, 2] twice0)"

definition life2 :: archive_store where
  "life2 = snd (maybe_seal twice_codec (\<lambda>_ _. True) demo_readings life1)"

definition life3 :: archive_store where
  "life3 = snd (store_add twice_codec 0 [3] life2)"

definition life4 :: archive_store where
  "life4 = life3\<lparr>as_db := (as_db life3)\<lparr>wheels := [(demo_wheel 1 READY 0)\<lparr>w_blob_sha256 := Some (hexdigest twice_codec [3])\<rparr>,
     (demo_wheel 2 READY 0)\<lparr>w_blob_sha256 := Some (hexdigest twice_codec [1, 2])\<rparr>]\<rparr>\<rparr>"

definition torn :: fs where
  "torn = fs_put (open_name 1) [9] (as_fs life4)"

text \<open>The facts that are evaluated, as one check of the state.\<close>

definition life_check :: "archive_store \<Rightarrow> bool" where
  "life_check s \<longleftrightarrow> map w_id (wheels (as_db s)) = [1, 2] \<and> map b_segment_id (blobs (as_db s)) = [0, 1]
     \<and> map fst (as_fs s) = [open_name 1, zst_name 0] 
     \<and> list_ex (\<lambda>b. b_sha256 b = hexdigest twice_codec [1, 2] \<and> is_sealed (b_segment_id b) (as_db s)) (blobs (as_db s))
     \<and> list_ex (\<lambda>b. b_sha256 b = hexdigest twice_codec [3] \<and> \<not> is_sealed (b_segment_id b) (as_db s)) (blobs (as_db s))"

lemma life_checked: "life_check life4"
  by code_simp

lemma life_seals: "is_ok (fst (maybe_seal twice_codec (\<lambda>_ _. True) demo_readings life1))"
  by code_simp


lemma life_inj: "inj_on (sha256_digest twice_codec) {[3], [1, 2]}"
proof -
  have "sha256_digest twice_codec [3] \<noteq> sha256_digest twice_codec [1, 2]" by code_simp
  then show ?thesis by (auto simp: inj_on_def)
qed

lemma life_run: "archive_life twice_codec {[3], [1, 2]} life4"
proof -
  have "new_store [] empty_db True = Inr twice0"
    by (simp add: new_store_def twice0_def recover_stale_open_segments_def)
  then have "archive_life twice_codec {} twice0" by (intro archive_life.Fresh [of empty_db]) (simp_all add: empty_db_def)
  then have "archive_life twice_codec {[1, 2]} life1"
    using archive_life.Add [of twice_codec "{}" twice0 0 "[1, 2]"] by (metis life1_def prod.collapse)
  moreover obtain u where "maybe_seal twice_codec (\<lambda>_ _. True) demo_readings life1 = (Inr u, life2)"
    using life_seals by (metis is_ok_iff life2_def prod.collapse)
  ultimately have "archive_life twice_codec {[1, 2]} life2" by (rule archive_life.Seal)
  then have "archive_life twice_codec {[3], [1, 2]} life3"
    using archive_life.Add [of twice_codec "{[1, 2]}" life2 0 "[3]"] by (metis life3_def prod.collapse)
  then show ?thesis unfolding life4_def by (rule archive_life.Other) simp_all
qed

lemma torn_facts: "crash (as_fs life4) torn" "open_names_ok torn" "distinct (map w_id (wheels (as_db life4)))"
proof -
  have names: "map fst (as_fs life4) = [open_name 1, zst_name 0]" and ids: "map w_id (wheels (as_db life4)) = [1, 2]"
    using life_checked by (simp_all add: life_check_def)
  have fsts: "fst ` set (as_fs life4) = {open_name 1, zst_name 0}" using arg_cong [OF names, of set] by simp
  then have "open_name 1 \<in> dom (map_of (as_fs life4))" by (simp add: dom_map_of_conv_image_fst)
  then show "crash (as_fs life4) torn" using open_name_suffix(1) [of 1] by (auto simp: crash_def torn_def split: if_splits)
  have "fst ` set torn \<subseteq> {open_name 1, zst_name 0}" using fsts by (auto simp: torn_def fs_put_def)
  then show "open_names_ok torn"
    using open_name_suffix(2) [of 1] zst_not_open [of 0] by (auto simp: open_names_ok_def)
  show "distinct (map w_id (wheels (as_db life4)))" unfolding ids by simp
qed

lemma life_blobs:
  "hexdigest twice_codec [1, 2] \<in> b_sha256 ` set (filter (\<lambda>b. is_sealed (b_segment_id b) (as_db life4)) (blobs (as_db life4)))"
  "hexdigest twice_codec [3] \<in> b_sha256 ` {b \<in> set (blobs (as_db life4)). \<not> is_sealed (b_segment_id b) (as_db life4)}"
proof -
  have one: "\<exists>b \<in> set (blobs (as_db life4)). b_sha256 b = hexdigest twice_codec [1, 2] \<and> is_sealed (b_segment_id b) (as_db life4)"
    and two: "\<exists>b \<in> set (blobs (as_db life4)). b_sha256 b = hexdigest twice_codec [3] \<and> \<not> is_sealed (b_segment_id b) (as_db life4)"
    using life_checked unfolding life_check_def list_ex_iff by blast+
  show "hexdigest twice_codec [1, 2] \<in> b_sha256 ` set (filter (\<lambda>b. is_sealed (b_segment_id b) (as_db life4)) (blobs (as_db life4)))"
    using one unfolding set_filter image_def by (metis (mono_tags, lifting) mem_Collect_eq)
  show "hexdigest twice_codec [3] \<in> b_sha256 ` {b \<in> set (blobs (as_db life4)). \<not> is_sealed (b_segment_id b) (as_db life4)}"
    using two unfolding image_def by (metis (mono_tags, lifting) mem_Collect_eq)
qed



end
