(* ===== verification/Service.thy ===== *)
theory Service
  imports Stages
begin

text \<open>
  The rest of \<^verbatim>\<open>daemon/service.py\<close>: the store wrapper that puts the \<^verbatim>\<open>local_disk\<close> breaker and the disk guard in
  front of \<^verbatim>\<open>add\<close>, the archive thread, the start of the stages with their dependencies, and the commands of
  the control socket. What other threads own, the disk guard and the shutdown event, is read at the
  moments the code reads it; the readings are arguments.
\<close>

section \<open>The archive thread\<close>

record 'c guarded_handoff = "'c handoff" +
  gh_breaker :: breaker

text \<open>
  The readings of one iteration: items that the fetch stage has put meanwhile and whether it closed the
  queue; the guard and the event at the check before the pop; the guard inside \<^verbatim>\<open>add\<close>; the event at
  \<^verbatim>\<open>should_seal\<close>; the breaker's clock before and after the write.
\<close>

record step_readings =
  sr_arrivals :: "handoff_item list"
  sr_close :: bool
  sr_paused :: bool
  sr_shutdown :: bool
  sr_add_paused :: bool
  sr_seal_shutdown :: bool
  sr_allow :: real
  sr_failure :: real
  sr_handoff :: handoff_readings

text \<open>\<^verbatim>\<open>_DiskBreakerGuardedStore.add\<close>; \<^verbatim>\<open>call\<close> is used without exempt exceptions.\<close>

definition guarded_add :: "codec \<Rightarrow> step_readings \<Rightarrow> handoff_readings \<Rightarrow> bytes \<Rightarrow> 'c guarded_handoff \<Rightarrow> blob_location res \<times> 'c guarded_handoff" where
  "guarded_add cd sr rd data s =
     (if sr_add_paused sr then (Inl DiskGuardPausedError, s)
      else (case breaker_call (\<lambda>_. False) (store_add cd (hr_add rd) data) (sr_allow sr) (sr_failure sr) (gh_breaker s, ho_store s) of
              (r, b, st) \<Rightarrow> (r, s\<lparr>gh_breaker := b, ho_store := st\<rparr>)))"

text \<open>\<^verbatim>\<open>_NoSealDuringShutdownWriter.should_seal\<close>, in the \<^verbatim>\<open>_maybe_seal\<close> of the handoff.\<close>

definition no_seal_during_shutdown :: "bool \<Rightarrow> real \<Rightarrow> seg_writer \<Rightarrow> bool" where
  "no_seal_during_shutdown shutdown t w = (if shutdown then False else should_seal t w)"

definition guarded_seal :: "codec \<Rightarrow> step_readings \<Rightarrow> handoff_readings \<Rightarrow> 'c guarded_handoff \<Rightarrow> unit res \<times> 'c guarded_handoff" where
  "guarded_seal cd sr rd s =
     (case maybe_seal cd (no_seal_during_shutdown (sr_seal_shutdown sr)) rd (ho_store s) of (r, st) \<Rightarrow> (r, s\<lparr>ho_store := st\<rparr>))"

text \<open>What the fetch stage did to the queue since the last iteration.\<close>

definition arrive :: "step_readings \<Rightarrow> 'c guarded_handoff \<Rightarrow> 'c guarded_handoff" where
  "arrive sr s =
     (let q = ho_queue s
      in s\<lparr>ho_queue := q\<lparr>bq_items := bq_items q @ sr_arrivals sr,
             bq_current := bq_current q + sum_list (map handoff_size (sr_arrivals sr)),
             bq_closed := bq_closed q \<or> sr_close sr\<rparr>\<rparr>)"

text \<open>\<^verbatim>\<open>_archive_thread_step\<close>: whether the loop goes on.\<close>

definition archive_thread_step :: "codec \<Rightarrow> 'c archived \<Rightarrow> step_readings \<Rightarrow> 'c guarded_handoff \<Rightarrow> bool res \<times> 'c guarded_handoff" where
  "archive_thread_step cd feed sr s =
     (if sr_paused sr then (Inr (\<not> sr_shutdown sr), s)
      else if bq_items (ho_queue s) = [] then (Inr (\<not> bq_closed (ho_queue s)), s)
      else (case process_one (guarded_add cd sr) (guarded_seal cd sr) feed (sr_handoff sr) s of
              None \<Rightarrow> (Inr True, s)
            | Some (Inl e, s1) \<Rightarrow> (Inl e, s1)
            | Some (Inr _, s1) \<Rightarrow> (Inr True, s1)))"

text \<open>\<^verbatim>\<open>_run_archive_thread\<close>: an exception ends the thread; \<^const>\<open>None\<close> while it is still running.\<close>

fun run_archive_thread :: "codec \<Rightarrow> 'c archived \<Rightarrow> step_readings list \<Rightarrow> 'c guarded_handoff \<Rightarrow> unit res option \<times> 'c guarded_handoff" where
  "run_archive_thread cd feed [] s = (None, s)"
| "run_archive_thread cd feed (sr # srs) s =
     (case archive_thread_step cd feed sr (arrive sr s) of
        (Inl e, s1) \<Rightarrow> (Some (Inl e), s1)
      | (Inr again, s1) \<Rightarrow> if again then run_archive_thread cd feed srs s1 else (Some (Inr ()), s1))"

section \<open>Starting the stages\<close>

record stage_set =
  ss_loops :: "string list"
  ss_errors :: "(string \<times> string) list"

text \<open>
  \<^verbatim>\<open>_start_one_stage\<close>: a builder's exception is kept as text and the stage is left out. \<open>build\<close> is what the
  stage's own constructor does; the two builders that need another stage check for it first.
\<close>

definition builder :: "(string \<Rightarrow> string option) \<Rightarrow> string \<Rightarrow> stage_set \<Rightarrow> string option" where
  "builder build name st =
     (if name = ''index_poll'' \<and> ''project_sync'' \<notin> set (ss_loops st)
      then Some ''project_sync stage did not start; index_poll has nothing to feed''
      else if name = ''fetch'' \<and> ''convert'' \<notin> set (ss_loops st)
      then Some ''convert stage did not start; fetch has nowhere to hand off to''
      else build name)"

definition start_one_stage :: "(string \<Rightarrow> string option) \<Rightarrow> string \<Rightarrow> stage_set \<Rightarrow> stage_set" where
  "start_one_stage build name st =
     (case builder build name st of
        Some msg \<Rightarrow> st\<lparr>ss_errors := ss_errors st @ [(name, msg)]\<rparr>
      | None \<Rightarrow> st\<lparr>ss_loops := ss_loops st @ [name]\<rparr>)"

definition stage_names :: "string list" where
  "stage_names = [''project_sync'', ''index_poll'', ''convert'', ''fetch'', ''gc'', ''disk_guard'']"

text \<open>\<^verbatim>\<open>_start_stages\<close>, with whether the archive thread is started.\<close>

definition start_stages :: "(string \<Rightarrow> string option) \<Rightarrow> bool \<times> stage_set" where
  "start_stages build =
     (let st = fold (start_one_stage build) stage_names \<lparr>ss_loops = [], ss_errors = []\<rparr>
      in (''fetch'' \<in> set (ss_loops st), st))"

text \<open>The timers that \<^verbatim>\<open>_build_gc\<close>, \<^verbatim>\<open>_build_disk_guard\<close> and the polling stages are given, and the exceptions that end a stage's thread.\<close>

definition GC_INTERVAL_SECONDS :: real where
  "GC_INTERVAL_SECONDS = 86400"

definition DISK_GUARD_INTERVAL_SECONDS :: real where
  "DISK_GUARD_INTERVAL_SECONDS = 30"

definition IDLE_POLL_SECONDS :: real where
  "IDLE_POLL_SECONDS = 1"

fun programming_error :: "py_exn \<Rightarrow> bool" where
  "programming_error PyTypeError = True"
| "programming_error KeyError = True"
| "programming_error (OtherError e) = (e \<in> {''AttributeError'', ''NameError''})"
| "programming_error _ = False"

definition gc_loop :: "interval_trigger stage_loop" where
  "gc_loop = new_stage_loop \<lparr>interval = GC_INTERVAL_SECONDS, last_run_at = None\<rparr>"

definition disk_guard_loop :: "interval_trigger stage_loop" where
  "disk_guard_loop = new_stage_loop \<lparr>interval = DISK_GUARD_INTERVAL_SECONDS, last_run_at = None\<rparr>"

definition polling_loop :: "poll_trigger stage_loop" where
  "polling_loop = new_stage_loop \<lparr>idle_interval = IDLE_POLL_SECONDS, busy = False\<rparr>"

definition disk_guard_iterate :: "int \<Rightarrow> disk_guard \<Rightarrow> bool res \<times> disk_guard" where
  "disk_guard_iterate free g = (Inr False, snd (disk_check free g))"

section \<open>Control commands\<close>

type_synonym 't stage_loops = "(string \<times> 't stage_loop) list"

definition require_stage :: "string \<Rightarrow> 't stage_loops \<Rightarrow> 't stage_loop res" where
  "require_stage name loops = (case map_of loops name of None \<Rightarrow> Inl ValueError | Some l \<Rightarrow> Inr l)"

definition set_loop :: "string \<Rightarrow> 't stage_loop \<Rightarrow> 't stage_loops \<Rightarrow> 't stage_loops" where
  "set_loop name l loops = map (\<lambda>(n, k). (n, if n = name then l else k)) loops"

definition pause_stage :: "string \<Rightarrow> 't stage_loops \<Rightarrow> 't stage_loops res" where
  "pause_stage name loops = bind_res (require_stage name loops) (\<lambda>l. Inr (set_loop name (pause l) loops))"

definition resume_stage :: "string \<Rightarrow> 't stage_loops \<Rightarrow> 't stage_loops res" where
  "resume_stage name loops = bind_res (require_stage name loops) (\<lambda>l. Inr (set_loop name (resume l) loops))"

definition drain_stages :: "'t stage_loops \<Rightarrow> 't stage_loops" where
  "drain_stages loops = map (\<lambda>(n, l). (n, pause l)) loops"


section \<open>Draining at shutdown\<close>

lemma open_writer_sealed:
  assumes "open_writer now s = (Inr w, s1)"
  shows "is_sealed i (as_db s1) = is_sealed i (as_db s)"
proof -
  let ?row = "\<lparr>sg_id = next_segment_id s, sg_sealed_at = None, sg_bytes = None, sg_records = None, sg_footer_sha = None\<rparr>"
  have "as_db s1 = (as_db s)\<lparr>segments := segments (as_db s) @ [?row]\<rparr>"
    using assms by (auto simp: open_writer_def Let_def split: if_splits sum.splits)
  moreover have "\<not> is_sealed i (as_db s)" if "i \<notin> sg_id ` set (segments (as_db s))"
    using that sql_get_None [of sg_id i "segments (as_db s)"] by (simp add: is_sealed_def)
  ultimately show ?thesis by (simp add: is_sealed_append)
qed

lemma current_writer_sealed:
  "current_writer now s = (Inr w, s1) \<Longrightarrow> is_sealed i (as_db s1) = is_sealed i (as_db s)"
  using open_writer_sealed by (auto simp: current_writer_def split: option.splits)

lemma store_add_sealed:
  assumes "store_add cd now data s = (Inr l, s1)"
  shows "is_sealed i (as_db s1) = is_sealed i (as_db s)"
proof -
  obtain w s0 where c: "current_writer now s = (Inr w, s0)" using assms by (auto simp: store_add_def split: prod.splits sum.splits)
  have "segments (as_db s1) = segments (as_db s0)"
    using assms c by (auto simp: store_add_def Let_def insert_or_ignore_blob_def split: prod.splits sum.splits if_splits)
  then show ?thesis using current_writer_sealed [OF c, of i] by (simp add: is_sealed_def)
qed

text \<open>During shutdown the segment is never sealed, however full it is.\<close>

lemma maybe_seal_shutdown:
  assumes "store_inv cd D s"
  shows "\<exists>s1. maybe_seal cd (no_seal_during_shutdown True) rd s = (Inr (), s1) \<and> store_inv cd D s1
    \<and> archive_frame (as_db s) (as_db s1) \<and> blobs (as_db s1) = blobs (as_db s) \<and> (\<forall>i. is_sealed i (as_db s1) = is_sealed i (as_db s))"
proof -
  obtain w s1 where c: "current_writer (hr_current rd) s = (Inr w, s1)" "store_inv cd D s1" "archive_frame (as_db s) (as_db s1)"
    using current_writer_inv [OF assms] by blast
  have m: "maybe_seal cd (no_seal_during_shutdown True) rd s = (Inr (), s1)"
    by (simp add: maybe_seal_def no_seal_during_shutdown_def c(1))
  show ?thesis using m c current_writer_sealed [OF c(1)] maybe_seal_blobs [of cd "no_seal_during_shutdown True" rd s] by auto
qed

lemma guarded_process_one:
  assumes inv: "store_inv cd D (ho_store s)" and q: "bq_items (ho_queue s) = item # rest"
    and st: "qi_state (hi_queue_item item) = NEED_METADATA"
    and sr: "\<not> sr_add_paused sr" "sr_seal_shutdown sr" and b: "circuit (gh_breaker s) = CLOSED"
    and feed: "feed (hi_queue_item item) (hi_filename item) (hi_data item) (ho_convert s) = (Inr (), c)"
  shows "\<exists>s'. process_one (guarded_add cd sr) (guarded_seal cd sr) feed rd s = Some (Inr True, s')
    \<and> store_inv cd (insert (hi_data item) D) (ho_store s') \<and> circuit (gh_breaker s') = CLOSED
    \<and> bq_items (ho_queue s') = rest \<and> bq_closed (ho_queue s') = bq_closed (ho_queue s) \<and> ho_convert s' = c
    \<and> (\<forall>i. is_sealed i (as_db (ho_store s')) = is_sealed i (as_db (ho_store s)))
    \<and> (\<forall>j. wheel_of j (as_db (ho_store s')) = map_option (\<lambda>w. if w_id w = qi_id (hi_queue_item item)
         then w\<lparr>w_state := state_int NEED_CONVERT, w_change_seq := ho_seq s + 1, w_updated_at := iso (or_now (hr_outcome rd)),
           w_blob_sha256 := Some (hexdigest cd (hi_data item))\<rparr> else w) (wheel_of j (as_db (ho_store s))))"
proof -
  let ?i = "qi_id (hi_queue_item item)" and ?sha = "hexdigest cd (hi_data item)" and ?D = "insert (hi_data item) D"
  have al: "allow (sr_allow sr) (gh_breaker s) = Inr (True, gh_breaker s)" using b by (simp add: allow_def half_open_gate_def)
  obtain r st1 where add: "store_add cd (hr_add rd) (hi_data item) (ho_store s) = (r, st1)" by (metis prod.exhaust)
  obtain l where l: "r = Inr l" "bl_sha256 l = ?sha" and i1: "store_inv cd ?D st1" using store_add_inv [OF inv add] by blast
  have f1: "archive_frame (as_db (ho_store s)) (as_db st1)"
    using store_add_frame [of "ho_store s" cd "hr_add rd" "hi_data item"] add by simp
  obtain st2 where ms: "maybe_seal cd (no_seal_during_shutdown True) rd st1 = (Inr (), st2)" and i2: "store_inv cd ?D st2"
      and f2: "archive_frame (as_db st1) (as_db st2)" and s2: "\<forall>i. is_sealed i (as_db st2) = is_sealed i (as_db st1)"
    using maybe_seal_shutdown [OF i1] by blast
  define db where "db = linked_db ?i ?sha (ho_seq s + 1) (iso (or_now (hr_outcome rd))) (as_db st2)"
  define ds where "ds = release FETCH ?i (record_outcome (or_done (hr_outcome rd)) FETCH (Ok NEED_CONVERT (blob_link_writer ?sha)) VNone (ho_dispatcher s))"
  have i3: "store_inv cd ?D (st2\<lparr>as_db := db\<rparr>)"
    by (rule store_inv_other_tables [OF i2]) (simp_all add: db_def linked_tables)
  have whl: "wheels (as_db st2) = wheels (as_db (ho_store s))" using archive_frame_tables [OF archive_frame_trans [OF f1 f2]] by simp
  have wheel: "wheel_of j db = map_option (\<lambda>w. if w_id w = ?i then w\<lparr>w_state := state_int NEED_CONVERT, w_change_seq := ho_seq s + 1,
       w_updated_at := iso (or_now (hr_outcome rd)), w_blob_sha256 := Some ?sha\<rparr> else w) (wheel_of j (as_db (ho_store s)))" for j
    unfolding db_def linked_wheel by (simp add: wheel_of_def whl)
  have sealed: "is_sealed j db = is_sealed j (as_db (ho_store s))" for j
    using store_add_sealed [OF add [unfolded l(1)], of j] s2 by (simp add: db_def is_sealed_def linked_tables)
  have run: "process_one (guarded_add cd sr) (guarded_seal cd sr) feed rd s = Some (Inr True,
      s\<lparr>ho_store := st2\<lparr>as_db := db\<rparr>, ho_seq := ho_seq s + 1, ho_dispatcher := ds, ho_convert := c, gh_breaker := record_success (gh_breaker s),
        ho_queue := bq_release (handoff_size item) ((ho_queue s)\<lparr>bq_items := rest\<rparr>)\<rparr>)"
    using q sr add l ms feed link_outcome [OF st, where sha = ?sha]
    by (simp add: process_one_def bq_get_def archive_item_def guarded_add_def guarded_seal_def breaker_call_def al db_def ds_def)
  show ?thesis
    by (rule exI, intro conjI, rule run) (use i3 wheel sealed in \<open>simp_all add: bq_release_def record_success_def\<close>)
qed


text \<open>Every item's wheel is linked to its bytes, and no other wheel changed.\<close>

definition linked_all :: "codec \<Rightarrow> handoff_item list \<Rightarrow> database \<Rightarrow> database \<Rightarrow> bool" where
  "linked_all cd items db db' \<longleftrightarrow>
     (\<forall>item \<in> set items. wheel_of (qi_id (hi_queue_item item)) db \<noteq> None \<longrightarrow>
        (\<exists>w. wheel_of (qi_id (hi_queue_item item)) db' = Some w
           \<and> w_state w = state_int NEED_CONVERT \<and> w_blob_sha256 w = Some (hexdigest cd (hi_data item))))
     \<and> (\<forall>j. j \<notin> (qi_id \<circ> hi_queue_item) ` set items \<longrightarrow> wheel_of j db' = wheel_of j db)"

lemma linked_all_Cons:
  assumes step: "\<forall>j. wheel_of j db1 = map_option (\<lambda>w. if w_id w = qi_id (hi_queue_item item)
       then w\<lparr>w_state := state_int NEED_CONVERT, w_change_seq := q, w_updated_at := t, w_blob_sha256 := Some (hexdigest cd (hi_data item))\<rparr>
       else w) (wheel_of j db)"
    and rest: "linked_all cd rest db1 db'" and i: "qi_id (hi_queue_item item) \<notin> (qi_id \<circ> hi_queue_item) ` set rest"
  shows "linked_all cd (item # rest) db db'"
proof -
  let ?i = "qi_id (hi_queue_item item)"
  have other: "wheel_of j db1 = wheel_of j db" if "j \<noteq> ?i" for j
    unfolding step [rule_format] by (cases "wheel_of j db") (use that wheel_of_id in auto)
  have first: "\<exists>w. wheel_of ?i db' = Some w \<and> w_state w = state_int NEED_CONVERT \<and> w_blob_sha256 w = Some (hexdigest cd (hi_data item))"
    if w: "wheel_of ?i db \<noteq> None"
  proof -
    obtain v where v: "wheel_of ?i db = Some v" using w by blast
    have "wheel_of ?i db' = wheel_of ?i db1" using rest i by (simp add: linked_all_def)
    then show ?thesis using v wheel_of_id [OF v] by (simp add: step)
  qed
  have mem: "qi_id (hi_queue_item x) \<noteq> ?i" if "x \<in> set rest" for x using that i by (metis comp_apply image_eqI)
  show ?thesis using rest first other mem unfolding linked_all_def by (auto simp: image_iff)
qed

lemma linked_all_Nil: "linked_all cd [] db db"
  by (simp add: linked_all_def)

lemma drain_run:
  assumes "store_inv cd D (ho_store s)" and "bq_closed (ho_queue s)" and "circuit (gh_breaker s) = CLOSED"
    and "\<forall>item \<in> set (bq_items (ho_queue s)). qi_state (hi_queue_item item) = NEED_METADATA"
    and "distinct (map (qi_id \<circ> hi_queue_item) (bq_items (ho_queue s)))"
    and "\<forall>q f d c. \<exists>c'. feed q f d c = (Inr (), c')"
    and "\<forall>sr \<in> set srs. sr_arrivals sr = [] \<and> \<not> sr_paused sr \<and> \<not> sr_add_paused sr \<and> sr_seal_shutdown sr"
    and "length (bq_items (ho_queue s)) < length srs"
  shows "\<exists>s'. run_archive_thread cd feed srs s = (Some (Inr ()), s') \<and> bq_items (ho_queue s') = []
    \<and> store_inv cd (D \<union> hi_data ` set (bq_items (ho_queue s))) (ho_store s')
    \<and> (\<forall>i. is_sealed i (as_db (ho_store s')) = is_sealed i (as_db (ho_store s)))
    \<and> linked_all cd (bq_items (ho_queue s)) (as_db (ho_store s)) (as_db (ho_store s'))"
  using assms
proof (induction srs arbitrary: s D)
  case Nil
  then show ?case by simp
next
  case (Cons sr srs)
  have sr: "sr_arrivals sr = []" "\<not> sr_paused sr" "\<not> sr_add_paused sr" "sr_seal_shutdown sr" using Cons.prems(7) by auto
  have arr: "arrive sr s = s" using sr(1) Cons.prems(2) by (simp add: arrive_def Let_def)
  show ?case
  proof (cases "bq_items (ho_queue s)")
    case Nil
    then have "run_archive_thread cd feed (sr # srs) s = (Some (Inr ()), s)"
      using sr(2) Cons.prems(2) by (simp add: arr archive_thread_step_def)
    then show ?thesis using Nil Cons.prems(1) linked_all_Nil by auto
  next
    case items: (Cons item rest)
    obtain c where c: "feed (hi_queue_item item) (hi_filename item) (hi_data item) (ho_convert s) = (Inr (), c)"
      using Cons.prems(6) by blast
    have ns: "qi_state (hi_queue_item item) = NEED_METADATA" using Cons.prems(4) items by simp
    obtain s1 where p: "process_one (guarded_add cd sr) (guarded_seal cd sr) feed (sr_handoff sr) s = Some (Inr True, s1)"
      and i1: "store_inv cd (insert (hi_data item) D) (ho_store s1)" and b1: "circuit (gh_breaker s1) = CLOSED"
      and q1: "bq_items (ho_queue s1) = rest" "bq_closed (ho_queue s1) = bq_closed (ho_queue s)"
      and seal1: "\<forall>i. is_sealed i (as_db (ho_store s1)) = is_sealed i (as_db (ho_store s))"
      and w1: "\<forall>j. wheel_of j (as_db (ho_store s1)) = map_option (\<lambda>w. if w_id w = qi_id (hi_queue_item item)
         then w\<lparr>w_state := state_int NEED_CONVERT, w_change_seq := ho_seq s + 1, w_updated_at := iso (or_now (hr_outcome (sr_handoff sr))),
           w_blob_sha256 := Some (hexdigest cd (hi_data item))\<rparr> else w) (wheel_of j (as_db (ho_store s)))"
      using guarded_process_one [where feed = feed and c = c, OF Cons.prems(1) items ns sr(3,4) Cons.prems(3) c, of "sr_handoff sr"] by (elim exE conjE) (rule that)
    have run: "run_archive_thread cd feed (sr # srs) s = run_archive_thread cd feed srs s1"
      using sr(2) p items by (simp add: arr archive_thread_step_def)
    have d: "qi_id (hi_queue_item item) \<notin> (qi_id \<circ> hi_queue_item) ` set rest" "distinct (map (qi_id \<circ> hi_queue_item) rest)"
      using Cons.prems(5) unfolding items by (simp_all add: comp_def)
    have "\<exists>s'. run_archive_thread cd feed srs s1 = (Some (Inr ()), s') \<and> bq_items (ho_queue s') = []
      \<and> store_inv cd (insert (hi_data item) D \<union> hi_data ` set rest) (ho_store s')
      \<and> (\<forall>i. is_sealed i (as_db (ho_store s')) = is_sealed i (as_db (ho_store s1)))
      \<and> linked_all cd rest (as_db (ho_store s1)) (as_db (ho_store s'))"
      by (rule Cons.IH [OF i1, unfolded q1]) (use Cons.prems(2,4,6,7,8) items b1 d(2) in \<open>auto simp: comp_def\<close>)
    then show ?thesis using linked_all_Cons [OF w1 _ d(1)] run seal1 items by auto
  qed
qed


definition demo_guarded :: "nat guarded_handoff" where
  "demo_guarded = handoff.extend (demo_handoff\<lparr>ho_queue := (ho_queue demo_handoff)\<lparr>bq_closed := True\<rparr>\<rparr>) \<lparr>gh_breaker = new_breaker 5 60\<rparr>"

definition demo_step :: "bool \<Rightarrow> step_readings" where
  "demo_step p = \<lparr>sr_arrivals = [], sr_close = False, sr_paused = False, sr_shutdown = True, sr_add_paused = p, sr_seal_shutdown = True,
     sr_allow = 0, sr_failure = 0, sr_handoff = demo_readings\<rparr>"

lemma demo_guarded_facts:
  "store_inv twice_codec {} (ho_store demo_guarded)" "bq_closed (ho_queue demo_guarded)" "circuit (gh_breaker demo_guarded) = CLOSED"
  "consecutive_failures (gh_breaker demo_guarded) = 0" "2 \<le> failure_threshold (gh_breaker demo_guarded)"
  "map hi_data (bq_items (ho_queue demo_guarded)) = [[1, 2]]" "map (qi_id \<circ> hi_queue_item) (bq_items (ho_queue demo_guarded)) = [1]"
  "\<forall>item \<in> set (bq_items (ho_queue demo_guarded)). qi_state (hi_queue_item item) = NEED_METADATA"
  "wheel_of 1 (as_db (ho_store demo_guarded)) = Some (demo_wheel 1 NEED_METADATA 0)"
proof -
  have "new_store [] empty_db False = Inr twice0" by (simp add: new_store_def twice0_def)
  then have "store_inv twice_codec {} twice0" by (rule store_run_inv [OF store_run.Created])
  from store_inv_other_tables [OF this, of "empty_db\<lparr>wheels := [demo_wheel 1 NEED_METADATA 0]\<rparr>"]
  show "store_inv twice_codec {} (ho_store demo_guarded)" by (simp add: demo_guarded_def handoff.defs demo_handoff_def twice0_def)
qed (simp_all add: demo_guarded_def handoff.defs demo_handoff_def new_breaker_def wheel_of_def sql_get_def demo_wheel_def)


section \<open>One failure is the last\<close>

lemma guarded_add_breaker:
  assumes "circuit (gh_breaker s) = CLOSED" and "consecutive_failures (gh_breaker s) = 0" and "2 \<le> failure_threshold (gh_breaker s)"
    and "guarded_add cd sr rd data s = (r, s')"
  shows "circuit (gh_breaker s') = CLOSED \<and> failure_threshold (gh_breaker s') = failure_threshold (gh_breaker s)
    \<and> (is_ok r \<longrightarrow> consecutive_failures (gh_breaker s') = 0)"
  using assms
  by (auto simp: guarded_add_def breaker_call_def allow_def half_open_gate_def record_failure_def record_success_def Let_def
      split: if_splits prod.splits sum.splits)

lemma archive_item_breaker:
  assumes "archive_item (guarded_add cd sr) (guarded_seal cd sr) feed rd item s = (r, s')"
  shows "gh_breaker s' = gh_breaker (snd (guarded_add cd sr rd (hi_data item) s)) \<and> (is_ok r \<longrightarrow> is_ok (fst (guarded_add cd sr rd (hi_data item) s)))"
proof (cases "guarded_add cd sr rd (hi_data item) s")
  case (Pair ra s1)
  show ?thesis
  proof (cases ra)
    case (Inl e)
    then show ?thesis using assms Pair by (simp add: archive_item_def) auto
  next
    case (Inr l)
    have "gh_breaker s' = gh_breaker s1"
      using assms Pair Inr by (auto simp: archive_item_def guarded_seal_def Let_def split: prod.splits sum.splits)
    then show ?thesis using Pair Inr by simp
  qed
qed

lemma archive_step_breaker:
  assumes "circuit (gh_breaker s) = CLOSED" and "consecutive_failures (gh_breaker s) = 0" and "2 \<le> failure_threshold (gh_breaker s)"
    and "archive_thread_step cd feed sr s = (r, s')"
  shows "circuit (gh_breaker s') = CLOSED \<and> failure_threshold (gh_breaker s') = failure_threshold (gh_breaker s)
    \<and> (is_ok r \<longrightarrow> consecutive_failures (gh_breaker s') = 0)"
proof (cases "sr_paused sr \<or> bq_items (ho_queue s) = []")
  case True
  then have "s' = s" using assms(4) by (auto simp: archive_thread_step_def split: if_splits)
  then show ?thesis using assms(1,2) by simp
next
  case False
  then obtain item rest where q: "bq_items (ho_queue s) = item # rest" by (cases "bq_items (ho_queue s)") auto
  let ?s = "s\<lparr>ho_queue := (ho_queue s)\<lparr>bq_items := rest\<rparr>\<rparr>"
  obtain ri s1 where i: "archive_item (guarded_add cd sr) (guarded_seal cd sr) feed (sr_handoff sr) item ?s = (ri, s1)" by (metis prod.exhaust)
  have r: "gh_breaker s' = gh_breaker s1" "is_ok r \<longrightarrow> is_ok ri"
    using assms(4) False q i by (cases ri; auto simp: archive_thread_step_def process_one_def bq_get_def)+
  obtain ra s2 where a: "guarded_add cd sr (sr_handoff sr) (hi_data item) ?s = (ra, s2)" by (metis prod.exhaust)
  show ?thesis using guarded_add_breaker [OF _ _ _ a] archive_item_breaker [OF i] a r assms(1-3) by auto
qed



section \<open>Stages and their dependencies\<close>

lemma loops_step:
  "m \<in> set (ss_loops (start_one_stage build n st)) \<longleftrightarrow> m \<in> set (ss_loops st) \<or> m = n \<and> builder build n st = None"
  by (auto simp: start_one_stage_def split: option.splits)

lemma errors_step:
  "m \<in> fst ` set (ss_errors (start_one_stage build n st)) \<longleftrightarrow> m \<in> fst ` set (ss_errors st) \<or> m = n \<and> builder build n st \<noteq> None"
  by (auto simp: start_one_stage_def split: option.splits)

definition startable :: "(string \<Rightarrow> string option) \<Rightarrow> string \<Rightarrow> bool" where
  "startable build n \<longleftrightarrow> build n = None \<and> (n = ''index_poll'' \<longrightarrow> build ''project_sync'' = None) \<and> (n = ''fetch'' \<longrightarrow> build ''convert'' = None)"

text \<open>The order of the builders: what a stage feeds comes before it.\<close>

fun deps_first :: "string set \<Rightarrow> string list \<Rightarrow> bool" where
  "deps_first seen [] = True"
| "deps_first seen (n # ns) \<longleftrightarrow> (n = ''index_poll'' \<longrightarrow> ''project_sync'' \<in> seen) \<and> (n = ''fetch'' \<longrightarrow> ''convert'' \<in> seen)
     \<and> deps_first (insert n seen) ns"

lemma start_fold:
  assumes "deps_first seen ns" and "\<forall>m. m \<in> set (ss_loops st) \<longleftrightarrow> m \<in> seen \<and> startable build m"
    and "\<forall>m. m \<in> fst ` set (ss_errors st) \<longleftrightarrow> m \<in> seen \<and> \<not> startable build m"
  shows "(\<forall>m. m \<in> set (ss_loops (fold (start_one_stage build) ns st)) \<longleftrightarrow> m \<in> seen \<union> set ns \<and> startable build m)
    \<and> (\<forall>m. m \<in> fst ` set (ss_errors (fold (start_one_stage build) ns st)) \<longleftrightarrow> m \<in> seen \<union> set ns \<and> \<not> startable build m)"
  using assms
proof (induction ns arbitrary: seen st)
  case Nil
  then show ?case by simp
next
  case (Cons n ns)
  have b: "builder build n st = None \<longleftrightarrow> startable build n"
    using Cons.prems(1,2) by (auto simp: builder_def startable_def)
  show ?case
    using Cons.IH [of "insert n seen" "start_one_stage build n st"] Cons.prems b by (auto simp: loops_step errors_step)
qed

lemma start_stages_sets:
  assumes "start_stages build = (archive, st)"
  shows "m \<in> set (ss_loops st) \<longleftrightarrow> m \<in> set stage_names \<and> startable build m"
    and "m \<in> fst ` set (ss_errors st) \<longleftrightarrow> m \<in> set stage_names \<and> \<not> startable build m"
    and "archive \<longleftrightarrow> ''fetch'' \<in> set (ss_loops st)"
proof -
  have "deps_first {} stage_names" by (simp add: stage_names_def)
  from start_fold [OF this, of "\<lparr>ss_loops = [], ss_errors = []\<rparr>" build] assms
  show "m \<in> set (ss_loops st) \<longleftrightarrow> m \<in> set stage_names \<and> startable build m"
    and "m \<in> fst ` set (ss_errors st) \<longleftrightarrow> m \<in> set stage_names \<and> \<not> startable build m"
    and "archive \<longleftrightarrow> ''fetch'' \<in> set (ss_loops st)"
    by (auto simp: start_stages_def Let_def)
qed

text \<open>
  C14. A stage that fails to start never takes the others down, and none starts without what it feeds:
  every stage is either running or listed with its error, it runs exactly when its own constructor
  succeeds and, for \<^verbatim>\<open>index_poll\<close> and \<^verbatim>\<open>fetch\<close>, also that of \<^verbatim>\<open>project_sync\<close> or \<^verbatim>\<open>convert\<close>; the archive thread
  runs exactly when \<^verbatim>\<open>fetch\<close> does.
\<close>

theorem stages_start_independently:
  "case start_stages build of (archive, st) \<Rightarrow>
     set (ss_loops st) \<union> fst ` set (ss_errors st) = set stage_names \<and> set (ss_loops st) \<inter> fst ` set (ss_errors st) = {}
     \<and> set (ss_loops st) = {n \<in> set stage_names. build n = None} - {n. n = ''index_poll'' \<and> build ''project_sync'' \<noteq> None}
          - {n. n = ''fetch'' \<and> build ''convert'' \<noteq> None}
     \<and> archive = (''fetch'' \<in> set (ss_loops st))"
proof (cases "start_stages build")
  case (Pair archive st)
  note sets = start_stages_sets [OF this]
  have loops: "set (ss_loops st) = {n \<in> set stage_names. startable build n}" using sets(1) by blast
  have errs: "fst ` set (ss_errors st) = {n \<in> set stage_names. \<not> startable build n}" using sets(2) by blast
  have "{n \<in> set stage_names. startable build n} = {n \<in> set stage_names. build n = None} - {n. n = ''index_poll'' \<and> build ''project_sync'' \<noteq> None}
          - {n. n = ''fetch'' \<and> build ''convert'' \<noteq> None}"
    unfolding startable_def by blast
  then show ?thesis using sets(3) unfolding Pair prod.case loops errs by blast
qed

section \<open>Control commands\<close>

lemma map_of_set_loop: "map_of (set_loop name l loops) n = (if n = name then map_option (\<lambda>_. l) (map_of loops n) else map_of loops n)"
  by (induction loops) (auto simp: set_loop_def)

text \<open>A paused stage is the same stage again once it is resumed, and draining pauses every stage.\<close>

lemma pause_resume:
  assumes "pause_stage name loops = Inr paused_loops" and "map_of loops name = Some l" and "\<not> paused l" and "distinct (map fst loops)"
  shows "resume_stage name paused_loops = Inr loops"
proof -
  have "paused_loops = set_loop name (pause l) loops" using assms(1,2) by (simp add: pause_stage_def require_stage_def)
  moreover have "set_loop name (resume (pause l)) (set_loop name (pause l) loops) = loops"
  proof (rule nth_equalityI)
    fix i assume "i < length (set_loop name (resume (pause l)) (set_loop name (pause l) loops))"
    then have i: "i < length loops" by (simp add: set_loop_def)
    have "snd (loops ! i) = l" if "fst (loops ! i) = name"
      using map_of_is_SomeI [OF assms(4), of name "snd (loops ! i)"] that i assms(2) by (metis nth_mem option.inject prod.collapse)
    then show "set_loop name (resume (pause l)) (set_loop name (pause l) loops) ! i = loops ! i"
      using i assms(3) by (cases "loops ! i") (auto simp: set_loop_def resume_def pause_def)
  qed (simp add: set_loop_def)
  ultimately show ?thesis using assms(2) by (simp add: resume_stage_def require_stage_def map_of_set_loop)
qed

lemma drained: "map_of (drain_stages loops) n = map_option pause (map_of loops n)"
  unfolding drain_stages_def by (induction loops) auto

end
