(* ===== verification/Db_Inv.thy ===== *)
theory Db_Inv
  imports Reprocess Ingest Stages
begin

text \<open>
  The type of the database: the keys, references and state codes that the schema declares, and the
  discipline of the sequence counter, as one predicate; every write operation of the program keeps it,
  and therefore every batch of the writer does.
\<close>

section \<open>The predicate\<close>

definition wheels_wf :: "wheel_row list \<Rightarrow> int \<Rightarrow> bool" where
  "wheels_wf ws seq \<longleftrightarrow> distinct (map w_id ws) \<and> distinct (map w_filename ws) \<and> distinct (map w_change_seq ws)
     \<and> (\<forall>w \<in> set ws. w_change_seq w \<le> seq \<and> w_state w \<in> range state_int)"

definition keys_wf :: "database \<Rightarrow> bool" where
  "keys_wf db \<longleftrightarrow> distinct (map work_key (work db)) \<and> distinct (map skip_key (skips db))
     \<and> distinct (map rd_wheel_id (wheel_repodata db)) \<and> distinct (map er_id (errors db))
     \<and> distinct (map pi_name (pypi_index db)) \<and> distinct (map sg_id (segments db)) \<and> distinct (map b_sha256 (blobs db))
     \<and> distinct (map ul_filename (unlinked_blobs db))"

definition refs_wf :: "database \<Rightarrow> bool" where
  "refs_wf db \<longleftrightarrow> wk_wheel_id ` set (work db) \<subseteq> wheel_ids db \<and> sk_wheel_id ` set (skips db) \<subseteq> wheel_ids db
     \<and> rd_wheel_id ` set (wheel_repodata db) \<subseteq> wheel_ids db \<and> er_wheel_id ` set (errors db) \<subseteq> insert None (Some ` wheel_ids db)
     \<and> b_segment_id ` set (blobs db) \<subseteq> sg_id ` set (segments db)"

definition db_wf :: "database \<Rightarrow> int \<Rightarrow> bool" where
  "db_wf db seq \<longleftrightarrow> wheels_wf (wheels db) seq \<and> keys_wf db \<and> refs_wf db"

lemma db_wf_mono: "db_wf db seq \<Longrightarrow> seq \<le> seq' \<Longrightarrow> db_wf db seq'"
  by (fastforce simp: db_wf_def wheels_wf_def)

lemma state_code [simp]: "state_int s \<in> range state_int" "0 \<in> range state_int" "2 \<in> range state_int" "6 \<in> range state_int"
  using rangeI [of state_int NEED_METADATA] rangeI [of state_int NEED_CONVERT] rangeI [of state_int DELETED] by simp_all

section \<open>Wheels\<close>

lemma wheels_wf_update:
  assumes "wheels_wf ws seq" and "\<And>w. p w \<Longrightarrow> w_id (f w) = w_id w \<and> w_filename (f w) = w_filename w \<and> w_change_seq (f w) = w_change_seq w"
    and "\<And>w. w_state w \<in> range state_int \<Longrightarrow> w_state (f w) \<in> range state_int"
  shows "wheels_wf (sql_update p f ws) seq"
  using assms by (auto simp: wheels_wf_def map_key_sql_update set_sql_update)

text \<open>One row touched under a number no row has yet.\<close>

lemma wheels_wf_touch:
  assumes "wheels_wf ws seq" and "\<And>w. w_id (f w) = w_id w \<and> w_filename (f w) = w_filename w \<and> w_change_seq (f w) = seq + 1"
    and "\<And>w. w_state w \<in> range state_int \<Longrightarrow> w_state (f w) \<in> range state_int"
  shows "wheels_wf (sql_update (\<lambda>w. w_id w = i \<and> g w) f ws) (seq + 1)"
proof -
  let ?u = "\<lambda>w. if w_id w = i \<and> g w then f w else w"
  have d: "distinct (map w_change_seq ws)" and i: "inj_on w_id (set ws)" and le: "\<forall>w \<in> set ws. w_change_seq w \<le> seq" and dw: "distinct ws"
    using assms(1) by (auto simp: wheels_wf_def distinct_map)
  have "inj_on (w_change_seq \<circ> ?u) (set ws)"
  proof (rule inj_onI)
    fix v w assume vw: "v \<in> set ws" "w \<in> set ws" "(w_change_seq \<circ> ?u) v = (w_change_seq \<circ> ?u) w"
    have "w_change_seq v \<noteq> seq + 1" "w_change_seq w \<noteq> seq + 1" using le vw(1,2) by force+
    then have "w_change_seq v = w_change_seq w \<or> w_id v = i \<and> w_id w = i" using vw(3) assms(2) by (auto split: if_splits)
    then show "v = w" using vw(1,2) d i by (auto simp: distinct_map dest: inj_onD)
  qed
  then have "distinct (map (w_change_seq \<circ> ?u) ws)" using dw by (simp add: distinct_map)
  then have ds: "distinct (map w_change_seq (sql_update (\<lambda>w. w_id w = i \<and> g w) f ws))"
    by (simp add: sql_update_def comp_def)
  have ids: "map w_id (sql_update (\<lambda>w. w_id w = i \<and> g w) f ws) = map w_id ws"
    and names: "map w_filename (sql_update (\<lambda>w. w_id w = i \<and> g w) f ws) = map w_filename ws"
    by (rule map_key_sql_update; use assms(2) in simp)+
  have rows: "w_change_seq (?u w) \<le> seq + 1 \<and> w_state (?u w) \<in> range state_int" if "w \<in> set ws" for w
    using assms(1) that assms(2,3) [of w] by (force simp: wheels_wf_def)
  then have "\<forall>w \<in> ?u ` set ws. w_change_seq w \<le> seq + 1 \<and> w_state w \<in> range state_int" by blast
  then show ?thesis unfolding wheels_wf_def ids names set_sql_update
    using assms(1) ds by (simp only: wheels_wf_def simp_thms)
qed

lemma wheel_ids_update: "(\<And>w. p w \<Longrightarrow> w_id (f w) = w_id w) \<Longrightarrow> wheel_ids (update_wheels p f db) = wheel_ids db"
  using map_key_sql_update [of p w_id f "wheels db"]
  by (simp add: wheel_ids_def update_wheels_def flip: set_map)

lemma db_wf_wheels:
  "keys_wf (db\<lparr>wheels := ws\<rparr>) = keys_wf db" "w_id ` set ws = wheel_ids db \<Longrightarrow> refs_wf (db\<lparr>wheels := ws\<rparr>) = refs_wf db"
  by (simp_all add: keys_wf_def refs_wf_def wheel_ids_def)

lemma db_wf_update:
  assumes "db_wf db seq" and "\<And>w. p w \<Longrightarrow> w_id (f w) = w_id w \<and> w_filename (f w) = w_filename w \<and> w_change_seq (f w) = w_change_seq w"
    and "\<And>w. w_state w \<in> range state_int \<Longrightarrow> w_state (f w) \<in> range state_int"
  shows "db_wf (update_wheels p f db) seq"
proof -
  have "w_id ` set (sql_update p f (wheels db)) = wheel_ids db" using wheel_ids_update [of p f db] assms(2) by (simp add: wheel_ids_def update_wheels_def)
  then show ?thesis using assms(1) wheels_wf_update [OF _ assms(2,3), of "wheels db" seq] by (simp add: db_wf_def update_wheels_def db_wf_wheels)
qed

lemma db_wf_touch:
  assumes "db_wf db seq" and "\<And>w. w_id (f w) = w_id w \<and> w_filename (f w) = w_filename w \<and> w_change_seq (f w) = seq + 1"
    and "\<And>w. w_state w \<in> range state_int \<Longrightarrow> w_state (f w) \<in> range state_int"
  shows "db_wf (update_wheels (\<lambda>w. w_id w = i \<and> g w) f db) (seq + 1)"
proof -
  let ?p = "\<lambda>w. w_id w = i \<and> g w"
  have "w_id ` set (sql_update ?p f (wheels db)) = wheel_ids db" using wheel_ids_update [of ?p f db] assms(2) by (simp add: wheel_ids_def update_wheels_def)
  then show ?thesis using assms(1) wheels_wf_touch [OF _ assms(2,3), of "wheels db" i g] by (simp add: db_wf_def update_wheels_def db_wf_wheels)
qed

lemma db_wf_touch_one:
  assumes "db_wf db seq" and "\<And>w. w_id (f w) = w_id w \<and> w_filename (f w) = w_filename w \<and> w_change_seq (f w) = seq + 1"
    and "\<And>w. w_state w \<in> range state_int \<Longrightarrow> w_state (f w) \<in> range state_int"
  shows "db_wf (update_wheels (\<lambda>w. w_id w = i) f db) (seq + 1)"
  using db_wf_touch [OF assms, of i "\<lambda>_. True"] by simp

lemma db_wf_touch_each:
  assumes "db_wf db seq" and "\<And>w. w_id (change w) = w_id w \<and> w_filename (change w) = w_filename w"
    and "\<And>w. w_state w \<in> range state_int \<Longrightarrow> w_state (change w) \<in> range state_int"
    and "touch_each guard change now_iso ids a (db, seq) = (n, (db', seq'))"
  shows "db_wf db' seq' \<and> seq \<le> seq'"
  using assms(1,4)
proof (induction ids arbitrary: a db seq)
  case Nil
  then show ?case by simp
next
  case (Cons i ids)
  let ?db = "update_wheels (\<lambda>w. w_id w = i \<and> guard w) (touch change (seq + 1) now_iso) db"
  have "db_wf ?db (seq + 1)"
    by (rule db_wf_touch [OF Cons.prems(1)]) (use assms(2,3) in \<open>auto simp: touch_def\<close>)
  from Cons.IH [OF this] Cons.prems(2) show ?case by (fastforce simp: touch_each_Cons)
qed

section \<open>The other tables\<close>

lemma db_wf_delete:
  assumes "db_wf db seq"
  shows "db_wf (db\<lparr>work := sql_delete p (work db)\<rparr>) seq" and "db_wf (db\<lparr>skips := sql_delete q (skips db)\<rparr>) seq"
    and "db_wf (db\<lparr>wheel_repodata := sql_delete r (wheel_repodata db)\<rparr>) seq" and "db_wf (db\<lparr>errors := sql_delete s (errors db)\<rparr>) seq"
    and "db_wf (db\<lparr>pypi_index := sql_delete t (pypi_index db)\<rparr>) seq"
    and "db_wf (db\<lparr>unlinked_blobs := sql_delete u (unlinked_blobs db)\<rparr>) seq" and "db_wf (db\<lparr>blobs := sql_delete v (blobs db)\<rparr>) seq"
proof -
  have sub: "h ` set (filter x ys) \<subseteq> B" if "h ` set ys \<subseteq> B" for h :: "'r \<Rightarrow> 'k" and x ys B using that by auto
  show "db_wf (db\<lparr>work := sql_delete p (work db)\<rparr>) seq" "db_wf (db\<lparr>skips := sql_delete q (skips db)\<rparr>) seq"
    "db_wf (db\<lparr>wheel_repodata := sql_delete r (wheel_repodata db)\<rparr>) seq" "db_wf (db\<lparr>errors := sql_delete s (errors db)\<rparr>) seq"
    "db_wf (db\<lparr>pypi_index := sql_delete t (pypi_index db)\<rparr>) seq"
    "db_wf (db\<lparr>unlinked_blobs := sql_delete u (unlinked_blobs db)\<rparr>) seq" "db_wf (db\<lparr>blobs := sql_delete v (blobs db)\<rparr>) seq"
    using assms unfolding db_wf_def keys_wf_def refs_wf_def sql_delete_def wheel_ids_def
    by (simp_all add: distinct_map_filter sub del: set_filter)
qed

text \<open>An upsert whose row refers to a wheel, or replaces one that did.\<close>

lemma ref_upsert:
  assumes "\<And>r. key (u r) = key r" and "\<And>r. ref r = h (key r)" and "ref ` set rs \<subseteq> I" and "ref new \<in> I \<or> key new \<in> key ` set rs"
  shows "ref ` set (sql_upsert key u new rs) \<subseteq> I"
proof -
  have im: "ref ` set ys = h ` set (map key ys)" for ys by (simp add: image_image assms(2))
  have "set (map key (sql_upsert key u new rs)) = insert (key new) (set (map key rs))"
    by (rule set_key_upsert) (use assms(1) in simp)
  then have "ref ` set (sql_upsert key u new rs) = insert (ref new) (ref ` set rs)" unfolding im by (simp add: assms(2))
  moreover have "ref new \<in> I" using assms(3,4) by (auto simp: assms(2) [symmetric]) (metis assms(2) image_subset_iff)
  ultimately show ?thesis using assms(3) by simp
qed

lemma db_wf_upsert_work:
  assumes "db_wf db seq" and "\<And>r. work_key (u r) = work_key r" and "upsert_work u new db = Inr db'"
  shows "db_wf db' seq"
proof -
  have db': "db' = db\<lparr>work := sql_upsert work_key u new (work db)\<rparr>"
    and ref: "wk_wheel_id new \<in> wheel_ids db \<or> work_key new \<in> work_key ` set (work db)"
    using assms(3) by (auto simp: upsert_work_def split: if_splits)
  have "wk_wheel_id ` set (sql_upsert work_key u new (work db)) \<subseteq> wheel_ids db"
    by (rule ref_upsert [where h = fst]) (use assms(1,2) ref in \<open>auto simp: work_key_def db_wf_def refs_wf_def\<close>)
  moreover have "distinct (map work_key (sql_upsert work_key u new (work db)))"
    by (rule distinct_key_upsert) (use assms(1,2) in \<open>auto simp: db_wf_def keys_wf_def\<close>)
  ultimately show ?thesis using assms(1) by (simp add: db' db_wf_def keys_wf_def refs_wf_def wheel_ids_def)
qed

lemma db_wf_upsert_skip:
  assumes "db_wf db seq" and "\<And>r. skip_key (u r) = skip_key r" and "upsert_skip u new db = Inr db'"
  shows "db_wf db' seq"
proof -
  have db': "db' = db\<lparr>skips := sql_upsert skip_key u new (skips db)\<rparr>"
    and ref: "sk_wheel_id new \<in> wheel_ids db \<or> skip_key new \<in> skip_key ` set (skips db)"
    using assms(3) by (auto simp: upsert_skip_def split: if_splits)
  have "sk_wheel_id ` set (sql_upsert skip_key u new (skips db)) \<subseteq> wheel_ids db"
    by (rule ref_upsert [where h = fst]) (use assms(1,2) ref in \<open>auto simp: skip_key_def db_wf_def refs_wf_def\<close>)
  moreover have "distinct (map skip_key (sql_upsert skip_key u new (skips db)))"
    by (rule distinct_key_upsert) (use assms(1,2) in \<open>auto simp: db_wf_def keys_wf_def\<close>)
  ultimately show ?thesis using assms(1) by (simp add: db' db_wf_def keys_wf_def refs_wf_def wheel_ids_def)
qed

lemma db_wf_upsert_repodata:
  assumes "db_wf db seq" and "\<And>r. rd_wheel_id (u r) = rd_wheel_id r" and "upsert_repodata u new db = Inr db'"
  shows "db_wf db' seq"
proof -
  have db': "db' = db\<lparr>wheel_repodata := sql_upsert rd_wheel_id u new (wheel_repodata db)\<rparr>"
    and ref: "rd_wheel_id new \<in> wheel_ids db \<or> rd_wheel_id new \<in> rd_wheel_id ` set (wheel_repodata db)"
    using assms(3) by (auto simp: upsert_repodata_def split: if_splits)
  have "rd_wheel_id ` set (sql_upsert rd_wheel_id u new (wheel_repodata db)) \<subseteq> wheel_ids db"
    by (rule ref_upsert [where h = "\<lambda>i. i"]) (use assms(1,2) ref in \<open>auto simp: db_wf_def refs_wf_def\<close>)
  moreover have "distinct (map rd_wheel_id (sql_upsert rd_wheel_id u new (wheel_repodata db)))"
    by (rule distinct_key_upsert) (use assms(1,2) in \<open>auto simp: db_wf_def keys_wf_def\<close>)
  ultimately show ?thesis using assms(1) by (simp add: db' db_wf_def keys_wf_def refs_wf_def wheel_ids_def)
qed

lemma db_wf_insert_error:
  assumes "db_wf db seq" and "insert_error e db = Inr db'"
  shows "db_wf db' seq"
proof -
  let ?e = "e\<lparr>er_id := next_rowid (map er_id (errors db))\<rparr>"
  have db': "db' = db\<lparr>errors := errors db @ [?e]\<rparr>" and ref: "er_wheel_id e \<in> insert None (Some ` wheel_ids db)"
    using assms(2) by (auto simp: insert_error_def split: if_splits option.splits)
  have "distinct (map er_id (errors db'))"
    using assms(1) next_rowid_fresh [of "map er_id (errors db)"] by (simp add: db' db_wf_def keys_wf_def)
  moreover have "er_wheel_id ` set (errors db') \<subseteq> insert None (Some ` wheel_ids db)"
    using assms(1) ref by (simp add: db' db_wf_def refs_wf_def)
  ultimately show ?thesis using assms(1) by (simp add: db' db_wf_def keys_wf_def refs_wf_def wheel_ids_def)
qed

lemma db_wf_insert_wheel:
  assumes "db_wf db seq" and "insert_wheel w db = Inr db'" and "w_change_seq w = seq + 1" and "w_state w \<in> range state_int"
  shows "db_wf db' (seq + 1)"
proof -
  let ?w = "w\<lparr>w_id := next_rowid (map w_id (wheels db))\<rparr>"
  have db': "db' = db\<lparr>wheels := wheels db @ [?w]\<rparr>" and fresh: "w_filename w \<notin> w_filename ` set (wheels db)"
    using assms(2) by (simp_all add: insert_wheel_def split: if_splits)
  have wf: "wheels_wf (wheels db) seq" using assms(1) by (simp add: db_wf_def)
  have old: "w_change_seq v \<noteq> seq + 1" "w_change_seq v \<le> seq + 1" if "v \<in> set (wheels db)" for v
    using that wf by (force simp: wheels_wf_def)+
  have "w_change_seq w \<notin> w_change_seq ` set (wheels db)" using old(1) assms(3) by force
  moreover have "next_rowid (map w_id (wheels db)) \<notin> w_id ` set (wheels db)"
    using next_rowid_fresh [of "map w_id (wheels db)"] by simp
  ultimately have "wheels_wf (wheels db @ [?w]) (seq + 1)"
    using wf assms(3,4) fresh old(2) by (simp add: wheels_wf_def)
  moreover have "refs_wf db'"
    using assms(1) unfolding db' db_wf_def refs_wf_def wheel_ids_def by (simp add: subset_insertI2 image_subset_iff) blast
  ultimately show ?thesis using assms(1) by (simp add: db' db_wf_def keys_wf_def)
qed

lemma db_wf_set_state: "db_wf db seq \<Longrightarrow> db_wf (set_wheel_state i s (seq + 1) now_iso db) (seq + 1)"
  unfolding set_wheel_state_def by (rule db_wf_touch_one) simp_all

lemma db_wf_delete_work: "db_wf db seq \<Longrightarrow> db_wf (delete_work i stg db) seq"
  unfolding delete_work_def by (rule db_wf_delete)

lemma db_wf_upsert_index: "db_wf db seq \<Longrightarrow> db_wf (upsert_index name serial now_iso db) seq"
  using distinct_key_upsert [of pi_name "\<lparr>pi_name = name, pi_serial = serial, pi_updated_at = now_iso\<rparr>"
      "\<lambda>r. r\<lparr>pi_serial := serial, pi_updated_at := now_iso\<rparr>" "pypi_index db"]
  by (simp add: upsert_index_def db_wf_def keys_wf_def refs_wf_def wheel_ids_def)

section \<open>Operations of the dispatcher\<close>

text \<open>What the dispatcher relies on of the function an \<^const>\<open>Ok\<close> outcome carries.\<close>

definition payload_keeps :: "payload_writer \<Rightarrow> bool" where
  "payload_keeps write \<longleftrightarrow> (\<forall>i db seq db'. db_wf db seq \<longrightarrow> write i db = Inr db' \<longrightarrow> db_wf db' seq)"

lemma payload_keeps_blob_link: "payload_keeps (blob_link_writer sha)"
  unfolding payload_keeps_def blob_link_writer_def
  by (auto intro: db_wf_update)

lemma payload_keeps_convert_ok: "payload_keeps (convert_ok_writer dump dumpr rs ns conda pre ver)"
  unfolding payload_keeps_def
proof (intro allI impI)
  fix i db seq db' assume wf: "db_wf db seq" and w: "convert_ok_writer dump dumpr rs ns conda pre ver i db = Inr db'"
  from w obtain u new db1 where up: "upsert_repodata u new db = Inr db1" and u: "\<And>r. rd_wheel_id (u r) = rd_wheel_id r"
    and db': "db' = update_wheels (\<lambda>w. w_id w = i) (\<lambda>w. w\<lparr>w_conda_name := Some conda\<rparr>) db1"
    unfolding convert_ok_writer_def by (auto simp: bind_res_def split: sum.splits)
  show "db_wf db' seq" unfolding db'
    by (rule db_wf_update [OF db_wf_upsert_repodata [OF wf u up]]) simp_all
qed

text \<open>A body that takes one number, does its statements, and returns when none of them raised.\<close>

lemma op_ok_numbered:
  assumes "\<And>db seq. body (db, seq) = (case step db (seq + 1) of Inl e \<Rightarrow> (Inl e, (left db seq, seq + 1)) | Inr db' \<Rightarrow> (Inr v, (db', seq + 1)))"
    and "\<And>db seq db'. db_wf db seq \<Longrightarrow> step db (seq + 1) = Inr db' \<Longrightarrow> db_wf db' (seq + 1)"
  shows "op_ok db_wf body"
  by (rule op_okI) (use assms in \<open>auto split: sum.splits\<close>)

lemma op_ok_ok:
  assumes "ok_op now_iso stg item s write = Inr body" and "payload_keeps write"
  shows "op_ok db_wf body"
proof (rule op_ok_numbered)
  let ?step = "\<lambda>db n. map_sum id (delete_work (qi_id item) stg) (write (qi_id item) (set_wheel_state (qi_id item) s n now_iso db))"
  show "body (db, seq) = (case ?step db (seq + 1) of
      Inl e \<Rightarrow> (Inl e, (set_wheel_state (qi_id item) s (seq + 1) now_iso db, seq + 1)) | Inr db' \<Rightarrow> (Inr VNone, (db', seq + 1)))" for db seq
    using assms(1) by (cases "validate_transition (qi_state item) s")
      (auto simp: ok_op_def bind_res_def next_seq_def Let_def split: sum.splits)
  fix db seq db' assume wf: "db_wf db seq" and "?step db (seq + 1) = Inr db'"
  then obtain db2 where w: "write (qi_id item) (set_wheel_state (qi_id item) s (seq + 1) now_iso db) = Inr db2"
    and db': "db' = delete_work (qi_id item) stg db2" by (cases "write (qi_id item) (set_wheel_state (qi_id item) s (seq + 1) now_iso db)") auto
  have "db_wf db2 (seq + 1)" using assms(2) db_wf_set_state [OF wf] w unfolding payload_keeps_def by blast
  then show "db_wf db' (seq + 1)" unfolding db' by (rule db_wf_delete_work)
qed

lemma upsert_then_error_keeps:
  assumes "db_wf db seq"
  shows "(\<And>r. skip_key (u r) = skip_key r) \<Longrightarrow> bind_res (upsert_skip u new db) (insert_error err) = Inr db' \<Longrightarrow> db_wf db' seq"
    and "(\<And>r. work_key (v r) = work_key r) \<Longrightarrow> bind_res (upsert_work v row db) (insert_error err) = Inr db' \<Longrightarrow> db_wf db' seq"
  unfolding bind_res_Inr_iff
  using db_wf_upsert_skip [OF assms, of u new] db_wf_upsert_work [OF assms, of v row] by (metis db_wf_insert_error)+

lemma op_ok_skip:
  assumes "skip_op now_iso ver stg item reason sub details permanent v = Inr body"
  shows "op_ok db_wf body"
proof (rule op_ok_numbered)
  let ?new = "skip_row_of now_iso stg (qi_id item) reason permanent v"
  let ?u = "\<lambda>r. r\<lparr>sk_reason := sk_reason ?new, sk_permanent := sk_permanent ?new,
                sk_reroll_version := sk_reroll_version ?new, sk_created_at := sk_created_at ?new\<rparr>"
  let ?err = "error_row_of now_iso (qi_id item) reason (Some sub) details ver"
  let ?db = "\<lambda>db n. set_wheel_state (qi_id item) SKIPPED n now_iso db"
  let ?run = "\<lambda>db n. bind_res (upsert_skip ?u ?new (?db db n)) (insert_error ?err)"
  let ?step = "\<lambda>db n. map_sum id (delete_work (qi_id item) stg) (?run db n)"
  have v: "validate_transition (qi_state item) SKIPPED = Inr ()"
    using assms by (cases "validate_transition (qi_state item) SKIPPED") (simp_all add: skip_op_def)
  show "body (db, seq) = (case ?step db (seq + 1) of Inl e \<Rightarrow> (Inl e, (?db db (seq + 1), seq + 1)) | Inr db' \<Rightarrow> (Inr VNone, (db', seq + 1)))" for db seq
  proof -
    have "body = (\<lambda>st. case next_seq st of (seq, (db, seq1)) \<Rightarrow> case ?run db seq of Inl e \<Rightarrow> (Inl e, (?db db seq, seq1))
           | Inr db2 \<Rightarrow> (Inr VNone, (delete_work (qi_id item) stg db2, seq1)))"
      using assms unfolding skip_op_def Let_def v by simp
    then have "body (db, seq) = (case ?run db (seq + 1) of Inl e \<Rightarrow> (Inl e, (?db db (seq + 1), seq + 1))
           | Inr db2 \<Rightarrow> (Inr VNone, (delete_work (qi_id item) stg db2, seq + 1)))" by (simp only: next_seq_def prod.case)
    then show ?thesis by (cases "?run db (seq + 1)") (simp_all only: map_sum.simps sum.case id_apply)
  qed
  fix db seq db' assume wf: "db_wf db seq" and "?step db (seq + 1) = Inr db'"
  then obtain db2 where w: "?run db (seq + 1) = Inr db2" and db': "db' = delete_work (qi_id item) stg db2"
    by (cases "?run db (seq + 1)") (simp_all only: map_sum.simps sum.inject sum.distinct)
  have "db_wf db2 (seq + 1)"
    by (rule upsert_then_error_keeps(1) [OF db_wf_set_state [OF wf] _ w]) (simp add: skip_key_def)
  then show "db_wf db' (seq + 1)" unfolding db' by (rule db_wf_delete_work)
qed

lemma op_ok_retry: "op_ok db_wf (retry_op now jitter maxa ver stg item reason details)"
proof (rule op_okI)
  fix db seq
  let ?i = "qi_id item" and ?n = "attempts_of (qi_id item) stg db + 1"
  let ?q = "\<lparr>wk_wheel_id = ?i, wk_stage = stage_value stg, wk_attempts = ?n, wk_next_attempt_at = iso now,
      wk_last_error = Some details, wk_quarantined_at = Some (iso now)\<rparr>"
  let ?qu = "\<lambda>r. r\<lparr>wk_attempts := wk_attempts ?q, wk_next_attempt_at := wk_next_attempt_at ?q,
      wk_last_error := wk_last_error ?q, wk_quarantined_at := wk_quarantined_at ?q\<rparr>"
  let ?r = "\<lparr>wk_wheel_id = ?i, wk_stage = stage_value stg, wk_attempts = ?n,
      wk_next_attempt_at = iso (now + compute_backoff BASE_BACKOFF_SECONDS MAX_BACKOFF_SECONDS jitter ?n),
      wk_last_error = Some details, wk_quarantined_at = None\<rparr>"
  let ?ru = "\<lambda>r. r\<lparr>wk_attempts := wk_attempts ?r, wk_next_attempt_at := wk_next_attempt_at ?r, wk_last_error := wk_last_error ?r\<rparr>"
  let ?db = "set_wheel_state ?i QUARANTINED (seq + 1) (iso now) db"
  let ?err = "error_row_of (iso now) ?i reason None details ver"
  have op: "retry_op now jitter maxa ver stg item reason details (db, seq) =
      (if maxa < ?n then (case validate_transition (qi_state item) QUARANTINED of Inl e \<Rightarrow> (Inl e, (db, seq))
         | Inr _ \<Rightarrow> (case bind_res (upsert_work ?qu ?q ?db) (insert_error ?err) of Inl e \<Rightarrow> (Inl e, (?db, seq + 1))
             | Inr db2 \<Rightarrow> (Inr (VRetried ''quarantined'' ?n), (db2, seq + 1))))
       else (case upsert_work ?ru ?r db of Inl e \<Rightarrow> (Inl e, (db, seq)) | Inr db1 \<Rightarrow> (Inr (VRetried ''retried'' ?n), (db1, seq))))"
    unfolding retry_op_def Let_def next_seq_def by (simp only: prod.case)
  have k: "work_key (?qu x) = work_key x" "work_key (?ru x) = work_key x" for x by (simp_all add: work_key_def)
  assume wf: "db_wf db seq"
  note q = upsert_then_error_keeps(2) [OF db_wf_set_state [OF wf], where v = ?qu and row = ?q and err = ?err]
  note r = db_wf_upsert_work [OF wf, where u = ?ru and new = ?r]
  define run_q where "run_q = bind_res (upsert_work ?qu ?q ?db) (insert_error ?err)"
  define run_r where "run_r = upsert_work ?ru ?r db"
  note op' = op [folded run_q_def run_r_def]
  { fix x db' seq' assume "retry_op now jitter maxa ver stg item reason details (db, seq) = (x, (db', seq'))"
    then show "seq \<le> seq'" unfolding op' by (auto split: if_splits sum.splits) }
  { fix x db' seq' assume "retry_op now jitter maxa ver stg item reason details (db, seq) = (Inr x, (db', seq'))"
    then have "run_q = Inr db' \<and> seq' = seq + 1 \<or> run_r = Inr db' \<and> seq' = seq"
      unfolding op' by (auto split: if_splits sum.splits)
    then show "db_wf db' seq'"
    proof (elim disjE conjE)
      assume "run_q = Inr db'" "seq' = seq + 1"
      then show ?thesis using q [OF k(1)] unfolding run_q_def by blast
    next
      assume "run_r = Inr db'" "seq' = seq"
      then show ?thesis using r [OF k(2)] unfolding run_r_def by blast
    qed }
qed

lemma op_ok_build_write_op:
  assumes "build_write_op rd ds stg item out = Inr body" and "\<And>s write. out = Ok s write \<Longrightarrow> payload_keeps write"
  shows "op_ok db_wf body"
  using assms by (cases out) (auto simp: build_write_op_def op_ok_retry intro: op_ok_ok op_ok_skip)

section \<open>Chunk operations\<close>

text \<open>A body that cannot raise.\<close>

lemma op_ok_total:
  assumes "\<And>db seq. db_wf db seq \<Longrightarrow> \<exists>v db' seq'. f (db, seq) = (Inr v, (db', seq')) \<and> db_wf db' seq' \<and> seq \<le> seq'"
  shows "op_ok db_wf f"
proof (rule op_okI)
  show "seq \<le> seq'" if "db_wf db seq" "f (db, seq) = (r, (db', seq'))" for db seq r db' seq' using assms [OF that(1)] that(2) by auto
  show "db_wf db' seq'" if "db_wf db seq" "f (db, seq) = (Inr v, (db', seq'))" for db seq v db' seq' using assms [OF that(1)] that(2) by auto
qed

lemma touch_each_keeps:
  assumes "db_wf db seq" and "\<And>w. w_id (change w) = w_id w \<and> w_filename (change w) = w_filename w"
    and "\<And>w. w_state w \<in> range state_int \<Longrightarrow> w_state (change w) \<in> range state_int"
  shows "\<exists>n db' seq'. touch_each guard change now_iso ids a (db, seq) = (n, (db', seq')) \<and> db_wf db' seq' \<and> seq \<le> seq'"
proof -
  obtain n db' seq' where t: "touch_each guard change now_iso ids a (db, seq) = (n, (db', seq'))" by (metis prod.exhaust)
  then show ?thesis using db_wf_touch_each [OF assms t] by blast
qed

lemma op_ok_reprocess_chunk: "op_ok db_wf (reprocess_chunk_op ids sel now_iso)"
proof (rule op_ok_total)
  fix db seq assume "db_wf db seq"
  from db_wf_delete(3) [OF this, where r = "\<lambda>r. rd_wheel_id r \<in> set ids", THEN db_wf_delete(2)
      [where q = "\<lambda>r. clears_skip sel r \<and> sk_wheel_id r \<in> set ids"], THEN db_wf_delete(1) [where p = "\<lambda>r. wk_wheel_id r \<in> set ids"],
      THEN touch_each_keeps [where change = to_need_convert and guard = "\<lambda>_. True" and ids = ids and a = 0 and now_iso = now_iso]]
  show "\<exists>v db' seq'. reprocess_chunk_op ids sel now_iso (db, seq) = (Inr v, (db', seq')) \<and> db_wf db' seq' \<and> seq \<le> seq'"
    by (auto simp: reprocess_chunk_op_def reprocess_chunk_def Let_def to_need_convert_def)
qed

lemma op_ok_unquarantine_chunk: "op_ok db_wf (unquarantine_chunk_op ids now_iso)"
proof (rule op_ok_total)
  fix db seq assume "db_wf db seq"
  from db_wf_delete(1) [OF this, where p = "\<lambda>r. wk_wheel_id r \<in> set ids",
      THEN touch_each_keeps [where change = to_need_metadata and guard = is_quarantined and ids = ids and a = 0 and now_iso = now_iso]]
  show "\<exists>v db' seq'. unquarantine_chunk_op ids now_iso (db, seq) = (Inr v, (db', seq')) \<and> db_wf db' seq' \<and> seq \<le> seq'"
    by (auto simp: unquarantine_chunk_op_def unquarantine_chunk_def Let_def to_need_metadata_def)
qed

lemma op_ok_gc_errors: "op_ok db_wf (gc_errors_op cutoff chunk)"
  by (rule op_ok_total) (simp add: gc_errors_op_def gc_errors_def Let_def db_wf_delete)

lemma op_ok_recover_chunk: "op_ok db_wf (recover_chunk_op chunk)"
proof (rule op_ok_total)
  fix db seq assume wf: "db_wf db seq"
  define ids where "ids = map w_id (filter (\<lambda>w. (\<exists>sha. w_blob_sha256 w = Some sha \<and> sha \<in> set chunk)
                   \<and> w_state w \<noteq> state_int DELETED) (wheels db))"
  let ?db = "update_wheels (\<lambda>w. w_id w \<in> set ids)
                  (\<lambda>w. w\<lparr>w_state := state_int NEED_METADATA, w_blob_sha256 := None, w_conda_name := None\<rparr>) db"
  have "db_wf ?db seq" by (rule db_wf_update [OF wf]) simp_all
  from db_wf_delete(7) [OF db_wf_delete(3) [OF this], where v = "\<lambda>b. b_sha256 b \<in> set chunk"]
    db_wf_delete(7) [OF wf, where v = "\<lambda>b. b_sha256 b \<in> set chunk"]
  show "\<exists>v db' seq'. recover_chunk_op chunk (db, seq) = (Inr v, (db', seq')) \<and> db_wf db' seq' \<and> seq \<le> seq'"
    unfolding recover_chunk_op_def recover_chunk_def Let_def prod.case ids_def [symmetric] by (auto simp: update_wheels_def)
qed

section \<open>Operations of ingest\<close>

lemma db_wf_insert_new_wheel:
  assumes "db_wf db seq" and "insert_new_wheel plan now_iso ver n k (db, seq) = (r, (db', seq'))"
  shows "db_wf db' seq' \<and> seq \<le> seq'"
proof -
  let ?w = "new_wheel_row (pl_project plan) (pl_remote_serial plan) (seq + 1) now_iso n"
  have mono: "db_wf db (seq + 1)" using db_wf_mono [OF assms(1)] by simp
  show ?thesis
  proof (cases "insert_wheel ?w db")
    case (Inl e)
    show ?thesis
    proof (cases "record_duplicate_filename (nw_filename n) (pl_project plan) now_iso ver db")
      case (Inl e')
      then show ?thesis using assms(2) \<open>insert_wheel ?w db = Inl e\<close> mono by (simp add: insert_new_wheel_def next_seq_def)
    next
      case (Inr db1)
      then have "db_wf db1 (seq + 1)" using db_wf_insert_error [OF mono] by (simp add: record_duplicate_filename_def)
      then show ?thesis using Inr assms(2) \<open>insert_wheel ?w db = Inl e\<close> by (simp add: insert_new_wheel_def next_seq_def)
    qed
  next
    case (Inr db1)
    have "db_wf db1 (seq + 1)" by (rule db_wf_insert_wheel [OF assms(1) Inr]) (simp_all add: new_wheel_row_def)
    then show ?thesis using Inr assms(2) db_wf_delete(6) [OF \<open>db_wf db1 (seq + 1)\<close>]
      by (auto simp: insert_new_wheel_def next_seq_def split: option.splits)
  qed
qed

lemma db_wf_insert_new_wheels:
  assumes "db_wf db seq" and "insert_new_wheels plan now_iso ver ns k (db, seq) = (r, (db', seq'))"
  shows "db_wf db' seq' \<and> seq \<le> seq'"
  using assms
proof (induction ns arbitrary: k db seq)
  case Nil
  then show ?case by simp
next
  case (Cons n ns)
  obtain r1 db1 seq1 where one: "insert_new_wheel plan now_iso ver n k (db, seq) = (r1, (db1, seq1))" by (metis prod.exhaust)
  note wf = db_wf_insert_new_wheel [OF Cons.prems(1) one]
  show ?case
  proof (cases r1)
    case (Inl e)
    then show ?thesis using wf Cons.prems(2) by (auto simp: one)
  next
    case (Inr j)
    then have "insert_new_wheels plan now_iso ver ns j (db1, seq1) = (r, (db', seq'))" using Cons.prems(2) by (simp add: one)
    from Cons.IH [OF conjunct1 [OF wf] this] show ?thesis using wf by linarith
  qed
qed

lemma apply_change_keys [simp]:
  "w_id (fold apply_change cs w) = w_id w" "w_filename (fold apply_change cs w) = w_filename w"
proof -
  have one: "w_id (apply_change c v) = w_id v" "w_filename (apply_change c v) = w_filename v" for c v by (cases c; simp)+
  show "w_id (fold apply_change cs w) = w_id w" "w_filename (fold apply_change cs w) = w_filename w"
    by (induction cs arbitrary: w) (simp_all add: one)
qed

lemma apply_change_state: "w_state w \<in> range state_int \<Longrightarrow> w_state (fold apply_change cs w) \<in> range state_int"
proof (induction cs arbitrary: w)
  case (Cons c cs)
  have "w_state (apply_change c w) \<in> range state_int" using Cons.prems by (cases c) simp_all
  then show ?case using Cons.IH by simp
qed simp

lemma db_wf_update_changed_wheel:
  assumes "db_wf db seq"
  shows "db_wf (fst (update_changed_wheel now_iso c (db, seq))) (seq + 1) \<and> snd (update_changed_wheel now_iso c (db, seq)) = seq + 1"
proof -
  have "db_wf (update_wheels (\<lambda>w. w_id w = cw_wheel_id c)
      (\<lambda>w. (fold apply_change (cw_changes c) w)\<lparr>w_change_seq := seq + 1, w_updated_at := now_iso\<rparr>) db) (seq + 1)"
    by (rule db_wf_touch_one [OF assms]) (simp_all add: apply_change_state)
  from this this [THEN db_wf_delete(2)] this [THEN db_wf_delete(3)] this [THEN db_wf_delete(2), THEN db_wf_delete(3)]
  show ?thesis by (simp add: update_changed_wheel_def next_seq_def Let_def)
qed

lemma db_wf_update_changed_wheels:
  assumes "db_wf (fst st) (snd st)"
  shows "db_wf (fst (fold (update_changed_wheel now_iso) cs st)) (snd (fold (update_changed_wheel now_iso) cs st))
    \<and> snd st \<le> snd (fold (update_changed_wheel now_iso) cs st)"
  using assms
proof (induction cs arbitrary: st)
  case (Cons c cs)
  obtain db seq where st: "st = (db, seq)" by (cases st)
  note one = db_wf_update_changed_wheel [of db seq now_iso c]
  show ?case using Cons.IH [of "update_changed_wheel now_iso c st"] Cons.prems one by (simp add: st)
qed simp

lemma db_wf_tombstone_each:
  assumes "db_wf (fst st) (snd st)"
  shows "db_wf (fst (tombstone_each now_iso ids st)) (snd (tombstone_each now_iso ids st)) \<and> snd st \<le> snd (tombstone_each now_iso ids st)"
proof -
  obtain db seq where st: "st = (db, seq)" by (cases st)
  obtain n db' seq' where "touch_each (\<lambda>_. True) (tombstone now_iso) now_iso ids 0 (db, seq) = (n, (db', seq'))" "db_wf db' seq'" "seq \<le> seq'"
    using touch_each_keeps [where db = db and seq = seq and change = "tombstone now_iso" and guard = "\<lambda>_. True" and now_iso = now_iso
        and ids = ids and a = 0] assms by (auto simp: st tombstone_def)
  then show ?thesis by (simp add: tombstone_each_def st)
qed

lemma db_wf_tombstone_project:
  "db_wf (fst st) (snd st) \<Longrightarrow> tombstone_project name limit now_iso n st = (m, st') \<Longrightarrow> db_wf (fst st') (snd st') \<and> snd st \<le> snd st'"
proof (induction name limit now_iso n st rule: tombstone_project.induct)
  case (1 name limit now_iso n st)
  show ?case
  proof (cases "gone_query name limit (fst st) = []")
    case True
    then show ?thesis using 1 by (simp add: tombstone_project.simps [of name limit now_iso n st])
  next
    case False
    let ?ids = "gone_query name limit (fst st)"
    have "tombstone_project name limit now_iso (n + int (length ?ids)) (tombstone_each now_iso ?ids st) = (m, st')"
      using False 1(3) by (simp add: tombstone_project.simps [of name limit now_iso n st] Let_def)
    from 1(1) [OF refl False _ this] show ?thesis using db_wf_tombstone_each [OF 1(2), of now_iso ?ids] by linarith
  qed
qed

lemma op_ok_project_write: "op_ok db_wf (project_write_op plan now_iso ver)"
proof (rule op_okI)
  fix db seq assume wf: "db_wf db seq"
  obtain r1 db1 seq1 where one: "insert_new_wheels plan now_iso ver (pl_new_wheels plan) 0 (db, seq) = (r1, (db1, seq1))" by (metis prod.exhaust)
  define st2 where "st2 = fold (update_changed_wheel now_iso) (pl_changed_wheels plan) (db1, seq1)"
  obtain db3 seq3 where three: "tombstone_each now_iso (pl_vanished_wheel_ids plan) st2 = (db3, seq3)" by (metis prod.exhaust)
  note w1 = db_wf_insert_new_wheels [OF wf one]
  have w2: "db_wf (fst st2) (snd st2)" "seq1 \<le> snd st2" using db_wf_update_changed_wheels [of "(db1, seq1)"] w1 by (simp_all add: st2_def)
  have w3: "db_wf db3 seq3" "snd st2 \<le> seq3"
    using db_wf_tombstone_each [OF w2(1), of now_iso "pl_vanished_wheel_ids plan"] by (simp_all add: three)
  show "seq \<le> seq'" if "project_write_op plan now_iso ver (db, seq) = (r, (db', seq'))" for r db' seq'
    using that w1 w2 w3 by (auto simp: project_write_op_def one st2_def [symmetric] three split: sum.splits)
  show "db_wf db' seq'" if "project_write_op plan now_iso ver (db, seq) = (Inr v, (db', seq'))" for v db' seq'
    using that db_wf_upsert_index [OF w3(1)] by (auto simp: project_write_op_def one st2_def [symmetric] three split: sum.splits)
qed

lemma op_ok_gone_write: "op_ok db_wf (gone_write_op name now_iso)"
proof (rule op_ok_total)
  fix db seq assume wf: "db_wf db seq"
  obtain m db1 seq1 where t: "tombstone_project name DEFAULT_GONE_CHUNK_SIZE now_iso 0 (db, seq) = (m, (db1, seq1))" by (metis prod.exhaust)
  have "db_wf db1 seq1" "seq \<le> seq1" using db_wf_tombstone_project [OF _ t] wf by simp_all
  then show "\<exists>v db' seq'. gone_write_op name now_iso (db, seq) = (Inr v, (db', seq')) \<and> db_wf db' seq' \<and> seq \<le> seq'"
    using db_wf_delete(5) by (simp add: gone_write_op_def t)
qed

lemma op_ok_quarantine_error: "op_ok db_wf (quarantine_error_write_op project attempts now_iso ver)"
  by (rule op_okI) (auto simp: quarantine_error_write_op_def split: sum.splits intro: db_wf_insert_error)

section \<open>Statements of the archive\<close>

definition open_segment_row :: "int \<Rightarrow> segment_row" where
  "open_segment_row segment_id = \<lparr>sg_id = segment_id, sg_sealed_at = None, sg_bytes = None, sg_records = None, sg_footer_sha = None\<rparr>"

lemma db_wf_insert_segment: "db_wf db seq \<Longrightarrow> i \<notin> sg_id ` set (segments db) \<Longrightarrow> db_wf (db\<lparr>segments := segments db @ [open_segment_row i]\<rparr>) seq"
  by (auto simp: db_wf_def keys_wf_def refs_wf_def wheel_ids_def open_segment_row_def)

lemma db_wf_insert_blob:
  assumes "db_wf db seq" and "insert_or_ignore_blob l db = Inr db'"
  shows "db_wf db' seq"
proof (cases "bl_sha256 l \<in> b_sha256 ` set (blobs db)")
  case True
  then show ?thesis using assms by (simp add: insert_or_ignore_blob_def)
next
  case False
  obtain b where db': "db' = db\<lparr>blobs := blobs db @ [b]\<rparr>" and b: "b_sha256 b = bl_sha256 l" "b_segment_id b \<in> sg_id ` set (segments db)"
    using assms(2) False by (auto simp: insert_or_ignore_blob_def split: if_splits)
  then have "keys_wf db'" "refs_wf db'"
    using assms(1) False by (simp_all add: db_wf_def keys_wf_def refs_wf_def wheel_ids_def)
  then show ?thesis using assms(1) by (simp add: db_wf_def db')
qed

lemma db_wf_update_sealed: "db_wf db seq \<Longrightarrow> db_wf (update_sealed now stats db) seq"
proof -
  let ?f = "\<lambda>r. r\<lparr>sg_sealed_at := Some now, sg_bytes := Some (st_bytes stats), sg_records := Some (st_records stats), sg_footer_sha := Some (st_footer_sha256 stats)\<rparr>"
  have ids: "map sg_id (sql_update (\<lambda>r. sg_id r = st_segment_id stats) ?f (segments db)) = map sg_id (segments db)"
    by (rule map_key_sql_update) simp
  then have "sg_id ` set (sql_update (\<lambda>r. sg_id r = st_segment_id stats) ?f (segments db)) = sg_id ` set (segments db)"
    by (metis list.set_map)
  then show "db_wf db seq \<Longrightarrow> ?thesis" using ids by (simp add: update_sealed_def db_wf_def keys_wf_def refs_wf_def wheel_ids_def)
qed

section \<open>Every life of the database\<close>

text \<open>\<^verbatim>\<open>_seal_write_op\<close>, and an operation read for the value it returns.\<close>

definition seal_write_op :: "iso_time \<Rightarrow> segment_stats \<Rightarrow> op_body" where
  "seal_write_op now stats st = (case st of (db, seq) \<Rightarrow> (Inr VNone, (update_sealed now stats db, seq)))"

definition map_value :: "('a \<Rightarrow> 'b) \<Rightarrow> 'a step \<Rightarrow> 'b step" where
  "map_value g f st = (case f st of (r, st') \<Rightarrow> (map_sum id g r, st'))"

lemma op_ok_map_value:
  assumes "op_ok keeps f"
  shows "op_ok keeps (map_value g f)"
proof (rule op_okI)
  fix db seq assume k: "keeps db seq"
  obtain r db1 seq1 where f: "f (db, seq) = (r, (db1, seq1))" by (metis prod.exhaust)
  note contract = op_okD [OF assms k f]
  show "seq \<le> seq'" if "map_value g f (db, seq) = (x, (db', seq'))" for x db' seq'
    using that contract by (simp add: map_value_def f)
  show "keeps db' seq'" if "map_value g f (db, seq) = (Inr v, (db', seq'))" for v db' seq'
    using that contract by (cases r) (auto simp: map_value_def f)
qed

text \<open>The bodies of the eleven \<^verbatim>\<open>WriteOp\<close>s the program submits; \<open>dump\<close> and \<open>dumpr\<close> are the serialisers of the conversion.\<close>

inductive program_body :: "('p wheel_record list \<Rightarrow> bytes) \<Rightarrow> ('p name_resolution list \<Rightarrow> bytes) \<Rightarrow> op_body \<Rightarrow> bool" for dump dumpr where
  Fetched: "build_write_op rd ds stg item (Ok s (blob_link_writer sha)) = Inr body \<Longrightarrow> program_body dump dumpr body"
| Converted: "build_write_op rd ds stg item (adapt_convert_outcome dump dumpr ver out) = Inr body \<Longrightarrow> program_body dump dumpr body"
| Skipped: "build_write_op rd ds stg item (Skip reason sub details permanent ver) = Inr body \<Longrightarrow> program_body dump dumpr body"
| Retried: "build_write_op rd ds stg item (Retry reason details) = Inr body \<Longrightarrow> program_body dump dumpr body"
| Reprocess: "program_body dump dumpr (reprocess_chunk_op ids sel now_iso)"
| Unquarantine: "program_body dump dumpr (unquarantine_chunk_op ids now_iso)"
| Gc: "program_body dump dumpr (gc_errors_op cutoff chunk_size)"
| Seal: "program_body dump dumpr (seal_write_op now_iso stats)"
| Recover: "program_body dump dumpr (recover_chunk_op chunk)"
| Sync: "program_body dump dumpr (map_value g (project_write_op plan now_iso ver))"
| Gone: "program_body dump dumpr (map_value g (gone_write_op name now_iso))"
| Quarantined: "program_body dump dumpr (map_value h (quarantine_error_write_op project attempts now_iso ver))"

lemma program_body_ok: "program_body dump dumpr body \<Longrightarrow> op_ok db_wf body"
proof (induction rule: program_body.induct)
  case (Converted rd ds stg item ver out body)
  from Converted show ?case
    by (rule op_ok_build_write_op) (auto simp: adapt_convert_outcome_def payload_keeps_convert_ok split: convert_outcome.splits)
next
  case (Seal now_iso stats)
  show ?case by (rule op_ok_total) (simp add: seal_write_op_def db_wf_update_sealed)
qed (auto intro: op_ok_build_write_op payload_keeps_blob_link op_ok_map_value op_ok_reprocess_chunk op_ok_unquarantine_chunk
    op_ok_gc_errors op_ok_recover_chunk op_ok_project_write op_ok_gone_write op_ok_quarantine_error)

text \<open>
  The database over any number of processes: the writer commits batches (or fails to), the archive's store
  inserts its segment and blob rows over its own connection between them, and a restarted writer reads its
  counter back from the table.
\<close>

inductive database_life :: "('p wheel_record list \<Rightarrow> bytes) \<Rightarrow> ('p name_resolution list \<Rightarrow> bytes) \<Rightarrow> database \<Rightarrow> int \<Rightarrow> bool"
  for dump dumpr where
  Created: "database_life dump dumpr empty_db 0"
| Batch: "database_life dump dumpr db seq \<Longrightarrow> \<forall>opn \<in> set ops. program_body dump dumpr (op_apply opn)
    \<Longrightarrow> commit_batch be ce ops ((db, seq), n) = (r, ((db', seq'), n')) \<Longrightarrow> database_life dump dumpr db' seq'"
| Segment: "database_life dump dumpr db seq \<Longrightarrow> i \<notin> sg_id ` set (segments db)
    \<Longrightarrow> database_life dump dumpr (db\<lparr>segments := segments db @ [open_segment_row i]\<rparr>) seq"
| Blob: "database_life dump dumpr db seq \<Longrightarrow> insert_or_ignore_blob location db = Inr db' \<Longrightarrow> database_life dump dumpr db' seq"
| Restart: "database_life dump dumpr db seq \<Longrightarrow> database_life dump dumpr db (max_change_seq db)"

interpretation schema: seq_invariant db_wf
  by unfold_locales (rule db_wf_mono)

lemma db_wf_restart: "db_wf db seq \<Longrightarrow> db_wf db (max_change_seq db)"
  by (cases "wheels db = []") (auto simp: db_wf_def wheels_wf_def max_change_seq_def)

lemma db_wf_empty: "db_wf empty_db 0"
  by (simp add: db_wf_def wheels_wf_def keys_wf_def refs_wf_def empty_db_def)

lemma database_life_wf: "database_life dump dumpr db seq \<Longrightarrow> db_wf db seq"
proof (induction rule: database_life.induct)
  case Created
  show ?case by (rule db_wf_empty)
next
  case (Batch db seq ops be ce n r db' seq' n')
  then show ?case using schema.commit_batch_inv [of ops db seq be ce n r db' seq' n'] program_body_ok by blast
qed (auto intro: db_wf_insert_segment db_wf_insert_blob db_wf_restart)

text \<open>
  C1. The database is well typed in every state any sequence of the program's writes can reach, across failed
  operations, failed commits and restarts: identifiers, filenames, change numbers and all primary keys are
  unique, no change number is above the counter, every state code is one of the seven, and every work, skip,
  repodata, error and blob row refers to a wheel or segment that exists.
\<close>

theorem schema_is_kept: "database_life dump dumpr db seq \<Longrightarrow> db_wf db seq"
  by (rule database_life_wf)

definition demo_new_wheel :: new_wheel where
  "demo_new_wheel = \<lparr>nw_filename = ''a-1-py3-none-any.whl'', nw_url = ''u'', nw_wheel_sha256 = None, nw_metadata_sha256 = None,
     nw_size = None, nw_upload_time = None, nw_requires_python = None, nw_yanked = False, nw_yanked_reason = None,
     nw_state = NO_METADATA, nw_blob_sha256 = None, nw_unlinked_blob_filename = None\<rparr>"

definition demo_plan :: project_plan where
  "demo_plan = \<lparr>pl_project = ''a'', pl_remote_serial = 7, pl_new_wheels = [demo_new_wheel], pl_changed_wheels = [],
     pl_vanished_wheel_ids = []\<rparr>"

definition demo_sync :: "(database, op_value) write_op" where
  "demo_sync = \<lparr>op_id = 0, op_name = ''sync'', op_apply = map_value (\<lambda>r. VCount (ar_inserted r)) (project_write_op demo_plan 0 ''1'')\<rparr>"

theorem schema_is_kept_witness:
  "\<exists>r db seq n. commit_batch None None [demo_sync, demo_sync] ((empty_db, 0), 0) = (r, ((db, seq), n))
     \<and> length (wheels db) = 1 \<and> db_wf db seq"
proof -
  let ?c = "commit_batch None None [demo_sync, demo_sync] ((empty_db, 0), 0)"
  obtain r db seq n where c: "?c = (r, ((db, seq), n))" by (metis prod.exhaust)
  have "length (wheels (fst (fst (snd ?c)))) = 1" by code_simp
  moreover have "db_wf db seq"
  proof (rule schema_is_kept)
    show "database_life (\<lambda>_ :: unit wheel_record list. []) (\<lambda>_. []) db seq"
      by (rule database_life.Batch [OF database_life.Created _ c]) (simp add: demo_sync_def program_body.Sync)
  qed
  ultimately show ?thesis using c by simp
qed

end
