(* ===== verification/Fsck.thy ===== *)
theory Fsck
  imports Db_Inv Ingest_Effects
begin

text \<open>
  \<^verbatim>\<open>fsck.py\<close>: the read-only invariant checker. A check is a query whose rows are violations; every query is
  read in keyset-paginated chunks, each in its own budgeted read transaction. The database does not change
  between the chunks of the model's run. The \<^verbatim>\<open>rowid\<close> of a table with an integer primary key is that key; of
  the other tables it grows in insertion order, which is the order of the model's rows.
\<close>

section \<open>Reports\<close>

datatype fsck_value = Row_id int | Sha256 string | Segment_problem verify_problem | Seq_mismatch int int

record violation =
  vi_invariant :: string
  vi_description :: string
  vi_count :: int
  vi_example_ids :: "fsck_value list"
  vi_informational :: bool

definition report_ok :: "violation list \<Rightarrow> bool" where
  "report_ok violations = (\<not> (\<exists>v \<in> set violations. \<not> vi_informational v))"

section \<open>Reads\<close>

text \<open>
  The read transactions of a run: how long the \<open>k\<close>-th one takes, how many there were, and the watchdog.
  \<^verbatim>\<open>read_txn\<close> with \<^verbatim>\<open>strict=True\<close> raises when one exceeds the budget.
\<close>

record fsck_reads =
  fr_elapsed :: "nat \<Rightarrow> real"
  fr_count :: nat
  fr_watchdog :: watchdog

type_synonym 'a fsck = "fsck_reads \<Rightarrow> 'a res \<times> fsck_reads"

definition timed_read :: "real \<Rightarrow> 'a \<Rightarrow> 'a fsck" where
  "timed_read budget result st =
     (case read_txn_exit budget True 0 (fr_elapsed st (fr_count st)) (fr_watchdog st) of
        (wd, raised) \<Rightarrow>
          (if raised then Inl ReadTxnBudgetExceeded else Inr result,
           st\<lparr>fr_count := fr_count st + 1, fr_watchdog := wd\<rparr>))"

text \<open>One page of \<^verbatim>\<open>_chunked_scan\<close>: the rows past the cursor in \<^verbatim>\<open>rowid\<close> order, one more than a chunk.\<close>

definition scan_page :: "int \<Rightarrow> (int \<times> 'v) list \<Rightarrow> int option \<Rightarrow> (int \<times> 'v) list" where
  "scan_page chunk_size rows cursor = keyset_page fst (chunk_size + 1) rows cursor"

function chunked_scan :: "real \<Rightarrow> int \<Rightarrow> (int \<times> 'v) list \<Rightarrow> int option \<Rightarrow> 'v list fsck" where
  "chunked_scan budget chunk_size rows cursor st =
     (case timed_read budget (scan_page chunk_size rows cursor) st of
        (Inl e, st1) \<Rightarrow> (Inl e, st1)
      | (Inr fetched, st1) \<Rightarrow>
          if fetched = [] then (Inr [], st1)
          else let page = py_slice 0 chunk_size fetched
               in if \<not> chunk_size < int (length fetched) then (Inr (map snd page), st1)
                  else if page = [] then (Inl IndexError, st1)
                  else (case chunked_scan budget chunk_size rows (Some (fst (last page))) st1 of
                          (Inl e, st2) \<Rightarrow> (Inl e, st2)
                        | (Inr values, st2) \<Rightarrow> (Inr (map snd page @ values), st2)))"
  by pat_completeness auto
termination
proof (relation "measure (\<lambda>(budget, n, rows, c, st). length (filter (\<lambda>r. after c (fst r)) rows))", goal_cases)
  case (2 budget n rows c st x st1 fetched page)
  have "fetched = scan_page n rows c"
    using 2(1,2) by (auto simp: timed_read_def split: prod.splits if_splits)
  then have "set page \<subseteq> {r \<in> set rows. after c (fst r)}"
    using 2(4) py_slice_subset [of 0 n fetched] keyset_page_subset [of fst "n + 1" rows c] by (auto simp: scan_page_def)
  then have "last page \<in> set rows" "after c (fst (last page))" using last_in_set [OF 2(6)] by auto
  then show ?case by (simp add: filter_after_shrinks)
qed simp

declare chunked_scan.simps [simp del]

section \<open>Row checks\<close>

record row_check =
  rc_invariant :: string
  rc_description :: string
  rc_rows :: "database \<Rightarrow> (int \<times> fsck_value) list"
  rc_informational :: bool

text \<open>The loop of \<^verbatim>\<open>_run_row_check\<close> over the yielded values.\<close>

definition tally :: "int \<Rightarrow> 'v \<Rightarrow> int \<times> 'v list \<Rightarrow> int \<times> 'v list" where
  "tally example_limit value acc =
     (case acc of (count, examples) \<Rightarrow>
        (count + 1, if int (length examples) < example_limit then examples @ [value] else examples))"

definition run_row_check :: "real \<Rightarrow> int \<Rightarrow> int \<Rightarrow> database \<Rightarrow> row_check \<Rightarrow> violation option fsck" where
  "run_row_check budget chunk_size example_limit db check st =
     (case chunked_scan budget chunk_size (rc_rows check db) None st of
        (Inl e, st1) \<Rightarrow> (Inl e, st1)
      | (Inr values, st1) \<Rightarrow>
          (case fold (tally example_limit) values (0, []) of (count, examples) \<Rightarrow>
             (Inr (if count = 0 then None
                   else Some \<lparr>vi_invariant = rc_invariant check, vi_description = rc_description check,
                          vi_count = count, vi_example_ids = examples,
                          vi_informational = rc_informational check\<rparr>), st1)))"

text \<open>The rows a query selects from one table, and from a table joined with the wheels.\<close>

definition wheel_rows :: "(wheel_row \<Rightarrow> bool) \<Rightarrow> database \<Rightarrow> (int \<times> fsck_value) list" where
  "wheel_rows p db = map (\<lambda>w. (w_id w, Row_id (w_id w))) (filter p (wheels db))"

definition numbered :: "'r list \<Rightarrow> (int \<times> 'r) list" where
  "numbered rs = zip (map int [0..<length rs]) rs"

definition joined_wheel :: "database \<Rightarrow> (wheel_row \<Rightarrow> bool) \<Rightarrow> int \<Rightarrow> bool" where
  "joined_wheel db p wheel_id = (\<exists>w \<in> set (wheels db). w_id w = wheel_id \<and> p w)"

definition has_blob :: "database \<Rightarrow> string \<Rightarrow> bool" where
  "has_blob db sha = (\<exists>b \<in> set (blobs db). b_sha256 b = sha)"

definition ready_without_repodata :: "database \<Rightarrow> (int \<times> fsck_value) list" where
  "ready_without_repodata db = wheel_rows (\<lambda>w. w_state w = state_int READY
     \<and> \<not> (\<exists>r \<in> set (wheel_repodata db). rd_wheel_id r = w_id w)) db"

definition repodata_without_ready :: "database \<Rightarrow> (int \<times> fsck_value) list" where
  "repodata_without_ready db = map (\<lambda>r. (rd_wheel_id r, Row_id (rd_wheel_id r)))
     (filter (\<lambda>r. joined_wheel db (\<lambda>w. w_state w \<noteq> state_int READY) (rd_wheel_id r)) (wheel_repodata db))"

definition need_convert_without_blob :: "database \<Rightarrow> (int \<times> fsck_value) list" where
  "need_convert_without_blob db = wheel_rows (\<lambda>w. w_state w = state_int NEED_CONVERT
     \<and> (case w_blob_sha256 w of None \<Rightarrow> True | Some sha \<Rightarrow> \<not> has_blob db sha)) db"

definition need_metadata_with_blob :: "database \<Rightarrow> (int \<times> fsck_value) list" where
  "need_metadata_with_blob db = wheel_rows (\<lambda>w. w_state w = state_int NEED_METADATA \<and> w_blob_sha256 w \<noteq> None) db"

definition no_metadata_with_metadata_sha256 :: "database \<Rightarrow> (int \<times> fsck_value) list" where
  "no_metadata_with_metadata_sha256 db =
     wheel_rows (\<lambda>w. w_state w = state_int NO_METADATA \<and> w_metadata_sha256 w \<noteq> None) db"

definition skipped_without_skips_row :: "database \<Rightarrow> (int \<times> fsck_value) list" where
  "skipped_without_skips_row db = wheel_rows (\<lambda>w. w_state w = state_int SKIPPED
     \<and> \<not> (\<exists>r \<in> set (skips db). sk_wheel_id r = w_id w)) db"

definition quarantined_without_work_row :: "database \<Rightarrow> (int \<times> fsck_value) list" where
  "quarantined_without_work_row db = wheel_rows (\<lambda>w. w_state w = state_int QUARANTINED
     \<and> \<not> (\<exists>r \<in> set (work db). wk_wheel_id r = w_id w \<and> wk_quarantined_at r \<noteq> None)) db"

definition deleted_without_deleted_at :: "database \<Rightarrow> (int \<times> fsck_value) list" where
  "deleted_without_deleted_at db = wheel_rows (\<lambda>w. w_state w = state_int DELETED \<and> w_deleted_at w = None) db"

definition deleted_at_without_deleted_state :: "database \<Rightarrow> (int \<times> fsck_value) list" where
  "deleted_at_without_deleted_state db =
     wheel_rows (\<lambda>w. w_deleted_at w \<noteq> None \<and> w_state w \<noteq> state_int DELETED) db"

definition invalid_state :: "database \<Rightarrow> (int \<times> fsck_value) list" where
  "invalid_state db = wheel_rows (\<lambda>w. w_state w \<notin> set (map state_int all_states)) db"

definition skip_rows :: "(skip_row \<Rightarrow> bool) \<Rightarrow> database \<Rightarrow> (int \<times> fsck_value) list" where
  "skip_rows p db = map (\<lambda>(i, r). (i, Row_id (sk_wheel_id r))) (filter (\<lambda>(i, r). p r) (numbered (skips db)))"

definition permanent_skip_with_reroll_version :: "database \<Rightarrow> (int \<times> fsck_value) list" where
  "permanent_skip_with_reroll_version = skip_rows (\<lambda>r. sk_permanent r \<and> sk_reroll_version r \<noteq> None)"

definition non_permanent_skip_without_reroll_version :: "database \<Rightarrow> (int \<times> fsck_value) list" where
  "non_permanent_skip_without_reroll_version = skip_rows (\<lambda>r. \<not> sk_permanent r \<and> sk_reroll_version r = None)"

definition fsck_stale_skip :: "database \<Rightarrow> (int \<times> fsck_value) list" where
  "fsck_stale_skip db = skip_rows (\<lambda>r. joined_wheel db (\<lambda>w. w_state w \<noteq> state_int SKIPPED) (sk_wheel_id r)) db"

definition work_rows :: "(work_row \<Rightarrow> bool) \<Rightarrow> database \<Rightarrow> (int \<times> fsck_value) list" where
  "work_rows p db = map (\<lambda>(i, r). (i, Row_id (wk_wheel_id r))) (filter (\<lambda>(i, r). p r) (numbered (work db)))"

definition TERMINAL_FOR_WORK :: "wheel_state list" where
  "TERMINAL_FOR_WORK = [READY, SKIPPED, NO_METADATA, DELETED]"

definition work_row_for_terminal_wheel :: "database \<Rightarrow> (int \<times> fsck_value) list" where
  "work_row_for_terminal_wheel db = work_rows
     (\<lambda>r. joined_wheel db (\<lambda>w. w_state w \<in> set (map state_int TERMINAL_FOR_WORK)) (wk_wheel_id r)) db"

definition attempts_exceeds_max :: "int \<Rightarrow> database \<Rightarrow> (int \<times> fsck_value) list" where
  "attempts_exceeds_max max_attempts = work_rows (\<lambda>r. max_attempts < wk_attempts r)"

definition max_attempts_without_quarantine :: "int \<Rightarrow> database \<Rightarrow> (int \<times> fsck_value) list" where
  "max_attempts_without_quarantine max_attempts =
     work_rows (\<lambda>r. wk_attempts r = max_attempts \<and> wk_quarantined_at r = None)"

definition blob_sha256_unresolved :: "database \<Rightarrow> (int \<times> fsck_value) list" where
  "blob_sha256_unresolved db =
     wheel_rows (\<lambda>w. case w_blob_sha256 w of None \<Rightarrow> False | Some sha \<Rightarrow> \<not> has_blob db sha) db"

definition fsck_blob_rows :: "(blob_row \<Rightarrow> bool) \<Rightarrow> database \<Rightarrow> (int \<times> fsck_value) list" where
  "fsck_blob_rows p db = map (\<lambda>(i, b). (i, Sha256 (b_sha256 b))) (filter (\<lambda>(i, b). p b) (numbered (blobs db)))"

definition blob_segment_unresolved :: "database \<Rightarrow> (int \<times> fsck_value) list" where
  "blob_segment_unresolved db = fsck_blob_rows (\<lambda>b. \<not> (\<exists>s \<in> set (segments db). sg_id s = b_segment_id b)) db"

definition orphaned_blob :: "database \<Rightarrow> (int \<times> fsck_value) list" where
  "orphaned_blob db = fsck_blob_rows (\<lambda>b. \<not> (\<exists>w \<in> set (wheels db). w_blob_sha256 w = Some (b_sha256 b))) db"

definition conda_name_outside_ready :: "database \<Rightarrow> (int \<times> fsck_value) list" where
  "conda_name_outside_ready db = wheel_rows (\<lambda>w. w_conda_name w \<noteq> None \<and> w_state w \<noteq> state_int READY) db"

definition tombstoned_with_repodata :: "database \<Rightarrow> (int \<times> fsck_value) list" where
  "tombstoned_with_repodata db = wheel_rows (\<lambda>w. w_state w = state_int DELETED
     \<and> (\<exists>r \<in> set (wheel_repodata db). rd_wheel_id r = w_id w)) db"

definition mk_check :: "string \<Rightarrow> string \<Rightarrow> (database \<Rightarrow> (int \<times> fsck_value) list) \<Rightarrow> row_check" where
  "mk_check invariant description query =
     \<lparr>rc_invariant = invariant, rc_description = description, rc_rows = query, rc_informational = False\<rparr>"

definition ROW_CHECKS :: "row_check list" where
  "ROW_CHECKS =
    [mk_check ''1a_ready_without_repodata'' ''state = READY but no wheel_repodata row'' ready_without_repodata,
     mk_check ''1b_repodata_without_ready'' ''wheel_repodata row exists but state != READY'' repodata_without_ready,
     mk_check ''2_need_convert_without_blob'' ''state = NEED_CONVERT but blob_sha256 is unset or unresolved''
       need_convert_without_blob,
     mk_check ''3_need_metadata_with_blob'' ''state = NEED_METADATA but blob_sha256 is set'' need_metadata_with_blob,
     mk_check ''4_no_metadata_with_metadata_sha256'' ''state = NO_METADATA but metadata_sha256 is set''
       no_metadata_with_metadata_sha256,
     mk_check ''5_skipped_without_skips_row'' ''state = SKIPPED but no skips row exists'' skipped_without_skips_row,
     mk_check ''6_quarantined_without_work_row'' ''state = QUARANTINED but no quarantined work row exists''
       quarantined_without_work_row,
     mk_check ''7a_deleted_without_deleted_at'' ''state = DELETED but deleted_at is unset'' deleted_without_deleted_at,
     mk_check ''7b_deleted_at_without_deleted_state'' ''deleted_at is set but state != DELETED''
       deleted_at_without_deleted_state,
     mk_check ''9a_permanent_skip_with_reroll_version'' ''skips.permanent = 1 but reroll_version is set''
       permanent_skip_with_reroll_version,
     mk_check ''9b_non_permanent_skip_without_reroll_version'' ''skips.permanent = 0 but reroll_version is unset''
       non_permanent_skip_without_reroll_version,
     mk_check ''10_stale_skip'' ''skips row exists for a wheel not in SKIPPED'' fsck_stale_skip,
     mk_check ''11_work_row_for_terminal_wheel'' ''work row exists for a wheel in a terminal state''
       work_row_for_terminal_wheel,
     mk_check ''13_blob_sha256_unresolved'' ''wheels.blob_sha256 does not resolve to a blobs row'' blob_sha256_unresolved,
     mk_check ''14_blob_segment_unresolved'' ''blobs.segment_id does not resolve to a segments row''
       blob_segment_unresolved,
     (mk_check ''16_orphaned_blob'' (''blob is referenced by no wheel (expected; blobs are never GC'' @ [CHR 0x27] @ ''d)'')
       orphaned_blob)\<lparr>rc_informational := True\<rparr>,
     mk_check ''19_conda_name_outside_ready'' ''conda_name is set for a wheel not in READY'' conda_name_outside_ready,
     (mk_check ''20_tombstoned_with_repodata'' ''tombstoned wheel still has a wheel_repodata row''
       tombstoned_with_repodata)\<lparr>rc_informational := True\<rparr>]"

definition check_invalid_state :: row_check where
  "check_invalid_state = mk_check ''8_state_outside_wheelstate'' ''wheels.state has a value outside WheelState'' invalid_state"

definition check_attempts_exceeds_max :: "int \<Rightarrow> row_check" where
  "check_attempts_exceeds_max max_attempts = mk_check ''12a_attempts_exceeds_max''
     (''work.attempts exceeds max_attempts ('' @ py_str_int max_attempts @ '')'') (attempts_exceeds_max max_attempts)"

definition check_max_attempts_without_quarantine :: "int \<Rightarrow> row_check" where
  "check_max_attempts_without_quarantine max_attempts = mk_check ''12b_max_attempts_without_quarantine''
     (''work.attempts = max_attempts ('' @ py_str_int max_attempts @ '') without quarantined_at set'')
     (max_attempts_without_quarantine max_attempts)"

section \<open>Sequence numbers\<close>

text \<open>\<^verbatim>\<open>SELECT DISTINCT change_seq ... ORDER BY change_seq LIMIT ?\<close>, past the cursor when there is one.\<close>

definition change_seq_window :: "int \<Rightarrow> int option \<Rightarrow> database \<Rightarrow> int list" where
  "change_seq_window limit cursor db =
     sql_limit limit (sort (filter (after cursor) (remdups (map w_change_seq (wheels db)))))"

definition group_members :: "database \<Rightarrow> int \<Rightarrow> wheel_row list" where
  "group_members db seq = filter (\<lambda>w. w_change_seq w = seq) (wheels db)"

text \<open>\<^verbatim>\<open>GROUP BY change_seq HAVING COUNT(*) > 1 AND COUNT(DISTINCT updated_at) > 1\<close> over a range of numbers.\<close>

definition duplicate_groups :: "int \<Rightarrow> int \<Rightarrow> database \<Rightarrow> (int \<times> int) list" where
  "duplicate_groups lo hi db =
     map (\<lambda>seq. (seq, int (length (group_members db seq))))
       (filter (\<lambda>seq. 1 < length (group_members db seq) \<and> 1 < card (w_updated_at ` set (group_members db seq)))
          (sort (filter (\<lambda>seq. lo \<le> seq \<and> seq \<le> hi) (remdups (map w_change_seq (wheels db))))))"

text \<open>\<^verbatim>\<open>SELECT id FROM wheels WHERE change_seq = ? LIMIT ?\<close>, read through the index, hence in id order.\<close>

definition member_ids :: "int \<Rightarrow> int \<Rightarrow> database \<Rightarrow> fsck_value list" where
  "member_ids seq limit db = map Row_id (sql_limit limit (sort (map w_id (group_members db seq))))"

fun read_groups :: "real \<Rightarrow> int \<Rightarrow> database \<Rightarrow> (int \<times> int) list \<Rightarrow> int \<times> fsck_value list \<Rightarrow> (int \<times> fsck_value list) fsck" where
  "read_groups budget example_limit db [] acc st = (Inr acc, st)"
| "read_groups budget example_limit db ((seq, group_size) # groups) (count, examples) st =
     (case timed_read budget (member_ids seq (max 0 (example_limit - int (length examples))) db) st of
        (Inl e, st1) \<Rightarrow> (Inl e, st1)
      | (Inr ids, st1) \<Rightarrow> read_groups budget example_limit db groups (count + group_size, examples @ ids) st1)"

definition window_groups :: "int list \<Rightarrow> database \<Rightarrow> (int \<times> int) list" where
  "window_groups window db = (if window = [] then [] else duplicate_groups (hd window) (last window) db)"

function scan_duplicates :: "real \<Rightarrow> int \<Rightarrow> int \<Rightarrow> database \<Rightarrow> int option \<Rightarrow> int \<times> fsck_value list
    \<Rightarrow> (int \<times> fsck_value list) fsck" where
  "scan_duplicates budget chunk_size example_limit db cursor acc st =
     (let fetched = change_seq_window (chunk_size + 1) cursor db;
          window = py_slice 0 chunk_size fetched
      in case timed_read budget (window_groups window db) st of
           (Inl e, st1) \<Rightarrow> (Inl e, st1)
         | (Inr groups, st1) \<Rightarrow>
             if window = [] then (Inr acc, st1)
             else (case read_groups budget example_limit db groups acc st1 of
                     (Inl e, st2) \<Rightarrow> (Inl e, st2)
                   | (Inr acc1, st2) \<Rightarrow>
                       if \<not> chunk_size < int (length fetched) then (Inr acc1, st2)
                       else scan_duplicates budget chunk_size example_limit db (Some (last window)) acc1 st2))"
  by pat_completeness auto
termination
proof (relation "measure (\<lambda>(budget, n, limit, db, c, acc, st). length (filter (after c) (map w_change_seq (wheels db))))", goal_cases)
  case (2 budget n limit db c acc st fetched window)
  let ?s = "last window"
  have "?s \<in> set fetched" using py_slice_subset [of 0 n fetched] last_in_set [OF 2(5)] 2(2) by auto
  then have "?s \<in> set (map w_change_seq (wheels db))" "after c ?s"
    using 2(1) by (auto simp: change_seq_window_def sql_limit_def split: if_splits dest!: in_set_takeD)
  then show ?case using filter_after_shrinks [of ?s "map w_change_seq (wheels db)" c "\<lambda>k. k"] by simp
qed simp

declare scan_duplicates.simps [simp del]

definition check_duplicate_change_seq :: "real \<Rightarrow> int \<Rightarrow> int \<Rightarrow> database \<Rightarrow> violation option fsck" where
  "check_duplicate_change_seq budget chunk_size example_limit db st =
     (case scan_duplicates budget chunk_size example_limit db None (0, []) st of
        (Inl e, st1) \<Rightarrow> (Inl e, st1)
      | (Inr (count, examples), st1) \<Rightarrow>
          (Inr (if count = 0 then None
                else Some \<lparr>vi_invariant = ''17_duplicate_change_seq'',
                       vi_description = ''change_seq is duplicated among wheels rows with differing updated_at'',
                       vi_count = count, vi_example_ids = examples, vi_informational = False\<rparr>), st1))"

definition check_writer_change_seq :: "real \<Rightarrow> int \<Rightarrow> database \<Rightarrow> violation option fsck" where
  "check_writer_change_seq budget writer_change_seq db st =
     (case timed_read budget (max_change_seq db) st of
        (Inl e, st1) \<Rightarrow> (Inl e, st1)
      | (Inr db_max, st1) \<Rightarrow>
          (Inr (if db_max = writer_change_seq then None
                else Some \<lparr>vi_invariant = ''18_writer_change_seq_mismatch'',
                       vi_description = ''MAX(wheels.change_seq) does not match the writer'' @ [CHR 0x27] @ ''s change_seq counter'',
                       vi_count = 1, vi_example_ids = [Seq_mismatch db_max writer_change_seq],
                       vi_informational = False\<rparr>), st1))"

section \<open>Sealed segments\<close>

definition check_one_sealed_segment :: "codec \<Rightarrow> int \<Rightarrow> archive_store \<Rightarrow> verify_problem list res \<times> archive_store" where
  "check_one_sealed_segment cd segment_id s =
     (case footer_records cd (as_fs s) segment_id (as_reader s) of
        (Inl e, rdr1) \<Rightarrow>
          (if is_corrupt e \<or> is_os_error e then Inr [Unreadable segment_id e] else Inl e, s\<lparr>as_reader := rdr1\<rparr>)
      | (Inr footer_entries, rdr1) \<Rightarrow>
          (Inr (compare_positions segment_id (py_dict footer_entries)
                  (py_dict (blob_rows_for_segment segment_id (as_db s)))), s\<lparr>as_reader := rdr1\<rparr>))"

fun sealed_segment_problems :: "codec \<Rightarrow> int list \<Rightarrow> archive_store \<Rightarrow> verify_problem list res \<times> archive_store" where
  "sealed_segment_problems cd [] s = (Inr [], s)"
| "sealed_segment_problems cd (i # ids) s =
     (case check_one_sealed_segment cd i s of
        (Inl e, s1) \<Rightarrow> (Inl e, s1)
      | (Inr ps, s1) \<Rightarrow>
          (case sealed_segment_problems cd ids s1 of (r, s2) \<Rightarrow> (bind_res r (\<lambda>qs. Inr (ps @ qs)), s2)))"

definition check_sealed_segments :: "codec \<Rightarrow> int \<Rightarrow> archive_store \<Rightarrow> violation option res \<times> archive_store" where
  "check_sealed_segments cd example_limit s =
     (case sealed_segment_problems cd (sealed_segment_ids (as_db s)) s of
        (Inl e, s1) \<Rightarrow> (Inl e, s1)
      | (Inr problems, s1) \<Rightarrow>
          (case fold (tally example_limit) (map Segment_problem problems) (0, []) of (count, examples) \<Rightarrow>
             (Inr (if count = 0 then None
                   else Some \<lparr>vi_invariant = ''15_sealed_segment_integrity'',
                          vi_description = ''a sealed segment is missing on disk or its footer/blobs disagree'',
                          vi_count = count, vi_example_ids = examples, vi_informational = False\<rparr>), s1)))"

section \<open>A run\<close>

definition optional_violation :: "violation option \<Rightarrow> violation list" where
  "optional_violation v = (case v of None \<Rightarrow> [] | Some x \<Rightarrow> [x])"

fun run_row_checks :: "real \<Rightarrow> int \<Rightarrow> int \<Rightarrow> database \<Rightarrow> row_check list \<Rightarrow> violation list fsck" where
  "run_row_checks budget chunk_size example_limit db [] st = (Inr [], st)"
| "run_row_checks budget chunk_size example_limit db (c # cs) st =
     (case run_row_check budget chunk_size example_limit db c st of
        (Inl e, st1) \<Rightarrow> (Inl e, st1)
      | (Inr v, st1) \<Rightarrow>
          (case run_row_checks budget chunk_size example_limit db cs st1 of
             (r, st2) \<Rightarrow> (bind_res r (\<lambda>vs. Inr (optional_violation v @ vs)), st2)))"

definition fsck_checks :: "int \<Rightarrow> row_check list" where
  "fsck_checks max_attempts = ROW_CHECKS
     @ [check_invalid_state, check_attempts_exceeds_max max_attempts, check_max_attempts_without_quarantine max_attempts]"

definition fsck_run :: "real \<Rightarrow> int \<Rightarrow> int \<Rightarrow> int \<Rightarrow> int option \<Rightarrow> (codec \<times> archive_store) option \<Rightarrow> database
    \<Rightarrow> violation list fsck" where
  "fsck_run budget chunk_size example_limit max_attempts writer_change_seq archive db st =
     (case run_row_checks budget chunk_size example_limit db (fsck_checks max_attempts) st of
        (Inl e, st1) \<Rightarrow> (Inl e, st1)
      | (Inr rows, st1) \<Rightarrow>
          (case check_duplicate_change_seq budget chunk_size example_limit db st1 of
             (Inl e, st2) \<Rightarrow> (Inl e, st2)
           | (Inr duplicates, st2) \<Rightarrow>
               (case (case writer_change_seq of None \<Rightarrow> (Inr None, st2)
                      | Some seq \<Rightarrow> check_writer_change_seq budget seq db st2) of
                  (Inl e, st3) \<Rightarrow> (Inl e, st3)
                | (Inr mismatch, st3) \<Rightarrow>
                    (case (case archive of None \<Rightarrow> Inr None
                           | Some (cd, s) \<Rightarrow> fst (check_sealed_segments cd example_limit s)) of
                       Inl e \<Rightarrow> (Inl e, st3)
                     | Inr sealed \<Rightarrow>
                         (Inr (rows @ optional_violation duplicates @ optional_violation mismatch
                               @ optional_violation sealed), st3)))))"

section \<open>Reads within the budget\<close>

definition quiet :: "real \<Rightarrow> fsck_reads \<Rightarrow> bool" where
  "quiet budget st \<longleftrightarrow> (\<forall>k. fr_elapsed st k \<le> budget)"

definition has_read :: "real \<Rightarrow> nat \<Rightarrow> fsck_reads \<Rightarrow> fsck_reads \<Rightarrow> bool" where
  "has_read budget n st st' \<longleftrightarrow> quiet budget st' \<and> fr_count st' = fr_count st + n"

lemma has_read_quiet: "has_read budget n st st' \<Longrightarrow> quiet budget st'"
  by (simp add: has_read_def)

lemma has_read_trans: "has_read budget n st st1 \<Longrightarrow> has_read budget m st1 st2 \<Longrightarrow> has_read budget (n + m) st st2"
  by (simp add: has_read_def)

lemma timed_read_quiet:
  assumes "quiet budget st"
  obtains st' where "timed_read budget x st = (Inr x, st')" and "has_read budget 1 st st'"
proof -
  have e: "fr_elapsed st (fr_count st) \<le> budget" using assms by (simp add: quiet_def)
  let ?st' = "st\<lparr>fr_count := fr_count st + 1, fr_watchdog := record_read (fr_elapsed st (fr_count st) * 1000) False (fr_watchdog st)\<rparr>"
  have "timed_read budget x st = (Inr x, ?st')" using e by (simp add: timed_read_def read_txn_exit_def Let_def)
  moreover have "has_read budget 1 st ?st'" using assms by (simp add: has_read_def quiet_def)
  ultimately show ?thesis by (rule that)
qed

lemma py_slice_prefix: "0 \<le> n \<Longrightarrow> py_slice 0 n xs = take (nat n) xs"
  by (auto simp: py_slice_def Let_def min_def)

text \<open>A scan in chunks is the whole query in key order, and a page costs one read.\<close>

definition scan_reads :: "nat \<Rightarrow> nat \<Rightarrow> nat" where
  "scan_reads n len = max 1 ((len + n - 1) div n)"

lemma scan_reads_short:
  assumes "0 < n" and "len \<le> n"
  shows "scan_reads n len = 1"
proof -
  have "len + n - 1 < 2 * n" using assms by linarith
  then have "(len + n - 1) div n < 2" using assms(1) by (simp add: div_less_iff_less_mult)
  then show ?thesis by (simp add: scan_reads_def)
qed

lemma scan_reads_more:
  assumes "0 < n" and "n < len"
  shows "scan_reads n len = 1 + scan_reads n (len - n)"
proof -
  obtain d where d: "len = n + d" "0 < d" using assms(2) less_imp_add_positive by blast
  have "n + d + n - 1 = (d + n - 1) + n" using d(2) by simp
  then have "(len + n - 1) div n = Suc ((d + n - 1) div n)" using assms(1) by (simp only: d div_add_self2)
  moreover have "1 \<le> (d + n - 1) div n" using d(2) assms(1) by (simp add: Suc_le_eq div_greater_zero_iff)
  ultimately show ?thesis by (simp add: scan_reads_def d)
qed

lemma chunked_scan_whole:
  assumes "distinct (map fst rows)" and "0 < n" and "quiet budget st"
  shows "\<exists>st'. chunked_scan budget n rows c st = (Inr (map snd (sort_key fst (filter (\<lambda>r. after c (fst r)) rows))), st')
    \<and> has_read budget (scan_reads (nat n) (length (filter (\<lambda>r. after c (fst r)) rows))) st st'"
  using assms
proof (induction budget n rows c st rule: chunked_scan.induct)
  case (1 budget n rows c st)
  let ?S = "sort_key fst (filter (\<lambda>r. after c (fst r)) rows)"
  let ?F = "scan_page n rows c"
  let ?P = "py_slice 0 n ?F"
  have F: "?F = take (nat (n + 1)) ?S" using 1(3) by (simp add: scan_page_def keyset_page_def sql_limit_def)
  have P: "?P = take (nat n) ?S" using 1(3) by (simp add: F py_slice_prefix min_def)
  have len: "length ?S = length (filter (\<lambda>r. after c (fst r)) rows)" by simp
  obtain st1 where r: "timed_read budget ?F st = (Inr ?F, st1)" and q: "has_read budget 1 st st1"
    using timed_read_quiet [OF 1(4)] .
  note unfold = chunked_scan.simps [of budget n rows c st]
  show ?case
  proof (cases "n < int (length ?F)")
    case False
    then have short: "length ?S \<le> nat n" using 1(3) by (simp add: F min_def split: if_splits)
    then have "length ?S \<le> nat (n + 1)" using 1(3) by simp
    then have "?F = ?S" unfolding F by (rule take_all)
    moreover from this have "timed_read budget ?S st = (Inr ?S, st1)" using r by (simp only:)
    moreover have "?P = ?S" unfolding P using short by (rule take_all)
    ultimately show ?thesis using False q short scan_reads_short [of "nat n" "length ?S"] 1(3)
      by (auto simp: unfold Let_def len)
  next
    case True
    then have more: "nat n < length ?S" using 1(3) by (simp add: F min_def split: if_splits)
    have lenP: "length ?P = nat n" unfolding P using more by simp
    have "?P \<noteq> []" using lenP 1(3) by force
    moreover have "?F \<noteq> []" using True 1(3) by force
    ultimately have ne: "?F \<noteq> []" "?P \<noteq> []" by simp_all
    obtain Q where Q: "?S = ?P @ Q" using P by (metis append_take_drop_id)
    have rest: "sort_key fst (filter (\<lambda>r. after (Some (fst (last ?P))) (fst r)) rows) = Q"
      by (rule keyset_rest [OF 1(2) Q ne(2)])
    then have "length (filter (\<lambda>r. after (Some (fst (last ?P))) (fst r)) rows) = length Q" by (metis length_sort)
    moreover have "length ?S = length ?P + length Q" using Q by (metis length_append)
    ultimately have lenQ: "length (filter (\<lambda>r. after (Some (fst (last ?P))) (fst r)) rows) = length ?S - nat n" using lenP by linarith
    obtain st2 where s2: "chunked_scan budget n rows (Some (fst (last ?P))) st1 = (Inr (map snd Q), st2)"
      and h2: "has_read budget (scan_reads (nat n) (length ?S - nat n)) st1 st2"
      using 1(1) [OF r [symmetric] refl ne(1) refl _ ne(2) 1(2,3) has_read_quiet [OF q]] True rest lenQ by auto
    have "chunked_scan budget n rows c st = (Inr (map snd ?S), st2)"
      using True ne Q s2 by (simp add: unfold r Let_def flip: map_append)
    moreover have "has_read budget (scan_reads (nat n) (length ?S)) st st2"
      using has_read_trans [OF q h2] scan_reads_more [OF _ more] 1(3) by simp
    ultimately show ?thesis by (simp add: len)
  qed
qed

lemma fold_tally: "fold (tally limit) vs (0, []) = (int (length vs), take (nat limit) vs)"
proof (induction vs rule: rev_induct)
  case (snoc v vs)
  have "int (length (take (nat limit) vs)) < limit \<longleftrightarrow> length vs < nat limit" by (cases "length vs \<le> nat limit") auto
  then show ?case using snoc by (auto simp: tally_def)
qed simp

section \<open>What the checks report\<close>

text \<open>The report of a check with the whole query read at once.\<close>

definition reference_violation :: "int \<Rightarrow> database \<Rightarrow> row_check \<Rightarrow> violation option" where
  "reference_violation example_limit db check =
     (let rows = sort_key fst (rc_rows check db)
      in if rows = [] then None
         else Some \<lparr>vi_invariant = rc_invariant check, vi_description = rc_description check,
                vi_count = int (length rows), vi_example_ids = take (nat example_limit) (map snd rows),
                vi_informational = rc_informational check\<rparr>)"

lemma run_row_check_reference:
  assumes "distinct (map fst (rc_rows check db))" and "0 < n" and "quiet budget st"
  shows "\<exists>st'. run_row_check budget n limit db check st = (Inr (reference_violation limit db check), st') \<and> quiet budget st'"
proof -
  obtain st' where "chunked_scan budget n (rc_rows check db) None st = (Inr (map snd (sort_key fst (rc_rows check db))), st')"
    "quiet budget st'"
    using chunked_scan_whole [OF assms, of None] has_read_quiet by (fastforce simp: after_def)
  moreover have "sort_key fst (rc_rows check db) = [] \<longleftrightarrow> rc_rows check db = []" by (metis length_0_conv length_sort)
  ultimately show ?thesis
    by (auto simp: run_row_check_def fold_tally reference_violation_def Let_def take_map)
qed

text \<open>All numbers in order, and the duplicated ones.\<close>

definition all_change_seqs :: "database \<Rightarrow> int list" where
  "all_change_seqs db = sort (remdups (map w_change_seq (wheels db)))"

definition duplicated :: "database \<Rightarrow> int \<Rightarrow> bool" where
  "duplicated db seq \<longleftrightarrow> 1 < length (group_members db seq) \<and> 1 < card (w_updated_at ` set (group_members db seq))"

definition sorted_member_ids :: "database \<Rightarrow> int \<Rightarrow> fsck_value list" where
  "sorted_member_ids db seq = map Row_id (sort (map w_id (group_members db seq)))"

definition groups_of :: "database \<Rightarrow> int list \<Rightarrow> (int \<times> int) list" where
  "groups_of db seqs = map (\<lambda>seq. (seq, int (length (group_members db seq)))) (filter (duplicated db) seqs)"

lemma groups_of_append: "groups_of db (xs @ ys) = groups_of db xs @ groups_of db ys"
  by (simp add: groups_of_def)

lemma take_more: "take k xs @ take (k - length (take k xs)) ys = take k (xs @ ys)"
  by (cases "length xs \<le> k") (simp_all add: min_def)

lemma read_groups_whole:
  assumes "quiet budget st"
  shows "\<exists>st'. read_groups budget limit db groups (count, take (nat limit) xs) st
      = (Inr (count + sum_list (map snd groups), take (nat limit) (xs @ concat (map (sorted_member_ids db \<circ> fst) groups))), st')
    \<and> quiet budget st'"
  using assms
proof (induction groups arbitrary: count xs st)
  case Nil
  then show ?case by simp
next
  case (Cons g groups)
  obtain seq k where g: "g = (seq, k)" by (cases g)
  let ?room = "max 0 (limit - int (length (take (nat limit) xs)))"
  obtain st1 where r: "timed_read budget (member_ids seq ?room db) st = (Inr (member_ids seq ?room db), st1)" and q: "has_read budget 1 st st1"
    using timed_read_quiet [OF Cons.prems] .
  have room: "nat ?room = nat limit - length (take (nat limit) xs)" by (simp add: min_def)
  have "member_ids seq ?room db = take (nat limit - length (take (nat limit) xs)) (sorted_member_ids db seq)"
    unfolding member_ids_def sql_limit_def sorted_member_ids_def using not_less [of ?room 0] by (simp only: max.cobounded1 if_False simp_thms room take_map)
  then have e: "take (nat limit) (xs @ sorted_member_ids db seq) = take (nat limit) xs @ member_ids seq ?room db"
    by (simp only: take_more)
  obtain st2 where ih: "read_groups budget limit db groups (count + k, take (nat limit) xs @ member_ids seq ?room db) st1
      = (Inr (count + k + sum_list (map snd groups),
          take (nat limit) ((xs @ sorted_member_ids db seq) @ concat (map (sorted_member_ids db \<circ> fst) groups))), st2)"
    and "quiet budget st2"
    using Cons.IH [OF has_read_quiet [OF q], of "count + k" "xs @ sorted_member_ids db seq"] unfolding e by blast
  moreover have "read_groups budget limit db (g # groups) (count, take (nat limit) xs) st
      = read_groups budget limit db groups (count + k, take (nat limit) xs @ member_ids seq ?room db) st1"
    by (simp only: g read_groups.simps r prod.case sum.case)
  ultimately show ?case by (simp add: g add.assoc comp_def del: take_append)
qed

lemma change_seq_window_take:
  "0 \<le> n \<Longrightarrow> change_seq_window n c db = take (nat n) (filter (after c) (all_change_seqs db))"
  by (simp add: change_seq_window_def sql_limit_def all_change_seqs_def filter_sort)

lemma duplicate_groups_of: "duplicate_groups lo hi db = groups_of db (filter (\<lambda>s. lo \<le> s \<and> s \<le> hi) (all_change_seqs db))"
  by (simp only: duplicate_groups_def groups_of_def duplicated_def [abs_def] all_change_seqs_def filter_sort)

lemma window_groups_of:
  assumes "filter (after c) (all_change_seqs db) = W @ Q" and "W \<noteq> []"
  shows "window_groups W db = groups_of db W" and "filter (after (Some (last W))) (all_change_seqs db) = Q"
proof -
  let ?A = "all_change_seqs db"
  have d: "sorted (W @ Q)" "distinct (W @ Q)"
    unfolding assms(1) [symmetric] by (simp_all add: all_change_seqs_def filter_sort)
  have "last W \<in> set (filter (after c) ?A)" using assms by simp
  then have "after c (last W)" by simp
  then have "filter (after (Some (last W))) ?A = filter (\<lambda>s. last W < s) (filter (after c) ?A)"
    by (auto simp: after_def split: option.splits intro: filter_cong)
  also have "\<dots> = Q" using sorted_split_after [of "\<lambda>s. s" "W @ Q" W Q] d assms by simp
  finally show "filter (after (Some (last W))) ?A = Q" .
  obtain a W' where W: "W = a # W'" using assms(2) by (cases W) simp_all
  have "a \<in> set (filter (after c) ?A)" using assms(1) W by simp
  then have "after c a" by simp
  then have "filter (\<lambda>s. a \<le> s \<and> s \<le> last W) ?A = filter (\<lambda>s. a \<le> s \<and> s \<le> last W) (filter (after c) ?A)"
    by (auto simp: after_def split: option.splits intro: filter_cong)
  also have "\<dots> = W"
  proof -
    have "\<forall>s \<in> set W. a \<le> s \<and> s \<le> last W"
    proof
      fix s assume s: "s \<in> set W"
      obtain B where B: "W = B @ [last W]" using assms(2) by (metis append_butlast_last_id)
      have "sorted W" using d(1) by (simp add: sorted_append)
      then have "s \<le> last W" using s B by (metis Un_iff append_Nil2 insertE list.set(2) order_refl set_append sorted_append last_in_set list.set_intros(1) singletonD empty_iff)
      then show "a \<le> s \<and> s \<le> last W" using s d(1) W by auto
    qed
    moreover have "\<forall>s \<in> set Q. \<not> s \<le> last W"
    proof
      fix s assume s: "s \<in> set Q"
      have "last W \<in> set W" using assms(2) by simp
      then have "last W \<le> s" "last W \<noteq> s" using d s by (auto simp: sorted_append)
      then show "\<not> s \<le> last W" by simp
    qed
    ultimately show ?thesis unfolding assms(1) by (simp add: filter_id_conv filter_empty_conv)
  qed
  finally have "filter (\<lambda>s. a \<le> s \<and> s \<le> last W) ?A = W" .
  moreover have "window_groups W db = duplicate_groups a (last W) db" by (simp add: window_groups_def W)
  ultimately show "window_groups W db = groups_of db W" by (simp only: duplicate_groups_of)
qed

lemma scan_duplicates_whole:
  assumes "0 < n" and "quiet budget st"
  shows "\<exists>st'. scan_duplicates budget n limit db c (count, take (nat limit) xs) st
      = (Inr (count + sum_list (map snd (groups_of db (filter (after c) (all_change_seqs db)))),
           take (nat limit) (xs @ concat (map (sorted_member_ids db \<circ> fst) (groups_of db (filter (after c) (all_change_seqs db)))))), st')
    \<and> quiet budget st'"
  using assms
proof (induction "length (filter (after c) (all_change_seqs db))" arbitrary: c count xs st rule: less_induct)
  case less
  let ?S = "filter (after c) (all_change_seqs db)"
  let ?F = "change_seq_window (n + 1) c db"
  let ?W = "py_slice 0 n ?F"
  have F: "?F = take (nat (n + 1)) ?S" by (rule change_seq_window_take) (use less(2) in simp)
  have W: "?W = take (nat n) ?S" using less(2) unfolding F by (simp add: py_slice_prefix min_def)
  obtain Q where Q: "?S = ?W @ Q" using W by (metis append_take_drop_id)
  obtain st1 where r: "timed_read budget (window_groups ?W db) st = (Inr (window_groups ?W db), st1)" and q: "has_read budget 1 st st1"
    using timed_read_quiet [OF less(3)] .
  note unfold = scan_duplicates.simps [of budget n limit db c "(count, take (nat limit) xs)" st]
  show ?case
  proof (cases "?W = []")
    case True
    then have "?S = []" using W less(2) by simp
    then show ?thesis using True r has_read_quiet [OF q] by (simp add: unfold Let_def groups_of_def)
  next
    case ne: False
    note groups = window_groups_of [OF Q ne]
    let ?xs = "xs @ concat (map (sorted_member_ids db \<circ> fst) (groups_of db ?W))"
    let ?count = "count + sum_list (map snd (groups_of db ?W))"
    obtain st2 where g: "read_groups budget limit db (window_groups ?W db) (count, take (nat limit) xs) st1 = (Inr (?count, take (nat limit) ?xs), st2)"
      and q2: "quiet budget st2"
      using read_groups_whole [OF has_read_quiet [OF q], of limit db "window_groups ?W db" count xs] unfolding groups(1) by blast
    show ?thesis
    proof (cases "n < int (length ?F)")
      case True
      have "length (filter (after (Some (last ?W))) (all_change_seqs db)) < length ?S"
        unfolding groups(2) using Q ne by (metis add_less_same_cancel2 length_append length_greater_0_conv not_add_less2 not_less_iff_gr_or_eq less_add_same_cancel2)
      from less(1) [OF this less(2) q2, of ?count ?xs, unfolded groups(2)] obtain st3 where
        "scan_duplicates budget n limit db (Some (last ?W)) (?count, take (nat limit) ?xs) st2
          = (Inr (?count + sum_list (map snd (groups_of db Q)), take (nat limit) (?xs @ concat (map (sorted_member_ids db \<circ> fst) (groups_of db Q)))), st3)"
        "quiet budget st3" by blast
      moreover have "groups_of db ?S = groups_of db ?W @ groups_of db Q" by (subst Q) (rule groups_of_append)
      ultimately show ?thesis using True ne r g by (simp add: unfold Let_def add.assoc)
    next
      case False
      then have "?W = ?S" using F W by (simp add: min_def split: if_splits)
      then show ?thesis using False ne r g q2 by (simp add: unfold Let_def)
    qed
  qed
qed

definition reference_duplicates :: "int \<Rightarrow> database \<Rightarrow> violation option" where
  "reference_duplicates example_limit db =
     (let groups = groups_of db (all_change_seqs db)
      in if sum_list (map snd groups) = 0 then None
         else Some \<lparr>vi_invariant = ''17_duplicate_change_seq'',
                vi_description = ''change_seq is duplicated among wheels rows with differing updated_at'',
                vi_count = sum_list (map snd groups),
                vi_example_ids = take (nat example_limit) (concat (map (sorted_member_ids db \<circ> fst) groups)),
                vi_informational = False\<rparr>)"

lemma check_duplicates_reference:
  assumes "0 < n" and "quiet budget st"
  shows "\<exists>st'. check_duplicate_change_seq budget n limit db st = (Inr (reference_duplicates limit db), st') \<and> quiet budget st'"
proof -
  have a: "filter (after None) (all_change_seqs db) = all_change_seqs db" by (simp add: after_def)
  from scan_duplicates_whole [OF assms, of limit db None 0 "[]"] show ?thesis unfolding a take_Nil
    by (auto simp: check_duplicate_change_seq_def reference_duplicates_def Let_def)
qed

definition reference_writer_seq :: "int option \<Rightarrow> database \<Rightarrow> violation option" where
  "reference_writer_seq writer_change_seq db =
     (case writer_change_seq of None \<Rightarrow> None
      | Some seq \<Rightarrow>
          if max_change_seq db = seq then None
          else Some \<lparr>vi_invariant = ''18_writer_change_seq_mismatch'',
                 vi_description = ''MAX(wheels.change_seq) does not match the writer'' @ [CHR 0x27] @ ''s change_seq counter'',
                 vi_count = 1, vi_example_ids = [Seq_mismatch (max_change_seq db) seq], vi_informational = False\<rparr>)"

text \<open>The whole report, every query read at once.\<close>

definition fsck_reference :: "int \<Rightarrow> int \<Rightarrow> int option \<Rightarrow> database \<Rightarrow> violation list" where
  "fsck_reference example_limit max_attempts writer_change_seq db =
     List.map_filter (reference_violation example_limit db) (fsck_checks max_attempts)
     @ optional_violation (reference_duplicates example_limit db)
     @ optional_violation (reference_writer_seq writer_change_seq db)"

definition sealed_violation :: "int \<Rightarrow> (codec \<times> archive_store) option \<Rightarrow> violation option res" where
  "sealed_violation example_limit archive =
     (case archive of None \<Rightarrow> Inr None | Some (cd, s) \<Rightarrow> fst (check_sealed_segments cd example_limit s))"

text \<open>The keys SQLite enforces, without which \<^verbatim>\<open>rowid\<close>s would not be unique.\<close>

definition primary_keys :: "database \<Rightarrow> bool" where
  "primary_keys db \<longleftrightarrow> distinct (map w_id (wheels db)) \<and> distinct (map rd_wheel_id (wheel_repodata db))"

lemma wheel_rows_keys: "primary_keys db \<Longrightarrow> distinct (map fst (wheel_rows p db))"
  by (simp add: primary_keys_def wheel_rows_def comp_def distinct_map_filter)

lemma numbered_keys: "distinct (map fst (map (\<lambda>(i, r). (i, f r)) (filter p (numbered rs))))"
proof -
  have "distinct (map fst (numbered rs))" by (simp add: numbered_def distinct_map inj_on_def)
  then have "distinct (map fst (filter p (numbered rs)))" by (rule distinct_map_filter)
  then show ?thesis by (simp add: comp_def split_beta)
qed

lemmas query_defs = ready_without_repodata_def need_convert_without_blob_def need_metadata_with_blob_def
  no_metadata_with_metadata_sha256_def skipped_without_skips_row_def quarantined_without_work_row_def
  deleted_without_deleted_at_def deleted_at_without_deleted_state_def invalid_state_def skip_rows_def
  permanent_skip_with_reroll_version_def non_permanent_skip_without_reroll_version_def fsck_stale_skip_def work_rows_def
  work_row_for_terminal_wheel_def attempts_exceeds_max_def max_attempts_without_quarantine_def blob_sha256_unresolved_def
  fsck_blob_rows_def blob_segment_unresolved_def orphaned_blob_def conda_name_outside_ready_def tombstoned_with_repodata_def

lemma check_queries:
  "map rc_rows (fsck_checks m) = [ready_without_repodata, repodata_without_ready, need_convert_without_blob, need_metadata_with_blob,
     no_metadata_with_metadata_sha256, skipped_without_skips_row, quarantined_without_work_row, deleted_without_deleted_at,
     deleted_at_without_deleted_state, permanent_skip_with_reroll_version, non_permanent_skip_without_reroll_version,
     fsck_stale_skip, work_row_for_terminal_wheel, blob_sha256_unresolved, blob_segment_unresolved, orphaned_blob,
     conda_name_outside_ready, tombstoned_with_repodata, invalid_state, attempts_exceeds_max m, max_attempts_without_quarantine m]"
  by (simp add: fsck_checks_def ROW_CHECKS_def check_invalid_state_def check_attempts_exceeds_max_def
      check_max_attempts_without_quarantine_def mk_check_def)

lemma check_keys:
  assumes "primary_keys db" and "c \<in> set (fsck_checks max_attempts)"
  shows "distinct (map fst (rc_rows c db))"
proof -
  have "distinct (map fst (repodata_without_ready db))"
    using assms(1) by (simp add: primary_keys_def repodata_without_ready_def comp_def distinct_map_filter)
  then have "\<forall>q \<in> set (map rc_rows (fsck_checks max_attempts)). distinct (map fst (q db))"
    unfolding check_queries by (simp add: query_defs wheel_rows_keys [OF assms(1)] numbered_keys del: map_map)
  then show ?thesis using assms(2) by simp
qed

lemma run_row_checks_reference:
  assumes "\<forall>c \<in> set cs. distinct (map fst (rc_rows c db))" and "0 < n" and "quiet budget st"
  shows "\<exists>st'. run_row_checks budget n limit db cs st = (Inr (List.map_filter (reference_violation limit db) cs), st') \<and> quiet budget st'"
  using assms(1,3)
proof (induction cs arbitrary: st)
  case (Cons c cs)
  obtain st1 where one: "run_row_check budget n limit db c st = (Inr (reference_violation limit db c), st1)" "quiet budget st1"
    using run_row_check_reference [OF _ assms(2) Cons.prems(2)] Cons.prems(1) by (metis list.set_intros(1))
  obtain st2 where "run_row_checks budget n limit db cs st1 = (Inr (List.map_filter (reference_violation limit db) cs), st2)" "quiet budget st2"
    using Cons.IH [OF _ one(2)] Cons.prems(1) by auto
  moreover have "List.map_filter (reference_violation limit db) (c # cs)
      = optional_violation (reference_violation limit db c) @ List.map_filter (reference_violation limit db) cs"
    by (cases "reference_violation limit db c") (simp_all only: optional_violation_def List.map_filter_simps option.case append_Nil append_Cons)
  ultimately show ?case by (simp only: run_row_checks.simps one(1) prod.case sum.case bind_res_simps) blast
qed (simp add: List.map_filter_simps)

lemma check_writer_seq_reference:
  assumes "quiet budget st"
  shows "\<exists>st'. check_writer_change_seq budget seq db st = (Inr (reference_writer_seq (Some seq) db), st')"
proof -
  obtain st' where t: "timed_read budget (max_change_seq db) st = (Inr (max_change_seq db), st')" and "has_read budget 1 st st'"
    using timed_read_quiet [OF assms] .
  then show ?thesis unfolding check_writer_change_seq_def reference_writer_seq_def t by simp
qed

lemma fsck_run_reference:
  assumes "primary_keys db" and "0 < n" and "quiet budget st"
  shows "fst (fsck_run budget n limit m wseq archive db st)
    = bind_res (sealed_violation limit archive) (\<lambda>sealed. Inr (fsck_reference limit m wseq db @ optional_violation sealed))"
proof -
  have keys: "\<forall>c \<in> set (fsck_checks m). distinct (map fst (rc_rows c db))" using check_keys [OF assms(1)] by blast
  obtain st1 where rows: "run_row_checks budget n limit db (fsck_checks m) st
      = (Inr (List.map_filter (reference_violation limit db) (fsck_checks m)), st1)" "quiet budget st1"
    using run_row_checks_reference [OF keys assms(2,3)] by blast
  obtain st2 where dups: "check_duplicate_change_seq budget n limit db st1 = (Inr (reference_duplicates limit db), st2)" "quiet budget st2"
    using check_duplicates_reference [OF assms(2) rows(2)] by blast
  obtain st3 where seq: "(case wseq of None \<Rightarrow> (Inr None, st2) | Some seq \<Rightarrow> check_writer_change_seq budget seq db st2)
      = (Inr (reference_writer_seq wseq db), st3)"
  proof (cases wseq)
    case None
    then show ?thesis using that [of st2] by (simp only: reference_writer_seq_def option.case)
  next
    case (Some x)
    then show ?thesis using that check_writer_seq_reference [OF dups(2), of x db] by (simp only: option.case) blast
  qed
  show ?thesis
    unfolding fsck_run_def rows(1) prod.case sum.case dups(1) seq sealed_violation_def [symmetric] fsck_reference_def
    by (cases "sealed_violation limit archive") (simp_all only: sum.case bind_res_simps fst_conv append_assoc)
qed

lemma map_filter_set: "set (List.map_filter f xs) = {y. \<exists>x \<in> set xs. f x = Some y}"
  by (induction xs) (auto simp: List.map_filter_simps split: option.splits)

lemma reference_violation_Some:
  "rc_rows c db \<noteq> [] \<longleftrightarrow> (\<exists>v. reference_violation limit db c = Some v)"
  "reference_violation limit db c = Some v \<Longrightarrow> vi_invariant v = rc_invariant c \<and> vi_informational v = rc_informational c \<and> rc_rows c db \<noteq> []"
  by (auto simp: reference_violation_def Let_def split: if_splits) (metis length_0_conv length_sort)+

text \<open>A query with rows puts its violation on the report.\<close>

lemma reference_reports:
  assumes "c \<in> set (fsck_checks m)" and "rc_rows c db \<noteq> []"
  shows "rc_invariant c \<in> vi_invariant ` set (fsck_reference limit m wseq db)"
    and "\<not> rc_informational c \<Longrightarrow> \<not> report_ok (fsck_reference limit m wseq db)"
proof -
  obtain v where v: "reference_violation limit db c = Some v" using reference_violation_Some(1) assms(2) by blast
  then have "v \<in> set (fsck_reference limit m wseq db)" using assms(1) by (auto simp: fsck_reference_def map_filter_set)
  then show "rc_invariant c \<in> vi_invariant ` set (fsck_reference limit m wseq db)"
    "\<not> rc_informational c \<Longrightarrow> \<not> report_ok (fsck_reference limit m wseq db)"
    using reference_violation_Some(2) [OF v] by (force simp: report_ok_def)+
qed

lemma reported_by:
  assumes "v \<in> set (fsck_reference limit m wseq db)"
  shows "(\<exists>c \<in> set (fsck_checks m). vi_invariant v = rc_invariant c \<and> rc_rows c db \<noteq> [])
    \<or> vi_invariant v = ''17_duplicate_change_seq'' \<and> groups_of db (all_change_seqs db) \<noteq> []
    \<or> vi_invariant v = ''18_writer_change_seq_mismatch''"
proof -
  consider c where "c \<in> set (fsck_checks m)" "reference_violation limit db c = Some v"
    | "reference_duplicates limit db = Some v" | "reference_writer_seq wseq db = Some v"
    using assms by (auto simp: fsck_reference_def map_filter_set optional_violation_def split: option.splits)
  then show ?thesis
  proof cases
    case 1
    then show ?thesis using reference_violation_Some(2) by blast
  next
    case 2
    then show ?thesis by (auto simp: reference_duplicates_def Let_def split: if_splits)
  next
    case 3
    then show ?thesis by (auto simp: reference_writer_seq_def split: option.splits if_splits)
  qed
qed

lemma fsck_run_rows:
  assumes "primary_keys db" and "0 < n" and "quiet budget st"
  shows "fst (fsck_run budget n limit m wseq None db st) = Inr (fsck_reference limit m wseq db)"
  using fsck_run_reference [OF assms, of limit m wseq None] by (simp add: sealed_violation_def optional_violation_def)

text \<open>The three invariants the schema of a reachable database gives.\<close>

lemma db_wf_queries:
  assumes "db_wf db seq"
  shows "invalid_state db = []" and "blob_segment_unresolved db = []" and "groups_of db (all_change_seqs db) = []" and "primary_keys db"
proof -
  have ws: "wheels_wf (wheels db) seq" and ks: "keys_wf db" and rs: "refs_wf db" using assms by (simp_all add: db_wf_def)
  have "range state_int \<subseteq> set (map state_int all_states)"
  proof
    fix n assume "n \<in> range state_int"
    then obtain s where "n = state_int s" by blast
    then show "n \<in> set (map state_int all_states)" by (cases s) (simp_all add: all_states_def)
  qed
  then show "invalid_state db = []" using ws by (auto simp: invalid_state_def wheel_rows_def wheels_wf_def filter_empty_conv)
  have "\<exists>s \<in> set (segments db). sg_id s = b_segment_id b" if "b \<in> set (blobs db)" for b
    using rs that unfolding refs_wf_def by (metis image_eqI image_iff subsetD)
  then show "blob_segment_unresolved db = []"
    by (auto simp: blob_segment_unresolved_def fsck_blob_rows_def numbered_def filter_empty_conv dest!: set_zip_rightD)
  have "length (group_members db k) \<le> 1" for k
  proof -
    have "distinct (map w_change_seq (group_members db k))" using ws by (simp add: wheels_wf_def group_members_def distinct_map_filter)
    moreover have "set (map w_change_seq (group_members db k)) \<subseteq> {k}" by (auto simp: group_members_def)
    ultimately show ?thesis by (metis card_mono distinct_card finite.emptyI finite.insertI is_singletonI is_singleton_altdef length_map)
  qed
  then show "groups_of db (all_change_seqs db) = []" by (simp add: groups_of_def duplicated_def filter_empty_conv not_less)
  show "primary_keys db" using ws ks by (simp add: primary_keys_def wheels_wf_def keys_wf_def)
qed

lemma check_names:
  assumes "c \<in> set (fsck_checks m)"
  shows "rc_invariant c = ''8_state_outside_wheelstate'' \<Longrightarrow> rc_rows c = invalid_state"
    and "rc_invariant c = ''14_blob_segment_unresolved'' \<Longrightarrow> rc_rows c = blob_segment_unresolved"
    and "rc_invariant c \<noteq> ''17_duplicate_change_seq''"
proof -
  have "list_all (\<lambda>c. (rc_invariant c = ''8_state_outside_wheelstate'' \<longrightarrow> rc_rows c = invalid_state)
      \<and> (rc_invariant c = ''14_blob_segment_unresolved'' \<longrightarrow> rc_rows c = blob_segment_unresolved)
      \<and> rc_invariant c \<noteq> ''17_duplicate_change_seq'') (fsck_checks m)"
    by (simp add: fsck_checks_def ROW_CHECKS_def check_invalid_state_def check_attempts_exceeds_max_def
      check_max_attempts_without_quarantine_def mk_check_def)
  then show "rc_invariant c = ''8_state_outside_wheelstate'' \<Longrightarrow> rc_rows c = invalid_state"
    "rc_invariant c = ''14_blob_segment_unresolved'' \<Longrightarrow> rc_rows c = blob_segment_unresolved"
    "rc_invariant c \<noteq> ''17_duplicate_change_seq''"
    using assms by (simp_all only: list_all_iff) blast+
qed

lemma schema_checks_silent:
  assumes "db_wf db seq" and "v \<in> set (fsck_reference limit m wseq db)"
  shows "vi_invariant v \<noteq> ''8_state_outside_wheelstate'' \<and> vi_invariant v \<noteq> ''14_blob_segment_unresolved''
    \<and> vi_invariant v \<noteq> ''17_duplicate_change_seq''"
proof -
  note wf = db_wf_queries [OF assms(1)]
  consider c where "c \<in> set (fsck_checks m)" "vi_invariant v = rc_invariant c" "rc_rows c db \<noteq> []"
    | "groups_of db (all_change_seqs db) \<noteq> []" | "vi_invariant v = ''18_writer_change_seq_mismatch''"
    using reported_by [OF assms(2)] by blast
  then show ?thesis
  proof cases
    case (1 c)
    then show ?thesis using check_names [OF 1(1)] wf(1,2) by force
  qed (use wf(3) in simp_all)
qed

section \<open>Properties of a run\<close>

text \<open>
  C22. A run of \<^verbatim>\<open>fsck\<close> over an unchanging database reports exactly what each query selects when it is read
  at once, whatever the chunk size: no page skips or repeats a row, the windows of the duplicate check never split a
  group, and counts and examples are those of the whole result.
\<close>

theorem fsck_is_chunk_independent:
  assumes "distinct (map w_id (wheels db))" and "distinct (map rd_wheel_id (wheel_repodata db))" and "0 < chunk_size"
    and "\<forall>k. fr_elapsed st k \<le> budget"
  shows "fst (fsck_run budget chunk_size limit max_attempts wseq archive db st)
    = bind_res (sealed_violation limit archive)
        (\<lambda>sealed. Inr (fsck_reference limit max_attempts wseq db @ optional_violation sealed))"
  by (rule fsck_run_reference) (use assms in \<open>simp_all add: primary_keys_def quiet_def\<close>)

text \<open>
  C23. Whatever the program has done to its database, \<^verbatim>\<open>fsck\<close> finishes on it without an exception and never
  finds a state code outside \<^verbatim>\<open>WheelState\<close>, a blob in a missing segment or a duplicated change number.
\<close>

theorem fsck_on_reachable_database:
  assumes "database_life dump dumpr db seq" and "0 < chunk_size" and "\<forall>k. fr_elapsed st k \<le> budget"
  shows "\<exists>report. fst (fsck_run budget chunk_size limit max_attempts wseq None db st) = Inr report
    \<and> vi_invariant ` set report \<inter> {''8_state_outside_wheelstate'', ''14_blob_segment_unresolved'', ''17_duplicate_change_seq''} = {}"
proof (intro exI conjI)
  note wf = database_life_wf [OF assms(1)]
  show "fst (fsck_run budget chunk_size limit max_attempts wseq None db st) = Inr (fsck_reference limit max_attempts wseq db)"
    by (rule fsck_run_rows) (use db_wf_queries(4) [OF wf] assms in \<open>simp_all add: quiet_def\<close>)
  show "vi_invariant ` set (fsck_reference limit max_attempts wseq db)
      \<inter> {''8_state_outside_wheelstate'', ''14_blob_segment_unresolved'', ''17_duplicate_change_seq''} = {}"
    using schema_checks_silent [OF wf] by blast
qed

lemma fsck_after_program:
  assumes "db_wf db seq" and "0 < n" and "\<forall>k. fr_elapsed st k \<le> budget" and "c \<in> set (fsck_checks m)" and "rc_rows c db \<noteq> []"
  shows "fst (fsck_run budget n limit m wseq None db st) = Inr (fsck_reference limit m wseq db)"
    and "rc_invariant c \<in> vi_invariant ` set (fsck_reference limit m wseq db)"
    and "\<not> rc_informational c \<Longrightarrow> \<not> report_ok (fsck_reference limit m wseq db)"
  using fsck_run_rows [OF db_wf_queries(4) [OF assms(1)] assms(2), where st = st and budget = budget and limit = limit and m = m and wseq = wseq] reference_reports [OF assms(4,5)] assms(3)
  by (simp_all add: quiet_def)

lemma check_members:
  "check_attempts_exceeds_max m \<in> set (fsck_checks m)" "check_max_attempts_without_quarantine m \<in> set (fsck_checks m)"
  "mk_check ''1b_repodata_without_ready'' ''wheel_repodata row exists but state != READY'' repodata_without_ready \<in> set (fsck_checks m)"
  "(mk_check ''20_tombstoned_with_repodata'' ''tombstoned wheel still has a wheel_repodata row''
       tombstoned_with_repodata)\<lparr>rc_informational := True\<rparr> \<in> set (fsck_checks m)"
  by (simp_all only: fsck_checks_def ROW_CHECKS_def set_append list.set Un_iff insert_iff simp_thms)

lemma map_nonempty: "x \<in> set xs \<Longrightarrow> map f xs \<noteq> []"
  by auto

lemma numbered_rows: "r \<in> set rs \<Longrightarrow> \<exists>i. (i, r) \<in> set (numbered rs)"
  by (metis in_set_impl_in_set_zip2 length_map length_upt minus_nat.diff_0 numbered_def)

lemma work_rows_nonempty: "r \<in> set (work db) \<Longrightarrow> p r \<Longrightarrow> work_rows p db \<noteq> []"
  using numbered_rows [of r "work db"] by (fastforce simp: work_rows_def filter_empty_conv)

text \<open>
  A failed attempt at or past the limit makes \<^verbatim>\<open>fsck\<close> fail on a database nothing is wrong with: the
  dispatcher retries \<^verbatim>\<open>max_attempts\<close> times before it quarantines, so it leaves a row with
  \<^verbatim>\<open>attempts = max_attempts\<close> and no \<^verbatim>\<open>quarantined_at\<close>, and then one with \<^verbatim>\<open>attempts > max_attempts\<close>, the
  two violations of invariant 12.
\<close>

theorem fsck_flags_retries:
  assumes "database_life dump dumpr db seq" and "qi_id item \<in> wheel_ids db" and "qi_state item = queue_state stg"
    and "max_attempts \<le> attempts_of (qi_id item) stg db + 1"
    and "case work_of (qi_id item) stg db of None \<Rightarrow> True | Some r \<Rightarrow> wk_quarantined_at r = None"
    and "0 < chunk_size" and "\<forall>k. fr_elapsed st k \<le> budget"
  shows "\<exists>v db' seq' report. exec_op (retry_op now jitter max_attempts ver stg item reason details) (db, seq) = (Inr v, (db', seq'))
    \<and> fst (fsck_run budget chunk_size limit max_attempts wseq None db' st) = Inr report \<and> \<not> report_ok report"
proof -
  let ?op = "retry_op now jitter max_attempts ver stg item reason details"
  let ?n = "attempts_of (qi_id item) stg db + 1"
  note wf = database_life_wf [OF assms(1)]
  obtain v db' seq' r where op: "?op (db, seq) = (Inr v, (db', seq'))" and r: "work_of (qi_id item) stg db' = Some r"
    "wk_attempts r = ?n" "?n \<le> max_attempts \<longrightarrow> wk_quarantined_at r = None"
  proof (cases "?n \<le> max_attempts")
    case True
    show ?thesis using retry_op_again [OF assms(2) True, of now jitter ver reason details seq] assms(5) that
      by (auto split: option.splits)
  next
    case False
    then show ?thesis using retry_op_quarantines [OF assms(2) _ assms(3), of max_attempts now jitter ver reason details seq] that by auto
  qed
  have wf': "db_wf db' seq'" using op_okD(2) [OF op_ok_retry wf op] by simp
  have mem: "r \<in> set (work db')" using r(1) sql_get_Some by (fastforce simp: work_of_def)
  have "\<exists>c \<in> set (fsck_checks max_attempts). rc_rows c db' \<noteq> [] \<and> \<not> rc_informational c"
  proof (cases "?n \<le> max_attempts")
    case True
    then have "rc_rows (check_max_attempts_without_quarantine max_attempts) db' \<noteq> []"
      using work_rows_nonempty [OF mem] r(2,3) assms(4) by (simp add: check_max_attempts_without_quarantine_def mk_check_def max_attempts_without_quarantine_def)
    then show ?thesis using check_members(2) by (fastforce simp: check_max_attempts_without_quarantine_def mk_check_def)
  next
    case False
    then have "rc_rows (check_attempts_exceeds_max max_attempts) db' \<noteq> []"
      using work_rows_nonempty [OF mem] r(2) by (simp add: check_attempts_exceeds_max_def mk_check_def attempts_exceeds_max_def)
    then show ?thesis using check_members(1) by (fastforce simp: check_attempts_exceeds_max_def mk_check_def)
  qed
  then show ?thesis using fsck_after_program [OF wf' assms(6,7)] op by (fastforce simp: exec_op_def)
qed

text \<open>
  A project that disappears from the index makes \<^verbatim>\<open>fsck\<close> fail for every wheel it had converted: the
  tombstone keeps the \<^verbatim>\<open>wheel_repodata\<close> row, which invariant 20 reports as merely informational, but
  invariant 1b reports the same row as an error.
\<close>

theorem fsck_flags_gone_projects:
  assumes "database_life dump dumpr db seq" and "w \<in> set (wheels db)" and "live_in name w"
    and "rd \<in> set (wheel_repodata db)" and "rd_wheel_id rd = w_id w" and "0 < chunk_size" and "\<forall>k. fr_elapsed st k \<le> budget"
  shows "\<exists>v db' seq' report. exec_step (gone_write_op name t) (db, seq) = (Inr v, (db', seq'))
    \<and> fst (fsck_run budget chunk_size limit max_attempts wseq None db' st) = Inr report
    \<and> ''20_tombstoned_with_repodata'' \<in> vi_invariant ` set report \<and> \<not> report_ok report"
proof -
  note wf = database_life_wf [OF assms(1)]
  have ids: "distinct (map w_id (wheels db))" using wf by (simp add: db_wf_def wheels_wf_def)
  obtain v ws seq' where op: "exec_step (gone_write_op name t) (db, seq)
      = (Inr v, (db\<lparr>wheels := ws, pypi_index := filter (\<lambda>r. pi_name r \<noteq> name) (pypi_index db)\<rparr>, seq'))"
    and rows: "list_all2 (\<lambda>w w'. if live_in name w then \<exists>q u. seq < q \<and> q \<le> seq + int (length (filter (live_in name) (wheels db)))
            \<and> w' = w\<lparr>w_deleted_at := Some t, w_state := state_int DELETED, w_change_seq := q, w_updated_at := u\<rparr> else w' = w) (wheels db) ws"
    using gone_write_op_effect [OF ids, of name t seq] by (elim exE conjE) (rule that)
  let ?db = "db\<lparr>wheels := ws, pypi_index := filter (\<lambda>r. pi_name r \<noteq> name) (pypi_index db)\<rparr>"
  obtain k where k: "k < length (wheels db)" "wheels db ! k = w" using assms(2) by (metis in_set_conv_nth)
  have gone: "ws ! k \<in> set ws" "w_id (ws ! k) = w_id w" "w_state (ws ! k) = state_int DELETED"
    using list_all2_nthD [OF rows k(1)] list_all2_lengthD [OF rows] k assms(3) by auto
  have wf': "db_wf ?db seq'"
  proof -
    have "gone_write_op name t (db, seq) = (Inr v, (?db, seq'))" using op by (auto simp: exec_step_def split: prod.splits sum.splits)
    from op_okD(2) [OF op_ok_gone_write wf this] show ?thesis by simp
  qed
  have "w_state (ws ! k) \<noteq> state_int READY" using gone(3) by simp
  then have "rd \<in> set (filter (\<lambda>r. joined_wheel ?db (\<lambda>w. w_state w \<noteq> state_int READY) (rd_wheel_id r)) (wheel_repodata ?db))"
    using gone(1,2) assms(4,5) by (auto simp: joined_wheel_def)
  then have b: "repodata_without_ready ?db \<noteq> []" unfolding repodata_without_ready_def by (rule map_nonempty)
  have "ws ! k \<in> set (filter (\<lambda>w. w_state w = state_int DELETED \<and> (\<exists>r \<in> set (wheel_repodata ?db). rd_wheel_id r = w_id w)) (wheels ?db))"
    using gone assms(4,5) by auto
  then have t: "tombstoned_with_repodata ?db \<noteq> []" unfolding tombstoned_with_repodata_def wheel_rows_def by (rule map_nonempty)
  let ?report = "fsck_reference limit max_attempts wseq ?db"
  have "fst (fsck_run budget chunk_size limit max_attempts wseq None ?db st) = Inr ?report" and "\<not> report_ok ?report"
    using fsck_after_program(1,3) [OF wf' assms(6,7) check_members(3)] b by (simp_all add: mk_check_def)
  moreover have "''20_tombstoned_with_repodata'' \<in> vi_invariant ` set ?report"
    using fsck_after_program(2) [OF wf' assms(6,7) check_members(4), where limit = limit and wseq = wseq] t by (simp add: mk_check_def)
  ultimately show ?thesis using op by (intro exI conjI)
qed

section \<open>Concrete runs\<close>

definition demo_reads :: fsck_reads where
  "demo_reads = \<lparr>fr_elapsed = (\<lambda>_. 0), fr_count = 0, fr_watchdog = \<lparr>over_budget_count = 0, longest_ms = 0\<rparr>\<rparr>"

text \<open>A wheel synchronised, and one synchronised and converted.\<close>

definition demo_ready_sync :: "(database, op_value) write_op" where
  "demo_ready_sync = \<lparr>op_id = 0, op_name = ''sync'', op_apply = map_value (\<lambda>r. VCount (ar_inserted r))
     (project_write_op (demo_plan\<lparr>pl_new_wheels := [demo_new_wheel\<lparr>nw_state := NEED_CONVERT\<rparr>]\<rparr>) 0 ''1'')\<rparr>"

definition demo_convert_item :: queue_item where
  "demo_convert_item = \<lparr>qi_id = 1, qi_project = ''a'', qi_lane = 0, qi_state = NEED_CONVERT\<rparr>"

definition demo_convert_body :: op_body where
  "demo_convert_body = (case ok_op 0 CONVERT demo_convert_item READY
       (convert_ok_writer (\<lambda>_ :: unit wheel_record list. []) (\<lambda>_. []) [] [] ''a'' False ''1'') of
     Inr body \<Rightarrow> body | Inl e \<Rightarrow> (\<lambda>st. (Inl e, st)))"

definition demo_convert_op :: "(database, op_value) write_op" where
  "demo_convert_op = \<lparr>op_id = 1, op_name = ''convert.ok'', op_apply = demo_convert_body\<rparr>"

abbreviation demo_life :: "database \<Rightarrow> int \<Rightarrow> bool" where
  "demo_life \<equiv> database_life (\<lambda>_ :: unit wheel_record list. []) (\<lambda>_. [])"

lemma demo_convert_body_program: "program_body (\<lambda>_ :: unit wheel_record list. []) (\<lambda>_. []) demo_convert_body"
proof (rule program_body.Converted [where ver = "''1''" and out = "ConvertOk [] [] ''a'' False" and item = demo_convert_item and stg = CONVERT])
  show "build_write_op \<lparr>or_now = 0, or_jitter = 0, or_penalize = 0, or_done = 0\<rparr> (new_dispatcher ''1'' 8 0 None) CONVERT demo_convert_item
      (adapt_convert_outcome (\<lambda>_ :: unit wheel_record list. []) (\<lambda>_. []) ''1'' (ConvertOk [] [] ''a'' False)) = Inr demo_convert_body"
    by (simp add: build_write_op_def adapt_convert_outcome_def demo_convert_body_def ok_op_def validate_transition_def
        demo_convert_item_def iso_def py_round_def)
qed

definition demo_batch :: "(database, op_value) write_op list \<Rightarrow> database \<times> int" where
  "demo_batch ops = fst (snd (commit_batch None None ops ((empty_db, 0), 0)))"

lemma demo_batch_life:
  assumes "\<forall>opn \<in> set ops. program_body (\<lambda>_ :: unit wheel_record list. []) (\<lambda>_. []) (op_apply opn)"
  shows "demo_life (fst (demo_batch ops)) (snd (demo_batch ops))"
proof -
  obtain r db seq n where "commit_batch None None ops ((empty_db, 0), 0) = (r, ((db, seq), n))" by (metis prod.exhaust)
  from database_life.Batch [OF database_life.Created assms this] this show ?thesis by (simp add: demo_batch_def)
qed

lemma demo_sync_life: "demo_life (fst (demo_batch [demo_sync])) (snd (demo_batch [demo_sync]))"
  by (rule demo_batch_life) (simp add: demo_sync_def program_body.Sync)

lemma demo_converted_life: "demo_life (fst (demo_batch [demo_ready_sync, demo_convert_op])) (snd (demo_batch [demo_ready_sync, demo_convert_op]))"
  by (rule demo_batch_life) (simp add: demo_ready_sync_def demo_convert_op_def program_body.Sync demo_convert_body_program)

definition demo_converted_ok :: bool where
  "demo_converted_ok = (case fst (demo_batch [demo_ready_sync, demo_convert_op]) of db \<Rightarrow>
     map (\<lambda>w. (w_id w, w_project w, w_deleted_at w = None)) (wheels db) = [(1, ''a'', True)] \<and> map rd_wheel_id (wheel_repodata db) = [1])"

lemma demo_converted_facts: "demo_converted_ok"
  by code_simp

lemma demo_sync_facts: "primary_keys (fst (demo_batch [demo_sync])) \<and> attempts_of 1 FETCH (fst (demo_batch [demo_sync])) = 0
    \<and> work_of 1 FETCH (fst (demo_batch [demo_sync])) = None \<and> map w_id (wheels (fst (demo_batch [demo_sync]))) = [1]"
  by (intro conjI) code_simp+

theorem fsck_is_chunk_independent_witness:
  "fst (fsck_run 1 2 20 8 None None (fst (demo_batch [demo_sync])) demo_reads)
     = Inr (fsck_reference 20 8 None (fst (demo_batch [demo_sync])))"
  using fsck_is_chunk_independent [of "fst (demo_batch [demo_sync])" 2 demo_reads 1 20 8 None None] demo_sync_facts
  by (simp add: primary_keys_def demo_reads_def sealed_violation_def optional_violation_def)

theorem fsck_on_reachable_database_witness:
  "\<exists>report. fst (fsck_run 1 2 20 8 None None (fst (demo_batch [demo_sync])) demo_reads) = Inr report
     \<and> vi_invariant ` set report \<inter> {''8_state_outside_wheelstate'', ''14_blob_segment_unresolved'', ''17_duplicate_change_seq''} = {}"
  by (rule fsck_on_reachable_database [OF demo_sync_life]) (simp_all add: demo_reads_def)

definition demo_fetch_queue_item :: queue_item where
  "demo_fetch_queue_item = \<lparr>qi_id = 1, qi_project = ''a'', qi_lane = 0, qi_state = NEED_METADATA\<rparr>"

end
