(* ===== verification/Health.thy ===== *)
theory Health
  imports Fsck Stages Service "HOL-Library.Multiset"
begin

text \<open>
  \<^verbatim>\<open>health.py\<close>: the health snapshot and the alarms over it. Every group of queries is one budgeted read
  transaction; a dictionary is its list of items, and a \<^verbatim>\<open>GROUP BY\<close> delivers its groups in key order.
\<close>

section \<open>Constants\<close>

definition ERROR_WINDOW_1H_SECONDS :: real where
  "ERROR_WINDOW_1H_SECONDS = 3600"

definition ERROR_WINDOW_24H_SECONDS :: real where
  "ERROR_WINDOW_24H_SECONDS = 86400"

definition TERMINAL_STATES :: "wheel_state list" where
  "TERMINAL_STATES = [READY, SKIPPED, NO_METADATA]"

definition PENDING_STATES :: "wheel_state list" where
  "PENDING_STATES = [NEED_METADATA, NEED_CONVERT, QUARANTINED]"

fun state_name :: "wheel_state \<Rightarrow> string" where
  "state_name NEED_METADATA = ''NEED_METADATA''"
| "state_name NO_METADATA = ''NO_METADATA''"
| "state_name NEED_CONVERT = ''NEED_CONVERT''"
| "state_name READY = ''READY''"
| "state_name SKIPPED = ''SKIPPED''"
| "state_name QUARANTINED = ''QUARANTINED''"
| "state_name DELETED = ''DELETED''"

section \<open>The parts of a snapshot\<close>

record stage_queue =
  sq_depth :: int
  sq_depth_by_lane :: "(int \<times> int) list"
  sq_in_flight :: int
  sq_oldest_pending_age_seconds :: "real option"
  sq_throughput_ema :: real
  sq_ok_count :: int
  sq_skip_count :: int
  sq_retry_count :: int
  sq_rate_limited_count :: int

text \<open>\<^verbatim>\<open>StageHealth\<close>, which has the fields of \<^verbatim>\<open>StageLoopStats\<close>.\<close>

record stage_health =
  sh_paused :: bool
  sh_last_run_at :: "real option"
  sh_last_success_at :: "real option"
  sh_consecutive_failures :: int

record dependency_health =
  dh_state :: string
  dh_consecutive_failures :: int
  dh_next_trial_at :: "real option"

record stage_input =
  si_loop :: stage_health
  si_queue :: "stage_metrics option"
  si_remote_last_serial :: "int option"
  si_last_change_at :: "real option"

definition loop_stats :: "'t stage_loop \<Rightarrow> stage_health" where
  "loop_stats l = \<lparr>sh_paused = paused l, sh_last_run_at = loop_last_run_at l,
     sh_last_success_at = loop_last_success_at l, sh_consecutive_failures = loop_consecutive_failures l\<rparr>"

fun circuit_value :: "circuit_state \<Rightarrow> string" where
  "circuit_value CLOSED = ''closed''"
| "circuit_value OPEN = ''open''"
| "circuit_value HALF_OPEN = ''half_open''"

definition dependency_health_of :: "breaker \<Rightarrow> dependency_health" where
  "dependency_health_of b = \<lparr>dh_state = circuit_value (circuit b),
     dh_consecutive_failures = consecutive_failures b, dh_next_trial_at = next_trial_at b\<rparr>"

type_synonym child_snapshot = "string \<times> real \<times> int \<times> int \<times> real option"

record health =
  he_snapshot_at :: real
  he_index_lag :: int
  he_remote_last_serial :: "int option"
  he_local_max_serial :: int
  he_last_index_poll_at :: "real option"
  he_last_index_change_at :: "real option"
  he_projects_indexed :: int
  he_projects_stale :: int
  he_pipeline_backlog :: int
  he_wheels_synced :: int
  he_queues :: "(string \<times> stage_queue) list"
  he_state_counts :: "(string \<times> int) list"
  he_quarantined_count :: int
  he_skipped_count :: int
  he_requires_prerelease_count :: int
  he_wal_bytes :: int
  he_seconds_since_truncate_checkpoint :: "real option"
  he_consecutive_checkpoint_failures :: int
  he_longest_read_txn_ms :: real
  he_read_txn_budget_violations :: int
  he_db_bytes :: int
  he_freelist_count :: int
  he_writer_queue_depth :: int
  he_writer_failed_ops :: int
  he_segments_sealed :: int
  he_segments_open :: int
  he_open_segment_age_seconds :: "real option"
  he_open_segment_bytes :: int
  he_unsealed_records :: int
  he_archive_bytes :: int
  he_disk_free_bytes :: "int option"
  he_limiter_global_available :: real
  he_limiter_children :: "child_snapshot list"
  he_stages :: "(string \<times> stage_health) list"
  he_dependencies :: "(string \<times> dependency_health) list"
  he_error_counts_1h :: "(string \<times> int) list"
  he_error_counts_24h :: "(string \<times> int) list"

section \<open>Reading the database\<close>

definition count_where :: "('r \<Rightarrow> bool) \<Rightarrow> 'r list \<Rightarrow> int" where
  "count_where p rs = int (length (filter p rs))"

text \<open>\<^verbatim>\<open>SELECT key, COUNT(*) ... GROUP BY key\<close>.\<close>

definition group_counts :: "('r \<Rightarrow> 'k::linorder) \<Rightarrow> 'r list \<Rightarrow> ('k \<times> int) list" where
  "group_counts key rs = map (\<lambda>k. (k, count_where (\<lambda>r. key r = k) rs)) (sort (remdups (map key rs)))"

record freshness =
  fs_local_max_serial :: int
  fs_projects_indexed :: int

definition freshness_of :: "database \<Rightarrow> freshness" where
  "freshness_of db =
     \<lparr>fs_local_max_serial = (if pypi_index db = [] then 0 else Max (pi_serial ` set (pypi_index db))),
      fs_projects_indexed = int (length (pypi_index db))\<rparr>"

definition read_freshness :: "real \<Rightarrow> database \<Rightarrow> freshness fsck" where
  "read_freshness budget db = timed_read budget (freshness_of db)"

record census =
  ce_state_counts :: "(string \<times> int) list"
  ce_requires_prerelease_count :: int
  ce_projects_stale :: int
  ce_pipeline_backlog :: int
  ce_wheels_synced :: int

definition is_pending :: "wheel_row \<Rightarrow> bool" where
  "is_pending w = (w_state w \<in> set (map state_int PENDING_STATES))"

text \<open>\<^verbatim>\<open>WheelState(raw_state)\<close> raises \<^verbatim>\<open>ValueError\<close> for a code that is none of the seven.\<close>

definition add_state_count :: "int \<times> int \<Rightarrow> (string \<times> int) list \<Rightarrow> (string \<times> int) list res" where
  "add_state_count row counts =
     (case row of (raw_state, n) \<Rightarrow>
        (case wheel_state_of_int raw_state of None \<Rightarrow> Inl ValueError
         | Some s \<Rightarrow> Inr (dict_set (state_name s) n counts)))"

definition census_of :: "database \<Rightarrow> (int \<times> int) list \<Rightarrow> census res" where
  "census_of db state_rows =
     bind_res (fold_res add_state_count state_rows (map (\<lambda>s. (state_name s, 0)) all_states))
       (\<lambda>counts. Inr \<lparr>ce_state_counts = counts,
          ce_requires_prerelease_count = count_where rd_requires_prerelease (wheel_repodata db),
          ce_projects_stale = int (card (w_project ` set (filter is_pending (wheels db)))),
          ce_pipeline_backlog = count_where is_pending (wheels db),
          ce_wheels_synced = int (length (wheels db))\<rparr>)"

definition read_census :: "real \<Rightarrow> database \<Rightarrow> census fsck" where
  "read_census budget db st =
     (case timed_read budget (group_counts w_state (wheels db)) st of
        (Inl e, st1) \<Rightarrow> (Inl e, st1) | (Inr state_rows, st1) \<Rightarrow> (census_of db state_rows, st1))"

definition queue_stage_state :: "string \<Rightarrow> wheel_state option" where
  "queue_stage_state name =
     (if name = ''fetch'' then Some NEED_METADATA else if name = ''convert'' then Some NEED_CONVERT else None)"

definition outcome_count :: "string \<Rightarrow> stage_metrics \<Rightarrow> int" where
  "outcome_count k m = (case map_of (sm_outcome_counts m) k of None \<Rightarrow> 0 | Some n \<Rightarrow> n)"

definition stage_queue_of :: "real \<Rightarrow> wheel_state \<Rightarrow> stage_metrics \<Rightarrow> (int \<times> int) list \<Rightarrow> iso_time option \<Rightarrow> stage_queue" where
  "stage_queue_of now_value s m lane_rows oldest =
     \<lparr>sq_depth = sm_queue_depth m, sq_depth_by_lane = lane_rows, sq_in_flight = sm_in_flight m,
      sq_oldest_pending_age_seconds = map_option (\<lambda>t. now_value - parse_iso t) oldest,
      sq_throughput_ema = sm_throughput_ema m, sq_ok_count = outcome_count ''ok'' m,
      sq_skip_count = outcome_count ''skip'' m, sq_retry_count = outcome_count ''retry'' m,
      sq_rate_limited_count = outcome_count ''rate_limited'' m\<rparr>"

definition oldest_update :: "wheel_row list \<Rightarrow> iso_time option" where
  "oldest_update ws = (if ws = [] then None else Some (Min (w_updated_at ` set ws)))"

fun read_queues :: "real \<Rightarrow> real \<Rightarrow> database \<Rightarrow> (string \<times> stage_input) list \<Rightarrow> (string \<times> stage_queue) list fsck" where
  "read_queues budget now_value db [] st = (Inr [], st)"
| "read_queues budget now_value db ((name, si) # stages) st =
     (case (queue_stage_state name, si_queue si) of
        (Some s, Some m) \<Rightarrow>
          (let queued = filter (\<lambda>w. w_state w = state_int s) (wheels db)
           in case timed_read budget (group_counts w_lane queued, oldest_update queued) st of
                (Inl e, st1) \<Rightarrow> (Inl e, st1)
              | (Inr (lanes, oldest), st1) \<Rightarrow>
                  (case read_queues budget now_value db stages st1 of
                     (r, st2) \<Rightarrow> (bind_res r (\<lambda>qs. Inr ((name, stage_queue_of now_value s m lanes oldest) # qs)), st2)))
      | _ \<Rightarrow> read_queues budget now_value db stages st)"

definition errors_by_category :: "iso_time \<Rightarrow> database \<Rightarrow> (string \<times> int) list" where
  "errors_by_category since db = group_counts er_category (filter (\<lambda>r. since \<le> er_created_at r) (errors db))"

definition read_errors :: "real \<Rightarrow> real \<Rightarrow> database \<Rightarrow> ((string \<times> int) list \<times> (string \<times> int) list) fsck" where
  "read_errors budget now_value db =
     timed_read budget (errors_by_category (iso (now_value - ERROR_WINDOW_1H_SECONDS)) db,
                        errors_by_category (iso (now_value - ERROR_WINDOW_24H_SECONDS)) db)"

record archive_health =
  ah_segments_sealed :: int
  ah_segments_open :: int
  ah_open_segment_age_seconds :: "real option"
  ah_open_segment_bytes :: int
  ah_unsealed_records :: int
  ah_archive_bytes :: int
  ah_disk_free_bytes :: "int option"

definition blobs_in_segment :: "int \<Rightarrow> database \<Rightarrow> int" where
  "blobs_in_segment segment_id db = count_where (\<lambda>b. b_segment_id b = segment_id) (blobs db)"

definition archive_counts :: "database \<Rightarrow> int \<times> int \<times> int \<times> int" where
  "archive_counts db =
     (count_where (\<lambda>s. sg_sealed_at s \<noteq> None) (segments db), count_where (\<lambda>s. sg_sealed_at s = None) (segments db),
      sum_list (map (\<lambda>s. case sg_bytes s of None \<Rightarrow> 0 | Some n \<Rightarrow> n) (filter (\<lambda>s. sg_sealed_at s \<noteq> None) (segments db))),
      sum_list (map (\<lambda>s. blobs_in_segment (sg_id s) db) (filter (\<lambda>s. sg_sealed_at s = None) (segments db))))"

text \<open>
  What the snapshot reads besides the database: the wall clock, the archive store's monotonic clock, the free
  space, the sizes of files (absent when they do not exist), the main database's file name and SQLite's count.
\<close>

record health_env =
  hv_now :: real
  hv_monotonic :: real
  hv_disk_free :: "int option"
  hv_file_size :: "string \<Rightarrow> int option"
  hv_main_file :: "string option"
  hv_freelist :: int
  hv_limiter_child :: "string \<Rightarrow> real"
  hv_limiter_global :: real

definition read_archive :: "real \<Rightarrow> health_env \<Rightarrow> archive_store option \<Rightarrow> database \<Rightarrow> archive_health fsck" where
  "read_archive budget env store db st =
     (case timed_read budget (archive_counts db) st of
        (Inl e, st1) \<Rightarrow> (Inl e, st1)
      | (Inr (sealed, opened, bytes, unsealed), st1) \<Rightarrow>
          (let writer = (case store of None \<Rightarrow> None | Some s \<Rightarrow> as_writer s)
           in (Inr \<lparr>ah_segments_sealed = sealed, ah_segments_open = opened,
                 ah_open_segment_age_seconds = map_option (age_seconds (hv_monotonic env)) writer,
                 ah_open_segment_bytes = (case writer of None \<Rightarrow> 0 | Some w \<Rightarrow> sw_compressed_bytes w),
                 ah_unsealed_records = unsealed, ah_archive_bytes = bytes,
                 ah_disk_free_bytes = (case store of None \<Rightarrow> None | Some _ \<Rightarrow> hv_disk_free env)\<rparr>, st1)))"

section \<open>The snapshot\<close>

definition file_size :: "health_env \<Rightarrow> string option \<Rightarrow> int" where
  "file_size env name =
     (case name of None \<Rightarrow> 0 | Some f \<Rightarrow> (case hv_file_size env f of None \<Rightarrow> 0 | Some n \<Rightarrow> n))"

text \<open>A writer with the path of its database.\<close>

type_synonym 'v health_writer = "string \<times> (database, 'v) writer"

definition wal_path :: "string \<Rightarrow> string" where
  "wal_path f = f @ ''-wal''"

definition writer_wal_bytes :: "health_env \<Rightarrow> string \<Rightarrow> int" where
  "writer_wal_bytes env path = file_size env (Some (wal_path path))"

definition health_wal_bytes :: "health_env \<Rightarrow> 'v health_writer option \<Rightarrow> int" where
  "health_wal_bytes env writer =
     (case writer of Some (path, _) \<Rightarrow> writer_wal_bytes env path
      | None \<Rightarrow> file_size env (map_option wal_path (hv_main_file env)))"

definition health_freelist_count :: "health_env \<Rightarrow> 'v health_writer option \<Rightarrow> int" where
  "health_freelist_count env writer =
     (case writer of Some (_, wr) \<Rightarrow> wr_freelist_count wr | None \<Rightarrow> hv_freelist env)"

fun first_not_none :: "'a option list \<Rightarrow> 'a option" where
  "first_not_none [] = None"
| "first_not_none (Some v # vs) = Some v"
| "first_not_none (None # vs) = first_not_none vs"

definition state_count :: "wheel_state \<Rightarrow> (string \<times> int) list \<Rightarrow> int" where
  "state_count s counts = (case map_of counts (state_name s) of None \<Rightarrow> 0 | Some n \<Rightarrow> n)"

definition build_health :: "health_env \<Rightarrow> 'v health_writer option \<Rightarrow> limiter option \<Rightarrow> (string \<times> breaker) list
    \<Rightarrow> (string \<times> stage_input) list \<Rightarrow> watchdog option \<Rightarrow> freshness \<Rightarrow> census \<Rightarrow> (string \<times> stage_queue) list
    \<Rightarrow> (string \<times> int) list \<times> (string \<times> int) list \<Rightarrow> archive_health \<Rightarrow> health" where
  "build_health env writer limiter0 breakers stages watchdog fresh cens queues errs arch =
     (let remote = first_not_none (map (si_remote_last_serial \<circ> snd) stages);
          limits = map_option (\<lambda>l. fst (hl_snapshot (hv_limiter_child env) (hv_limiter_global env) l)) limiter0
      in \<lparr>he_snapshot_at = hv_now env,
          he_index_lag = (case remote of None \<Rightarrow> 0 | Some n \<Rightarrow> max 0 (n - fs_local_max_serial fresh)),
          he_remote_last_serial = remote, he_local_max_serial = fs_local_max_serial fresh,
          he_last_index_poll_at = first_not_none
            (map (sh_last_run_at \<circ> si_loop \<circ> snd) (filter (\<lambda>(name, _). name = ''index_poll'') stages)),
          he_last_index_change_at = first_not_none (map (si_last_change_at \<circ> snd) stages),
          he_projects_indexed = fs_projects_indexed fresh, he_projects_stale = ce_projects_stale cens,
          he_pipeline_backlog = ce_pipeline_backlog cens, he_wheels_synced = ce_wheels_synced cens,
          he_queues = queues, he_state_counts = ce_state_counts cens,
          he_quarantined_count = state_count QUARANTINED (ce_state_counts cens),
          he_skipped_count = state_count SKIPPED (ce_state_counts cens),
          he_requires_prerelease_count = ce_requires_prerelease_count cens,
          he_wal_bytes = health_wal_bytes env writer,
          he_seconds_since_truncate_checkpoint =
            (case writer of None \<Rightarrow> None
             | Some (_, wr) \<Rightarrow> map_option (\<lambda>t. hv_now env - t) (wr_last_truncate_checkpoint_at wr)),
          he_consecutive_checkpoint_failures =
            (case writer of None \<Rightarrow> 0 | Some (_, wr) \<Rightarrow> wr_consecutive_checkpoint_failures wr),
          he_longest_read_txn_ms = (case watchdog of None \<Rightarrow> 0 | Some wd \<Rightarrow> longest_ms wd),
          he_read_txn_budget_violations = (case watchdog of None \<Rightarrow> 0 | Some wd \<Rightarrow> over_budget_count wd),
          he_db_bytes = file_size env (hv_main_file env),
          he_freelist_count = health_freelist_count env writer,
          he_writer_queue_depth = (case writer of None \<Rightarrow> 0 | Some (_, wr) \<Rightarrow> int (queue_depth wr)),
          he_writer_failed_ops = (case writer of None \<Rightarrow> 0 | Some (_, wr) \<Rightarrow> wr_failed_ops wr),
          he_segments_sealed = ah_segments_sealed arch, he_segments_open = ah_segments_open arch,
          he_open_segment_age_seconds = ah_open_segment_age_seconds arch,
          he_open_segment_bytes = ah_open_segment_bytes arch, he_unsealed_records = ah_unsealed_records arch,
          he_archive_bytes = ah_archive_bytes arch, he_disk_free_bytes = ah_disk_free_bytes arch,
          he_limiter_global_available = (case limits of None \<Rightarrow> 0 | Some l \<Rightarrow> fst l),
          he_limiter_children = (case limits of None \<Rightarrow> [] | Some l \<Rightarrow> snd l),
          he_stages = map (\<lambda>(name, si). (name, si_loop si)) stages,
          he_dependencies = map (\<lambda>(name, b). (name, dependency_health_of b)) breakers,
          he_error_counts_1h = fst errs, he_error_counts_24h = snd errs\<rparr>)"

text \<open>\<open>given\<close>: whether the caller passed its watchdog, without which the counters report nothing.\<close>

definition snapshot :: "real \<Rightarrow> health_env \<Rightarrow> 'v health_writer option \<Rightarrow> limiter option \<Rightarrow> (string \<times> breaker) list
    \<Rightarrow> (string \<times> stage_input) list \<Rightarrow> archive_store option \<Rightarrow> bool \<Rightarrow> database \<Rightarrow> health fsck" where
  "snapshot budget env writer limiter0 breakers stages store given db st =
     (case read_freshness budget db st of
        (Inl e, st1) \<Rightarrow> (Inl e, st1)
      | (Inr fresh, st1) \<Rightarrow>
     (case read_census budget db st1 of
        (Inl e, st2) \<Rightarrow> (Inl e, st2)
      | (Inr cens, st2) \<Rightarrow>
     (case read_queues budget (hv_now env) db stages st2 of
        (Inl e, st3) \<Rightarrow> (Inl e, st3)
      | (Inr queues, st3) \<Rightarrow>
     (case read_errors budget (hv_now env) db st3 of
        (Inl e, st4) \<Rightarrow> (Inl e, st4)
      | (Inr errs, st4) \<Rightarrow>
     (case read_archive budget env store db st4 of
        (Inl e, st5) \<Rightarrow> (Inl e, st5)
      | (Inr arch, st5) \<Rightarrow>
          (Inr (build_health env writer limiter0 breakers stages (if given then Some (fr_watchdog st5) else None)
                  fresh cens queues errs arch), st5))))))"

text \<open>\<^verbatim>\<open>Daemon._stage_inputs\<close>: \<open>stage_metrics_of\<close> is \<^verbatim>\<open>Dispatcher.metrics\<close>.\<close>

definition stage_input_of :: "(stage \<Rightarrow> stage_metrics) \<Rightarrow> index_poll option \<Rightarrow> string \<Rightarrow> stage_health \<Rightarrow> stage_input" where
  "stage_input_of stage_metrics_of poll name stats =
     \<lparr>si_loop = stats,
      si_queue = (if name = ''fetch'' then Some (stage_metrics_of FETCH)
                  else if name = ''convert'' then Some (stage_metrics_of CONVERT) else None),
      si_remote_last_serial = (if name = ''index_poll'' then (case poll of None \<Rightarrow> None | Some p \<Rightarrow> ix_last_remote_serial p) else None),
      si_last_change_at = (if name = ''index_poll'' then (case poll of None \<Rightarrow> None | Some p \<Rightarrow> ix_last_change_at p) else None)\<rparr>"

definition stage_inputs :: "(stage \<Rightarrow> stage_metrics) \<Rightarrow> index_poll option \<Rightarrow> (string \<times> stage_health) list \<Rightarrow> (string \<times> stage_input) list" where
  "stage_inputs stage_metrics_of poll loops = map (\<lambda>(name, stats). (name, stage_input_of stage_metrics_of poll name stats)) loops"

section \<open>Alarms\<close>

datatype severity = Critical | Warning

record alarm =
  al_severity :: severity
  al_condition :: string
  al_message :: string

record alarm_limits =
  lm_wal_bytes_critical :: int
  lm_checkpoint_failures_critical :: int
  lm_disk_free_floor_bytes :: int
  lm_seal_seconds :: real
  lm_index_lag_stale_seconds :: real

definition default_limits :: alarm_limits where
  "default_limits = \<lparr>lm_wal_bytes_critical = 2 * 1024 ^ 3, lm_checkpoint_failures_critical = 5,
     lm_disk_free_floor_bytes = 20 * 1024 ^ 3, lm_seal_seconds = 21600, lm_index_lag_stale_seconds = 3600\<rparr>"

definition mk_alarm :: "severity \<Rightarrow> string \<Rightarrow> string \<Rightarrow> alarm" where
  "mk_alarm s c m = \<lparr>al_severity = s, al_condition = c, al_message = m\<rparr>"

text \<open>\<^verbatim>\<open>f"{x:.0f}"\<close>.\<close>

definition format_0f :: "real \<Rightarrow> string" where
  "format_0f x = (if py_round x = 0 \<and> x < 0 then ''-0'' else py_str_int (py_round x))"

definition wal_alarms :: "alarm_limits \<Rightarrow> health \<Rightarrow> alarm list" where
  "wal_alarms lm h = (if lm_wal_bytes_critical lm < he_wal_bytes h
     then [mk_alarm Critical ''wal_bytes'' (''wal_bytes '' @ py_str_int (he_wal_bytes h) @ '' exceeds ''
             @ py_str_int (lm_wal_bytes_critical lm))] else [])"

definition checkpoint_alarms :: "alarm_limits \<Rightarrow> health \<Rightarrow> alarm list" where
  "checkpoint_alarms lm h = (if lm_checkpoint_failures_critical lm \<le> he_consecutive_checkpoint_failures h
     then [mk_alarm Critical ''consecutive_checkpoint_failures'' (py_str_int (he_consecutive_checkpoint_failures h)
             @ '' consecutive TRUNCATE checkpoint failures; likely a leaked reader'')] else [])"

definition disk_alarms :: "alarm_limits \<Rightarrow> health \<Rightarrow> alarm list" where
  "disk_alarms lm h = (case he_disk_free_bytes h of None \<Rightarrow> []
     | Some n \<Rightarrow> if n < lm_disk_free_floor_bytes lm
         then [mk_alarm Critical ''disk_free_bytes'' (''disk_free_bytes '' @ py_str_int n @ '' is below floor ''
                 @ py_str_int (lm_disk_free_floor_bytes lm))] else [])"

definition breaker_alarms :: "health \<Rightarrow> alarm list" where
  "breaker_alarms h = map (\<lambda>(name, d). mk_alarm Warning ''breaker_open'' (''breaker '' @ py_repr name @ '' is '' @ dh_state d))
     (filter (\<lambda>(name, d). dh_state d \<noteq> ''closed'') (he_dependencies h))"

definition budget_alarms :: "health option \<Rightarrow> health \<Rightarrow> alarm list" where
  "budget_alarms previous h =
     (if (case previous of None \<Rightarrow> 0 | Some p \<Rightarrow> he_read_txn_budget_violations p) < he_read_txn_budget_violations h
      then [mk_alarm Warning ''read_txn_budget_violations''
              (''read_txn_budget_violations increased to '' @ py_str_int (he_read_txn_budget_violations h))] else [])"

definition quarantine_alarms :: "health \<Rightarrow> alarm list" where
  "quarantine_alarms h = (if 0 < he_quarantined_count h
     then [mk_alarm Warning ''quarantined_count'' (py_str_int (he_quarantined_count h) @ '' wheel(s) quarantined'')] else [])"

definition index_alarms :: "alarm_limits \<Rightarrow> health \<Rightarrow> alarm list" where
  "index_alarms lm h = (case he_last_index_change_at h of None \<Rightarrow> []
     | Some t \<Rightarrow> if 0 < he_projects_stale h \<and> lm_index_lag_stale_seconds lm < he_snapshot_at h - t
         then [mk_alarm Warning ''index_lag_stale'' (''index unchanged for '' @ format_0f (he_snapshot_at h - t) @ ''s with ''
                 @ py_str_int (he_projects_stale h) @ '' project(s) still stale'')] else [])"

definition segment_alarms :: "alarm_limits \<Rightarrow> health \<Rightarrow> alarm list" where
  "segment_alarms lm h = (case he_open_segment_age_seconds h of None \<Rightarrow> []
     | Some t \<Rightarrow> if 2 * lm_seal_seconds lm < t
         then [mk_alarm Warning ''open_segment_age'' (''open_segment_age_seconds '' @ format_0f t @ '' exceeds 2x seal_seconds (''
                 @ format_0f (2 * lm_seal_seconds lm) @ '')'')] else [])"

definition stage_alarms :: "health \<Rightarrow> alarm list" where
  "stage_alarms h = map (\<lambda>(name, s). mk_alarm Warning ''stage_consecutive_failures''
       (''stage '' @ py_repr name @ '' has '' @ py_str_int (sh_consecutive_failures s) @ '' consecutive failure(s)''))
     (filter (\<lambda>(name, s). 0 < sh_consecutive_failures s) (he_stages h))"

definition writer_alarms :: "health \<Rightarrow> alarm list" where
  "writer_alarms h = (if 0 < he_writer_failed_ops h
     then [mk_alarm Warning ''writer_failed_ops'' (py_str_int (he_writer_failed_ops h) @ '' write op(s) have failed'')] else [])"

fun severity_rank :: "severity \<Rightarrow> nat" where
  "severity_rank Critical = 0"
| "severity_rank Warning = 1"

definition found_alarms :: "alarm_limits \<Rightarrow> health option \<Rightarrow> health \<Rightarrow> alarm list" where
  "found_alarms lm previous h = wal_alarms lm h @ checkpoint_alarms lm h @ disk_alarms lm h @ breaker_alarms h
     @ budget_alarms previous h @ quarantine_alarms h @ index_alarms lm h @ segment_alarms lm h @ stage_alarms h @ writer_alarms h"

definition alarms :: "alarm_limits \<Rightarrow> health option \<Rightarrow> health \<Rightarrow> alarm list" where
  "alarms lm previous h =
     sort_key (\<lambda>a. (severity_rank (al_severity a), al_condition a)) (found_alarms lm previous h)"

section \<open>Facts about the census\<close>

lemma state_name_inj [simp]: "state_name s = state_name t \<longleftrightarrow> s = t"
  by (cases s; cases t) simp_all

lemma dict_set_states:
  "dict_set (state_name s) n (map (\<lambda>t. (state_name t, g t)) all_states) = map (\<lambda>t. (state_name t, if t = s then n else g t)) all_states"
  by (cases s) (simp_all add: all_states_def)

lemma fold_state_counts:
  "set ks \<subseteq> range state_int \<Longrightarrow> fold_res add_state_count (map (\<lambda>k. (k, f k)) ks) (map (\<lambda>s. (state_name s, g s)) all_states)
    = Inr (map (\<lambda>s. (state_name s, if state_int s \<in> set ks then f (state_int s) else g s)) all_states)"
proof (induction ks arbitrary: g)
  case (Cons k ks)
  then obtain s where k: "k = state_int s" by auto
  have one: "add_state_count (k, f k) (map (\<lambda>s. (state_name s, g s)) all_states)
      = Inr (map (\<lambda>t. (state_name t, if t = s then f k else g t)) all_states)"
    by (simp add: add_state_count_def k dict_set_states)
  have "set ks \<subseteq> range state_int" using Cons.prems by simp
  from Cons.IH [OF this, of "\<lambda>t. if t = s then f k else g t"] show ?case
    by (simp only: list.map fold_res.simps one bind_res_simps) (auto simp: k intro!: map_cong)
qed simp

definition census_counts :: "wheel_row list \<Rightarrow> (string \<times> int) list" where
  "census_counts ws = map (\<lambda>s. (state_name s, count_where (\<lambda>w. w_state w = state_int s) ws)) all_states"

lemma state_rows_counts:
  assumes "w_state ` set ws \<subseteq> range state_int"
  shows "fold_res add_state_count (group_counts w_state ws) (map (\<lambda>s. (state_name s, 0)) all_states) = Inr (census_counts ws)"
proof -
  have none: "count_where (\<lambda>w. w_state w = k) ws = 0" if "k \<notin> w_state ` set ws" for k
    using that by (auto simp: count_where_def filter_empty_conv)
  show ?thesis unfolding group_counts_def census_counts_def
    by (subst fold_state_counts) (use assms none in \<open>auto intro!: map_cong\<close>)
qed

lemma state_count_census [simp]: "state_count s (census_counts ws) = count_where (\<lambda>w. w_state w = state_int s) ws"
  by (cases s) (simp_all add: state_count_def census_counts_def all_states_def)

lemma count_where_Cons: "count_where p (r # rs) = (if p r then 1 else 0) + count_where p rs"
  by (simp add: count_where_def)

lemma census_total:
  assumes "w_state ` set ws \<subseteq> range state_int"
  shows "sum_list (map snd (census_counts ws)) = int (length ws)"
  using assms
proof (induction ws)
  case Nil
  then show ?case by (simp add: census_counts_def all_states_def count_where_def)
next
  case (Cons w ws)
  then obtain s where s: "w_state w = state_int s" by auto
  have "sum_list (map snd (census_counts (w # ws))) = 1 + sum_list (map snd (census_counts ws))"
    by (cases s) (simp_all add: census_counts_def all_states_def count_where_Cons s)
  then show ?case using Cons by simp
qed

lemma backlog_total:
  "count_where is_pending ws = state_count NEED_METADATA (census_counts ws) + state_count NEED_CONVERT (census_counts ws)
     + state_count QUARANTINED (census_counts ws)"
  by (induction ws) (auto simp: count_where_Cons is_pending_def PENDING_STATES_def, simp add: count_where_def)

text \<open>The groups of a \<^verbatim>\<open>GROUP BY\<close> make up the table.\<close>

lemma sum_count_where:
  assumes "distinct ks" and "key ` set rs \<subseteq> set ks"
  shows "sum_list (map (\<lambda>k. count_where (\<lambda>r. key r = k) rs) ks) = int (length rs)"
  using assms(2)
proof (induction rs)
  case Nil
  then show ?case by (simp add: count_where_def)
next
  case (Cons r rs)
  have "sum_list (map (\<lambda>k. if key r = k then 1 else 0) ks) = (1 :: int)"
    using assms(1) Cons.prems by (simp add: sum_list_distinct_conv_sum_set)
  then show ?case using Cons by (simp add: count_where_Cons sum_list_addf)
qed

lemma group_counts_total: "sum_list (map snd (group_counts key rs)) = int (length rs)"
  by (simp add: group_counts_def comp_def sum_count_where)

section \<open>A snapshot\<close>

definition consistent_queue :: "(string \<times> int) list \<Rightarrow> string \<times> stage_queue \<Rightarrow> bool" where
  "consistent_queue counts q \<longleftrightarrow> (case queue_stage_state (fst q) of None \<Rightarrow> False
     | Some s \<Rightarrow> sq_depth (snd q) = state_count s counts \<and> sum_list (map snd (sq_depth_by_lane (snd q))) = sq_depth (snd q))"

lemma read_queues_consistent:
  assumes "quiet budget st"
  shows "\<exists>qs st'. read_queues budget now_value db (stage_inputs (\<lambda>stg. metrics now stg db ds) poll loops) st = (Inr qs, st')
    \<and> quiet budget st' \<and> list_all (consistent_queue (census_counts (wheels db))) qs"
  using assms
proof (induction loops arbitrary: st)
  case Nil
  then show ?case by (simp add: stage_inputs_def)
next
  case (Cons l loops)
  obtain name stats where l: "l = (name, stats)" by (cases l)
  let ?si = "stage_input_of (\<lambda>stg. metrics now stg db ds) poll name stats"
  have hd: "stage_inputs (\<lambda>stg. metrics now stg db ds) poll (l # loops) = (name, ?si) # stage_inputs (\<lambda>stg. metrics now stg db ds) poll loops"
    by (simp add: stage_inputs_def l)
  have input: "\<exists>stg. si_queue ?si = Some (metrics now stg db ds) \<and> queue_state stg = s" if "queue_stage_state name = Some s" for s
    using that by (cases "name = ''fetch''") (auto simp: queue_stage_state_def stage_input_of_def split: if_splits intro: exI [of _ FETCH] exI [of _ CONVERT])
  consider s m where "queue_stage_state name = Some s" "si_queue ?si = Some m" "\<exists>stg. m = metrics now stg db ds \<and> queue_state stg = s"
    | "queue_stage_state name = None"
    using input by (cases "queue_stage_state name") blast+
  then show ?case
  proof cases
    case (1 s m)
    let ?q = "filter (\<lambda>w. w_state w = state_int s) (wheels db)"
    obtain st1 where r: "timed_read budget (group_counts w_lane ?q, oldest_update ?q) st = (Inr (group_counts w_lane ?q, oldest_update ?q), st1)"
      and q1: "has_read budget 1 st st1" using timed_read_quiet [OF Cons.prems] .
    obtain qs st2 where rest: "read_queues budget now_value db (stage_inputs (\<lambda>stg. metrics now stg db ds) poll loops) st1 = (Inr qs, st2)"
      "quiet budget st2" "list_all (consistent_queue (census_counts (wheels db))) qs"
      using Cons.IH [OF has_read_quiet [OF q1]] by blast
    have "sm_queue_depth m = int (length ?q)" using 1(3) by (auto simp: metrics_def Let_def)
    then have "consistent_queue (census_counts (wheels db)) (name, stage_queue_of now_value s m (group_counts w_lane ?q) (oldest_update ?q))"
      using 1(1) by (simp add: consistent_queue_def stage_queue_of_def group_counts_total count_where_def)
    then show ?thesis using rest by (simp add: hd 1(1,2) Let_def r)
  next
    case 2
    then show ?thesis using Cons by (simp add: hd)
  qed
qed

lemma snapshot_consistent:
  assumes "w_state ` set (wheels db) \<subseteq> range state_int" and "quiet budget st"
  shows "\<exists>h st'. snapshot budget env writer limiter0 breakers (stage_inputs (\<lambda>stg. metrics now stg db ds) poll loops) store given db st = (Inr h, st')
    \<and> he_state_counts h = census_counts (wheels db) \<and> he_wheels_synced h = int (length (wheels db))
    \<and> he_pipeline_backlog h = count_where is_pending (wheels db)
    \<and> he_quarantined_count h = state_count QUARANTINED (census_counts (wheels db))
    \<and> list_all (consistent_queue (census_counts (wheels db))) (he_queues h)"
proof -
  obtain st1 where 1: "read_freshness budget db st = (Inr (freshness_of db), st1)" "has_read budget 1 st st1"
    unfolding read_freshness_def using timed_read_quiet [OF assms(2)] .
  obtain st2 where 2: "timed_read budget (group_counts w_state (wheels db)) st1 = (Inr (group_counts w_state (wheels db)), st2)" "has_read budget 1 st1 st2"
    using timed_read_quiet [OF has_read_quiet [OF 1(2)]] .
  obtain c where c: "census_of db (group_counts w_state (wheels db)) = Inr c" "ce_state_counts c = census_counts (wheels db)"
    "ce_wheels_synced c = int (length (wheels db))" "ce_pipeline_backlog c = count_where is_pending (wheels db)"
    by (simp add: census_of_def state_rows_counts [OF assms(1)])
  obtain qs st3 where 3: "read_queues budget (hv_now env) db (stage_inputs (\<lambda>stg. metrics now stg db ds) poll loops) st2 = (Inr qs, st3)"
    "quiet budget st3" "list_all (consistent_queue (census_counts (wheels db))) qs"
    using read_queues_consistent [OF has_read_quiet [OF 2(2)]] by blast
  obtain errs st4 where 4: "read_errors budget (hv_now env) db st3 = (Inr errs, st4)" "has_read budget 1 st3 st4"
    unfolding read_errors_def using timed_read_quiet [OF 3(2)] .
  obtain st5 where 5: "timed_read budget (archive_counts db) st4 = (Inr (archive_counts db), st5)" "has_read budget 1 st4 st5"
    using timed_read_quiet [OF has_read_quiet [OF 4(2)]] .
  obtain a b c' d where abcd: "archive_counts db = (a, b, c', d)" by (metis prod.exhaust)
  obtain arch where 6: "read_archive budget env store db st4 = (Inr arch, st5)"
    using 5(1) by (simp add: read_archive_def abcd Let_def)
  show ?thesis
    unfolding snapshot_def 1(1) read_census_def 2(1) prod.case sum.case c(1) 3(1) 4(1) 6
    using c 3(3) by (simp add: build_health_def Let_def)
qed



section \<open>The report of alarms\<close>

lemma set_alarms: "set (alarms lm previous h) = set (found_alarms lm previous h)"
  by (simp add: alarms_def)

lemma filter_critical_found:
  "filter (\<lambda>a. al_severity a = Critical) (found_alarms lm previous h) = wal_alarms lm h @ checkpoint_alarms lm h @ disk_alarms lm h"
proof -
  have w: "filter (\<lambda>a. al_severity a = Critical) (map (\<lambda>x. mk_alarm Warning (f x) (g x)) xs) = []" for f g and xs :: "'a list"
    by (simp add: mk_alarm_def)
  show ?thesis
    by (simp add: found_alarms_def wal_alarms_def checkpoint_alarms_def disk_alarms_def breaker_alarms_def budget_alarms_def
        quarantine_alarms_def index_alarms_def segment_alarms_def stage_alarms_def writer_alarms_def mk_alarm_def split_beta
        filter_map comp_def split: option.splits)
qed

lemma sorted_severity_split:
  assumes "sorted (map (\<lambda>a. (severity_rank (al_severity a), al_condition a)) as)"
  shows "as = filter (\<lambda>a. al_severity a = Critical) as @ filter (\<lambda>a. al_severity a = Warning) as"
  using assms
proof (induction as)
  case (Cons a as)
  show ?case
  proof (cases "al_severity a")
    case Critical
    then show ?thesis using Cons by simp
  next
    case Warning
    then have "\<forall>b \<in> set as. al_severity b = Warning"
      using Cons.prems by (auto simp: less_eq_prod_def) (metis One_nat_def less_one severity.exhaust severity_rank.simps nat_less_le not_one_le_zero)+
    then have "filter (\<lambda>a. al_severity a = Critical) as = []" "filter (\<lambda>a. al_severity a = Warning) as = as"
      by (simp_all add: filter_empty_conv filter_id_conv)
    then show ?thesis using Warning by simp
  qed
qed simp

text \<open>
  C25. The alarms report: every finding is in it once, critical ones first and each part ordered by condition, and
  there is a critical one exactly when the WAL is over its limit, the checkpoints failed too often in a row, or the
  free space is known and below its floor.
\<close>

theorem alarms_report:
  "(\<exists>critical warnings. alarms lm previous h = critical @ warnings
      \<and> list_all (\<lambda>a. al_severity a = Critical) critical \<and> list_all (\<lambda>a. al_severity a = Warning) warnings
      \<and> sorted (map al_condition critical) \<and> sorted (map al_condition warnings)
      \<and> (critical = [] \<longleftrightarrow> he_wal_bytes h \<le> lm_wal_bytes_critical lm
           \<and> he_consecutive_checkpoint_failures h < lm_checkpoint_failures_critical lm
           \<and> (he_disk_free_bytes h = None \<or> lm_disk_free_floor_bytes lm \<le> the (he_disk_free_bytes h))))
    \<and> mset (alarms lm previous h) = mset (found_alarms lm previous h)"
proof (intro conjI exI)
  let ?as = "alarms lm previous h"
  let ?key = "\<lambda>a. (severity_rank (al_severity a), al_condition a)"
  let ?c = "filter (\<lambda>a. al_severity a = Critical) ?as" and ?w = "filter (\<lambda>a. al_severity a = Warning) ?as"
  have s: "sorted (map ?key ?as)" by (simp add: alarms_def)
  show "?as = ?c @ ?w" by (rule sorted_severity_split [OF s])
  show "list_all (\<lambda>a. al_severity a = Critical) ?c" "list_all (\<lambda>a. al_severity a = Warning) ?w" by (simp_all add: list_all_iff)
  have part: "sorted (map al_condition (filter (\<lambda>a. al_severity a = v) ?as))" for v
  proof -
    have "sorted (map ?key (filter (\<lambda>a. al_severity a = v) ?as))" using s by (rule sorted_filter)
    moreover have "map ?key (filter (\<lambda>a. al_severity a = v) ?as) = map (Pair (severity_rank v)) (map al_condition (filter (\<lambda>a. al_severity a = v) ?as))"
      by simp
    moreover have "sorted xs" if "sorted (map (Pair k) xs)" for xs :: "string list" and k :: nat
      using that by (induction xs) auto
    ultimately show ?thesis by metis
  qed
  show "sorted (map al_condition ?c)" "sorted (map al_condition ?w)" by (rule part)+
  have "?c = [] \<longleftrightarrow> filter (\<lambda>a. al_severity a = Critical) (found_alarms lm previous h) = []"
    using set_alarms [of lm previous h] by (simp add: filter_empty_conv)
  also have "\<dots> \<longleftrightarrow> wal_alarms lm h = [] \<and> checkpoint_alarms lm h = [] \<and> disk_alarms lm h = []"
    unfolding filter_critical_found by simp
  also have "\<dots> \<longleftrightarrow> he_wal_bytes h \<le> lm_wal_bytes_critical lm
           \<and> he_consecutive_checkpoint_failures h < lm_checkpoint_failures_critical lm
           \<and> (he_disk_free_bytes h = None \<or> lm_disk_free_floor_bytes lm \<le> the (he_disk_free_bytes h))"
    by (auto simp: wal_alarms_def checkpoint_alarms_def disk_alarms_def split: option.splits)
  finally show "?c = [] \<longleftrightarrow> \<dots>" .
  show "mset ?as = mset (found_alarms lm previous h)" by (simp add: alarms_def)
qed

end
