(* ===== verification/Metrics.thy ===== *)
theory Metrics
  imports Health
begin

text \<open>
  \<^verbatim>\<open>metrics.py\<close>: a health snapshot as Prometheus text. The fields of the dataclasses are lists of their names and
  values in declaration order. \<open>repr_float\<close> is Python's \<^verbatim>\<open>str\<close> of a \<^verbatim>\<open>float\<close>; the section on reading the text
  back is the reference the renderer is proved against.
\<close>

section \<open>Values\<close>

text \<open>What a field can hold; \<^const>\<open>None\<close> as a penalty deadline is \<^verbatim>\<open>float("-inf")\<close>.\<close>

datatype metric_value = MNone | MBool bool | MInt int | MReal real | MNegInf | MStr string

datatype metric_number = NInt int | NReal real | NNegInf

datatype label_value = LStr string | LInt int

datatype sub_value = Sub_scalar metric_value | Sub_mapping "(label_value \<times> metric_value) list"

datatype item_value = Item_scalar metric_value | Item_record "(string \<times> sub_value) list"

datatype field_value = Field_scalar metric_value | Field_mapping "(string \<times> item_value) list"

section \<open>The fields of a snapshot\<close>

definition opt_real :: "real option \<Rightarrow> metric_value" where
  "opt_real x = (case x of None \<Rightarrow> MNone | Some r \<Rightarrow> MReal r)"

definition opt_num :: "int option \<Rightarrow> metric_value" where
  "opt_num x = (case x of None \<Rightarrow> MNone | Some n \<Rightarrow> MInt n)"

definition queue_fields :: "stage_queue \<Rightarrow> (string \<times> sub_value) list" where
  "queue_fields q =
     [(''depth'', Sub_scalar (MInt (sq_depth q))),
      (''depth_by_lane'', Sub_mapping (map (\<lambda>(k, n). (LInt k, MInt n)) (sq_depth_by_lane q))),
      (''in_flight'', Sub_scalar (MInt (sq_in_flight q))),
      (''oldest_pending_age_seconds'', Sub_scalar (opt_real (sq_oldest_pending_age_seconds q))),
      (''throughput_ema'', Sub_scalar (MReal (sq_throughput_ema q))),
      (''ok_count'', Sub_scalar (MInt (sq_ok_count q))),
      (''skip_count'', Sub_scalar (MInt (sq_skip_count q))),
      (''retry_count'', Sub_scalar (MInt (sq_retry_count q))),
      (''rate_limited_count'', Sub_scalar (MInt (sq_rate_limited_count q)))]"

definition stage_fields :: "stage_health \<Rightarrow> (string \<times> sub_value) list" where
  "stage_fields s =
     [(''paused'', Sub_scalar (MBool (sh_paused s))),
      (''last_run_at'', Sub_scalar (opt_real (sh_last_run_at s))),
      (''last_success_at'', Sub_scalar (opt_real (sh_last_success_at s))),
      (''consecutive_failures'', Sub_scalar (MInt (sh_consecutive_failures s)))]"

definition dependency_fields :: "dependency_health \<Rightarrow> (string \<times> sub_value) list" where
  "dependency_fields d =
     [(''state'', Sub_scalar (MStr (dh_state d))),
      (''consecutive_failures'', Sub_scalar (MInt (dh_consecutive_failures d))),
      (''next_trial_at'', Sub_scalar (opt_real (dh_next_trial_at d)))]"

definition limiter_fields :: "real \<times> int \<times> int \<times> real option \<Rightarrow> (string \<times> sub_value) list" where
  "limiter_fields c =
     (case c of (avail, acquired, denied, deadline) \<Rightarrow>
       [(''available'', Sub_scalar (MReal avail)), (''acquired'', Sub_scalar (MInt acquired)),
        (''denied'', Sub_scalar (MInt denied)),
        (''penalty_deadline'', Sub_scalar (case deadline of None \<Rightarrow> MNegInf | Some t \<Rightarrow> MReal t))])"

definition records :: "('r \<Rightarrow> (string \<times> sub_value) list) \<Rightarrow> (string \<times> 'r) list \<Rightarrow> field_value" where
  "records view d = Field_mapping (map (\<lambda>(k, r). (k, Item_record (view r))) d)"

definition counts :: "(string \<times> int) list \<Rightarrow> field_value" where
  "counts d = Field_mapping (map (\<lambda>(k, n). (k, Item_scalar (MInt n))) d)"

definition health_fields :: "health \<Rightarrow> (string \<times> field_value) list" where
  "health_fields h =
     [(''snapshot_at'', Field_scalar (MReal (he_snapshot_at h))),
      (''index_lag'', Field_scalar (MInt (he_index_lag h))),
      (''remote_last_serial'', Field_scalar (opt_num (he_remote_last_serial h))),
      (''local_max_serial'', Field_scalar (MInt (he_local_max_serial h))),
      (''last_index_poll_at'', Field_scalar (opt_real (he_last_index_poll_at h))),
      (''last_index_change_at'', Field_scalar (opt_real (he_last_index_change_at h))),
      (''projects_indexed'', Field_scalar (MInt (he_projects_indexed h))),
      (''projects_stale'', Field_scalar (MInt (he_projects_stale h))),
      (''pipeline_backlog'', Field_scalar (MInt (he_pipeline_backlog h))),
      (''wheels_synced'', Field_scalar (MInt (he_wheels_synced h))),
      (''queues'', records queue_fields (he_queues h)),
      (''state_counts'', counts (he_state_counts h)),
      (''quarantined_count'', Field_scalar (MInt (he_quarantined_count h))),
      (''skipped_count'', Field_scalar (MInt (he_skipped_count h))),
      (''requires_prerelease_count'', Field_scalar (MInt (he_requires_prerelease_count h))),
      (''wal_bytes'', Field_scalar (MInt (he_wal_bytes h))),
      (''seconds_since_truncate_checkpoint'', Field_scalar (opt_real (he_seconds_since_truncate_checkpoint h))),
      (''consecutive_checkpoint_failures'', Field_scalar (MInt (he_consecutive_checkpoint_failures h))),
      (''longest_read_txn_ms'', Field_scalar (MReal (he_longest_read_txn_ms h))),
      (''read_txn_budget_violations'', Field_scalar (MInt (he_read_txn_budget_violations h))),
      (''db_bytes'', Field_scalar (MInt (he_db_bytes h))),
      (''freelist_count'', Field_scalar (MInt (he_freelist_count h))),
      (''writer_queue_depth'', Field_scalar (MInt (he_writer_queue_depth h))),
      (''writer_failed_ops'', Field_scalar (MInt (he_writer_failed_ops h))),
      (''segments_sealed'', Field_scalar (MInt (he_segments_sealed h))),
      (''segments_open'', Field_scalar (MInt (he_segments_open h))),
      (''open_segment_age_seconds'', Field_scalar (opt_real (he_open_segment_age_seconds h))),
      (''open_segment_bytes'', Field_scalar (MInt (he_open_segment_bytes h))),
      (''unsealed_records'', Field_scalar (MInt (he_unsealed_records h))),
      (''archive_bytes'', Field_scalar (MInt (he_archive_bytes h))),
      (''disk_free_bytes'', Field_scalar (opt_num (he_disk_free_bytes h))),
      (''limiter_global_available'', Field_scalar (MReal (he_limiter_global_available h))),
      (''limiter_children'', records limiter_fields (he_limiter_children h)),
      (''stages'', records stage_fields (he_stages h)),
      (''dependencies'', records dependency_fields (he_dependencies h)),
      (''error_counts_1h'', counts (he_error_counts_1h h)),
      (''error_counts_24h'', counts (he_error_counts_24h h))]"

section \<open>Rendering\<close>

definition METRIC_PREFIX :: string where
  "METRIC_PREFIX = ''reroll_sync_''"

definition COUNTER_FAMILIES :: "string list" where
  "COUNTER_FAMILIES = [''writer_failed_ops'', ''read_txn_budget_violations'', ''segments_sealed'', ''archive_bytes'',
     ''queues_ok_count'', ''queues_skip_count'', ''queues_retry_count'', ''queues_rate_limited_count'',
     ''limiter_children_acquired'', ''limiter_children_denied'']"

definition DEPENDENCY_STATE_CODES :: "(string \<times> int) list" where
  "DEPENDENCY_STATE_CODES = [(''closed'', 0), (''half_open'', 1), (''open'', 2)]"

definition LABEL_NAMES :: "(string \<times> string) list" where
  "LABEL_NAMES = [(''state_counts'', ''state''), (''error_counts_1h'', ''category''), (''error_counts_24h'', ''category''),
     (''queues'', ''stage''), (''stages'', ''stage''), (''dependencies'', ''dependency''), (''limiter_children'', ''child'')]"

definition INNER_LABEL_NAMES :: "((string \<times> string) \<times> string) list" where
  "INNER_LABEL_NAMES = [((''queues'', ''depth_by_lane''), ''lane'')]"

definition dict_get :: "'v \<Rightarrow> ('k \<times> 'v) list \<Rightarrow> 'k \<Rightarrow> 'v" where
  "dict_get d kvs k = (case map_of kvs k of None \<Rightarrow> d | Some v \<Rightarrow> v)"

fun to_numeric :: "metric_value \<Rightarrow> metric_number option" where
  "to_numeric MNone = None"
| "to_numeric (MBool b) = Some (NInt (if b then 1 else 0))"
| "to_numeric (MInt n) = Some (NInt n)"
| "to_numeric (MReal x) = Some (NReal x)"
| "to_numeric MNegInf = Some NNegInf"
| "to_numeric (MStr s) = map_option NInt (map_of DEPENDENCY_STATE_CODES s)"

fun number_text :: "(real \<Rightarrow> string) \<Rightarrow> metric_number \<Rightarrow> string" where
  "number_text repr_float (NInt n) = py_str_int n"
| "number_text repr_float (NReal x) = repr_float x"
| "number_text repr_float NNegInf = ''-inf''"

fun label_text :: "label_value \<Rightarrow> string" where
  "label_text (LStr s) = s"
| "label_text (LInt n) = py_str_int n"

definition label_pair :: "string \<times> label_value \<Rightarrow> string \<times> string" where
  "label_pair l = (fst l, label_text (snd l))"

text \<open>\<^verbatim>\<open>text.replace(c, r)\<close> of a single character.\<close>

definition replace_char :: "char \<Rightarrow> string \<Rightarrow> string \<Rightarrow> string" where
  "replace_char c r s = concat (map (\<lambda>x. if x = c then r else [x]) s)"

definition escape_label_value :: "label_value \<Rightarrow> string" where
  "escape_label_value v =
     replace_char (CHR 0x0A) [CHR 0x5C, CHR ''n'']
       (replace_char (CHR 0x22) [CHR 0x5C, CHR 0x22]
          (replace_char (CHR 0x5C) [CHR 0x5C, CHR 0x5C] (label_text v)))"

definition render_label :: "string \<times> label_value \<Rightarrow> string" where
  "render_label l = fst l @ [CHR ''='', CHR 0x22] @ escape_label_value (snd l) @ [CHR 0x22]"

definition render_labels :: "(string \<times> label_value) list \<Rightarrow> string" where
  "render_labels labels =
     (if labels = [] then [] else ''{'' @ join_with '','' (map render_label labels) @ ''}'')"

text \<open>The state of a rendering: the lines so far and the families whose type was emitted.\<close>

type_synonym rendering = "string list \<times> string list"

definition metric_type :: "string \<Rightarrow> string" where
  "metric_type name = (if name \<in> set COUNTER_FAMILIES then ''counter'' else ''gauge'')"

definition type_line :: "string \<Rightarrow> string" where
  "type_line name = ''# TYPE '' @ METRIC_PREFIX @ name @ '' '' @ metric_type name"

definition sample_line :: "(real \<Rightarrow> string) \<Rightarrow> string \<Rightarrow> (string \<times> label_value) list \<Rightarrow> metric_number \<Rightarrow> string" where
  "sample_line repr_float name labels n =
     METRIC_PREFIX @ name @ render_labels labels @ '' '' @ number_text repr_float n"

definition emit :: "(real \<Rightarrow> string) \<Rightarrow> string \<Rightarrow> metric_value \<Rightarrow> (string \<times> label_value) list \<Rightarrow> rendering \<Rightarrow> rendering" where
  "emit repr_float name v labels st =
     (case to_numeric v of None \<Rightarrow> st
      | Some n \<Rightarrow>
          (case st of (lines, emitted) \<Rightarrow>
             (let st1 = (if METRIC_PREFIX @ name \<in> set emitted then (lines, emitted)
                         else (lines @ [type_line name], (METRIC_PREFIX @ name) # emitted))
              in (fst st1 @ [sample_line repr_float name labels n], snd st1))))"

definition emit_sub :: "(real \<Rightarrow> string) \<Rightarrow> string \<Rightarrow> string \<Rightarrow> label_value \<Rightarrow> string \<times> sub_value \<Rightarrow> rendering \<Rightarrow> rendering" where
  "emit_sub repr_float field label_name key sub =
     (let name = field @ ''_'' @ fst sub
      in case snd sub of
           Sub_mapping kvs \<Rightarrow>
             fold (\<lambda>(k, v). emit repr_float name v
                 [(label_name, key), (dict_get ''item'' INNER_LABEL_NAMES (field, fst sub), k)]) kvs
         | Sub_scalar v \<Rightarrow> emit repr_float name v [(label_name, key)])"

definition render_dataclass_item :: "(real \<Rightarrow> string) \<Rightarrow> string \<Rightarrow> string \<Rightarrow> label_value \<Rightarrow> (string \<times> sub_value) list \<Rightarrow> rendering \<Rightarrow> rendering" where
  "render_dataclass_item repr_float field label_name key subs =
     fold (emit_sub repr_float field label_name key) subs"

definition render_item :: "(real \<Rightarrow> string) \<Rightarrow> string \<Rightarrow> string \<times> item_value \<Rightarrow> rendering \<Rightarrow> rendering" where
  "render_item repr_float field kv =
     (let label_name = dict_get ''key'' LABEL_NAMES field
      in case snd kv of
           Item_record subs \<Rightarrow> render_dataclass_item repr_float field label_name (LStr (fst kv)) subs
         | Item_scalar v \<Rightarrow> emit repr_float field v [(label_name, LStr (fst kv))])"

definition render_mapping :: "(real \<Rightarrow> string) \<Rightarrow> string \<Rightarrow> (string \<times> item_value) list \<Rightarrow> rendering \<Rightarrow> rendering" where
  "render_mapping repr_float field kvs = fold (render_item repr_float field) kvs"

definition render_field :: "(real \<Rightarrow> string) \<Rightarrow> string \<times> field_value \<Rightarrow> rendering \<Rightarrow> rendering" where
  "render_field repr_float f =
     (case snd f of Field_mapping kvs \<Rightarrow> render_mapping repr_float (fst f) kvs
      | Field_scalar v \<Rightarrow> emit repr_float (fst f) v [])"

definition render_metrics :: "(real \<Rightarrow> string) \<Rightarrow> health \<Rightarrow> string" where
  "render_metrics repr_float h =
     join_with newline (fst (fold (render_field repr_float) (health_fields h) ([], []))) @ newline"

section \<open>Reading the text back\<close>

text \<open>A sample: its family, its labels and the text of its number.\<close>

type_synonym sample = "string \<times> (string \<times> string) list \<times> string"

text \<open>The value of a quoted label up to the closing quote, and what follows it.\<close>

fun read_quoted :: "string \<Rightarrow> (string \<times> string) option" where
  "read_quoted [] = None"
| "read_quoted (c # cs) =
     (if c = CHR 0x22 then Some ([], cs)
      else if c = CHR 0x5C
      then (case cs of [] \<Rightarrow> None
            | d # ds \<Rightarrow> map_option (\<lambda>(v, r). ((if d = CHR ''n'' then CHR 0x0A else d) # v, r)) (read_quoted ds))
      else map_option (\<lambda>(v, r). (c # v, r)) (read_quoted cs))"

text \<open>The labels after the opening brace, in at most \<open>fuel\<close> steps.\<close>

fun read_labels :: "nat \<Rightarrow> string \<Rightarrow> ((string \<times> string) list \<times> string) option" where
  "read_labels 0 cs = None"
| "read_labels (Suc fuel) cs =
     (let name = takeWhile (\<lambda>c. c \<noteq> CHR ''='') cs
      in case drop (length name) cs of
           e # q # rest \<Rightarrow>
             (if q \<noteq> CHR 0x22 then None
              else (case read_quoted rest of
                      Some (v, d # rest1) \<Rightarrow>
                        (if d = CHR ''}'' then Some ([(name, v)], rest1)
                         else if d = CHR '','' then map_option (\<lambda>(ls, r). ((name, v) # ls, r)) (read_labels fuel rest1)
                         else None)
                    | _ \<Rightarrow> None))
         | _ \<Rightarrow> None)"

definition name_char :: "char \<Rightarrow> bool" where
  "name_char c = (c \<noteq> CHR '' '' \<and> c \<noteq> CHR ''{'')"

definition read_sample :: "string \<Rightarrow> sample option" where
  "read_sample l =
     (let family = takeWhile name_char l
      in case drop (length family) l of
           [] \<Rightarrow> None
         | c # rest \<Rightarrow>
             (if c = CHR '' '' then Some (family, [], rest)
              else (case read_labels (length rest) rest of
                      Some (ls, d # number) \<Rightarrow> (if d = CHR '' '' then Some (family, ls, number) else None)
                    | _ \<Rightarrow> None)))"

definition read_type :: "string \<Rightarrow> (string \<times> string) option" where
  "read_type l =
     (if take 7 l = ''# TYPE '' then
        (let family = takeWhile name_char (drop 7 l) in Some (family, drop (7 + length family + 1) l))
      else None)"

text \<open>
  The meaning of the text: every sample with the type its family was declared with. A sample of an undeclared
  family and a second declaration of a family are refused.
\<close>

type_synonym reading = "(string \<times> string) list \<times> (string \<times> sample) list"

definition read_line :: "string \<Rightarrow> reading \<Rightarrow> reading option" where
  "read_line l r =
     (case r of (declared, samples) \<Rightarrow>
        (case read_type l of
           Some (family, kind) \<Rightarrow>
             (if map_of declared family \<noteq> None then None else Some ((family, kind) # declared, samples))
         | None \<Rightarrow>
             (case read_sample l of None \<Rightarrow> None
              | Some s \<Rightarrow>
                  (case map_of declared (fst s) of None \<Rightarrow> None
                   | Some kind \<Rightarrow> Some (declared, samples @ [(kind, s)])))))"

fun read_lines :: "string list \<Rightarrow> reading \<Rightarrow> reading option" where
  "read_lines [] r = Some r"
| "read_lines (l # ls) r = (case read_line l r of None \<Rightarrow> None | Some r1 \<Rightarrow> read_lines ls r1)"

function text_lines :: "string \<Rightarrow> string list" where
  "text_lines s =
     (if s = [] then []
      else takeWhile (\<lambda>c. c \<noteq> CHR 0x0A) s # text_lines (drop (length (takeWhile (\<lambda>c. c \<noteq> CHR 0x0A) s) + 1) s))"
  by pat_completeness auto
termination by (relation "measure length") auto

declare text_lines.simps [simp del]

definition read_exposition :: "string \<Rightarrow> (string \<times> sample) list option" where
  "read_exposition s = map_option snd (read_lines (text_lines s) ([], []))"

section \<open>What a snapshot means\<close>

text \<open>Every number of the snapshot with its family and labels, in field order.\<close>

definition sub_values :: "string \<Rightarrow> string \<Rightarrow> string \<Rightarrow> string \<times> sub_value \<Rightarrow> (string \<times> (string \<times> label_value) list \<times> metric_value) list" where
  "sub_values field label_name key sub =
     (let name = field @ ''_'' @ fst sub
      in case snd sub of
           Sub_scalar v \<Rightarrow> [(name, [(label_name, LStr key)], v)]
         | Sub_mapping kvs \<Rightarrow>
             map (\<lambda>(k, v). (name, [(label_name, LStr key), (dict_get ''item'' INNER_LABEL_NAMES (field, fst sub), k)], v)) kvs)"

definition field_values :: "string \<times> field_value \<Rightarrow> (string \<times> (string \<times> label_value) list \<times> metric_value) list" where
  "field_values f =
     (case snd f of
        Field_scalar v \<Rightarrow> [(fst f, [], v)]
      | Field_mapping kvs \<Rightarrow>
          (let label_name = dict_get ''key'' LABEL_NAMES (fst f)
           in concat (map (\<lambda>(key, item).
                case item of Item_scalar v \<Rightarrow> [(fst f, [(label_name, LStr key)], v)]
                | Item_record subs \<Rightarrow> concat (map (sub_values (fst f) label_name key) subs)) kvs)))"

definition health_values :: "health \<Rightarrow> (string \<times> (string \<times> label_value) list \<times> metric_value) list" where
  "health_values h = concat (map field_values (health_fields h))"

definition sample_of :: "(real \<Rightarrow> string) \<Rightarrow> string \<times> (string \<times> label_value) list \<times> metric_value \<Rightarrow> (string \<times> sample) list" where
  "sample_of repr_float v =
     (case v of (name, labels, x) \<Rightarrow>
        (case to_numeric x of None \<Rightarrow> []
         | Some n \<Rightarrow> [(metric_type name, METRIC_PREFIX @ name, map label_pair labels, number_text repr_float n)]))"

definition health_samples :: "(real \<Rightarrow> string) \<Rightarrow> health \<Rightarrow> (string \<times> sample) list" where
  "health_samples repr_float h = concat (map (sample_of repr_float) (health_values h))"

section \<open>Rendering is one emission per value\<close>

definition emit_value :: "(real \<Rightarrow> string) \<Rightarrow> string \<times> (string \<times> label_value) list \<times> metric_value \<Rightarrow> rendering \<Rightarrow> rendering" where
  "emit_value repr_float v = (case v of (name, labels, x) \<Rightarrow> emit repr_float name x labels)"

lemma fold_concat_map: "fold f (concat (map g xs)) = fold (\<lambda>x. fold f (g x)) xs"
  by (induction xs) simp_all

lemma emit_sub_values: "emit_sub repr_float field label_name (LStr key) sub = fold (emit_value repr_float) (sub_values field label_name key sub)"
  by (cases sub; cases "snd sub") (simp_all add: emit_sub_def sub_values_def emit_value_def fold_map comp_def split_def Let_def)

lemma render_field_values: "render_field repr_float f = fold (emit_value repr_float) (field_values f)"
proof (cases "snd f")
  case (Field_scalar v)
  then show ?thesis by (simp add: render_field_def field_values_def emit_value_def)
next
  case (Field_mapping kvs)
  let ?vals = "\<lambda>(key, item). case item of Item_scalar v \<Rightarrow> [(fst f, [(dict_get ''key'' LABEL_NAMES (fst f), LStr key)], v)]
      | Item_record subs \<Rightarrow> concat (map (sub_values (fst f) (dict_get ''key'' LABEL_NAMES (fst f)) key) subs)"
  have "render_item repr_float (fst f) kv = fold (emit_value repr_float) (?vals kv)" for kv
    by (cases kv; cases "snd kv")
      (simp_all add: render_item_def render_dataclass_item_def Let_def emit_value_def fold_concat_map emit_sub_values [abs_def])
  then have "render_item repr_float (fst f) = (\<lambda>kv. fold (emit_value repr_float) (?vals kv))" by (rule ext)
  then show ?thesis
    by (simp only: render_field_def field_values_def Field_mapping render_mapping_def Let_def fold_concat_map field_value.case)
qed

lemma render_values: "fold (render_field repr_float) (health_fields h) st = fold (emit_value repr_float) (health_values h) st"
  by (simp add: health_values_def fold_concat_map render_field_values [abs_def])

section \<open>Reading what was rendered\<close>

definition esc_char :: "char \<Rightarrow> string" where
  "esc_char c = (if c = CHR 0x5C then [CHR 0x5C, CHR 0x5C] else if c = CHR 0x22 then [CHR 0x5C, CHR 0x22]
     else if c = CHR 0x0A then [CHR 0x5C, CHR ''n''] else [c])"

lemma escape_chars: "escape_label_value v = concat (map esc_char (label_text v))"
proof -
  have "replace_char (CHR 0x0A) [CHR 0x5C, CHR ''n''] (replace_char (CHR 0x22) [CHR 0x5C, CHR 0x22]
          (replace_char (CHR 0x5C) [CHR 0x5C, CHR 0x5C] s)) = concat (map esc_char s)" for s
    by (induction s) (auto simp: replace_char_def esc_char_def)
  then show ?thesis by (simp add: escape_label_value_def)
qed

lemma read_quoted_escape: "read_quoted (concat (map esc_char s) @ CHR 0x22 # rest) = Some (s, rest)"
  by (induction s) (auto simp: esc_char_def)

lemma label_no_newline: "CHR 0x0A \<notin> set (concat (map esc_char s))"
  by (induction s) (auto simp: esc_char_def)

definition label_name_ok :: "string \<Rightarrow> bool" where
  "label_name_ok name = list_all (\<lambda>c. c \<noteq> CHR ''='' \<and> c \<noteq> CHR 0x0A) name"

lemma takeWhile_stop: "list_all p xs \<Longrightarrow> \<not> p y \<Longrightarrow> takeWhile p (xs @ y # ys) = xs"
  by (induction xs) auto

lemma read_rendered_labels:
  assumes "labels \<noteq> []" and "list_all (label_name_ok \<circ> fst) labels" and "length labels \<le> fuel"
  shows "read_labels fuel (join_with '','' (map render_label labels) @ CHR ''}'' # rest) = Some (map label_pair labels, rest)"
  using assms
proof (induction labels arbitrary: fuel)
  case (Cons l labels)
  obtain name v where l: "l = (name, v)" by (cases l)
  obtain k where k: "fuel = Suc k" using Cons.prems(3) by (cases fuel) auto
  have ok: "list_all (\<lambda>c. c \<noteq> CHR ''='') name" using Cons.prems(2) by (auto simp: l label_name_ok_def list_all_iff)
  have tw: "takeWhile (\<lambda>c. c \<noteq> CHR ''='') (name @ CHR ''='' # t) = name" for t
    by (rule takeWhile_stop [OF ok]) simp
  have as_text: "render_label l = name @ CHR ''='' # CHR 0x22 # concat (map esc_char (label_text v)) @ [CHR 0x22]"
    "label_pair l = (name, label_text v)" by (simp_all add: l render_label_def escape_chars label_pair_def)
  show ?case
  proof (cases labels)
    case Nil
    then show ?thesis by (simp add: k as_text tw read_quoted_escape)
  next
    case (Cons m ms)
    have "read_labels k (join_with '','' (map render_label labels) @ CHR ''}'' # rest) = Some (map label_pair labels, rest)"
      using Cons.IH Cons.prems by (simp add: k Cons)
    then show ?thesis by (simp add: k as_text tw read_quoted_escape Cons)
  qed
qed simp

definition metric_name_ok :: "string \<Rightarrow> bool" where
  "metric_name_ok name = list_all (\<lambda>c. name_char c \<and> c \<noteq> CHR 0x0A) name"

lemma family_ok: "metric_name_ok name \<Longrightarrow> list_all name_char (METRIC_PREFIX @ name)"
  by (auto simp: metric_name_ok_def METRIC_PREFIX_def name_char_def list_all_iff)

lemma labels_shorter: "length labels \<le> length (join_with '','' (map render_label labels))"
proof (induction labels)
  case (Cons l labels)
  then show ?case by (cases labels) (simp_all add: render_label_def)
qed simp

lemma read_sample_line:
  assumes "metric_name_ok name" and "list_all (label_name_ok \<circ> fst) labels"
  shows "read_sample (sample_line repr_float name labels n)
    = Some (METRIC_PREFIX @ name, map label_pair labels, number_text repr_float n)"
proof (cases "labels = []")
  case True
  have "takeWhile name_char ((METRIC_PREFIX @ name) @ CHR '' '' # t) = METRIC_PREFIX @ name" for t
    by (rule takeWhile_stop [OF family_ok [OF assms(1)]]) (simp add: name_char_def)
  then show ?thesis using True by (simp add: read_sample_def sample_line_def render_labels_def)
next
  case False
  let ?rest = "join_with '','' (map render_label labels) @ CHR ''}'' # CHR '' '' # number_text repr_float n"
  have "takeWhile name_char ((METRIC_PREFIX @ name) @ CHR ''{'' # t) = METRIC_PREFIX @ name" for t
    by (rule takeWhile_stop [OF family_ok [OF assms(1)]]) (simp add: name_char_def)
  moreover have "read_labels (length ?rest) ?rest = Some (map label_pair labels, CHR '' '' # number_text repr_float n)"
    using labels_shorter [of labels] by (intro read_rendered_labels [OF False assms(2)]) simp
  ultimately show ?thesis using False by (simp add: read_sample_def sample_line_def render_labels_def)
qed

lemma read_type_line: "metric_name_ok name \<Longrightarrow> read_type (type_line name) = Some (METRIC_PREFIX @ name, metric_type name)"
proof -
  assume ok: "metric_name_ok name"
  have "takeWhile name_char ((METRIC_PREFIX @ name) @ CHR '' '' # t) = METRIC_PREFIX @ name" for t
    by (rule takeWhile_stop [OF family_ok [OF ok]]) (simp add: name_char_def)
  then show ?thesis by (simp add: read_type_def type_line_def numeral_eq_Suc)
qed

lemma sample_line_no_type: "read_type (sample_line repr_float name labels n) = None"
  by (simp add: read_type_def sample_line_def METRIC_PREFIX_def numeral_eq_Suc)

definition one_line :: "string \<Rightarrow> bool" where
  "one_line l = (CHR 0x0A \<notin> set l)"

lemma text_lines_cons: "one_line l \<Longrightarrow> text_lines (l @ CHR 0x0A # s) = l # text_lines s"
proof -
  assume "one_line l"
  then have "list_all (\<lambda>c. c \<noteq> CHR 0x0A) l" by (auto simp: one_line_def list_all_iff)
  then have "takeWhile (\<lambda>c. c \<noteq> CHR 0x0A) (l @ CHR 0x0A # s) = l" by (rule takeWhile_stop) simp
  then show ?thesis by (subst text_lines.simps) simp
qed

lemma text_lines_join: "ls \<noteq> [] \<Longrightarrow> list_all one_line ls \<Longrightarrow> text_lines (join_with newline ls @ newline) = ls"
proof (induction ls rule: induct_list012)
  case (2 x)
  then show ?case by (simp add: newline_def text_lines_cons) (simp add: text_lines.simps [of "[]"])
next
  case (3 x y zs)
  then show ?case by (simp add: newline_def text_lines_cons)
qed simp

section \<open>The meaning of a rendering\<close>

lemma lead_digit_char: "m < 10 \<Longrightarrow> char_of (48 + m :: nat) \<noteq> CHR 0x0A"
proof
  assume m: "m < 10" and "char_of (48 + m :: nat) = CHR 0x0A"
  then have "of_char (char_of (48 + m :: nat) :: char) = (of_char (CHR 0x0A) :: nat)" by simp
  then have "(48 + m) mod 256 = (10 :: nat)" by (simp only: of_char_of of_char_Char) simp
  then show False using m by simp
qed

lemma nat_digits_one_line: "CHR 0x0A \<notin> set (nat_digits n)"
proof (induction n rule: nat_digits.induct)
  case (1 n)
  show ?case
  proof (cases "n < 10")
    case True
    then show ?thesis using lead_digit_char [of n] by (subst nat_digits.simps) simp
  next
    case False
    then show ?thesis using 1 lead_digit_char [of "n mod 10"] by (subst nat_digits.simps) simp
  qed
qed

lemma number_one_line: "(\<And>x. one_line (repr_float x)) \<Longrightarrow> one_line (number_text repr_float n)"
  by (cases n) (auto simp: one_line_def py_str_int_def nat_digits_one_line)

lemma join_one_line: "one_line sep \<Longrightarrow> list_all one_line xs \<Longrightarrow> one_line (join_with sep xs)"
  by (induction xs rule: join_with.induct [of _ sep]) (auto simp: one_line_def)

lemma labels_one_line: "list_all (label_name_ok \<circ> fst) labels \<Longrightarrow> one_line (render_labels labels)"
proof -
  have one: "one_line (render_label l)" if "label_name_ok (fst l)" for l
    using that label_no_newline [of "label_text (snd l)"] unfolding render_label_def escape_chars
    by (simp del: set_concat add: one_line_def label_name_ok_def list_all_iff) blast
  assume "list_all (label_name_ok \<circ> fst) labels"
  then have "list_all one_line (map render_label labels)" using one by (simp add: list_all_iff)
  then have "one_line (join_with '','' (map render_label labels))" by (intro join_one_line) (simp_all add: one_line_def)
  then show ?thesis by (simp add: render_labels_def one_line_def)
qed

lemma name_one_line: "metric_name_ok name \<Longrightarrow> one_line name"
  by (auto simp: metric_name_ok_def one_line_def list_all_iff)

lemma type_one_line: "metric_name_ok name \<Longrightarrow> one_line (type_line name)"
  using name_one_line [of name] by (simp add: type_line_def one_line_def METRIC_PREFIX_def metric_type_def)

lemma sample_one_line:
  assumes "metric_name_ok name" and "list_all (label_name_ok \<circ> fst) labels" and "\<And>x. one_line (repr_float x)"
  shows "one_line (sample_line repr_float name labels n)"
  using name_one_line [OF assms(1)] labels_one_line [OF assms(2)] number_one_line [OF assms(3), where n = n]
  by (simp add: sample_line_def one_line_def METRIC_PREFIX_def)

definition value_ok :: "string \<times> (string \<times> label_value) list \<times> metric_value \<Rightarrow> bool" where
  "value_ok v = (case v of (name, labels, x) \<Rightarrow> metric_name_ok name \<and> list_all (label_name_ok \<circ> fst) labels)"

text \<open>The lines so far are read as the samples so far, and the families known are the declared ones.\<close>

definition means :: "rendering \<Rightarrow> (string \<times> sample) list \<Rightarrow> bool" where
  "means st samples \<longleftrightarrow> list_all one_line (fst st)
     \<and> (\<exists>declared. read_lines (fst st) ([], []) = Some (declared, samples) \<and> set (map fst declared) = set (snd st)
          \<and> (\<forall>name kind. map_of declared (METRIC_PREFIX @ name) = Some kind \<longrightarrow> kind = metric_type name))"

lemma read_lines_append: "read_lines (xs @ ys) r = (case read_lines xs r of None \<Rightarrow> None | Some r1 \<Rightarrow> read_lines ys r1)"
  by (induction xs arbitrary: r) (auto split: option.splits)

lemma emit_means:
  assumes "means st samples" and "value_ok v" and "\<And>x. one_line (repr_float x)"
  shows "means (emit_value repr_float v st) (samples @ sample_of repr_float v)"
proof -
  obtain name labels x where v: "v = (name, labels, x)" by (cases v)
  obtain lines emitted where st: "st = (lines, emitted)" by (cases st)
  have ok: "metric_name_ok name" "list_all (label_name_ok \<circ> fst) labels" using assms(2) by (simp_all add: value_ok_def v)
  obtain declared where d: "read_lines lines ([], []) = Some (declared, samples)" "fst ` set declared = set emitted"
    "\<And>n k. map_of declared (METRIC_PREFIX @ n) = Some k \<Longrightarrow> k = metric_type n" and one: "list_all one_line lines"
    using assms(1) by (auto simp: means_def st)
  note lines_ok = one type_one_line [OF ok(1)] sample_one_line [OF ok assms(3)]
  note reads = read_lines_append d(1) read_line_def read_type_line [OF ok(1)] read_sample_line [OF ok] sample_line_no_type
  show ?thesis
  proof (cases "to_numeric x")
    case None
    then show ?thesis using assms(1) by (simp add: emit_value_def emit_def sample_of_def v)
  next
    case (Some n)
    show ?thesis
    proof (cases "METRIC_PREFIX @ name \<in> set emitted")
      case True
      then obtain k where k: "map_of declared (METRIC_PREFIX @ name) = Some k"
        using d(2) by (metis map_of_eq_None_iff option.exhaust)
      then show ?thesis using True Some d(2,3) lines_ok
        by (auto simp: means_def emit_value_def emit_def sample_of_def v st reads)
    next
      case False
      then have "map_of declared (METRIC_PREFIX @ name) = None" using d(2) by (simp add: map_of_eq_None_iff)
      then show ?thesis using False Some d(2,3) lines_ok
        by (auto simp: means_def emit_value_def emit_def sample_of_def v st reads split: if_splits)
    qed
  qed
qed

lemma render_means:
  assumes "\<And>x. one_line (repr_float x)"
  shows "list_all value_ok vs \<Longrightarrow> means st samples
    \<Longrightarrow> means (fold (emit_value repr_float) vs st) (samples @ concat (map (sample_of repr_float) vs))"
proof (induction vs arbitrary: st samples)
  case (Cons v vs)
  have "means (emit_value repr_float v st) (samples @ sample_of repr_float v)"
    by (rule emit_means) (use Cons.prems assms in simp_all)
  from Cons.IH [OF _ this] show ?case using Cons.prems(1) by simp
qed simp

lemma emit_keeps_lines: "fst st \<noteq> [] \<Longrightarrow> fst (fold (emit_value repr_float) vs st) \<noteq> []"
  by (induction vs arbitrary: st) (simp_all add: emit_value_def emit_def split_beta Let_def split: option.split)

section \<open>The names of a snapshot\<close>

definition subs_ok :: "string \<Rightarrow> (string \<times> sub_value) list \<Rightarrow> bool" where
  "subs_ok field subs = list_all (\<lambda>s. metric_name_ok (field @ ''_'' @ fst s)) subs"

definition field_ok :: "string \<times> field_value \<Rightarrow> bool" where
  "field_ok f = (metric_name_ok (fst f) \<and> (case snd f of Field_scalar v \<Rightarrow> True
     | Field_mapping kvs \<Rightarrow> list_all (\<lambda>kv. case snd kv of Item_scalar v \<Rightarrow> True | Item_record subs \<Rightarrow> subs_ok (fst f) subs) kvs))"

lemma dict_get_ok: "p d \<Longrightarrow> list_all (p \<circ> snd) kvs \<Longrightarrow> p (dict_get d kvs k)"
  by (auto simp: dict_get_def list_all_iff split: option.split dest!: map_of_SomeD)

lemma label_names_ok: "label_name_ok (dict_get ''key'' LABEL_NAMES f)" "label_name_ok (dict_get ''item'' INNER_LABEL_NAMES g)"
  by (rule dict_get_ok; simp add: label_name_ok_def LABEL_NAMES_def INNER_LABEL_NAMES_def)+

lemma sub_values_ok: "metric_name_ok (f @ ''_'' @ fst sub) \<Longrightarrow> label_name_ok l \<Longrightarrow> list_all value_ok (sub_values f l key sub)"
  by (cases "snd sub") (auto simp: sub_values_def value_ok_def list_all_iff Let_def label_names_ok)

lemma field_values_ok: "field_ok f \<Longrightarrow> list_all value_ok (field_values f)"
proof (cases "snd f")
  case (Field_mapping kvs)
  assume ok: "field_ok f"
  have "list_all value_ok (case kv of (key, item) \<Rightarrow> case item of
        Item_scalar v \<Rightarrow> [(fst f, [(dict_get ''key'' LABEL_NAMES (fst f), LStr key)], v)]
      | Item_record subs \<Rightarrow> concat (map (sub_values (fst f) (dict_get ''key'' LABEL_NAMES (fst f)) key) subs))"
    if kv: "kv \<in> set kvs" for kv
  proof (cases "snd kv")
    case (Item_record subs)
    then have "subs_ok (fst f) subs" using ok kv by (auto simp: field_ok_def Field_mapping list_all_iff)
    then have "list_all value_ok (sub_values (fst f) (dict_get ''key'' LABEL_NAMES (fst f)) (fst kv) sub)" if "sub \<in> set subs" for sub
      using that by (intro sub_values_ok label_names_ok) (simp add: subs_ok_def list_all_iff)
    then show ?thesis by (auto simp: Item_record list_all_iff split_beta)
  qed (use ok in \<open>simp add: field_ok_def value_ok_def label_names_ok split_beta\<close>)
  then show ?thesis by (fastforce simp: field_values_def Field_mapping Let_def list_all_iff)
qed (simp add: field_ok_def field_values_def value_ok_def)

lemma health_fields_ok: "list_all field_ok (health_fields h)"
proof -
  have records: "field_ok (f, records view d)" if "metric_name_ok f" "\<And>r. subs_ok f (view r)" for f d and view :: "'r \<Rightarrow> _"
    using that by (auto simp: field_ok_def records_def list_all_iff)
  have counts: "field_ok (f, counts d)" if "metric_name_ok f" for f d
    using that by (auto simp: field_ok_def counts_def list_all_iff)
  have scalar: "field_ok (f, Field_scalar v) = metric_name_ok f" for f v by (simp add: field_ok_def)
  show ?thesis unfolding health_fields_def list.pred_inject
    by (intro conjI records counts) (simp_all add: scalar metric_name_ok_def name_char_def subs_ok_def queue_fields_def stage_fields_def
        dependency_fields_def limiter_fields_def split_beta)
qed

lemma health_values_ok: "list_all value_ok (health_values h)"
  using health_fields_ok [of h] field_values_ok by (fastforce simp: health_values_def list_all_iff)

lemma health_values_nonempty: "\<exists>vs. health_values h = (''snapshot_at'', [], MReal (he_snapshot_at h)) # vs"
  by (simp add: health_values_def health_fields_def field_values_def)

text \<open>
  C30. The text of a scrape can be read back: it gives exactly the numbers of the snapshot, in order, each with its
  labels and the type its family was declared with. No name of a project, stage or error category can break a
  line or forge a label, and every family is declared exactly once, before its first sample.
\<close>

theorem metrics_round_trip:
  assumes "\<forall>x. one_line (repr_float x)"
  shows "read_exposition (render_metrics repr_float h) = Some (health_samples repr_float h)"
proof -
  let ?st = "fold (emit_value repr_float) (health_values h) ([], [])"
  have "means ([], []) []" by (simp add: means_def)
  from render_means [OF _ health_values_ok this, of repr_float h] assms
  have m: "means ?st (health_samples repr_float h)" by (simp add: health_samples_def)
  obtain vs where "health_values h = (''snapshot_at'', [], MReal (he_snapshot_at h)) # vs" using health_values_nonempty by blast
  then have "fst ?st \<noteq> []" by (simp add: emit_value_def emit_def emit_keeps_lines)
  then have "text_lines (render_metrics repr_float h) = fst ?st"
    using m text_lines_join by (simp add: render_metrics_def render_values means_def)
  then show ?thesis using m by (auto simp: read_exposition_def means_def)
qed

theorem metrics_round_trip_witness:
  "\<exists>h. read_exposition (render_metrics (\<lambda>_. ''0.5'') h) = Some (health_samples (\<lambda>_. ''0.5'') h)"
  using metrics_round_trip [of "\<lambda>_. ''0.5''"] by (simp add: one_line_def)


text \<open>
  The samples of one family are not in one group, as the text format demands: as soon as two stages run, the
  other families of the first stage come between the two samples of \<^verbatim>\<open>reroll_sync_stages_paused\<close>.
\<close>

theorem metrics_families_interleave:
  assumes "he_stages h = (a, s) # (b, t) # others"
  shows "\<exists>before x between y rest. health_samples repr_float h = before @ x # between @ y # rest
    \<and> fst (snd x) = ''reroll_sync_stages_paused'' \<and> fst (snd y) = ''reroll_sync_stages_paused''
    \<and> ''reroll_sync_stages_consecutive_failures'' \<in> (fst \<circ> snd) ` set between"
proof -
  have "(''stages'', records stage_fields (he_stages h)) \<in> set (health_fields h)" by (simp add: health_fields_def)
  then obtain pf qf where split: "health_fields h = pf @ (''stages'', records stage_fields (he_stages h)) # qf"
    using split_list by fastforce
  let ?smp = "\<lambda>fs. concat (map (sample_of repr_float) (concat (map field_values fs)))"
  have vals: "field_values (''stages'', records stage_fields (he_stages h)) =
      concat (map (sub_values ''stages'' ''stage'' a) (stage_fields s)) @ concat (map (sub_values ''stages'' ''stage'' b) (stage_fields t))
      @ concat (map (\<lambda>(k, r). concat (map (sub_values ''stages'' ''stage'' k) (stage_fields r))) others)"
    by (simp add: field_values_def records_def assms dict_get_def LABEL_NAMES_def comp_def split_def Let_def)
  have one: "\<exists>x between. concat (map (sample_of repr_float) (concat (map (sub_values ''stages'' ''stage'' k) (stage_fields r)))) = x # between
      \<and> fst (snd x) = ''reroll_sync_stages_paused'' \<and> ''reroll_sync_stages_consecutive_failures'' \<in> (fst \<circ> snd) ` set between" for k r
    by (simp add: stage_fields_def sub_values_def sample_of_def METRIC_PREFIX_def)
  obtain x between where x: "concat (map (sample_of repr_float) (concat (map (sub_values ''stages'' ''stage'' a) (stage_fields s)))) = x # between"
    "fst (snd x) = ''reroll_sync_stages_paused''" "''reroll_sync_stages_consecutive_failures'' \<in> (fst \<circ> snd) ` set between"
    using one [of a s] by (elim exE conjE) (rule that)
  obtain y rest where y: "concat (map (sample_of repr_float) (concat (map (sub_values ''stages'' ''stage'' b) (stage_fields t)))) = y # rest"
    "fst (snd y) = ''reroll_sync_stages_paused''"
    using one [of b t] by (elim exE conjE) (rule that)
  show ?thesis
    by (rule exI [of _ "?smp pf"], rule exI [of _ x], rule exI [of _ between], rule exI [of _ y])
      (use x y in \<open>simp add: health_samples_def health_values_def split vals\<close>)
qed

theorem metrics_families_interleave_witness:
  "\<exists>h before x between y rest. health_samples (\<lambda>_. ''0.5'') h = before @ x # between @ y # rest
    \<and> fst (snd x) = ''reroll_sync_stages_paused'' \<and> fst (snd y) = ''reroll_sync_stages_paused''"
proof -
  let ?s = "\<lparr>sh_paused = False, sh_last_run_at = None, sh_last_success_at = None, sh_consecutive_failures = 0\<rparr>"
  have "he_stages (h\<lparr>he_stages := [(''fetch'', ?s), (''gc'', ?s)]\<rparr>) = [(''fetch'', ?s), (''gc'', ?s)]" for h by simp
  from metrics_families_interleave [OF this, where repr_float = "\<lambda>_. ''0.5''"] show ?thesis by blast
qed

end
