(* ===== verification/Json.thy ===== *)
theory Json
  imports Pypi_Client Archive_Store Convert
begin

text \<open>
  The part of Python's \<^verbatim>\<open>json\<close> module the control protocol uses: \<^verbatim>\<open>json.dumps(v).encode("utf-8")\<close>
  and \<^verbatim>\<open>json.loads(line)\<close> on bytes. A text is its UTF-8 bytes; the printer writes every character outside
  printable ASCII as an escape. \<open>repr_float\<close> and \<open>float_of\<close> are Python's conversions between a \<^verbatim>\<open>float\<close> and its
  literal, the constants \<^verbatim>\<open>NaN\<close> and \<^verbatim>\<open>Infinity\<close> included. Documents are taken to be UTF-8; where \<^verbatim>\<open>json.loads\<close> raises
  \<^verbatim>\<open>ValueError\<close> the result is \<^const>\<open>None\<close>.
\<close>

section \<open>Printing\<close>

text \<open>The code points of a UTF-8 text.\<close>

definition code_of :: "char \<Rightarrow> nat" where
  "code_of c = of_char c"

fun code_points :: "string \<Rightarrow> nat list" where
  "code_points [] = []"
| "code_points (a # s) =
     (if code_of a < 0x80 then code_of a # code_points s
      else if code_of a < 0xE0
      then (case s of b # t \<Rightarrow> ((code_of a - 0xC0) * 64 + (code_of b - 0x80)) # code_points t | _ \<Rightarrow> [])
      else if code_of a < 0xF0
      then (case s of b # c # t \<Rightarrow>
              ((code_of a - 0xE0) * 4096 + (code_of b - 0x80) * 64 + (code_of c - 0x80)) # code_points t | _ \<Rightarrow> [])
      else (case s of b # c # d # t \<Rightarrow>
              ((code_of a - 0xF0) * 262144 + (code_of b - 0x80) * 4096 + (code_of c - 0x80) * 64 + (code_of d - 0x80))
              # code_points t | _ \<Rightarrow> []))"

definition hex4 :: "nat \<Rightarrow> string" where
  "hex4 n = [CHR 0x5C, CHR ''u'', lower_hex_digit (n div 4096 mod 16), lower_hex_digit (n div 256 mod 16),
     lower_hex_digit (n div 16 mod 16), lower_hex_digit (n mod 16)]"

definition SIMPLE_ESCAPES :: "(char \<times> char) list" where
  "SIMPLE_ESCAPES = [(CHR 0x22, CHR 0x22), (CHR 0x5C, CHR 0x5C), (CHR ''/'', CHR ''/''), (CHR ''b'', CHR 0x08),
     (CHR ''f'', CHR 0x0C), (CHR ''n'', CHR 0x0A), (CHR ''r'', CHR 0x0D), (CHR ''t'', CHR 0x09)]"

definition escape_point :: "nat \<Rightarrow> string" where
  "escape_point n =
     (if n = 0x22 then [CHR 0x5C, CHR 0x22] else if n = 0x5C then [CHR 0x5C, CHR 0x5C]
      else if n = 0x0A then [CHR 0x5C, CHR ''n''] else if n = 0x0D then [CHR 0x5C, CHR ''r'']
      else if n = 0x09 then [CHR 0x5C, CHR ''t''] else if n = 0x0C then [CHR 0x5C, CHR ''f'']
      else if n = 0x08 then [CHR 0x5C, CHR ''b'']
      else if 32 \<le> n \<and> n \<le> 126 then [char_of n]
      else if n < 0x10000 then hex4 n
      else hex4 (0xD800 + (n - 0x10000) div 1024) @ hex4 (0xDC00 + (n - 0x10000) mod 1024))"

definition dumps_string :: "string \<Rightarrow> string" where
  "dumps_string s = CHR 0x22 # concat (map escape_point (code_points s)) @ [CHR 0x22]"

fun json_dumps :: "(real \<Rightarrow> string) \<Rightarrow> json \<Rightarrow> string" where
  "json_dumps rf JNull = ''null''"
| "json_dumps rf (JBool b) = (if b then ''true'' else ''false'')"
| "json_dumps rf (JInt n) = py_str_int n"
| "json_dumps rf (JReal x) = rf x"
| "json_dumps rf (JStr s) = dumps_string s"
| "json_dumps rf (JList vs) = ''['' @ join_with '', '' (map (json_dumps rf) vs) @ '']''"
| "json_dumps rf (JObj kvs) =
     ''{'' @ join_with '', '' (map (\<lambda>kv. dumps_string (fst kv) @ '': '' @ json_dumps rf (snd kv)) kvs) @ ''}''"

section \<open>Reading strings\<close>

text \<open>A piece of a string literal: a byte of the text or an escaped UTF-16 unit.\<close>

datatype text_unit = Byte char | Unit16 nat

definition hex_digit_value :: "char \<Rightarrow> nat option" where
  "hex_digit_value c =
     (let n = code_of c in
      if 48 \<le> n \<and> n \<le> 57 then Some (n - 48) else if 97 \<le> n \<and> n \<le> 102 then Some (n - 87)
      else if 65 \<le> n \<and> n \<le> 70 then Some (n - 55) else None)"

definition hex4_value :: "char \<Rightarrow> char \<Rightarrow> char \<Rightarrow> char \<Rightarrow> nat option" where
  "hex4_value a b c d =
     (case (hex_digit_value a, hex_digit_value b, hex_digit_value c, hex_digit_value d) of
        (Some i, Some j, Some k, Some l) \<Rightarrow> Some (i * 4096 + j * 256 + k * 16 + l) | _ \<Rightarrow> None)"

definition prepend :: "'a \<Rightarrow> 'a list \<times> 'b \<Rightarrow> 'a list \<times> 'b" where
  "prepend x r = (x # fst r, snd r)"

text \<open>A string literal after its opening quote, and what follows the closing one.\<close>

fun scan_string :: "string \<Rightarrow> (text_unit list \<times> string) option" where
  "scan_string [] = None"
| "scan_string (c # cs) =
     (if c = CHR 0x22 then Some ([], cs)
      else if c = CHR 0x5C
      then (case cs of [] \<Rightarrow> None
            | d # ds \<Rightarrow>
                if d = CHR ''u''
                then (case ds of h1 # h2 # h3 # h4 # rest \<Rightarrow>
                        (case hex4_value h1 h2 h3 h4 of None \<Rightarrow> None
                         | Some n \<Rightarrow> map_option (prepend (Unit16 n)) (scan_string rest))
                      | _ \<Rightarrow> None)
                else (case map_of SIMPLE_ESCAPES d of None \<Rightarrow> None
                      | Some x \<Rightarrow> map_option (prepend (Byte x)) (scan_string ds)))
      else if code_of c < 32 then None
      else map_option (prepend (Byte c)) (scan_string cs))"

definition utf8 :: "nat \<Rightarrow> string" where
  "utf8 n =
     (if n < 0x80 then [char_of n]
      else if n < 0x800 then [char_of (0xC0 + n div 64), char_of (0x80 + n mod 64)]
      else if n < 0x10000 then [char_of (0xE0 + n div 4096), char_of (0x80 + n div 64 mod 64), char_of (0x80 + n mod 64)]
      else [char_of (0xF0 + n div 262144), char_of (0x80 + n div 4096 mod 64), char_of (0x80 + n div 64 mod 64),
            char_of (0x80 + n mod 64)])"

definition high_surrogate :: "nat \<Rightarrow> bool" where
  "high_surrogate n = (0xD800 \<le> n \<and> n \<le> 0xDBFF)"

definition low_surrogate :: "nat \<Rightarrow> bool" where
  "low_surrogate n = (0xDC00 \<le> n \<and> n \<le> 0xDFFF)"

fun units_text :: "text_unit list \<Rightarrow> string" where
  "units_text [] = []"
| "units_text (Byte c # us) = c # units_text us"
| "units_text (Unit16 a # Unit16 b # us) =
     (if high_surrogate a \<and> low_surrogate b
      then utf8 (0x10000 + (a - 0xD800) * 1024 + (b - 0xDC00)) @ units_text us
      else utf8 a @ units_text (Unit16 b # us))"
| "units_text (Unit16 a # us) = utf8 a @ units_text us"

section \<open>Reading numbers\<close>

definition digits_prefix :: "string \<Rightarrow> string" where
  "digits_prefix s = takeWhile is_digit s"

text \<open>\<^verbatim>\<open>(\.\d+)?\<close> and \<^verbatim>\<open>([eE][-+]?\d+)?\<close>.\<close>

definition scan_fraction :: "string \<Rightarrow> string" where
  "scan_fraction s = (case s of c # t \<Rightarrow> if c = CHR ''.'' \<and> digits_prefix t \<noteq> [] then c # digits_prefix t else [] | [] \<Rightarrow> [])"

definition scan_exponent :: "string \<Rightarrow> string" where
  "scan_exponent s =
     (case s of [] \<Rightarrow> []
      | c # t \<Rightarrow>
          if c = CHR ''e'' \<or> c = CHR ''E''
          then (let sgn = takeWhile (\<lambda>d. d = CHR ''-'' \<or> d = CHR ''+'') (take 1 t);
                    ds = digits_prefix (drop (length sgn) t)
                in if ds = [] then [] else c # sgn @ ds)
          else [])"

definition scan_integer :: "string \<Rightarrow> string" where
  "scan_integer s = (case s of [] \<Rightarrow> [] | c # t \<Rightarrow> if c = CHR ''0'' then [c] else digits_prefix s)"

text \<open>\<^verbatim>\<open>sys.get_int_max_str_digits()\<close>: a longer integer literal raises \<^verbatim>\<open>ValueError\<close>.\<close>

definition INT_MAX_STR_DIGITS :: nat where
  "INT_MAX_STR_DIGITS = 4300"

definition scan_number :: "(string \<Rightarrow> real) \<Rightarrow> string \<Rightarrow> (json \<times> string) option" where
  "scan_number float_of s =
     (let sgn = takeWhile (\<lambda>c. c = CHR ''-'') (take 1 s); s1 = drop (length sgn) s;
          int_part = scan_integer s1; s2 = drop (length int_part) s1;
          frac = scan_fraction s2; s3 = drop (length frac) s2;
          expo = scan_exponent s3; s4 = drop (length expo) s3
      in if int_part = [] then None
         else if frac = [] \<and> expo = []
         then (if INT_MAX_STR_DIGITS < length int_part then None
               else Some (JInt (if sgn = [] then digits_value int_part else - digits_value int_part), s4))
         else Some (JReal (float_of (sgn @ int_part @ frac @ expo)), s4))"

section \<open>Tokens\<close>

datatype json_token = Punct char | Atom json

definition LITERALS :: "(string \<times> json) list" where
  "LITERALS = [(''null'', JNull), (''true'', JBool True), (''false'', JBool False)]"

definition FLOAT_CONSTANTS :: "string list" where
  "FLOAT_CONSTANTS = [''NaN'', ''Infinity'', ''-Infinity'']"

definition prefixed :: "string \<Rightarrow> string \<Rightarrow> bool" where
  "prefixed p s = (take (length p) s = p)"

definition scan_atom :: "(string \<Rightarrow> real) \<Rightarrow> string \<Rightarrow> (json \<times> string) option" where
  "scan_atom float_of s =
     (case s of [] \<Rightarrow> None
      | c # t \<Rightarrow>
          if c = CHR 0x22 then map_option (\<lambda>(us, rest). (JStr (units_text us), rest)) (scan_string t)
          else (case find (\<lambda>l. prefixed (fst l) s) LITERALS of
                  Some (name, v) \<Rightarrow> Some (v, drop (length name) s)
                | None \<Rightarrow>
                    (case find (\<lambda>l. prefixed l s) FLOAT_CONSTANTS of
                       Some name \<Rightarrow> Some (JReal (float_of name), drop (length name) s)
                     | None \<Rightarrow> scan_number float_of s)))"

lemma scan_string_shorter: "scan_string s = Some (us, rest) \<Longrightarrow> length rest < length s"
proof (induction s arbitrary: us rest rule: scan_string.induct)
  case (2 c cs)
  then show ?case by (fastforce simp: prepend_def split: if_splits list.splits option.splits)
qed simp

lemma scan_atom_shorter: "scan_atom float_of s = Some (v, rest) \<Longrightarrow> length rest < length s"
proof (cases s)
  case (Cons c t)
  assume atom: "scan_atom float_of s = Some (v, rest)"
  have lit: "0 < length (fst l)" if "find p LITERALS = Some l" for l p
    using that by (auto simp: LITERALS_def split: if_splits)
  have const: "0 < length l" if "find p FLOAT_CONSTANTS = Some l" for l p
    using that by (auto simp: FLOAT_CONSTANTS_def split: if_splits)
  have number: "length rest < length s" if "scan_number float_of s = Some (v, rest)"
    using that by (auto simp: scan_number_def Let_def Cons split: if_splits)
  show ?thesis
    using atom number scan_string_shorter lit const
    by (fastforce simp: scan_atom_def Cons split: if_splits option.splits prod.splits)
qed (simp add: scan_atom_def)

definition is_ws :: "char \<Rightarrow> bool" where
  "is_ws c = (c \<in> {CHR '' '', CHR 0x09, CHR 0x0A, CHR 0x0D})"

definition is_punct :: "char \<Rightarrow> bool" where
  "is_punct c = (c \<in> set ''{}[],:'')"

function json_lex :: "(string \<Rightarrow> real) \<Rightarrow> string \<Rightarrow> json_token list option" where
  "json_lex float_of s =
     (case s of [] \<Rightarrow> Some []
      | c # cs \<Rightarrow>
          if is_ws c then json_lex float_of cs
          else if is_punct c then map_option (Cons (Punct c)) (json_lex float_of cs)
          else (case scan_atom float_of s of None \<Rightarrow> None
                | Some (v, rest) \<Rightarrow> map_option (Cons (Atom v)) (json_lex float_of rest)))"
  by pat_completeness auto
termination by (relation "measure (\<lambda>(f, s). length s)") (auto dest: scan_atom_shorter)

declare json_lex.simps [simp del]

section \<open>Documents\<close>

text \<open>
  The reader of the tokens: the open lists and objects with the items read so far (an object with the key whose value
  is being read), and what may come next.
\<close>

datatype json_frame = List_frame "json list" | Obj_frame "(string \<times> json) list" string

datatype json_expect = Value | Value_or_close | Key | Key_or_close | Colon | After | Finished json

type_synonym json_state = "json_expect \<times> json_frame list"

fun deliver :: "json \<Rightarrow> json_frame list \<Rightarrow> json_state" where
  "deliver v [] = (Finished v, [])"
| "deliver v (List_frame vs # fs) = (After, List_frame (vs @ [v]) # fs)"
| "deliver v (Obj_frame d k # fs) = (After, Obj_frame (dict_set k v d) k # fs)"

fun read_atom :: "json \<Rightarrow> json_state \<Rightarrow> json_state option" where
  "read_atom v (Value, fs) = Some (deliver v fs)"
| "read_atom v (Value_or_close, fs) = Some (deliver v fs)"
| "read_atom (JStr k) (Key, Obj_frame d _ # fs) = Some (Colon, Obj_frame d k # fs)"
| "read_atom (JStr k) (Key_or_close, Obj_frame d _ # fs) = Some (Colon, Obj_frame d k # fs)"
| "read_atom _ _ = None"

definition expects_value :: "json_expect \<Rightarrow> bool" where
  "expects_value e = (e = Value \<or> e = Value_or_close)"

definition read_punct :: "char \<Rightarrow> json_state \<Rightarrow> json_state option" where
  "read_punct c st =
     (case st of (e, fs) \<Rightarrow>
        (if c = CHR ''['' then (if expects_value e then Some (Value_or_close, List_frame [] # fs) else None)
         else if c = CHR ''{'' then (if expects_value e then Some (Key_or_close, Obj_frame [] [] # fs) else None)
         else if c = CHR '':'' then (if e = Colon then Some (Value, fs) else None)
         else (case fs of [] \<Rightarrow> None
               | List_frame vs # gs \<Rightarrow>
                   (if c = CHR '']'' \<and> (e = Value_or_close \<or> e = After) then Some (deliver (JList vs) gs)
                    else if c = CHR '','' \<and> e = After then Some (Value, fs) else None)
               | Obj_frame d k # gs \<Rightarrow>
                   (if c = CHR ''}'' \<and> (e = Key_or_close \<or> e = After) then Some (deliver (JObj d) gs)
                    else if c = CHR '','' \<and> e = After then Some (Key, fs) else None))))"

fun read_token :: "json_token \<Rightarrow> json_state \<Rightarrow> json_state option" where
  "read_token (Atom v) st = read_atom v st"
| "read_token (Punct c) st = read_punct c st"

fun read_tokens :: "json_token list \<Rightarrow> json_state \<Rightarrow> json_state option" where
  "read_tokens [] st = Some st"
| "read_tokens (t # ts) st = (case read_token t st of None \<Rightarrow> None | Some st1 \<Rightarrow> read_tokens ts st1)"

text \<open>\<^verbatim>\<open>json.loads\<close> of bytes: a document that is not UTF-8 raises \<^verbatim>\<open>UnicodeDecodeError\<close>, a \<^verbatim>\<open>ValueError\<close> too.\<close>

definition json_loads :: "(string \<Rightarrow> real) \<Rightarrow> string \<Rightarrow> json option" where
  "json_loads float_of s =
     (case decode_utf8_sig (map (\<lambda>c. word_of_nat (code_of c)) s) of None \<Rightarrow> None
      | Some text \<Rightarrow>
          (case json_lex float_of text of None \<Rightarrow> None
           | Some ts \<Rightarrow>
               (case read_tokens ts (Value, []) of Some (Finished v, _) \<Rightarrow> Some v | _ \<Rightarrow> None)))"

section \<open>Texts\<close>

definition ascii :: "string \<Rightarrow> bool" where
  "ascii s = list_all (\<lambda>c. code_of c < 0x80) s"

lemma ascii_simps [simp]: "ascii []" "ascii (c # s) \<longleftrightarrow> code_of c < 0x80 \<and> ascii s" "ascii (s @ t) \<longleftrightarrow> ascii s \<and> ascii t"
  by (simp_all add: ascii_def)

lemma ascii_concat: "(\<And>s. s \<in> set ss \<Longrightarrow> ascii s) \<Longrightarrow> ascii (concat ss)"
  by (induction ss) auto

lemma ascii_join: "ascii sep \<Longrightarrow> (\<And>s. s \<in> set ss \<Longrightarrow> ascii s) \<Longrightarrow> ascii (join_with sep ss)"
  by (induction ss rule: induct_list012) auto

lemma code_char [simp]: "n < 256 \<Longrightarrow> code_of (char_of n) = n"
  by (simp add: code_of_def)

lemma char_code [simp]: "char_of (code_of c) = c"
  by (simp add: code_of_def)

lemma code_of_Char [simp]: "code_of (Char a0 a1 a2 a3 a4 a5 a6 a7)
  = of_bool a0 + 2 * (of_bool a1 + 2 * (of_bool a2 + 2 * (of_bool a3 + 2 * (of_bool a4 + 2 * (of_bool a5 + 2 * (of_bool a6 + 2 * of_bool a7))))))"
  by (simp add: code_of_def of_char_def)

lemma code_of_inj: "code_of c = code_of d \<longleftrightarrow> c = d"
  by (metis char_code)

lemma char_eq_code: "c = d \<longleftrightarrow> code_of c = code_of d"
  by (simp add: code_of_inj)

lemma code_points_ascii: "ascii s \<Longrightarrow> code_points s = map code_of s"
  by (induction s) auto

lemma lower_hex_value: "i < 16 \<Longrightarrow> hex_digit_value (lower_hex_digit i) = Some i"
  by (cases "i < 10") (simp_all add: lower_hex_digit_def hex_digit_value_def Let_def)

lemma lower_hex_ascii: "i < 16 \<Longrightarrow> code_of (lower_hex_digit i) < 0x80"
  by (simp add: lower_hex_digit_def)

lemma hex4_ascii: "ascii (hex4 n)"
  by (simp add: hex4_def lower_hex_ascii)

lemma hex4_digits:
  fixes n :: nat
  assumes "n < 0x10000"
  shows "n div 4096 mod 16 * 4096 + n div 256 mod 16 * 256 + n div 16 mod 16 * 16 + n mod 16 = n"
proof -
  have "n div 4096 < 16" using assms by (simp add: less_mult_imp_div_less)
  moreover have "n div 4096 * 16 + n div 256 mod 16 = n div 256"
    using div_mult_mod_eq [of "n div 256" 16] by (simp add: div_mult2_eq [symmetric])
  moreover have "n div 256 * 16 + n div 16 mod 16 = n div 16"
    using div_mult_mod_eq [of "n div 16" 16] by (simp add: div_mult2_eq [symmetric])
  moreover have "n div 16 * 16 + n mod 16 = n" by simp
  ultimately have "n div 4096 * 4096 + n div 256 mod 16 * 256 + n div 16 mod 16 * 16 + n mod 16 = n" by linarith
  then show ?thesis using \<open>n div 4096 < 16\<close> by simp
qed

lemma scan_hex4: "n < 0x10000 \<Longrightarrow> scan_string (hex4 n @ t) = map_option (prepend (Unit16 n)) (scan_string t)"
proof -
  assume "n < 0x10000"
  then have "hex4_value (lower_hex_digit (n div 4096 mod 16)) (lower_hex_digit (n div 256 mod 16))
      (lower_hex_digit (n div 16 mod 16)) (lower_hex_digit (n mod 16)) = Some n"
    unfolding hex4_value_def by (simp only: lower_hex_value mod_less_divisor option.case prod.case hex4_digits zero_less_numeral)
  then show ?thesis by (simp only: hex4_def append_Cons append_Nil scan_string.simps list.case option.case) simp
qed

text \<open>An escaped ASCII character is read as one piece that stands for it.\<close>

definition stands_for :: "text_unit \<Rightarrow> char \<Rightarrow> bool" where
  "stands_for u c = (u = Byte c \<or> u = Unit16 (code_of c))"

lemma scan_escape_point:
  assumes "code_of c < 0x80"
  obtains u where "stands_for u c" and "\<And>t. scan_string (escape_point (code_of c) @ t) = map_option (prepend u) (scan_string t)"
proof -
  consider "code_of c \<in> {0x22, 0x5C, 0x0A, 0x0D, 0x09, 0x0C, 0x08}" | "code_of c \<notin> {0x22, 0x5C, 0x0A, 0x0D, 0x09, 0x0C, 0x08}" "32 \<le> code_of c" "code_of c \<le> 126"
    | "code_of c \<notin> {0x22, 0x5C, 0x0A, 0x0D, 0x09, 0x0C, 0x08}" "\<not> (32 \<le> code_of c \<and> code_of c \<le> 126)" by blast
  then show thesis
  proof cases
    case 1
    have "scan_string (escape_point (code_of c) @ t) = map_option (prepend (Byte c)) (scan_string t)" for t
    proof -
      have "c \<in> {CHR 0x22, CHR 0x5C, CHR 0x0A, CHR 0x0D, CHR 0x09, CHR 0x0C, CHR 0x08}" using 1 by (simp add: char_eq_code)
      then show ?thesis by (elim insertE emptyE) (simp_all add: escape_point_def SIMPLE_ESCAPES_def)
    qed
    then show thesis by (intro that [of "Byte c"]) (simp_all add: stands_for_def)
  next
    case 2
    then have "escape_point (code_of c) = [c]" by (simp add: escape_point_def)
    moreover have "c \<noteq> CHR 0x22" "c \<noteq> CHR 0x5C" using 2 by (auto simp: char_eq_code)
    ultimately show thesis using 2 by (intro that [of "Byte c"]) (simp_all add: stands_for_def)
  next
    case 3
    then have "escape_point (code_of c) = hex4 (code_of c)" using assms by (auto simp: escape_point_def)
    then show thesis using assms by (intro that [of "Unit16 (code_of c)"]) (simp_all add: stands_for_def scan_hex4)
  qed
qed

lemma units_stand_for: "list_all2 stands_for us s \<Longrightarrow> ascii s \<Longrightarrow> units_text us = s"
proof (induction us s rule: list_all2_induct)
  case (Cons u us c s)
  have "units_text (u # us) = c # units_text us"
  proof (cases "u = Byte c")
    case False
    then have u: "u = Unit16 (code_of c)" using Cons(1) by (auto simp: stands_for_def)
    have "\<not> high_surrogate (code_of c)" "utf8 (code_of c) = [c]"
      using Cons.prems by (simp_all add: high_surrogate_def utf8_def)
    then show ?thesis unfolding u by (cases us rule: units_text.cases) simp_all
  qed simp
  then show ?case using Cons by simp
qed simp

lemma scan_escaped:
  "ascii s \<Longrightarrow> \<exists>us. list_all2 stands_for us s
    \<and> (\<forall>t. scan_string (concat (map escape_point (map code_of s)) @ CHR 0x22 # t) = Some (us, t))"
proof (induction s)
  case (Cons c s)
  then obtain us where us: "list_all2 stands_for us s"
    "\<And>t. scan_string (concat (map escape_point (map code_of s)) @ CHR 0x22 # t) = Some (us, t)" by auto
  obtain u where u: "stands_for u c" "\<And>t. scan_string (escape_point (code_of c) @ t) = map_option (prepend u) (scan_string t)"
    using scan_escape_point [of c] Cons.prems by auto
  have "scan_string (concat (map escape_point (map code_of (c # s))) @ CHR 0x22 # t) = Some (u # us, t)" for t
    using u(2) [of "concat (map escape_point (map code_of s)) @ CHR 0x22 # t"] us(2) [of t]
    by (simp only: list.map concat.simps append_assoc) (simp add: prepend_def)
  then show ?case using u(1) us(1) by (intro exI [of _ "u # us"]) simp
qed simp

lemma escape_ascii: "ascii (escape_point n)"
  by (auto simp: escape_point_def hex4_ascii)

lemma dumps_string_ascii: "ascii (dumps_string s)"
  by (auto simp: dumps_string_def escape_ascii intro!: ascii_concat)

lemma scan_dumped_string: "ascii s \<Longrightarrow> scan_atom float_of (dumps_string s @ t) = Some (JStr s, t)"
  using scan_escaped [of s] units_stand_for [of _ s]
  by (auto simp: dumps_string_def scan_atom_def code_points_ascii)

section \<open>Numbers\<close>

lemma nat_digits_dec: "nat_digits n = dec_digits n"
  by (induction n rule: nat_digits.induct) (subst nat_digits.simps, subst dec_digits.simps, simp)

lemma nat_digits_facts: "list_all is_digit (nat_digits n)" "nat_digits n \<noteq> []" "digits_value (nat_digits n) = int n"
  using dec_digits_facts [of n] by (simp_all add: nat_digits_dec)

lemma nat_digits_zero: "hd (nat_digits n) = CHR ''0'' \<longleftrightarrow> n = 0"
proof (induction n rule: nat_digits.induct)
  case (1 n)
  have zero: "char_of (48 + m) = CHR ''0'' \<longleftrightarrow> m = 0" if "m < 10" for m :: nat
    using that by (simp add: char_eq_code)
  show ?case
  proof (cases "n < 10")
    case True
    then show ?thesis using zero by (subst nat_digits.simps) simp
  next
    case False
    then show ?thesis using 1 nat_digits_facts(2) [of "n div 10"] by (subst nat_digits.simps) (simp add: hd_append)
  qed
qed

text \<open>What may follow a value in a printed document.\<close>

definition json_ends :: "string \<Rightarrow> bool" where
  "json_ends s = (case s of [] \<Rightarrow> True | c # _ \<Rightarrow> \<not> is_digit c \<and> c \<noteq> CHR ''.'' \<and> c \<noteq> CHR ''e'' \<and> c \<noteq> CHR ''E'')"

lemma digits_prefix_append: "list_all is_digit ds \<Longrightarrow> json_ends rest \<or> (\<exists>t. rest = CHR ''.'' # t) \<Longrightarrow> digits_prefix (ds @ rest) = ds"
  unfolding digits_prefix_def
  by (induction ds) (auto simp: json_ends_def is_digit_def split: list.splits)

lemma scan_integer_digits:
  assumes "list_all is_digit ds" and "ds \<noteq> []" and "hd ds = CHR ''0'' \<longrightarrow> ds = ''0''" and "json_ends rest \<or> (\<exists>t. rest = CHR ''.'' # t)"
  shows "scan_integer (ds @ rest) = ds"
  using assms digits_prefix_append [OF assms(1,4)] by (cases ds) (auto simp: scan_integer_def)

lemma no_fraction: "json_ends rest \<Longrightarrow> scan_fraction rest = [] \<and> scan_exponent rest = []"
  by (auto simp: json_ends_def scan_fraction_def scan_exponent_def split: list.splits)

lemma digit_not_sign: "is_digit c \<Longrightarrow> c \<noteq> CHR ''-'' \<and> c \<noteq> CHR 0x22 \<and> \<not> is_ws c \<and> \<not> is_punct c \<and> code_of c < 0x80 \<and> code_of c \<noteq> 110 \<and> code_of c \<noteq> 116 \<and> code_of c \<noteq> 102 \<and> code_of c \<noteq> 78 \<and> code_of c \<noteq> 73"
  by (auto simp: is_digit_def is_ws_def is_punct_def code_of_def)

lemma scan_number_int:
  assumes "length (nat_digits (nat \<bar>n\<bar>)) \<le> INT_MAX_STR_DIGITS" and "json_ends rest"
  shows "scan_number float_of (py_str_int n @ rest) = Some (JInt n, rest)"
proof -
  let ?ds = "nat_digits (nat \<bar>n\<bar>)"
  note ds = nat_digits_facts [of "nat \<bar>n\<bar>"]
  have "?ds = ''0''" if "hd ?ds = CHR ''0''"
    using that unfolding nat_digits_zero by (subst nat_digits.simps) (simp add: char_eq_code)
  then have i: "scan_integer (?ds @ rest) = ?ds" using ds assms(2) by (intro scan_integer_digits) auto
  obtain c t where c: "?ds = c # t" "is_digit c" using ds(1,2) by (cases ?ds) auto
  show ?thesis
  proof (cases "n < 0")
    case True
    then have "py_str_int n = CHR ''-'' # ?ds" by (simp add: py_str_int_def)
    then show ?thesis using i no_fraction [OF assms(2)] assms(1) ds True by (simp add: scan_number_def Let_def)
  next
    case False
    then have "py_str_int n = ?ds" by (simp add: py_str_int_def)
    moreover have "takeWhile (\<lambda>c. c = CHR ''-'') (take 1 (?ds @ rest)) = []" using c digit_not_sign [OF c(2)] by simp
    ultimately show ?thesis using i no_fraction [OF assms(2)] assms(1) ds False by (simp add: scan_number_def Let_def)
  qed
qed

text \<open>A literal with a fraction and no exponent.\<close>

definition float_literal :: "string \<Rightarrow> bool" where
  "float_literal s =
     (let s1 = (if take 1 s = ''-'' then drop 1 s else s); ds = takeWhile is_digit s1; fs = drop (length ds + 1) s1
      in ds \<noteq> [] \<and> (hd ds = CHR ''0'' \<longrightarrow> ds = ''0'') \<and> take 1 (drop (length ds) s1) = ''.'' \<and> fs \<noteq> [] \<and> list_all is_digit fs)"

lemma float_literal_parts:
  assumes "float_literal s"
  obtains sgn ds fs where "s = sgn @ ds @ CHR ''.'' # fs" and "sgn = [] \<or> sgn = ''-''" and "list_all is_digit ds" and "ds \<noteq> []"
    and "hd ds = CHR ''0'' \<longrightarrow> ds = ''0''" and "list_all is_digit fs" and "fs \<noteq> []"
proof -
  define s1 where "s1 = (if take 1 s = ''-'' then drop 1 s else s)"
  define ds where "ds = takeWhile is_digit s1"
  define fs where "fs = drop (length ds + 1) s1"
  have p: "ds \<noteq> []" "hd ds = CHR ''0'' \<longrightarrow> ds = ''0''" "take 1 (drop (length ds) s1) = ''.''" "fs \<noteq> []" "list_all is_digit fs"
    using assms unfolding float_literal_def Let_def s1_def [symmetric] ds_def [symmetric] fs_def [symmetric] by blast+
  have split: "s1 = ds @ drop (length ds) s1" unfolding ds_def dropWhile_eq_drop [symmetric] by simp
  obtain t where t: "drop (length ds) s1 = CHR ''.'' # t" using p(3) by (cases "drop (length ds) s1") auto
  have "fs = tl (drop (length ds) s1)" by (simp add: fs_def drop_Suc tl_drop)
  then have "fs = t" by (simp add: t)
  then have s1: "s1 = ds @ CHR ''.'' # fs" using split t by simp
  have digits: "list_all is_digit ds" by (auto simp: ds_def list_all_iff dest: set_takeWhileD)
  show thesis
  proof (cases "take 1 s = ''-''")
    case True
    then have "s = ''-'' @ s1" using append_take_drop_id [of 1 s] by (simp add: s1_def)
    then show thesis using that [of "''-''" ds fs] s1 digits p by simp
  next
    case False
    then have "s = s1" by (simp add: s1_def)
    then show thesis using that [of "[]" ds fs] s1 digits p by simp
  qed
qed

lemma scan_number_float:
  assumes "float_literal s" and "json_ends rest"
  shows "scan_number float_of (s @ rest) = Some (JReal (float_of s), rest)"
proof -
  obtain sgn ds fs where s: "s = sgn @ ds @ CHR ''.'' # fs" and sgn: "sgn = [] \<or> sgn = ''-''" and ds: "list_all is_digit ds" "ds \<noteq> []"
    "hd ds = CHR ''0'' \<longrightarrow> ds = ''0''" and fs: "list_all is_digit fs" "fs \<noteq> []"
    using float_literal_parts [OF assms(1)] .
  have i: "scan_integer (ds @ CHR ''.'' # fs @ rest) = ds" using ds by (intro scan_integer_digits) auto
  have f: "scan_fraction (CHR ''.'' # fs @ rest) = CHR ''.'' # fs"
    using digits_prefix_append [OF fs(1)] assms(2) fs(2) by (simp add: scan_fraction_def)
  obtain c t where c: "ds = c # t" "is_digit c" using ds(1,2) by (cases ds) auto
  have "takeWhile (\<lambda>c. c = CHR ''-'') (take 1 (s @ rest)) = sgn"
    using sgn c digit_not_sign [OF c(2)] by (auto simp: s)
  then show ?thesis using i f no_fraction [OF assms(2)] ds(2) by (simp add: scan_number_def Let_def s)
qed


section \<open>Documents that print and read back\<close>

text \<open>
  ASCII texts, integers Python can print, floats whose literal is read back as the same number, and objects with
  distinct keys.
\<close>

fun json_plain :: "(real \<Rightarrow> string) \<Rightarrow> (string \<Rightarrow> real) \<Rightarrow> json \<Rightarrow> bool" where
  "json_plain rf fo JNull = True"
| "json_plain rf fo (JBool b) = True"
| "json_plain rf fo (JInt n) = (length (nat_digits (nat \<bar>n\<bar>)) \<le> INT_MAX_STR_DIGITS)"
| "json_plain rf fo (JReal x) = (float_literal (rf x) \<and> fo (rf x) = x)"
| "json_plain rf fo (JStr s) = ascii s"
| "json_plain rf fo (JList vs) = list_all (json_plain rf fo) vs"
| "json_plain rf fo (JObj kvs) =
     (distinct (map fst kvs) \<and> list_all (\<lambda>kv. ascii (fst kv)) kvs \<and> list_all (\<lambda>kv. json_plain rf fo (snd kv)) kvs)"

fun join_tokens :: "json_token list list \<Rightarrow> json_token list" where
  "join_tokens [] = []"
| "join_tokens [x] = x"
| "join_tokens (x # y # zs) = x @ Punct (CHR '','') # join_tokens (y # zs)"

fun json_tokens :: "json \<Rightarrow> json_token list" where
  "json_tokens (JList vs) = Punct (CHR ''['') # join_tokens (map json_tokens vs) @ [Punct (CHR '']'')]"
| "json_tokens (JObj kvs) =
     Punct (CHR ''{'') # join_tokens (map (\<lambda>kv. Atom (JStr (fst kv)) # Punct (CHR '':'') # json_tokens (snd kv)) kvs) @ [Punct (CHR ''}'')]"
| "json_tokens v = [Atom v]"

definition lexes_to :: "(string \<Rightarrow> real) \<Rightarrow> string \<Rightarrow> json_token list \<Rightarrow> bool" where
  "lexes_to fo s ts = (\<forall>rest. json_ends rest \<longrightarrow> json_lex fo (s @ rest) = map_option (\<lambda>us. ts @ us) (json_lex fo rest))"

lemma lex_punct: "is_punct c \<Longrightarrow> json_lex fo (c # s) = map_option (Cons (Punct c)) (json_lex fo s)"
  by (subst json_lex.simps) (auto simp: is_punct_def is_ws_def)

lemma lex_space: "json_lex fo (CHR '' '' # s) = json_lex fo s"
  by (subst json_lex.simps) (simp add: is_ws_def)

lemma puncts [simp]: "is_punct (CHR '','')" "is_punct (CHR '':'')" "is_punct (CHR ''['')" "is_punct (CHR '']'')" "is_punct (CHR ''{'')" "is_punct (CHR ''}'')"
  by (simp_all add: is_punct_def)

lemma ends_simps [simp]: "json_ends []" "json_ends (CHR '','' # s)" "json_ends (CHR '':'' # s)" "json_ends (CHR '']'' # s)" "json_ends (CHR ''}'' # s)"
  "json_ends (CHR 0x0A # s)"
  by (simp_all add: json_ends_def is_digit_def)

lemma lex_atom:
  assumes "scan_atom fo (s @ rest) = Some (v, rest)" and "s = c # t" and "\<not> is_ws c" and "\<not> is_punct c"
  shows "json_lex fo (s @ rest) = map_option (Cons (Atom v)) (json_lex fo rest)"
  using assms by (subst json_lex.simps) simp

lemma lex_append:
  "lexes_to fo s ts \<Longrightarrow> json_ends rest \<Longrightarrow> json_lex fo (s @ rest) = map_option (\<lambda>us. ts @ us) (json_lex fo rest)"
  by (simp add: lexes_to_def)

lemma lex_dumped_string: "ascii s \<Longrightarrow> json_lex fo (dumps_string s @ rest) = map_option (Cons (Atom (JStr s))) (json_lex fo rest)"
  by (rule lex_atom [OF scan_dumped_string, where c = "CHR 0x22"]) (simp_all add: dumps_string_def is_ws_def is_punct_def)

lemma lexes_join:
  "list_all2 (lexes_to fo) ss tss \<Longrightarrow> lexes_to fo (join_with '', '' ss) (join_tokens tss)"
proof (induction ss arbitrary: tss rule: induct_list012)
  case 1
  then show ?case by (simp add: lexes_to_def option.map_ident)
next
  case (2 s)
  then show ?case by (auto simp: list_all2_Cons1)
next
  case (3 s s' ss)
  then obtain t ts where tss: "tss = t # ts" "lexes_to fo s t" "list_all2 (lexes_to fo) (s' # ss) ts" by (auto simp: list_all2_Cons1)
  obtain t' ts' where ts: "ts = t' # ts'" using tss(3) by (auto simp: list_all2_Cons1)
  have IH: "lexes_to fo (join_with '', '' (s' # ss)) (join_tokens ts)" by (rule 3(2) [OF tss(3)])
  show ?case unfolding lexes_to_def
  proof (intro allI impI)
    fix rest assume "json_ends rest"
    then show "json_lex fo (join_with '', '' (s # s' # ss) @ rest) = map_option (\<lambda>us. join_tokens tss @ us) (json_lex fo rest)"
      using lex_append [OF tss(2), of "CHR '','' # CHR '' '' # join_with '', '' (s' # ss) @ rest"] lex_append [OF IH, of rest]
      by (simp add: tss(1) ts lex_punct lex_space option.map_comp comp_def)
  qed
qed

lemma lexes_brackets:
  assumes "lexes_to fo s ts" and "is_punct a" and "b = CHR '']'' \<or> b = CHR ''}''"
  shows "lexes_to fo (a # s @ [b]) (Punct a # ts @ [Punct b])"
  unfolding lexes_to_def
proof (intro allI impI)
  fix rest assume "json_ends rest"
  have "is_punct b" "json_ends (b # rest)" using assms(3) by auto
  then show "json_lex fo ((a # s @ [b]) @ rest) = map_option (\<lambda>us. (Punct a # ts @ [Punct b]) @ us) (json_lex fo rest)"
    using lex_append [OF assms(1), of "b # rest"] by (simp add: lex_punct assms(2) option.map_comp comp_def)
qed

lemma prefixed_simps [simp]: "prefixed [] s" "prefixed (c # p) (d # s) \<longleftrightarrow> c = d \<and> prefixed p s" "\<not> prefixed (c # p) []"
  by (auto simp: prefixed_def)

lemma scan_numeral:
  assumes "s = c # t" and "is_digit c \<or> (c = CHR ''-'' \<and> t \<noteq> [] \<and> is_digit (hd t))"
  shows "scan_atom fo (s @ rest) = scan_number fo (s @ rest)" and "\<not> is_ws c" and "\<not> is_punct c"
proof -
  have "c \<noteq> CHR 0x22" "c \<noteq> CHR ''n''" "c \<noteq> CHR ''t''" "c \<noteq> CHR ''f''" "c \<noteq> CHR ''N''" "c \<noteq> CHR ''I''"
    using assms(2) by (auto simp: is_digit_def)
  then have no: "\<not> prefixed ''null'' (c # t @ rest)" "\<not> prefixed ''true'' (c # t @ rest)" "\<not> prefixed ''false'' (c # t @ rest)"
    "\<not> prefixed ''NaN'' (c # t @ rest)" "\<not> prefixed ''Infinity'' (c # t @ rest)" and quote: "c \<noteq> CHR 0x22"
    by simp_all
  have "\<not> prefixed ''-Infinity'' (c # t @ rest)"
  proof (cases t)
    case (Cons d u)
    then have "c \<noteq> CHR ''-'' \<or> d \<noteq> CHR ''I''" using assms(2) by (auto simp: is_digit_def)
    then show ?thesis using Cons by auto
  qed (use assms(2) in \<open>auto simp: is_digit_def\<close>)
  with no have "find (\<lambda>l. prefixed (fst l) (c # t @ rest)) LITERALS = None" "find (\<lambda>l. prefixed l (c # t @ rest)) FLOAT_CONSTANTS = None"
    by (simp_all only: LITERALS_def FLOAT_CONSTANTS_def find.simps fst_conv if_False)
  then show "scan_atom fo (s @ rest) = scan_number fo (s @ rest)"
    using quote by (simp only: scan_atom_def assms(1) append_Cons list.case option.case if_False)
  consider "is_digit c" | "c = CHR ''-''" using assms(2) by blast
  then have "\<not> is_ws c \<and> \<not> is_punct c"
  proof cases
    case 1
    then show ?thesis using digit_not_sign by blast
  qed (simp add: is_ws_def is_punct_def)
  then show "\<not> is_ws c" "\<not> is_punct c" by simp_all
qed

lemma py_str_int_head: "\<exists>c t. py_str_int n = c # t \<and> (is_digit c \<or> (c = CHR ''-'' \<and> t \<noteq> [] \<and> is_digit (hd t)))"
proof -
  obtain c t where "nat_digits (nat \<bar>n\<bar>) = c # t" "is_digit c"
    using nat_digits_facts(1,2) [of "nat \<bar>n\<bar>"] by (cases "nat_digits (nat \<bar>n\<bar>)") auto
  then show ?thesis by (cases "n < 0") (simp_all add: py_str_int_def)
qed

lemma float_literal_head: "float_literal s \<Longrightarrow> \<exists>c t. s = c # t \<and> (is_digit c \<or> (c = CHR ''-'' \<and> t \<noteq> [] \<and> is_digit (hd t)))"
proof -
  assume "float_literal s"
  then obtain sgn ds fs where s: "s = sgn @ ds @ CHR ''.'' # fs" "sgn = [] \<or> sgn = ''-''" "list_all is_digit ds" "ds \<noteq> []"
    by (rule float_literal_parts)
  then show ?thesis by (cases ds) auto
qed

lemma lex_literal:
  "json_lex fo (CHR ''n'' # CHR ''u'' # CHR ''l'' # CHR ''l'' # rest) = map_option (Cons (Atom JNull)) (json_lex fo rest)"
  "json_lex fo (CHR ''t'' # CHR ''r'' # CHR ''u'' # CHR ''e'' # rest) = map_option (Cons (Atom (JBool True))) (json_lex fo rest)"
  "json_lex fo (CHR ''f'' # CHR ''a'' # CHR ''l'' # CHR ''s'' # CHR ''e'' # rest) = map_option (Cons (Atom (JBool False))) (json_lex fo rest)"
  by (subst json_lex.simps, simp add: is_ws_def is_punct_def scan_atom_def LITERALS_def)+

theorem dumps_lexes: "json_plain rf fo v \<Longrightarrow> lexes_to fo (json_dumps rf v) (json_tokens v)"
proof (induction rf v rule: json_dumps.induct)
  case (3 rf n)
  obtain c t where ct: "py_str_int n = c # t" "is_digit c \<or> (c = CHR ''-'' \<and> t \<noteq> [] \<and> is_digit (hd t))"
    using py_str_int_head by blast
  have "json_lex fo (py_str_int n @ rest) = map_option (Cons (Atom (JInt n))) (json_lex fo rest)" if "json_ends rest" for rest
    by (rule lex_atom [OF _ ct(1)]) (use scan_number_int [OF _ that] 3 scan_numeral [OF ct] in simp_all)
  then show ?case by (simp add: lexes_to_def)
next
  case (4 rf x)
  have lit: "float_literal (rf x)" "fo (rf x) = x" using 4 by simp_all
  obtain c t where ct: "rf x = c # t" "is_digit c \<or> (c = CHR ''-'' \<and> t \<noteq> [] \<and> is_digit (hd t))"
    using float_literal_head [OF lit(1)] by blast
  have "json_lex fo (rf x @ rest) = map_option (Cons (Atom (JReal x))) (json_lex fo rest)" if "json_ends rest" for rest
    by (rule lex_atom [OF _ ct(1)]) (use scan_number_float [OF lit(1) that, of fo] lit(2) scan_numeral [OF ct] in simp_all)
  then show ?case by (simp add: lexes_to_def)
next
  case (6 rf vs)
  have "list_all2 (lexes_to fo) (map (json_dumps rf) vs) (map json_tokens vs)"
    using 6 by (auto simp: list_all2_conv_all_nth list_all_length)
  from lexes_brackets [OF lexes_join [OF this], of "CHR ''[''" "CHR '']''"] show ?case by simp
next
  case (7 rf kvs)
  let ?item = "\<lambda>kv. dumps_string (fst kv) @ '': '' @ json_dumps rf (snd kv)"
  let ?toks = "\<lambda>kv. Atom (JStr (fst kv)) # Punct (CHR '':'') # json_tokens (snd kv)"
  have "lexes_to fo (?item kv) (?toks kv)" if "kv \<in> set kvs" for kv
  proof -
    have IH: "lexes_to fo (json_dumps rf (snd kv)) (json_tokens (snd kv))" and key: "ascii (fst kv)"
      using 7 that by (auto simp: list_all_iff)
    show ?thesis unfolding lexes_to_def
    proof (intro allI impI)
      fix rest assume "json_ends rest"
      then show "json_lex fo (?item kv @ rest) = map_option (\<lambda>us. ?toks kv @ us) (json_lex fo rest)"
        by (simp add: lex_dumped_string [OF key] lex_punct lex_space lex_append [OF IH] option.map_comp comp_def)
    qed
  qed
  then have "list_all2 (lexes_to fo) (map ?item kvs) (map ?toks kvs)" by (simp add: list_all2_conv_all_nth)
  from lexes_brackets [OF lexes_join [OF this], of "CHR ''{''" "CHR ''}''"] show ?case by simp
next
  case (2 rf b)
  then show ?case by (simp add: lexes_to_def lex_literal)
next
  case (1 rf)
  then show ?case by (simp add: lexes_to_def lex_literal)
next
  case (5 rf s)
  then show ?case by (simp add: lexes_to_def lex_dumped_string)
qed

lemma read_tokens_append: "read_tokens (xs @ ys) st = (case read_tokens xs st of None \<Rightarrow> None | Some st1 \<Rightarrow> read_tokens ys st1)"
  by (induction xs arbitrary: st) (auto split: option.splits)

definition reads_as :: "json \<Rightarrow> bool" where
  "reads_as v = (\<forall>e fs. expects_value e \<longrightarrow> read_tokens (json_tokens v) (e, fs) = Some (deliver v fs))"

lemma read_items:
  "vs \<noteq> [] \<Longrightarrow> (\<And>v. v \<in> set vs \<Longrightarrow> reads_as v) \<Longrightarrow> expects_value e
    \<Longrightarrow> read_tokens (join_tokens (map json_tokens vs)) (e, List_frame acc # fs) = Some (After, List_frame (acc @ vs) # fs)"
proof (induction vs arbitrary: acc e rule: induct_list012)
  case (3 v w vs)
  have v: "read_tokens (json_tokens v) (e, List_frame acc # fs) = Some (After, List_frame (acc @ [v]) # fs)"
    using 3(4) [of v] 3(5) by (simp add: reads_as_def)
  have "read_tokens (join_tokens (map json_tokens (w # vs))) (Value, List_frame (acc @ [v]) # fs) = Some (After, List_frame ((acc @ [v]) @ w # vs) # fs)"
    by (rule 3(2)) (use 3(4) in \<open>auto simp: expects_value_def\<close>)
  then show ?case by (simp add: read_tokens_append v read_punct_def)
qed (simp_all add: reads_as_def)

lemma dict_set_new: "k \<notin> fst ` set d \<Longrightarrow> dict_set k v d = d @ [(k, v)]"
  by (induction d) auto

lemma read_members:
  "kvs \<noteq> [] \<Longrightarrow> (\<And>kv. kv \<in> set kvs \<Longrightarrow> reads_as (snd kv)) \<Longrightarrow> distinct (map fst kvs) \<Longrightarrow> fst ` set kvs \<inter> fst ` set d = {}
    \<Longrightarrow> e = Key \<or> e = Key_or_close
    \<Longrightarrow> \<exists>k'. read_tokens (join_tokens (map (\<lambda>kv. Atom (JStr (fst kv)) # Punct (CHR '':'') # json_tokens (snd kv)) kvs)) (e, Obj_frame d k # fs)
        = Some (After, Obj_frame (d @ kvs) k' # fs)"
proof (induction kvs arbitrary: d e k rule: induct_list012)
  case (2 kv)
  obtain n v where kv: "kv = (n, v)" by (cases kv)
  have "reads_as v" using 2(2) [of kv] by (simp add: kv)
  then show ?case using 2(4,5) by (auto simp: kv reads_as_def read_punct_def dict_set_new expects_value_def)
next
  case (3 kv kv' kvs)
  obtain n v where kv: "kv = (n, v)" by (cases kv)
  have v: "reads_as v" using 3(4) [of kv] by (simp add: kv)
  have "\<exists>k'. read_tokens (join_tokens (map (\<lambda>kv. Atom (JStr (fst kv)) # Punct (CHR '':'') # json_tokens (snd kv)) (kv' # kvs)))
      (Key, Obj_frame (d @ [kv]) n # fs) = Some (After, Obj_frame ((d @ [kv]) @ kv' # kvs) k' # fs)"
    by (rule 3(2)) (use 3(4-6) in \<open>auto simp: kv\<close>)
  moreover have "n \<notin> fst ` set d" using 3(6) by (auto simp: kv)
  ultimately show ?case using v 3(7)
    by (auto simp: kv reads_as_def read_tokens_append read_punct_def dict_set_new expects_value_def)
qed simp

theorem tokens_read: "json_plain rf fo v \<Longrightarrow> reads_as v"
proof (induction rf v rule: json_dumps.induct)
  case (6 rf vs)
  have "reads_as v" if "v \<in> set vs" for v using 6 that by (auto simp: list_all_iff)
  note items = read_items [OF _ this]
  show ?case unfolding reads_as_def
  proof (intro allI impI)
    fix e fs assume "expects_value e"
    then show "read_tokens (json_tokens (JList vs)) (e, fs) = Some (deliver (JList vs) fs)"
      using items [where e = Value_or_close and acc = "[]" and fs = fs] by (cases "vs = []") (simp_all add: read_punct_def read_tokens_append expects_value_def)
  qed
next
  case (7 rf kvs)
  have "reads_as (snd kv)" if "kv \<in> set kvs" for kv using 7 that by (auto simp: list_all_iff)
  note members = read_members [OF _ this]
  show ?case unfolding reads_as_def
  proof (intro allI impI)
    fix e fs assume e: "expects_value e"
    show "read_tokens (json_tokens (JObj kvs)) (e, fs) = Some (deliver (JObj kvs) fs)"
    proof (cases "kvs = []")
      case False
      then obtain k' where "read_tokens (join_tokens (map (\<lambda>kv. Atom (JStr (fst kv)) # Punct (CHR '':'') # json_tokens (snd kv)) kvs)) (Key_or_close, Obj_frame [] [] # fs)
          = Some (After, Obj_frame ([] @ kvs) k' # fs)"
        using members [where e = Key_or_close and d = "[]" and k = "[]" and fs = fs] 7(2) by auto
      then show ?thesis using e by (simp add: read_punct_def read_tokens_append)
    qed (use e in \<open>simp add: read_punct_def\<close>)
  qed
qed (auto simp: reads_as_def expects_value_def)

text \<open>A printed document is ASCII.\<close>

lemma ascii_digits: "list_all is_digit ds \<Longrightarrow> ascii ds"
  using digit_not_sign by (auto simp: ascii_def list_all_iff)

lemma dumps_ascii: "json_plain rf fo v \<Longrightarrow> ascii (json_dumps rf v)"
proof (induction rf v rule: json_dumps.induct)
  case (3 rf n)
  show ?case using ascii_digits [OF nat_digits_facts(1)] by (simp add: py_str_int_def)
next
  case (4 rf x)
  then have "float_literal (rf x)" by simp
  then obtain sgn ds fs where "rf x = sgn @ ds @ CHR ''.'' # fs" "sgn = [] \<or> sgn = ''-''" "list_all is_digit ds" "list_all is_digit fs"
    by (rule float_literal_parts)
  then show ?case using ascii_digits by auto
next
  case (6 rf vs)
  then show ?case by (auto simp: list_all_iff intro!: ascii_join)
next
  case (7 rf kvs)
  then show ?case by (auto simp: list_all_iff dumps_string_ascii intro!: ascii_join)
qed (auto simp: dumps_string_ascii)

lemma decode_ascii: "ascii s \<Longrightarrow> decode_utf8_sig (map (\<lambda>c. word_of_nat (code_of c)) s) = Some s"
proof -
  assume s: "ascii s"
  have word: "unat (word_of_nat n :: byte) = n" if "n < 0x80" for n
    using that by (simp add: unat_of_nat)
  have small: "(word_of_nat n :: byte) < 0x80" if "n < 0x80" for n
    using word [OF that] that by (simp add: word_less_nat_alt)
  have "utf8_valid (map (\<lambda>c. word_of_nat (code_of c)) s)" using s by (induction s) (simp_all add: small)
  moreover have "map (\<lambda>b. char_of (unat b)) (map (\<lambda>c. word_of_nat (code_of c) :: byte) s) = s"
    using s by (induction s) (simp_all add: word)
  moreover have "take 3 (map (\<lambda>c. word_of_nat (code_of c) :: byte) s) \<noteq> [0xEF, 0xBB, 0xBF]"
  proof
    assume a: "take 3 (map (\<lambda>c. word_of_nat (code_of c) :: byte) s) = [0xEF, 0xBB, 0xBF]"
    then obtain c t where c: "s = c # t" by (cases s) auto
    then have "(word_of_nat (code_of c) :: byte) = 0xEF" using a by simp
    moreover have "(word_of_nat (code_of c) :: byte) < 0x80" using s small by (simp add: c)
    ultimately show False by simp
  qed
  ultimately show ?thesis by (simp add: decode_utf8_sig_def)
qed

theorem loads_dumps:
  assumes "json_plain rf fo v"
  shows "json_loads fo (json_dumps rf v) = Some v"
proof -
  have "json_lex fo (json_dumps rf v @ []) = map_option (\<lambda>us. json_tokens v @ us) (json_lex fo [])"
    by (rule lex_append [OF dumps_lexes [OF assms]]) simp
  then have "json_lex fo (json_dumps rf v) = Some (json_tokens v)" by (simp add: json_lex.simps)
  moreover have "read_tokens (json_tokens v) (Value, []) = Some (Finished v, [])"
    using tokens_read [OF assms] by (simp add: reads_as_def expects_value_def)
  ultimately show ?thesis by (simp add: json_loads_def decode_ascii [OF dumps_ascii [OF assms]])
qed

text \<open>A printed document has no line break.\<close>

lemma ascii_no_newline_join: "CHR 0x0A \<notin> set sep \<Longrightarrow> (\<And>s. s \<in> set ss \<Longrightarrow> CHR 0x0A \<notin> set s) \<Longrightarrow> CHR 0x0A \<notin> set (join_with sep ss)"
  by (induction ss rule: induct_list012) auto

lemma escape_no_newline: "CHR 0x0A \<notin> set (escape_point n)"
proof -
  have hex: "CHR 0x0A \<noteq> lower_hex_digit i" if "i < 16" for i
    using that by (simp add: char_eq_code lower_hex_digit_def)
  have "CHR 0x0A \<noteq> char_of n" if "32 \<le> n" "n \<le> 126" using that by (simp add: char_eq_code)
  then show ?thesis using hex by (auto simp: escape_point_def hex4_def)
qed

lemma dumps_one_line: "json_plain rf fo v \<Longrightarrow> CHR 0x0A \<notin> set (json_dumps rf v)"
proof (induction rf v rule: json_dumps.induct)
  case (3 rf n)
  have "CHR 0x0A \<notin> set (nat_digits m)" for m
    using nat_digits_facts(1) [of m] by (auto simp: list_all_iff is_digit_def)
  then show ?case by (simp add: py_str_int_def)
next
  case (4 rf x)
  then have "float_literal (rf x)" by simp
  then obtain sgn ds fs where "rf x = sgn @ ds @ CHR ''.'' # fs" "sgn = [] \<or> sgn = ''-''" "list_all is_digit ds" "list_all is_digit fs"
    by (rule float_literal_parts)
  then show ?case by (auto simp: list_all_iff is_digit_def)
next
  case (6 rf vs)
  then have "CHR 0x0A \<notin> set (join_with '', '' (map (json_dumps rf) vs))"
    by (intro ascii_no_newline_join) (auto simp: list_all_iff)
  then show ?case by simp
next
  case (7 rf kvs)
  have "CHR 0x0A \<notin> set (join_with '', '' (map (\<lambda>kv. dumps_string (fst kv) @ '': '' @ json_dumps rf (snd kv)) kvs))"
    by (rule ascii_no_newline_join) (use 7 escape_no_newline in \<open>auto simp: list_all_iff dumps_string_def\<close>)
  then show ?case by simp
qed (auto simp: dumps_string_def escape_no_newline)

end
