(* ===== verification/Control.thy ===== *)
theory Control
  imports Json Reprocess Health
begin

text \<open>
  \<^verbatim>\<open>control.py\<close> and \<^verbatim>\<open>control_client.py\<close>: the control protocol of the daemon, one JSON line in each direction
  over a unix socket, and the handlers of \<^verbatim>\<open>daemon/service.py\<close> behind it. What a socket delivers is the list of
  the results of \<^verbatim>\<open>recv\<close>, whose end is the peer's end of file. Every operation is one atomic step of the
  daemon's state; the pool of connection threads is not modelled.
\<close>

section \<open>Sockets\<close>

text \<open>A chunk, or an \<^verbatim>\<open>OSError\<close> (a timeout included) with its text.\<close>

datatype recv = Data string | Recv_error string

datatype read_result = Read_line string | Read_nothing | Read_too_long | Read_error string

text \<open>\<^verbatim>\<open>bytes(buf).partition(b"\n")\<close> of what was read, or \<^const>\<open>None\<close> when the peer sent nothing.\<close>

definition first_line :: "string \<Rightarrow> read_result" where
  "first_line buf = (if buf = [] then Read_nothing else Read_line (takeWhile (\<lambda>c. c \<noteq> CHR 0x0A) buf))"

fun server_read_line :: "int \<Rightarrow> string \<Rightarrow> recv list \<Rightarrow> read_result" where
  "server_read_line max_bytes buf [] = first_line buf"
| "server_read_line max_bytes buf (r # rs) =
     (if CHR 0x0A \<in> set buf then first_line buf
      else (case r of Recv_error e \<Rightarrow> Read_error e
            | Data chunk \<Rightarrow>
                if chunk = [] then first_line buf
                else if max_bytes < int (length (buf @ chunk)) then Read_too_long
                else server_read_line max_bytes (buf @ chunk) rs))"

fun client_read_line :: "string \<Rightarrow> recv list \<Rightarrow> read_result" where
  "client_read_line buf [] = first_line buf"
| "client_read_line buf (r # rs) =
     (if CHR 0x0A \<in> set buf then first_line buf
      else (case r of Recv_error e \<Rightarrow> Read_error e
            | Data chunk \<Rightarrow> if chunk = [] then first_line buf else client_read_line (buf @ chunk) rs))"

section \<open>Commands\<close>

text \<open>Results carry the text of the exception: it is what the client gets to see.\<close>

type_synonym 'a or_error = "string + 'a"

type_synonym json_args = "(string \<times> json) list"

record 's control_handlers =
  ch_status :: "'s \<Rightarrow> json or_error \<times> 's"
  ch_pause :: "string \<Rightarrow> 's \<Rightarrow> unit or_error \<times> 's"
  ch_resume :: "string \<Rightarrow> 's \<Rightarrow> unit or_error \<times> 's"
  ch_drain :: "'s \<Rightarrow> unit or_error \<times> 's"
  ch_reprocess :: "selector \<Rightarrow> 's \<Rightarrow> int or_error \<times> 's"
  ch_unquarantine :: "selector \<Rightarrow> 's \<Rightarrow> int or_error \<times> 's"
  ch_shutdown :: "'s \<Rightarrow> unit or_error \<times> 's"

definition reply_with :: "('a \<Rightarrow> json) \<Rightarrow> 'a or_error \<times> 's \<Rightarrow> json or_error \<times> 's" where
  "reply_with f r = (case r of (Inl e, s) \<Rightarrow> (Inl e, s) | (Inr x, s) \<Rightarrow> (Inr (f x), s))"

definition require_str :: "string \<Rightarrow> json_args \<Rightarrow> string or_error" where
  "require_str key args =
     (case map_of args key of
        Some (JStr (c # cs)) \<Rightarrow> Inr (c # cs)
      | _ \<Rightarrow> Inl ([CHR 0x27] @ key @ [CHR 0x27] @ '' is required and must be a non-empty string''))"

definition wheel_state_of_name :: "string \<Rightarrow> wheel_state option" where
  "wheel_state_of_name name = map_of (map (\<lambda>s. (state_name s, s)) all_states) name"

definition parse_selector :: "json_args \<Rightarrow> selector or_error" where
  "parse_selector args =
     bind_res (require_str ''type'' args) (\<lambda>selector_type.
       if selector_type = ''reroll_version_below''
       then bind_res (require_str ''version'' args) (\<lambda>v. Inr (RerollVersionBelow v))
       else if selector_type = ''project'' then bind_res (require_str ''project'' args) (\<lambda>p. Inr (ProjectSelector p))
       else if selector_type = ''state''
       then bind_res (require_str ''state'' args) (\<lambda>name.
              case wheel_state_of_name name of None \<Rightarrow> Inl (''unknown state '' @ py_repr name)
              | Some s \<Rightarrow> Inr (StateSelector s))
       else if selector_type = ''skipped_only'' then Inr SkippedOnly
       else Inl (''unknown selector type '' @ py_repr selector_type))"

type_synonym 's command = "'s control_handlers \<Rightarrow> json_args \<Rightarrow> 's \<Rightarrow> json or_error \<times> 's"

definition cmd_status :: "'s command" where
  "cmd_status h args s = ch_status h s"

definition cmd_pause :: "'s command" where
  "cmd_pause h args s =
     (case require_str ''stage'' args of Inl e \<Rightarrow> (Inl e, s)
      | Inr stage \<Rightarrow> reply_with (\<lambda>_. JObj [(''stage'', JStr stage), (''paused'', JBool True)]) (ch_pause h stage s))"

definition cmd_resume :: "'s command" where
  "cmd_resume h args s =
     (case require_str ''stage'' args of Inl e \<Rightarrow> (Inl e, s)
      | Inr stage \<Rightarrow> reply_with (\<lambda>_. JObj [(''stage'', JStr stage), (''paused'', JBool False)]) (ch_resume h stage s))"

definition cmd_drain :: "'s command" where
  "cmd_drain h args s = reply_with (\<lambda>_. JObj [(''draining'', JBool True)]) (ch_drain h s)"

definition cmd_reprocess :: "'s command" where
  "cmd_reprocess h args s =
     (case parse_selector args of Inl e \<Rightarrow> (Inl e, s)
      | Inr sel \<Rightarrow> reply_with (\<lambda>n. JObj [(''affected'', JInt n)]) (ch_reprocess h sel s))"

definition cmd_unquarantine :: "'s command" where
  "cmd_unquarantine h args s =
     (case parse_selector args of Inl e \<Rightarrow> (Inl e, s)
      | Inr sel \<Rightarrow> reply_with (\<lambda>n. JObj [(''affected'', JInt n)]) (ch_unquarantine h sel s))"

definition cmd_shutdown :: "'s command" where
  "cmd_shutdown h args s = reply_with (\<lambda>_. JObj [(''shutting_down'', JBool True)]) (ch_shutdown h s)"

definition COMMANDS :: "(string \<times> 's command) list" where
  "COMMANDS = [(''status'', cmd_status), (''pause'', cmd_pause), (''resume'', cmd_resume), (''drain'', cmd_drain),
     (''reprocess'', cmd_reprocess), (''unquarantine'', cmd_unquarantine), (''shutdown'', cmd_shutdown)]"

definition COMMAND_NAMES :: "string list" where
  "COMMAND_NAMES = [''status'', ''pause'', ''resume'', ''drain'', ''reprocess'', ''unquarantine'', ''shutdown'']"

section \<open>The server\<close>

text \<open>Python's float conversions, and the text of the \<^verbatim>\<open>ValueError\<close> of a malformed document.\<close>

record json_env =
  je_repr_float :: "real \<Rightarrow> string"
  je_float_of :: "string \<Rightarrow> real"
  je_error :: "string \<Rightarrow> string"

text \<open>\<^verbatim>\<open>repr\<close> and \<^verbatim>\<open>str\<close> of a decoded value.\<close>

fun json_repr :: "(real \<Rightarrow> string) \<Rightarrow> json \<Rightarrow> string" where
  "json_repr rf JNull = ''None''"
| "json_repr rf (JBool b) = (if b then ''True'' else ''False'')"
| "json_repr rf (JInt n) = py_str_int n"
| "json_repr rf (JReal x) = rf x"
| "json_repr rf (JStr s) = py_repr s"
| "json_repr rf (JList vs) = ''['' @ join_with '', '' (map (json_repr rf) vs) @ '']''"
| "json_repr rf (JObj kvs) = ''{'' @ join_with '', '' (map (\<lambda>kv. py_repr (fst kv) @ '': '' @ json_repr rf (snd kv)) kvs) @ ''}''"

definition json_str :: "(real \<Rightarrow> string) \<Rightarrow> json \<Rightarrow> string" where
  "json_str rf v = (case v of JStr s \<Rightarrow> s | _ \<Rightarrow> json_repr rf v)"

definition error_reply :: "string \<Rightarrow> json" where
  "error_reply msg = JObj [(''ok'', JBool False), (''error'', JStr msg)]"

definition ok_reply :: "json \<Rightarrow> json" where
  "ok_reply v = JObj [(''ok'', JBool True), (''result'', v)]"

definition not_a_request :: string where
  "not_a_request = ''request must be a JSON object with a '' @ [CHR 0x27] @ ''command'' @ [CHR 0x27] @ '' field''"

definition hashable :: "json \<Rightarrow> bool" where
  "hashable v = (case v of JList _ \<Rightarrow> False | JObj _ \<Rightarrow> False | _ \<Rightarrow> True)"

definition run_command :: "json_env \<Rightarrow> 's control_handlers \<Rightarrow> json \<Rightarrow> json_args \<Rightarrow> 's \<Rightarrow> json \<times> 's" where
  "run_command env h command args s =
     (case (case command of JStr name \<Rightarrow> map_of COMMANDS name | _ \<Rightarrow> None) of
        None \<Rightarrow> (error_reply (''unknown command '' @ json_repr (je_repr_float env) command
                    @ ''; valid commands: '' @ py_repr_list (sort COMMAND_NAMES)), s)
      | Some handler \<Rightarrow>
          (case handler h args s of (Inl e, s1) \<Rightarrow> (error_reply e, s1) | (Inr v, s1) \<Rightarrow> (ok_reply v, s1)))"

text \<open>
  \<^verbatim>\<open>_dispatch\<close>: \<^const>\<open>Inl\<close> is an exception that leaves it. \<^verbatim>\<open>_COMMANDS.get(command)\<close> is outside the \<^verbatim>\<open>try\<close> and
  raises \<^verbatim>\<open>TypeError\<close> for a list or an object.
\<close>

definition control_dispatch :: "json_env \<Rightarrow> 's control_handlers \<Rightarrow> bool \<Rightarrow> string \<Rightarrow> 's \<Rightarrow> (py_exn + json) \<times> 's" where
  "control_dispatch env h status_only line s =
     (case json_loads (je_float_of env) line of
        None \<Rightarrow> (Inr (error_reply (''malformed JSON request: '' @ je_error env line)), s)
      | Some (JObj request) \<Rightarrow>
          (case map_of request ''command'' of
             None \<Rightarrow> (Inr (error_reply not_a_request ), s)
           | Some command \<Rightarrow>
               (let given = (case map_of request ''args'' of None \<Rightarrow> JNull | Some a \<Rightarrow> a);
                    args = (if json_true given then given else JObj [])
                in case args of
                     JObj kvs \<Rightarrow>
                       (if status_only \<and> command \<noteq> JStr ''status''
                        then (Inr (error_reply (''daemon is shutting down; only '' @ [CHR 0x27] @ ''status'' @ [CHR 0x27] @ '' is accepted'')), s)
                        else if \<not> hashable command then (Inl PyTypeError, s)
                        else (case run_command env h command kvs s of (reply, s1) \<Rightarrow> (Inr reply, s1)))
                   | _ \<Rightarrow> (Inr (error_reply ([CHR 0x27] @ ''args'' @ [CHR 0x27] @ '' must be a JSON object'')), s)))
      | Some _ \<Rightarrow> (Inr (error_reply not_a_request), s))"

text \<open>\<^verbatim>\<open>_handle_connection\<close>: what is sent, if anything, before the connection is closed.\<close>

definition send_text :: "json_env \<Rightarrow> json \<Rightarrow> string" where
  "send_text env v = json_dumps (je_repr_float env) v @ [CHR 0x0A]"

definition too_long :: "int \<Rightarrow> string" where
  "too_long max_bytes = ''request exceeded '' @ py_str_int max_bytes @ '' bytes''"

definition handle_connection :: "json_env \<Rightarrow> 's control_handlers \<Rightarrow> bool \<Rightarrow> int \<Rightarrow> recv list \<Rightarrow> 's \<Rightarrow> string option \<times> 's" where
  "handle_connection env h status_only max_bytes received s =
     (case server_read_line max_bytes [] received of
        Read_too_long \<Rightarrow> (Some (send_text env (error_reply (too_long max_bytes))), s)
      | Read_error _ \<Rightarrow> (None, s)
      | Read_nothing \<Rightarrow> (None, s)
      | Read_line line \<Rightarrow>
          (case control_dispatch env h status_only line s of
             (Inl _, s1) \<Rightarrow> (None, s1)
           | (Inr response, s1) \<Rightarrow> (Some (send_text env response), s1)))"

definition DEFAULT_MAX_REQUEST_BYTES :: int where
  "DEFAULT_MAX_REQUEST_BYTES = 64 * 1024"

section \<open>The client\<close>

datatype connect_result = Connected | Not_listening string | Connect_failed string

datatype client_exn = ControlClientError string | Client_escapes py_exn

definition client_payload :: "json_env \<Rightarrow> string \<Rightarrow> json_args \<Rightarrow> string" where
  "client_payload env command args =
     json_dumps (je_repr_float env) (JObj [(''command'', JStr command), (''args'', JObj args)]) @ [CHR 0x0A]"

definition client_reply :: "json_env \<Rightarrow> string \<Rightarrow> string \<Rightarrow> client_exn + json" where
  "client_reply env path line =
     (case json_loads (je_float_of env) line of
        None \<Rightarrow> Inl (ControlClientError (''malformed response from '' @ [CHR 0x27] @ path @ [CHR 0x27] @ '': '' @ je_error env line))
      | Some (JObj response) \<Rightarrow>
          (let ok = (case map_of response ''ok'' of None \<Rightarrow> JBool False | Some v \<Rightarrow> v)
           in if \<not> json_true ok
              then Inl (ControlClientError (case map_of response ''error'' of None \<Rightarrow> ''unknown error''
                                            | Some e \<Rightarrow> json_str (je_repr_float env) e))
              else Inr (case map_of response ''result'' of None \<Rightarrow> JNull | Some v \<Rightarrow> v))
      | Some _ \<Rightarrow> Inl (Client_escapes AttributeError))"

text \<open>\<open>sending\<close>: the text of the \<^verbatim>\<open>OSError\<close> of \<^verbatim>\<open>sendall\<close>, if it raised.\<close>

definition send_control_command :: "json_env \<Rightarrow> string \<Rightarrow> connect_result \<Rightarrow> string option \<Rightarrow> recv list \<Rightarrow> client_exn + json" where
  "send_control_command env path conn sending received =
     (let quoted = [CHR 0x27] @ path @ [CHR 0x27];
          lost = (\<lambda>e. Inl (ControlClientError (''lost connection to control socket '' @ quoted @ '': '' @ e)))
      in case conn of
           Not_listening e \<Rightarrow> Inl (ControlClientError (''no daemon is listening on control socket '' @ quoted @ '': '' @ e))
         | Connect_failed e \<Rightarrow> Inl (ControlClientError (''could not connect to control socket '' @ quoted @ '': '' @ e))
         | Connected \<Rightarrow>
             (case sending of
                Some e \<Rightarrow> lost e
              | None \<Rightarrow>
                  (case client_read_line [] received of
                     Read_error e \<Rightarrow> lost e
                   | Read_line line \<Rightarrow> client_reply env path line
                   | _ \<Rightarrow> Inl (ControlClientError (''daemon at '' @ quoted @ '' closed the connection with no reply'')))))"

section \<open>One request and its reply\<close>

lemma line_of: "CHR 0x0A \<notin> set l \<Longrightarrow> takeWhile (\<lambda>c. c \<noteq> CHR 0x0A) (l @ CHR 0x0A # t) = l"
  by (induction l) auto

text \<open>
  The contract of a reader of lines: it stops at a line feed, goes on while what it has is of a length it accepts, and so
  reads the same line whatever the chunks it arrives in.
\<close>

locale line_reader =
  fixes read :: "string \<Rightarrow> recv list \<Rightarrow> read_result" and fits :: "nat \<Rightarrow> bool"
  assumes read_end: "CHR 0x0A \<in> set buf \<Longrightarrow> read buf rs = first_line buf"
    and read_more: "CHR 0x0A \<notin> set buf \<Longrightarrow> c \<noteq> [] \<Longrightarrow> fits (length (buf @ c)) \<Longrightarrow> read buf (Data c # rs) = read (buf @ c) rs"
    and fits_less: "fits n \<Longrightarrow> m \<le> n \<Longrightarrow> fits m"
begin

lemma reads_line:
  assumes "buf @ concat chunks = l @ [CHR 0x0A]" and "CHR 0x0A \<notin> set l" and "[] \<notin> set chunks" and "fits (length l + 1)"
  shows "read buf (map Data chunks) = Read_line l"
  using assms(1,3)
proof (induction chunks arbitrary: buf)
  case Nil
  then show ?case by (simp add: read_end first_line_def line_of [OF assms(2)])
next
  case (Cons c chunks)
  show ?case
  proof (cases "CHR 0x0A \<in> set buf")
    case True
    then obtain a b where b: "buf = a @ CHR 0x0A # b" "CHR 0x0A \<notin> set a" by (metis split_list_first)
    have "takeWhile (\<lambda>c. c \<noteq> CHR 0x0A) (buf @ concat (c # chunks)) = takeWhile (\<lambda>c. c \<noteq> CHR 0x0A) (l @ [CHR 0x0A])"
      by (simp only: Cons.prems(1))
    then have "a = l" by (simp add: b line_of [OF assms(2)] line_of [OF b(2)])
    then show ?thesis using True by (simp add: read_end first_line_def b line_of [OF assms(2)])
  next
    case False
    have "length (buf @ c) \<le> length (buf @ concat (c # chunks))" by simp
    also have "\<dots> = length l + 1" by (simp only: Cons.prems(1)) simp
    finally have "fits (length (buf @ c))" using fits_less [OF assms(4)] by blast
    then have "read buf (Data c # map Data chunks) = read (buf @ c) (map Data chunks)"
      by (intro read_more False) (use Cons.prems(2) in auto)
    then show ?thesis using Cons by simp
  qed
qed

end

lemma server_read_end: "CHR 0x0A \<in> set buf \<Longrightarrow> server_read_line max_bytes buf rs = first_line buf"
  by (cases rs) simp_all

lemma client_read_end: "CHR 0x0A \<in> set buf \<Longrightarrow> client_read_line buf rs = first_line buf"
  by (cases rs) simp_all

interpretation server_lines: line_reader "server_read_line max_bytes" "\<lambda>n. int n \<le> max_bytes" for max_bytes
  by unfold_locales (simp_all add: server_read_end)

interpretation client_lines: line_reader client_read_line "\<lambda>_. True"
  by unfold_locales (simp_all add: client_read_end)

lemma plain_request: "json_plain rf fo (JObj args) \<Longrightarrow> ascii command \<Longrightarrow> json_plain rf fo (JObj [(''command'', JStr command), (''args'', JObj args)])"
  by simp

lemma command_names: "map_of COMMANDS name = Some f \<Longrightarrow> ascii name \<and> name \<in> set COMMAND_NAMES"
  by (auto simp: COMMANDS_def COMMAND_NAMES_def split: if_splits)

text \<open>What a client is told of the outcome of a handler.\<close>

definition client_outcome :: "json or_error \<Rightarrow> client_exn + json" where
  "client_outcome r = (case r of Inl msg \<Rightarrow> Inl (ControlClientError msg) | Inr v \<Rightarrow> Inr v)"

definition reply_plain :: "json_env \<Rightarrow> json or_error \<Rightarrow> bool" where
  "reply_plain env r = (case r of Inl msg \<Rightarrow> ascii msg | Inr v \<Rightarrow> json_plain (je_repr_float env) (je_float_of env) v)"

lemma dispatch_request:
  assumes "map_of COMMANDS command = Some f" and "json_plain (je_repr_float env) (je_float_of env) (JObj args)" and "f h args s = (r, s')"
  shows "control_dispatch env h False (json_dumps (je_repr_float env) (JObj [(''command'', JStr command), (''args'', JObj args)])) s
    = (Inr (case r of Inl msg \<Rightarrow> error_reply msg | Inr v \<Rightarrow> ok_reply v), s')"
proof -
  have "ascii command" using command_names [OF assms(1)] by simp
  from loads_dumps [OF plain_request [OF assms(2) this]] show ?thesis
    using assms(1,3) by (cases "args = []") (simp_all add: control_dispatch_def Let_def json_true_def hashable_def run_command_def split: sum.split)
qed

lemma client_of_reply:
  assumes "reply_plain env r" and "concat chunks = send_text env (case r of Inl msg \<Rightarrow> error_reply msg | Inr v \<Rightarrow> ok_reply v)" and "[] \<notin> set chunks"
  shows "send_control_command env path Connected None (map Data chunks) = client_outcome r"
proof -
  let ?v = "case r of Inl msg \<Rightarrow> error_reply msg | Inr v \<Rightarrow> ok_reply v"
  have plain: "json_plain (je_repr_float env) (je_float_of env) ?v"
    using assms(1) by (simp add: reply_plain_def error_reply_def ok_reply_def split: sum.splits)
  have "client_read_line [] (map Data chunks) = Read_line (json_dumps (je_repr_float env) ?v)"
    by (rule client_lines.reads_line) (use assms(2,3) dumps_one_line [OF plain] in \<open>simp_all add: send_text_def\<close>)
  then show ?thesis using loads_dumps [OF plain]
    by (auto simp: send_control_command_def client_reply_def error_reply_def ok_reply_def client_outcome_def json_true_def json_str_def split: sum.splits)
qed

lemma request_and_reply:
  assumes "map_of COMMANDS command = Some f" and "json_plain (je_repr_float env) (je_float_of env) (JObj args)"
    and "f h args s = (r, s')" and "reply_plain env r"
    and "concat chunks = client_payload env command args" and "[] \<notin> set chunks"
    and "int (length (client_payload env command args)) \<le> max_bytes"
  shows "\<exists>reply. handle_connection env h False max_bytes (map Data chunks) s = (Some reply, s')
    \<and> (\<forall>pieces. concat pieces = reply \<and> [] \<notin> set pieces
          \<longrightarrow> send_control_command env path Connected None (map Data pieces) = client_outcome r)"
proof -
  let ?l = "json_dumps (je_repr_float env) (JObj [(''command'', JStr command), (''args'', JObj args)])"
  have "ascii command" using command_names [OF assms(1)] by simp
  note one = dumps_one_line [OF plain_request [OF assms(2) this]]
  have "server_read_line max_bytes [] (map Data chunks) = Read_line ?l"
    by (rule server_lines.reads_line) (use assms(5-7) one in \<open>simp_all add: client_payload_def\<close>)
  then have "handle_connection env h False max_bytes (map Data chunks) s
      = (Some (send_text env (case r of Inl msg \<Rightarrow> error_reply msg | Inr v \<Rightarrow> ok_reply v)), s')"
    by (simp only: handle_connection_def read_result.case dispatch_request [OF assms(1-3)] prod.case sum.case)
  then show ?thesis using client_of_reply [OF assms(4)] by auto
qed

section \<open>The daemon's handlers\<close>

text \<open>
  The part of the daemon the control commands read and change. \<open>ld_op\<close> is the database with the writer's counter,
  \<open>ld_writer\<close> the writer whose counters \<^verbatim>\<open>status\<close> shows.
\<close>

record 't live_daemon =
  ld_loops :: "'t stage_loops"
  ld_start_errors :: "(string \<times> string) list"
  ld_breakers :: "(string \<times> breaker) list"
  ld_disk_guard :: disk_guard
  ld_writer :: "(database, op_value) writer"
  ld_dispatcher :: dispatcher
  ld_op :: "database op_state"
  ld_shutdown_requested :: bool

definition opt_json :: "('a \<Rightarrow> json) \<Rightarrow> 'a option \<Rightarrow> json" where
  "opt_json f x = (case x of None \<Rightarrow> JNull | Some v \<Rightarrow> f v)"

definition loop_json :: "'t stage_loop \<Rightarrow> json" where
  "loop_json l = JObj [(''last_run_at'', opt_json JReal (loop_last_run_at l)), (''last_success_at'', opt_json JReal (loop_last_success_at l)),
     (''consecutive_failures'', JInt (loop_consecutive_failures l)), (''paused'', JBool (paused l))]"

definition metrics_json :: "stage_metrics \<Rightarrow> json" where
  "metrics_json m = JObj [(''queue_depth'', JInt (sm_queue_depth m)), (''in_flight'', JInt (sm_in_flight m)),
     (''oldest_pending_age'', opt_json JReal (sm_oldest_pending_age m)), (''throughput_ema'', JReal (sm_throughput_ema m)),
     (''outcome_counts'', JObj (map (\<lambda>(k, n). (k, JInt n)) (sm_outcome_counts m))),
     (''retry_count'', JInt (sm_retry_count m)), (''quarantine_count'', JInt (sm_quarantine_count m))]"

text \<open>\<open>now\<close> is the dispatcher's clock and \<open>wal\<close> the size of the write-ahead log.\<close>

definition daemon_status :: "real \<Rightarrow> int \<Rightarrow> 't live_daemon \<Rightarrow> json" where
  "daemon_status now wal d =
     JObj [(''stages'', JObj (map (\<lambda>(name, l). (name, loop_json l)) (ld_loops d))),
       (''stage_start_errors'', JObj (map (\<lambda>(name, e). (name, JStr e)) (ld_start_errors d))),
       (''circuit_breakers'', JObj (map (\<lambda>(name, b). (name, JStr (circuit_value (circuit b)))) (ld_breakers d))),
       (''disk_guard'', JObj [(''paused'', JBool (is_paused (ld_disk_guard d)))]),
       (''writer'', JObj [(''wal_bytes'', JInt wal), (''freelist_count'', JInt (wr_freelist_count (ld_writer d))),
          (''failed_ops'', JInt (wr_failed_ops (ld_writer d))),
          (''last_truncate_checkpoint_at'', opt_json JReal (wr_last_truncate_checkpoint_at (ld_writer d))),
          (''last_truncate_checkpoint_ok'', opt_json JBool (wr_last_truncate_checkpoint_ok (ld_writer d))),
          (''consecutive_checkpoint_failures'', JInt (wr_consecutive_checkpoint_failures (ld_writer d)))]),
       (''dispatcher'', JObj [(''fetch'', metrics_json (metrics now FETCH (fst (ld_op d)) (ld_dispatcher d))),
          (''convert'', metrics_json (metrics now CONVERT (fst (ld_op d)) (ld_dispatcher d)))])]"

definition unknown_stage :: "string \<Rightarrow> 't stage_loops \<Rightarrow> string" where
  "unknown_stage name loops = ''unknown stage '' @ py_repr name @ ''; valid stages: '' @ py_repr_list (sort (map fst loops))"

definition change_loops :: "(string \<Rightarrow> 't stage_loops \<Rightarrow> 't stage_loops res) \<Rightarrow> string \<Rightarrow> 't live_daemon \<Rightarrow> unit or_error \<times> 't live_daemon" where
  "change_loops f name d =
     (case f name (ld_loops d) of Inl _ \<Rightarrow> (Inl (unknown_stage name (ld_loops d)), d) | Inr loops \<Rightarrow> (Inr (), d\<lparr>ld_loops := loops\<rparr>))"

definition REPROCESS_CHUNK_SIZE :: int where
  "REPROCESS_CHUNK_SIZE = 5000"

definition UNQUARANTINE_CHUNK_SIZE :: int where
  "UNQUARANTINE_CHUNK_SIZE = 500"

definition daemon_reprocess :: "(nat \<Rightarrow> iso_time) \<Rightarrow> selector \<Rightarrow> 't live_daemon \<Rightarrow> int or_error \<times> 't live_daemon" where
  "daemon_reprocess clock sel d =
     (case reprocess clock sel REPROCESS_CHUNK_SIZE (ld_op d) of (_, affected, st) \<Rightarrow> (Inr affected, d\<lparr>ld_op := st\<rparr>))"

text \<open>The name of the selector's class, in the text of \<^verbatim>\<open>UnsupportedSelectorError\<close>.\<close>

fun selector_class :: "selector \<Rightarrow> string" where
  "selector_class (RerollVersionBelow _) = ''RerollVersionBelow''"
| "selector_class (StateSelector _) = ''StateSelector''"
| "selector_class (ProjectSelector _) = ''ProjectSelector''"
| "selector_class SkippedOnly = ''SkippedOnly''"

definition daemon_unquarantine :: "(nat \<Rightarrow> iso_time) \<Rightarrow> selector \<Rightarrow> 't live_daemon \<Rightarrow> int or_error \<times> 't live_daemon" where
  "daemon_unquarantine clock sel d =
     (case unquarantine clock sel UNQUARANTINE_CHUNK_SIZE (ld_op d) of
        Inl _ \<Rightarrow> (Inl (selector_class sel @ '' has no meaning for QUARANTINED wheels''), d)
      | Inr (_, affected, st) \<Rightarrow> (Inr affected, d\<lparr>ld_op := st\<rparr>))"

text \<open>\<^verbatim>\<open>_start_control_server\<close>; \<^verbatim>\<open>request_shutdown\<close> leaves the sequence to a thread of its own.\<close>

definition daemon_handlers :: "(nat \<Rightarrow> iso_time) \<Rightarrow> real \<Rightarrow> int \<Rightarrow> 't live_daemon control_handlers" where
  "daemon_handlers clock now wal =
     \<lparr>ch_status = (\<lambda>d. (Inr (daemon_status now wal d), d)),
      ch_pause = change_loops pause_stage, ch_resume = change_loops resume_stage,
      ch_drain = (\<lambda>d. (Inr (), d\<lparr>ld_loops := drain_stages (ld_loops d)\<rparr>)),
      ch_reprocess = daemon_reprocess clock, ch_unquarantine = daemon_unquarantine clock,
      ch_shutdown = (\<lambda>d. (Inr (), d\<lparr>ld_shutdown_requested := True\<rparr>))\<rparr>"

section \<open>Requests the server answers\<close>

text \<open>
  C31. A request of the client reaches the command it names with the arguments it was given, whatever the chunks the
  socket delivers, and the client gets exactly what the handler returned: its result, or its exception's text.
\<close>

theorem control_round_trip:
  assumes "map_of COMMANDS command = Some f" and "json_plain (je_repr_float env) (je_float_of env) (JObj args)"
    and "f h args s = (r, s')" and "reply_plain env r"
    and "concat chunks = client_payload env command args" and "[] \<notin> set chunks"
    and "int (length (client_payload env command args)) \<le> max_bytes"
  shows "\<exists>reply. handle_connection env h False max_bytes (map Data chunks) s = (Some reply, s')
    \<and> (\<forall>pieces. concat pieces = reply \<and> [] \<notin> set pieces
          \<longrightarrow> send_control_command env path Connected None (map Data pieces) = client_outcome r)"
  by (rule request_and_reply [OF assms])

theorem control_round_trip_witness:
  "\<exists>reply. handle_connection \<lparr>je_repr_float = (\<lambda>_. ''0.5''), je_float_of = (\<lambda>_. 1 / 2), je_error = (\<lambda>_. [])\<rparr>
        \<lparr>ch_status = (\<lambda>s. (Inl ''no'', s)), ch_pause = (\<lambda>x s. (if x = ''gc'' then Inr () else Inl ''unknown'', x # s)),
         ch_resume = (\<lambda>x s. (Inl ''no'', s)), ch_drain = (\<lambda>s. (Inr (), s)), ch_reprocess = (\<lambda>x s. (Inr 1, s)),
         ch_unquarantine = (\<lambda>x s. (Inr 1, s)), ch_shutdown = (\<lambda>s. (Inr (), s))\<rparr> False DEFAULT_MAX_REQUEST_BYTES
        (map Data [client_payload \<lparr>je_repr_float = (\<lambda>_. ''0.5''), je_float_of = (\<lambda>_. 1 / 2), je_error = (\<lambda>_. [])\<rparr>
           ''pause'' [(''stage'', JStr ''gc'')]]) [] = (Some reply, [''gc''])"
proof -
  let ?env = "\<lparr>je_repr_float = (\<lambda>_. ''0.5''), je_float_of = (\<lambda>_. 1 / 2), je_error = (\<lambda>_. [])\<rparr>"
  let ?h = "\<lparr>ch_status = (\<lambda>s. (Inl ''no'', s)), ch_pause = (\<lambda>x s. (if x = ''gc'' then Inr () else Inl ''unknown'', x # s)),
         ch_resume = (\<lambda>x s. (Inl ''no'', s)), ch_drain = (\<lambda>s. (Inr (), s)), ch_reprocess = (\<lambda>x s. (Inr 1, s)),
         ch_unquarantine = (\<lambda>x s. (Inr 1, s)), ch_shutdown = (\<lambda>s. (Inr (), s))\<rparr>"
  have f: "map_of COMMANDS ''pause'' = Some cmd_pause" by (simp add: COMMANDS_def)
  have r: "cmd_pause ?h [(''stage'', JStr ''gc'')] [] = (Inr (JObj [(''stage'', JStr ''gc''), (''paused'', JBool True)]), [''gc''])"
    by (simp add: cmd_pause_def require_str_def reply_with_def)
  have args: "json_plain (je_repr_float ?env) (je_float_of ?env) (JObj [(''stage'', JStr ''gc'')])" by simp
  have plain: "reply_plain ?env (Inr (JObj [(''stage'', JStr ''gc''), (''paused'', JBool True)]))" by (simp add: reply_plain_def)
  let ?p = "client_payload ?env ''pause'' [(''stage'', JStr ''gc'')]"
  have len: "?p \<noteq> []" "int (length ?p) \<le> DEFAULT_MAX_REQUEST_BYTES"
    by (simp_all add: client_payload_def dumps_string_def escape_point_def code_points_ascii DEFAULT_MAX_REQUEST_BYTES_def)
  have chunks: "concat [?p] = ?p" "[] \<notin> set [?p]" using len(1) by simp_all
  show ?thesis using control_round_trip [OF f args r plain chunks len(2)] by blast
qed

section \<open>Requests the server refuses\<close>

text \<open>
  While the daemon shuts down, no connection changes its state except through \<^verbatim>\<open>status\<close>, whatever bytes
  arrive in whatever chunks.
\<close>

theorem shutdown_refuses_commands:
  "snd (handle_connection env h True max_bytes received s) = s
    \<or> (\<exists>args. snd (handle_connection env h True max_bytes received s) = snd (cmd_status h args s))"
proof (cases "server_read_line max_bytes [] received")
  case (Read_line line)
  have "snd (control_dispatch env h True line s) = s \<or> (\<exists>args. snd (control_dispatch env h True line s) = snd (cmd_status h args s))"
  proof (cases "json_loads (je_float_of env) line")
    case (Some v)
    show ?thesis
    proof (cases v)
      case (JObj request)
      have run: "snd (run_command env h (JStr ''status'') kvs s) = snd (cmd_status h kvs s)" for kvs
        by (simp add: run_command_def COMMANDS_def split: prod.split sum.split)
      show ?thesis
        by (auto simp: control_dispatch_def Some JObj Let_def run split_beta hashable_def split: option.split json.split)
    qed (simp_all add: control_dispatch_def Some)
  qed (simp add: control_dispatch_def)
  then show ?thesis by (auto simp: handle_connection_def Read_line split: prod.splits sum.splits)
qed (simp_all add: handle_connection_def)

text \<open>
  A request whose command is a JSON list or object gets no reply at all: the lookup of the command raises
  \<^verbatim>\<open>TypeError\<close> outside every handler, so the connection is closed without the error every other bad request gets.
\<close>

theorem unhashable_command_gets_no_reply:
  assumes "json_loads (je_float_of env) line = Some (JObj request)" and "map_of request ''command'' = Some command"
    and "\<not> hashable command" and "map_of request ''args'' = None"
    and "CHR 0x0A \<notin> set line" and "int (length line) < max_bytes"
  shows "handle_connection env h False max_bytes [Data (line @ [CHR 0x0A])] s = (None, s)"
proof -
  have "server_read_line max_bytes [] (map Data [line @ [CHR 0x0A]]) = Read_line line"
    by (rule server_lines.reads_line) (use assms(5,6) in simp_all)
  then show ?thesis using assms(1-4) by (simp add: handle_connection_def control_dispatch_def Let_def json_true_def)
qed

end
