(* ===== verification/Db.thy ===== *)
theory Db
  imports Convert
begin

text \<open>
  \<^verbatim>\<open>db.py\<close>: creating the database and validating an existing one. SQLite is its catalog, as \<^verbatim>\<open>PRAGMA table_info\<close>,
  \<^verbatim>\<open>index_list\<close>, \<^verbatim>\<open>index_info\<close>, \<^verbatim>\<open>foreign_key_list\<close> and \<^verbatim>\<open>sqlite_master\<close> show it; a \<^verbatim>\<open>CREATE TABLE\<close> or
  \<^verbatim>\<open>CREATE INDEX\<close> of \<^verbatim>\<open>schema.py\<close> enters what it declares, at once and outside any transaction (Python's
  \<^verbatim>\<open>sqlite3\<close> opens none for DDL).
\<close>

section \<open>The catalog\<close>

record catalog_column =
  cc_name :: string
  cc_type :: string
  cc_notnull :: bool
  cc_default :: "string option"
  cc_pk :: int

record catalog_index =
  ci_name :: string
  ci_unique :: bool
  ci_origin :: string
  ci_columns :: "string list"
  ci_sql :: string

record catalog_table =
  ct_name :: string
  ct_columns :: "catalog_column list"
  ct_foreign_keys :: "(string \<times> string \<times> string) list"
  ct_indexes :: "catalog_index list"

record catalog =
  cat_auto_vacuum :: int
  cat_user_version :: int
  cat_tables :: "catalog_table list"

text \<open>The 1-based place of a column in the primary key, 0 outside it.\<close>

definition pk_rank :: "string list \<Rightarrow> string \<Rightarrow> int" where
  "pk_rank key name = (if name \<in> set key then 1 + int (length (takeWhile (\<lambda>k. k \<noteq> name) key)) else 0)"

definition declared_column :: "string list \<Rightarrow> column \<Rightarrow> catalog_column" where
  "declared_column key c = \<lparr>cc_name = c_name c, cc_type = c_type c, cc_notnull = c_not_null c,
     cc_default = c_default c, cc_pk = pk_rank key (c_name c)\<rparr>"

definition auto_index :: "string \<Rightarrow> string \<Rightarrow> nat \<times> string list \<Rightarrow> catalog_index" where
  "auto_index table_name origin ncs = \<lparr>ci_name = ''sqlite_autoindex_'' @ table_name @ ''_'' @ py_str_int (int (fst ncs)),
     ci_unique = True, ci_origin = origin, ci_columns = snd ncs, ci_sql = []\<rparr>"

text \<open>An \<^verbatim>\<open>INTEGER\<close> primary key of one column is the rowid and has no index.\<close>

definition is_rowid_key :: "table \<Rightarrow> bool" where
  "is_rowid_key t = (\<exists>c \<in> set (t_columns t). t_primary_key t = [c_name c] \<and> c_type c = ''INTEGER'')"

definition auto_indexes :: "table \<Rightarrow> catalog_index list" where
  "auto_indexes t =
     (let uniques = map (\<lambda>c. [c_name c]) (filter c_unique (t_columns t)); n = length uniques
      in map (auto_index (t_name t) ''u'') (zip [1..<n + 1] uniques)
         @ (if is_rowid_key t then [] else [auto_index (t_name t) ''pk'' (n + 1, t_primary_key t)]))"

definition declared_fks :: "table \<Rightarrow> (string \<times> string \<times> string) list" where
  "declared_fks t = concat (map (\<lambda>c. case c_references c of None \<Rightarrow> []
     | Some r \<Rightarrow> [(c_name c, ref_table r, ref_column r)]) (t_columns t))"

definition declared_table :: "table \<Rightarrow> catalog_table" where
  "declared_table t = \<lparr>ct_name = t_name t, ct_columns = map (declared_column (t_primary_key t)) (t_columns t),
     ct_foreign_keys = declared_fks t, ct_indexes = auto_indexes t\<rparr>"

text \<open>\<^verbatim>\<open>sqlite_master.sql\<close> of an index: the statement without \<^verbatim>\<open>IF NOT EXISTS\<close>.\<close>

definition declared_index :: "string \<Rightarrow> index \<Rightarrow> catalog_index" where
  "declared_index table_name i = \<lparr>ci_name = i_name i, ci_unique = False, ci_origin = ''c'', ci_columns = i_columns i,
     ci_sql = ''CREATE INDEX '' @ drop (length ''CREATE INDEX IF NOT EXISTS '') (index_to_sql i table_name)\<rparr>"

datatype ddl = Create_table table | Create_index string index

definition find_table :: "string \<Rightarrow> catalog \<Rightarrow> catalog_table option" where
  "find_table name cat = find (\<lambda>t. ct_name t = name) (cat_tables cat)"

fun run_ddl :: "ddl \<Rightarrow> catalog \<Rightarrow> catalog" where
  "run_ddl (Create_table t) cat =
     (if find_table (t_name t) cat \<noteq> None then cat else cat\<lparr>cat_tables := cat_tables cat @ [declared_table t]\<rparr>)"
| "run_ddl (Create_index name i) cat =
     cat\<lparr>cat_tables := map (\<lambda>t. if ct_name t = name \<and> i_name i \<notin> ci_name ` set (ct_indexes t)
       then t\<lparr>ct_indexes := ct_indexes t @ [declared_index name i]\<rparr> else t) (cat_tables cat)\<rparr>"

section \<open>What is there\<close>

definition existing_columns :: "catalog_table \<Rightarrow> (string \<times> catalog_column) list" where
  "existing_columns t = map (\<lambda>c. (cc_name c, c)) (ct_columns t)"

definition existing_primary_key :: "catalog_table \<Rightarrow> string list" where
  "existing_primary_key t = map snd (sort (map (\<lambda>c. (cc_pk c, cc_name c)) (filter (\<lambda>c. 0 < cc_pk c) (ct_columns t))))"

definition existing_unique_columns :: "catalog_table \<Rightarrow> string list" where
  "existing_unique_columns t = map (\<lambda>i. hd (ci_columns i))
     (filter (\<lambda>i. ci_origin i = ''u'' \<and> length (ci_columns i) = 1) (ct_indexes t))"

definition is_word_char :: "char \<Rightarrow> bool" where
  "is_word_char c = (let n = of_char c :: nat in (48 \<le> n \<and> n \<le> 57) \<or> (65 \<le> n \<and> n \<le> 90) \<or> (97 \<le> n \<and> n \<le> 122) \<or> n = 95 \<or> 128 \<le> n)"

definition upper :: "string \<Rightarrow> string" where
  "upper s = map (\<lambda>c. let n = of_char c :: nat in if 97 \<le> n \<and> n \<le> 122 then char_of (n - 32) else c) s"

text \<open>What follows the first \<^verbatim>\<open>\bWHERE\b\<close>; \<open>inside\<close>: the character before is part of a word.\<close>

fun after_where :: "bool \<Rightarrow> string \<Rightarrow> string option" where
  "after_where inside [] = None"
| "after_where inside (c # cs) =
     (if \<not> inside \<and> upper (take 5 (c # cs)) = ''WHERE'' \<and> (case drop 4 cs of [] \<Rightarrow> True | d # _ \<Rightarrow> \<not> is_word_char d)
      then Some (drop 4 cs) else after_where (is_word_char c) cs)"

text \<open>\<^verbatim>\<open>" ".join(where.split())\<close>.\<close>

definition is_space :: "char \<Rightarrow> bool" where
  "is_space c = (let n = of_char c :: nat in n = 32 \<or> (9 \<le> n \<and> n \<le> 13) \<or> (28 \<le> n \<and> n \<le> 31))"

fun words_from :: "string \<Rightarrow> string \<Rightarrow> string list" where
  "words_from w [] = (if w = [] then [] else [w])"
| "words_from w (c # cs) = (if is_space c then (if w = [] then [] else [w]) @ words_from [] cs else words_from (w @ [c]) cs)"

definition normalize_where :: "string option \<Rightarrow> string option" where
  "normalize_where w = map_option (\<lambda>s. join_with '' '' (words_from [] s)) w"

definition extract_where_clause :: "string \<Rightarrow> string option" where
  "extract_where_clause sql = normalize_where (after_where False sql)"

definition existing_indexes :: "catalog_table \<Rightarrow> (string \<times> string list \<times> string option) list" where
  "existing_indexes t = map (\<lambda>i. (ci_name i, ci_columns i, extract_where_clause (ci_sql i)))
     (filter (\<lambda>i. ci_origin i = ''c'') (ct_indexes t))"

section \<open>Validation\<close>

definition py_bool :: "bool \<Rightarrow> string" where
  "py_bool b = (if b then ''True'' else ''False'')"

definition quoted :: "string \<Rightarrow> string" where
  "quoted s = [CHR 0x27] @ s @ [CHR 0x27]"

definition opt_repr :: "string option \<Rightarrow> string" where
  "opt_repr x = (case x of None \<Rightarrow> ''None'' | Some s \<Rightarrow> py_repr s)"

text \<open>\<^verbatim>\<open>sorted(a - b)\<close> of two sets.\<close>

definition sorted_difference :: "'a::linorder list \<Rightarrow> 'a list \<Rightarrow> 'a list" where
  "sorted_difference a b = sort (remdups (filter (\<lambda>x. x \<notin> set b) a))"

definition column_problems :: "(string \<times> catalog_column) list \<Rightarrow> column \<Rightarrow> string list" where
  "column_problems existing c =
     (case map_of existing (c_name c) of None \<Rightarrow> []
      | Some actual \<Rightarrow>
          (if upper (cc_type actual) \<noteq> upper (c_type c)
           then [''column '' @ quoted (c_name c) @ '' type mismatch: expected '' @ c_type c @ '', found '' @ cc_type actual] else [])
          @ (if cc_notnull actual \<noteq> c_not_null c
             then [''column '' @ quoted (c_name c) @ '' NOT NULL mismatch: expected '' @ py_bool (c_not_null c)
                    @ '', found '' @ py_bool (cc_notnull actual)] else []))"

definition unique_problems :: "(string \<times> catalog_column) list \<Rightarrow> string list \<Rightarrow> column \<Rightarrow> string list" where
  "unique_problems existing actual_unique c =
     (if map_of existing (c_name c) = None \<or> c_unique c = (c_name c \<in> set actual_unique) then []
      else [''column '' @ quoted (c_name c) @ '' UNIQUE mismatch: expected '' @ py_bool (c_unique c)
             @ '', found '' @ py_bool (c_name c \<in> set actual_unique)])"

definition fk_text :: "string \<times> string \<times> string \<Rightarrow> string" where
  "fk_text fk = (case fk of (a, b, c) \<Rightarrow> a @ '' -> '' @ b @ ''.'' @ c)"

definition index_problems :: "(string \<times> string list \<times> string option) list \<Rightarrow> index \<Rightarrow> string list" where
  "index_problems existing i =
     (case map_of existing (i_name i) of None \<Rightarrow> []
      | Some (cols, whr) \<Rightarrow>
          (if cols \<noteq> i_columns i
           then [''index '' @ quoted (i_name i) @ '' columns mismatch: expected '' @ py_repr_list (i_columns i)
                  @ '', found '' @ py_repr_list cols] else [])
          @ (if whr \<noteq> normalize_where (i_where i)
             then [''index '' @ quoted (i_name i) @ '' WHERE clause mismatch: expected '' @ opt_repr (normalize_where (i_where i))
                    @ '', found '' @ opt_repr whr] else []))"

definition validate_table :: "catalog_table \<Rightarrow> table \<Rightarrow> string list" where
  "validate_table ct t =
     (let existing = existing_columns ct; actual_pk = existing_primary_key ct; actual_unique = existing_unique_columns ct;
          expected_fks = declared_fks t; actual_fks = ct_foreign_keys ct; indexes = existing_indexes ct
      in map (\<lambda>n. ''missing column '' @ quoted n) (sorted_difference (map c_name (t_columns t)) (map fst existing))
         @ map (\<lambda>n. ''unexpected column '' @ quoted n) (sorted_difference (map fst existing) (map c_name (t_columns t)))
         @ concat (map (column_problems existing) (t_columns t))
         @ (if actual_pk \<noteq> t_primary_key t
            then [''primary key mismatch: expected '' @ py_repr_list (t_primary_key t) @ '', found '' @ py_repr_list actual_pk] else [])
         @ concat (map (unique_problems existing actual_unique) (t_columns t))
         @ map (\<lambda>fk. ''missing foreign key '' @ fk_text fk) (sorted_difference expected_fks actual_fks)
         @ map (\<lambda>fk. ''unexpected foreign key '' @ fk_text fk) (sorted_difference actual_fks expected_fks)
         @ map (\<lambda>n. ''missing index '' @ quoted n) (sorted_difference (map i_name (t_indexes t)) (map fst indexes))
         @ map (\<lambda>n. ''unexpected index '' @ quoted n) (sorted_difference (map fst indexes) (map i_name (t_indexes t)))
         @ concat (map (index_problems indexes) (t_indexes t)))"

section \<open>Initialisation\<close>

datatype db_error = SchemaMismatchError string "string list" | SchemaVersionError int | AutoVacuumError int

definition EXPECTED_AUTO_VACUUM :: int where
  "EXPECTED_AUTO_VACUUM = 2"

fun db_error_text :: "db_error \<Rightarrow> string" where
  "db_error_text (SchemaMismatchError name problems) =
     ''Schema mismatch for table '' @ quoted name @ '':'' @ newline @ join_with newline (map (\<lambda>p. ''  - '' @ p) problems)"
| "db_error_text (SchemaVersionError found) =
     ''database reports user_version = '' @ py_str_int found @ '', expected '' @ py_str_int SCHEMA_VERSION"
| "db_error_text (AutoVacuumError found) =
     ''database reports auto_vacuum = '' @ py_str_int found @ '', expected '' @ py_str_int EXPECTED_AUTO_VACUUM @ '' (INCREMENTAL)''"

definition check_auto_vacuum :: "catalog \<Rightarrow> db_error + unit" where
  "check_auto_vacuum cat = (if cat_auto_vacuum cat \<noteq> EXPECTED_AUTO_VACUUM then Inl (AutoVacuumError (cat_auto_vacuum cat)) else Inr ())"

definition check_user_version :: "catalog \<Rightarrow> db_error + unit" where
  "check_user_version cat = (if cat_user_version cat \<noteq> SCHEMA_VERSION then Inl (SchemaVersionError (cat_user_version cat)) else Inr ())"

definition table_ddl :: "table \<Rightarrow> ddl list" where
  "table_ddl t = Create_table t # map (Create_index (t_name t)) (t_indexes t)"

definition init_table :: "table \<Rightarrow> catalog \<Rightarrow> (db_error + unit) \<times> catalog" where
  "init_table t cat =
     (case find_table (t_name t) cat of
        Some ct \<Rightarrow>
          (let problems = validate_table ct t
           in (if problems \<noteq> [] then Inl (SchemaMismatchError (t_name t) problems) else Inr (), cat))
      | None \<Rightarrow> (Inr (), fold run_ddl (table_ddl t) cat))"

text \<open>A new file: the two pragmas are set before the first table.\<close>

definition new_catalog :: catalog where
  "new_catalog = \<lparr>cat_auto_vacuum = EXPECTED_AUTO_VACUUM, cat_user_version = SCHEMA_VERSION, cat_tables = []\<rparr>"

definition init_db :: "catalog option \<Rightarrow> (db_error + unit) \<times> catalog" where
  "init_db file =
     (case file of
        None \<Rightarrow> for_each init_table SCHEMA new_catalog
      | Some cat \<Rightarrow>
          (case bind_res (check_auto_vacuum cat) (\<lambda>_. check_user_version cat) of
             Inl e \<Rightarrow> (Inl e, cat) | Inr _ \<Rightarrow> for_each init_table SCHEMA cat))"

section \<open>What validation accepts\<close>

definition table_agrees :: "catalog_table \<Rightarrow> table \<Rightarrow> bool" where
  "table_agrees ct t \<longleftrightarrow>
     cc_name ` set (ct_columns ct) = c_name ` set (t_columns t)
     \<and> (\<forall>c \<in> set (t_columns t). \<forall>a. map_of (existing_columns ct) (c_name c) = Some a
          \<longrightarrow> upper (cc_type a) = upper (c_type c) \<and> cc_notnull a = c_not_null c
            \<and> (c_name c \<in> set (existing_unique_columns ct) \<longleftrightarrow> c_unique c))
     \<and> existing_primary_key ct = t_primary_key t
     \<and> set (ct_foreign_keys ct) = set (declared_fks t)
     \<and> fst ` set (existing_indexes ct) = i_name ` set (t_indexes t)
     \<and> (\<forall>i \<in> set (t_indexes t). \<forall>cols w. map_of (existing_indexes ct) (i_name i) = Some (cols, w)
          \<longrightarrow> cols = i_columns i \<and> w = normalize_where (i_where i))"

lemma sorted_difference_empty: "sorted_difference a b = [] \<longleftrightarrow> set a \<subseteq> set b"
  by (auto simp: sorted_difference_def filter_empty_conv simp flip: set_empty)

lemma column_problems_empty: "column_problems ex c = [] \<longleftrightarrow> (\<forall>a. map_of ex (c_name c) = Some a
    \<longrightarrow> upper (cc_type a) = upper (c_type c) \<and> cc_notnull a = c_not_null c)"
  by (auto simp: column_problems_def split: option.split)

lemma unique_problems_empty: "unique_problems ex u c = [] \<longleftrightarrow> (\<forall>a. map_of ex (c_name c) = Some a \<longrightarrow> (c_name c \<in> set u \<longleftrightarrow> c_unique c))"
  by (auto simp: unique_problems_def)

lemma index_problems_empty: "index_problems ex i = [] \<longleftrightarrow> (\<forall>cols w. map_of ex (i_name i) = Some (cols, w)
    \<longrightarrow> cols = i_columns i \<and> w = normalize_where (i_where i))"
  by (auto simp: index_problems_def split: option.split)

lemma validate_agrees: "validate_table ct t = [] \<longleftrightarrow> table_agrees ct t"
proof -
  have names: "map fst (existing_columns ct) = map cc_name (ct_columns ct)" by (simp add: existing_columns_def)
  have "validate_table ct t = [] \<longleftrightarrow>
      set (map c_name (t_columns t)) \<subseteq> set (map cc_name (ct_columns ct)) \<and> set (map cc_name (ct_columns ct)) \<subseteq> set (map c_name (t_columns t))
    \<and> (\<forall>c \<in> set (t_columns t). column_problems (existing_columns ct) c = [])
    \<and> existing_primary_key ct = t_primary_key t
    \<and> (\<forall>c \<in> set (t_columns t). unique_problems (existing_columns ct) (existing_unique_columns ct) c = [])
    \<and> set (declared_fks t) \<subseteq> set (ct_foreign_keys ct) \<and> set (ct_foreign_keys ct) \<subseteq> set (declared_fks t)
    \<and> set (map i_name (t_indexes t)) \<subseteq> set (map fst (existing_indexes ct)) \<and> set (map fst (existing_indexes ct)) \<subseteq> set (map i_name (t_indexes t))
    \<and> (\<forall>i \<in> set (t_indexes t). index_problems (existing_indexes ct) i = [])"
    by (simp add: validate_table_def Let_def names sorted_difference_empty concat_eq_Nil_conv)
  moreover have "(\<forall>c \<in> set (t_columns t). \<forall>a. map_of (existing_columns ct) (c_name c) = Some a
          \<longrightarrow> upper (cc_type a) = upper (c_type c) \<and> cc_notnull a = c_not_null c
            \<and> (c_name c \<in> set (existing_unique_columns ct) \<longleftrightarrow> c_unique c))
      \<longleftrightarrow> (\<forall>c \<in> set (t_columns t). column_problems (existing_columns ct) c = [])
        \<and> (\<forall>c \<in> set (t_columns t). unique_problems (existing_columns ct) (existing_unique_columns ct) c = [])"
    unfolding column_problems_empty unique_problems_empty by blast
  ultimately show ?thesis
    unfolding table_agrees_def index_problems_empty [symmetric] set_map set_eq_subset by argo
qed

section \<open>Running the statements of a table\<close>

definition built :: "table \<Rightarrow> nat \<Rightarrow> catalog_table" where
  "built t j = (declared_table t)\<lparr>ct_indexes := auto_indexes t @ map (declared_index (t_name t)) (take j (t_indexes t))\<rparr>"

definition index_names_ok :: "table \<Rightarrow> bool" where
  "index_names_ok t \<longleftrightarrow> distinct (map i_name (t_indexes t)) \<and> set (map i_name (t_indexes t)) \<inter> ci_name ` set (auto_indexes t) = {}"

definition table_ok :: "table \<Rightarrow> bool" where
  "table_ok t \<longleftrightarrow> index_names_ok t \<and> validate_table (built t (length (t_indexes t))) t = []"

lemma built_name [simp]: "ct_name (built t j) = t_name t"
  by (simp add: built_def declared_table_def)

lemma build_indexes:
  assumes "index_names_ok t" and "\<forall>u \<in> set before. ct_name u \<noteq> t_name t" and "j \<le> length (t_indexes t)"
  shows "fold run_ddl (map (Create_index (t_name t)) (take j (t_indexes t))) (cat\<lparr>cat_tables := before @ [built t 0]\<rparr>)
    = cat\<lparr>cat_tables := before @ [built t j]\<rparr>"
  using assms(3)
proof (induction j)
  case (Suc j)
  let ?i = "t_indexes t ! j"
  have step: "take (Suc j) (t_indexes t) = take j (t_indexes t) @ [?i]" using Suc.prems by (simp add: take_Suc_conv_app_nth)
  have "i_name ?i \<notin> i_name ` set (take j (t_indexes t))"
    using assms(1) Suc.prems by (auto simp: index_names_ok_def distinct_conv_nth in_set_conv_nth)
  moreover have "i_name ?i \<notin> ci_name ` set (auto_indexes t)"
    using assms(1) Suc.prems nth_mem [of j "t_indexes t"] by (force simp: index_names_ok_def)
  ultimately have "i_name ?i \<notin> ci_name ` set (ct_indexes (built t j))"
    by (auto simp: built_def declared_index_def)
  moreover have "map (\<lambda>u. if ct_name u = t_name t \<and> P u then f u else u) before = before" for P f
    using assms(2) by (intro map_idI) auto
  moreover have "(built t j)\<lparr>ct_indexes := ct_indexes (built t j) @ [declared_index (t_name t) ?i]\<rparr> = built t (Suc j)"
    by (simp add: built_def step)
  ultimately show ?case using Suc by (simp add: step)
qed simp

lemma build_table:
  assumes "index_names_ok t" and "find_table (t_name t) cat = None" and "j \<le> length (t_indexes t)"
  shows "fold run_ddl (Create_table t # map (Create_index (t_name t)) (take j (t_indexes t))) cat
    = cat\<lparr>cat_tables := cat_tables cat @ [built t j]\<rparr>"
proof -
  have "\<forall>u \<in> set (cat_tables cat). ct_name u \<noteq> t_name t" using assms(2) by (auto simp: find_table_def find_None_iff)
  moreover have "declared_table t = built t 0" by (simp add: built_def declared_table_def)
  ultimately show ?thesis using build_indexes [OF assms(1) _ assms(3), of "cat_tables cat" cat] assms(2) by simp
qed

definition full :: "table \<Rightarrow> catalog_table" where
  "full t = built t (length (t_indexes t))"

lemma find_append: "find p (xs @ ys) = (case find p xs of None \<Rightarrow> find p ys | Some x \<Rightarrow> Some x)"
  by (induction xs) auto

lemma init_missing:
  assumes "list_all table_ok ts" and "distinct (map t_name ts)" and "t_name ` set ts \<inter> ct_name ` set (cat_tables cat) = {}"
  shows "for_each init_table ts cat = (Inr (), cat\<lparr>cat_tables := cat_tables cat @ map full ts\<rparr>)"
  using assms
proof (induction ts arbitrary: cat)
  case (Cons t ts)
  have "find_table (t_name t) cat = None" using Cons.prems(3) by (force simp: find_table_def find_None_iff)
  then have "init_table t cat = (Inr (), cat\<lparr>cat_tables := cat_tables cat @ [full t]\<rparr>)"
    using build_table [of t cat "length (t_indexes t)"] Cons.prems(1) by (simp add: init_table_def table_ddl_def full_def table_ok_def)
  moreover have "t_name ` set ts \<inter> ct_name ` set (cat_tables (cat\<lparr>cat_tables := cat_tables cat @ [full t]\<rparr>)) = {}"
    using Cons.prems(2,3) by (auto simp: full_def)
  ultimately show ?case using Cons.IH [of "cat\<lparr>cat_tables := cat_tables cat @ [full t]\<rparr>"] Cons.prems(1,2) by simp
qed simp

lemma find_full:
  assumes "distinct (map t_name ts)" and "t \<in> set ts"
  shows "find (\<lambda>u. ct_name u = t_name t) (map full ts) = Some (full t)"
  using assms by (induction ts) (auto simp: full_def)

lemma init_present:
  assumes "list_all table_ok ts" and "\<forall>t \<in> set ts. find_table (t_name t) cat = Some (full t)"
  shows "for_each init_table ts cat = (Inr (), cat)"
  using assms by (induction ts) (auto simp: init_table_def table_ok_def full_def)

lemma for_each_append:
  "for_each f (xs @ ys) s = (case for_each f xs s of (Inl e, s1) \<Rightarrow> (Inl e, s1) | (Inr _, s1) \<Rightarrow> for_each f ys s1)"
  by (induction xs arbitrary: s) (auto split: prod.splits sum.splits)

text \<open>A declared table agrees with its definition when its primary key and the \<^verbatim>\<open>WHERE\<close> clauses of its indexes are read back.\<close>

definition declaration_ok :: "table \<Rightarrow> bool" where
  "declaration_ok t \<longleftrightarrow> distinct (map c_name (t_columns t)) \<and> existing_primary_key (declared_table t) = t_primary_key t
     \<and> list_all (\<lambda>i. extract_where_clause (ci_sql (declared_index (t_name t) i)) = normalize_where (i_where i)) (t_indexes t)"

lemma unique_columns_declared: "set (existing_unique_columns (full t)) = c_name ` {c \<in> set (t_columns t). c_unique c}"
proof -
  let ?us = "map (\<lambda>c. [c_name c]) (filter c_unique (t_columns t))"
  have "filter (\<lambda>i. ci_origin i = ''u'' \<and> length (ci_columns i) = 1) (ct_indexes (full t)) = map (auto_index (t_name t) ''u'') (zip [1..<length ?us + 1] ?us)"
  proof -
    have "filter (\<lambda>i. ci_origin i = ''u'' \<and> length (ci_columns i) = 1) (map (auto_index (t_name t) ''u'') (zip [1..<length ?us + 1] ?us))
        = map (auto_index (t_name t) ''u'') (zip [1..<length ?us + 1] ?us)"
      by (rule filter_True) (auto simp: auto_index_def dest!: set_zip_rightD simp del: upt_Suc)
    then show ?thesis
      by (simp add: full_def built_def auto_indexes_def Let_def filter_empty_conv declared_index_def auto_index_def del: upt_Suc)
  qed
  then have "existing_unique_columns (full t) = map (\<lambda>ncs. hd (snd ncs)) (zip [1..<length ?us + 1] ?us)"
    by (simp add: existing_unique_columns_def auto_index_def comp_def del: upt_Suc)
  also have "\<dots> = map hd (map snd (zip [1..<length ?us + 1] ?us))" by (simp only: map_map comp_def)
  also have "\<dots> = map hd ?us" by (subst map_snd_zip) (simp_all del: upt_Suc)
  finally show ?thesis by (auto simp: comp_def)
qed

lemma declared_agrees: "declaration_ok t \<Longrightarrow> index_names_ok t \<Longrightarrow> table_agrees (full t) t"
proof -
  assume ok: "declaration_ok t" and names: "index_names_ok t"
  have cols: "ct_columns (full t) = map (declared_column (t_primary_key t)) (t_columns t)"
    and fks: "ct_foreign_keys (full t) = declared_fks t" by (simp_all add: full_def built_def declared_table_def)
  have "existing_columns (full t) = map (\<lambda>c. (c_name c, declared_column (t_primary_key t) c)) (t_columns t)"
    by (simp add: existing_columns_def cols declared_column_def)
  then have col: "map_of (existing_columns (full t)) (c_name c) = Some (declared_column (t_primary_key t) c)" if "c \<in> set (t_columns t)" for c
    using ok that by (auto simp: declaration_ok_def comp_def intro!: map_of_is_SomeI)
  have "existing_indexes (full t) = map (\<lambda>i. (i_name i, i_columns i, extract_where_clause (ci_sql (declared_index (t_name t) i)))) (t_indexes t)"
    by (simp add: existing_indexes_def full_def built_def auto_indexes_def auto_index_def Let_def filter_map comp_def declared_index_def)
  then have idx: "existing_indexes (full t) = map (\<lambda>i. (i_name i, i_columns i, normalize_where (i_where i))) (t_indexes t)"
    using ok by (simp add: declaration_ok_def list_all_iff)
  have idx_of: "map_of (existing_indexes (full t)) (i_name i) = Some (i_columns i, normalize_where (i_where i))" if "i \<in> set (t_indexes t)" for i
    using names that by (auto simp: idx index_names_ok_def comp_def intro!: map_of_is_SomeI)
  have "inj_on c_name (set (t_columns t))" using ok by (simp add: declaration_ok_def distinct_map)
  then have uniq: "c_name c \<in> set (existing_unique_columns (full t)) \<longleftrightarrow> c_unique c" if "c \<in> set (t_columns t)" for c
    using that by (auto simp: unique_columns_declared dest: inj_onD)
  have pk: "existing_primary_key (full t) = t_primary_key t"
    using ok by (simp add: declaration_ok_def existing_primary_key_def full_def built_def declared_table_def)
  show ?thesis unfolding table_agrees_def
    using col idx_of uniq pk by (auto simp: fks idx cols declared_column_def image_image)
qed

lemma PYPI_INDEX_ok: "index_names_ok PYPI_INDEX \<and> declaration_ok PYPI_INDEX" by code_simp
lemma WHEELS_ok: "index_names_ok WHEELS \<and> declaration_ok WHEELS" by code_simp
lemma SEGMENTS_ok: "index_names_ok SEGMENTS \<and> declaration_ok SEGMENTS" by code_simp
lemma BLOBS_ok: "index_names_ok BLOBS \<and> declaration_ok BLOBS" by code_simp
lemma WHEEL_REPODATA_ok: "index_names_ok WHEEL_REPODATA \<and> declaration_ok WHEEL_REPODATA" by code_simp
lemma SKIPS_ok: "index_names_ok SKIPS \<and> declaration_ok SKIPS" by code_simp
lemma WORK_ok: "index_names_ok WORK \<and> declaration_ok WORK" by code_simp
lemma ERRORS_ok: "index_names_ok ERRORS \<and> declaration_ok ERRORS" by code_simp
lemma UNLINKED_BLOBS_ok: "index_names_ok UNLINKED_BLOBS \<and> declaration_ok UNLINKED_BLOBS" by code_simp

lemma table_okI: "index_names_ok t \<and> declaration_ok t \<Longrightarrow> table_ok t"
  using declared_agrees [of t] validate_agrees [of "full t" t] by (simp add: table_ok_def full_def)

lemma SCHEMA_ok: "list_all table_ok SCHEMA" "distinct (map t_name SCHEMA)"
proof -
  show "list_all table_ok SCHEMA"
    by (simp add: SCHEMA_def table_okI [OF PYPI_INDEX_ok] table_okI [OF WHEELS_ok] table_okI [OF SEGMENTS_ok] table_okI [OF BLOBS_ok]
        table_okI [OF WHEEL_REPODATA_ok] table_okI [OF SKIPS_ok] table_okI [OF WORK_ok] table_okI [OF ERRORS_ok] table_okI [OF UNLINKED_BLOBS_ok])
  show "distinct (map t_name SCHEMA)"
    by (simp add: SCHEMA_def PYPI_INDEX_def WHEELS_def SEGMENTS_def BLOBS_def WHEEL_REPODATA_def SKIPS_def WORK_def ERRORS_def UNLINKED_BLOBS_def)
qed

section \<open>Creating and opening a database\<close>

lemma init_new: "init_db None = (Inr (), new_catalog\<lparr>cat_tables := map full SCHEMA\<rparr>)"
  using init_missing [OF SCHEMA_ok, of new_catalog] by (simp add: init_db_def new_catalog_def)

text \<open>An initialisation interrupted in the table \<open>t\<close>, after its \<open>CREATE TABLE\<close> and \<open>j\<close> of its indexes.\<close>

definition interrupted_init :: "table list \<Rightarrow> table \<Rightarrow> nat \<Rightarrow> catalog" where
  "interrupted_init before t j = fold run_ddl (concat (map table_ddl before) @ take (Suc j) (table_ddl t)) new_catalog"

lemma build_tables:
  assumes "list_all table_ok ts" and "distinct (map t_name ts)" and "t_name ` set ts \<inter> ct_name ` set (cat_tables cat) = {}"
  shows "fold run_ddl (concat (map table_ddl ts)) cat = cat\<lparr>cat_tables := cat_tables cat @ map full ts\<rparr>"
  using assms
proof (induction ts arbitrary: cat)
  case (Cons t ts)
  have "find_table (t_name t) cat = None" using Cons.prems(3) by (force simp: find_table_def find_None_iff)
  then have "fold run_ddl (table_ddl t) cat = cat\<lparr>cat_tables := cat_tables cat @ [full t]\<rparr>"
    using build_table [of t cat "length (t_indexes t)"] Cons.prems(1) by (simp add: table_ddl_def full_def table_ok_def)
  moreover have "t_name ` set ts \<inter> ct_name ` set (cat_tables (cat\<lparr>cat_tables := cat_tables cat @ [full t]\<rparr>)) = {}"
    using Cons.prems(2,3) by (auto simp: full_def)
  ultimately show ?case using Cons.IH [of "cat\<lparr>cat_tables := cat_tables cat @ [full t]\<rparr>"] Cons.prems(1,2) by simp
qed simp

lemma interrupted_catalog:
  assumes "SCHEMA = before @ t # rest" and "j \<le> length (t_indexes t)"
  shows "interrupted_init before t j = new_catalog\<lparr>cat_tables := map full before @ [built t j]\<rparr>"
proof -
  have ok: "list_all table_ok before" "table_ok t" "distinct (map t_name before)" "t_name t \<notin> t_name ` set before"
    using SCHEMA_ok by (auto simp: assms(1))
  have b: "fold run_ddl (concat (map table_ddl before)) new_catalog = new_catalog\<lparr>cat_tables := map full before\<rparr>"
    using build_tables [OF ok(1,3), of new_catalog] by (simp add: new_catalog_def)
  have "find_table (t_name t) (new_catalog\<lparr>cat_tables := map full before\<rparr>) = None"
  proof -
    have "\<forall>u \<in> set before. t_name u \<noteq> t_name t" using ok(4) by (metis imageI)
    then show ?thesis by (auto simp: find_table_def find_None_iff full_def)
  qed
  from build_table [OF _ this assms(2)] ok(2) show ?thesis
    by (simp add: interrupted_init_def table_ddl_def take_map b table_ok_def)
qed

lemma partial_table_fails:
  assumes "index_names_ok t" and "j < length (t_indexes t)"
  shows "validate_table (built t j) t \<noteq> []"
proof
  assume "validate_table (built t j) t = []"
  then have "fst ` set (existing_indexes (built t j)) = i_name ` set (t_indexes t)" unfolding validate_agrees table_agrees_def by blast
  moreover have "i_name (t_indexes t ! j) \<in> i_name ` set (t_indexes t)" using assms(2) by simp
  moreover have "fst ` set (existing_indexes (built t j)) \<subseteq> i_name ` set (take j (t_indexes t))"
    by (auto simp: existing_indexes_def built_def declared_index_def auto_indexes_def auto_index_def Let_def)
  moreover have "i_name (t_indexes t ! j) \<notin> i_name ` set (take j (t_indexes t))"
    using assms by (auto simp: index_names_ok_def distinct_conv_nth in_set_conv_nth)
  ultimately show False by blast
qed


text \<open>
  C33. An initialisation that is interrupted is resumed by the next one exactly when it stopped between two tables:
  after the \<^verbatim>\<open>CREATE TABLE\<close> of a table and before the last of its indexes, every later \<^verbatim>\<open>init_db\<close> refuses
  the database, although nothing is in it.
\<close>

theorem interrupted_init_is_refused:
  assumes "SCHEMA = before @ t # rest" and "j \<le> length (t_indexes t)"
  shows "if j = length (t_indexes t) then init_db (Some (interrupted_init before t j)) = init_db None
    else \<exists>problems. problems \<noteq> []
      \<and> init_db (Some (interrupted_init before t j)) = (Inl (SchemaMismatchError (t_name t) problems), interrupted_init before t j)"
proof -
  let ?cat = "new_catalog\<lparr>cat_tables := map full before @ [built t j]\<rparr>"
  note cat = interrupted_catalog [OF assms]
  have ok: "list_all table_ok before" "table_ok t" "list_all table_ok rest" "distinct (map t_name (before @ t # rest))"
    using SCHEMA_ok by (auto simp: assms(1))
  have gate: "init_db (Some ?cat) = for_each init_table SCHEMA ?cat"
    by (simp add: init_db_def new_catalog_def check_auto_vacuum_def check_user_version_def bind_res_def)
  have "find_table (t_name u) ?cat = Some (full u)" if "u \<in> set before" for u
    using find_full [of before u] that ok(4) by (simp add: find_table_def find_append)
  then have first: "for_each init_table before ?cat = (Inr (), ?cat)" using init_present [OF ok(1)] by blast
  have "find (\<lambda>u. ct_name u = t_name t) (map full before) = None"
  proof -
    have "t_name t \<notin> t_name ` set before" using ok(4) by auto
    then have "\<forall>u \<in> set before. t_name u \<noteq> t_name t" by (metis imageI)
    then show ?thesis by (auto simp: find_None_iff full_def)
  qed
  then have here: "find_table (t_name t) ?cat = Some (built t j)" by (simp add: find_table_def find_append)
  show ?thesis
  proof (cases "j = length (t_indexes t)")
    case True
    then have "init_table t ?cat = (Inr (), ?cat)" using here ok(2) by (simp add: init_table_def table_ok_def)
    moreover have "for_each init_table rest ?cat = (Inr (), ?cat\<lparr>cat_tables := cat_tables ?cat @ map full rest\<rparr>)"
    proof (rule init_missing [OF ok(3)])
      show "distinct (map t_name rest)" using ok(4) by simp
      have "ct_name ` set (cat_tables ?cat) = insert (t_name t) (t_name ` set before)" by (auto simp: full_def image_image)
      then show "t_name ` set rest \<inter> ct_name ` set (cat_tables ?cat) = {}" using ok(4) by auto
    qed
    ultimately have "for_each init_table (before @ t # rest) ?cat = (Inr (), new_catalog\<lparr>cat_tables := map full (before @ t # rest)\<rparr>)"
      unfolding for_each_append first prod.case sum.case for_each.simps by (simp add: True full_def)
    then show ?thesis using True unfolding cat gate init_new assms(1) by simp
  next
    case False
    then have "validate_table (built t j) t \<noteq> []" using partial_table_fails [of t j] ok(2) assms(2) by (simp add: table_ok_def)
    then have "init_table t ?cat = (Inl (SchemaMismatchError (t_name t) (validate_table (built t j) t)), ?cat)" and "validate_table (built t j) t \<noteq> []"
      using here by (simp_all add: init_table_def)
    moreover from this(1) have "for_each init_table (before @ t # rest) ?cat = (Inl (SchemaMismatchError (t_name t) (validate_table (built t j) t)), ?cat)"
      unfolding for_each_append first prod.case sum.case for_each.simps by (simp only: prod.case sum.case)
    ultimately show ?thesis using False unfolding cat gate assms(1) by auto
  qed
qed

theorem interrupted_init_is_refused_witness:
  "\<exists>problems. problems \<noteq> [] \<and> init_db (Some (interrupted_init [PYPI_INDEX] WHEELS 1))
      = (Inl (SchemaMismatchError ''wheels'' problems), interrupted_init [PYPI_INDEX] WHEELS 1)"
  using interrupted_init_is_refused [of "[PYPI_INDEX]" WHEELS "[SEGMENTS, BLOBS, WHEEL_REPODATA, SKIPS, WORK, ERRORS, UNLINKED_BLOBS]" 1]
  by (simp add: SCHEMA_def WHEELS_def)

text \<open>
  Validation reports no problem exactly when the columns, their types, \<^verbatim>\<open>NOT NULL\<close> and \<^verbatim>\<open>UNIQUE\<close>, the
  primary key, the foreign keys and the indexes with their \<^verbatim>\<open>WHERE\<close> are those of the definition. The default
  values and the uniqueness of an index are not among them.
\<close>

theorem validation_is_exact: "validate_table ct t = [] \<longleftrightarrow> table_agrees ct t"
  by (rule validate_agrees)

text \<open>
  A table whose \<^verbatim>\<open>DEFAULT\<close> values have drifted, or whose declared indexes have become unique, passes validation.
\<close>

theorem validation_misses_defaults:
  "validate_table (ct\<lparr>ct_columns := map (\<lambda>c. c\<lparr>cc_default := d c\<rparr>) (ct_columns ct),
      ct_indexes := map (\<lambda>i. i\<lparr>ci_unique := u i\<rparr>) (ct_indexes ct)\<rparr>) t = [] \<longleftrightarrow> validate_table ct t = []"
proof -
  let ?ct = "ct\<lparr>ct_columns := map (\<lambda>c. c\<lparr>cc_default := d c\<rparr>) (ct_columns ct), ct_indexes := map (\<lambda>i. i\<lparr>ci_unique := u i\<rparr>) (ct_indexes ct)\<rparr>"
  have cols: "map_of (existing_columns ?ct) n = map_option (\<lambda>c. c\<lparr>cc_default := d c\<rparr>) (map_of (existing_columns ct) n)" for n
  proof -
    have "map_of (map (\<lambda>c. (cc_name c, c\<lparr>cc_default := d c\<rparr>)) cs) n = map_option (\<lambda>c. c\<lparr>cc_default := d c\<rparr>) (map_of (map (\<lambda>c. (cc_name c, c)) cs) n)" for cs
      by (induction cs) simp_all
    then show ?thesis by (simp add: existing_columns_def comp_def)
  qed
  have "existing_indexes ?ct = existing_indexes ct" "existing_unique_columns ?ct = existing_unique_columns ct"
    "existing_primary_key ?ct = existing_primary_key ct" "cc_name ` set (ct_columns ?ct) = cc_name ` set (ct_columns ct)"
    by (simp_all add: existing_indexes_def existing_unique_columns_def existing_primary_key_def filter_map comp_def image_image)
  then show ?thesis unfolding validate_agrees table_agrees_def cols by auto
qed

end
