(* ===== verification/Config.thy ===== *)
theory Config
  imports Json Ratelimit Sqlite_Writer
begin

text \<open>
  \<^verbatim>\<open>daemon/config.py\<close>: the daemon's settings, read from the environment and validated when a \<^verbatim>\<open>Config\<close> is
  constructed. \<open>float_text\<close> is Python's \<^verbatim>\<open>float(text)\<close> on finite numbers, \<open>frozen\<close> is \<^verbatim>\<open>frozendict(value)\<close>; the
  numbers in a message are printed by \<open>number\<close>.
\<close>

section \<open>Settings\<close>

record config =
  cf_db_path :: string
  cf_segments_dir :: string
  cf_socket_path :: string
  cf_user_agent :: string
  cf_global_rate :: real
  cf_domain_reserves :: "(string \<times> json) list"
  cf_fetch_workers :: int
  cf_project_workers :: int
  cf_convert_workers :: int
  cf_handoff_budget_bytes :: int
  cf_batch_size :: int
  cf_batch_interval :: real
  cf_checkpoint_interval :: real
  cf_vacuum_interval :: real
  cf_index_poll_interval :: real
  cf_max_attempts :: int
  cf_backoff_base :: real
  cf_backoff_cap :: real
  cf_segment_seal_bytes :: int
  cf_segment_seal_seconds :: real
  cf_disk_free_floor_bytes :: int
  cf_metrics_port :: "int option"

text \<open>\<^verbatim>\<open>ConfigError\<close> is a \<^verbatim>\<open>ValueError\<close> of its own; \<^verbatim>\<open>int\<close>, \<^verbatim>\<open>float\<close> and \<^verbatim>\<open>json.loads\<close> raise the plain one.\<close>

datatype config_exn = ConfigError string | ConfigRaises py_exn

type_synonym 'a config_res = "config_exn + 'a"

definition default_convert_workers :: "int option \<Rightarrow> int" where
  "default_convert_workers cpu_count = max 1 ((case cpu_count of None \<Rightarrow> 1 | Some n \<Rightarrow> if n = 0 then 1 else n) - 2)"

definition DEFAULT_DOMAIN_RESERVES :: "(string \<times> json) list" where
  "DEFAULT_DOMAIN_RESERVES = [(''pypi.org'', JReal 200), (''files.pythonhosted.org'', JReal 1800)]"

definition default_config :: "int option \<Rightarrow> string \<Rightarrow> string \<Rightarrow> string \<Rightarrow> string \<Rightarrow> config" where
  "default_config cpu_count db_path segments_dir socket_path user_agent =
     \<lparr>cf_db_path = db_path, cf_segments_dir = segments_dir, cf_socket_path = socket_path, cf_user_agent = user_agent,
      cf_global_rate = 2000, cf_domain_reserves = DEFAULT_DOMAIN_RESERVES, cf_fetch_workers = 64, cf_project_workers = 32,
      cf_convert_workers = default_convert_workers cpu_count, cf_handoff_budget_bytes = 256 * 1024 * 1024,
      cf_batch_size = 1000, cf_batch_interval = 1 / 10, cf_checkpoint_interval = 60, cf_vacuum_interval = 3600,
      cf_index_poll_interval = 300, cf_max_attempts = 8, cf_backoff_base = 30, cf_backoff_cap = 21600,
      cf_segment_seal_bytes = 64 * 1024 * 1024, cf_segment_seal_seconds = 21600,
      cf_disk_free_floor_bytes = 20 * 1024 ^ 3, cf_metrics_port = None\<rparr>"

section \<open>Validation\<close>

text \<open>\<open>shown\<close> is the value as the message prints it.\<close>

definition require_positive :: "string \<Rightarrow> real \<Rightarrow> string \<Rightarrow> unit config_res" where
  "require_positive shown v name =
     (if v \<le> 0 then Inl (ConfigError (name @ '' must be positive, got '' @ shown)) else Inr ())"

definition require_non_negative :: "string \<Rightarrow> real \<Rightarrow> string \<Rightarrow> unit config_res" where
  "require_non_negative shown v name =
     (if v < 0 then Inl (ConfigError (name @ '' must be >= 0, got '' @ shown)) else Inr ())"

definition require_at_least :: "string \<Rightarrow> real \<Rightarrow> int \<Rightarrow> string \<Rightarrow> unit config_res" where
  "require_at_least shown v minimum name =
     (if v < of_int minimum then Inl (ConfigError (name @ '' must be >= '' @ py_str_int minimum @ '', got '' @ shown)) else Inr ())"

definition require_min_workers :: "int \<Rightarrow> string \<Rightarrow> unit config_res" where
  "require_min_workers v name = require_at_least (py_str_int v) (of_int v) 1 name"

text \<open>A JSON value in arithmetic: \<^verbatim>\<open>True\<close> and \<^verbatim>\<open>False\<close> are numbers, anything else raises \<^verbatim>\<open>TypeError\<close>.\<close>

definition json_number :: "json \<Rightarrow> real config_res" where
  "json_number v = (case v of JInt n \<Rightarrow> Inr (of_int n) | JReal x \<Rightarrow> Inr x | JBool b \<Rightarrow> Inr (if b then 1 else 0)
     | _ \<Rightarrow> Inl (ConfigRaises PyTypeError))"

text \<open>A number and a sum of numbers as \<^verbatim>\<open>str\<close> prints them: a sum is a \<^verbatim>\<open>float\<close> when one of its terms is.\<close>

definition shown_number :: "(real \<Rightarrow> string) \<Rightarrow> json \<Rightarrow> string" where
  "shown_number number v = (case v of JInt n \<Rightarrow> py_str_int n | JReal x \<Rightarrow> number x | JBool b \<Rightarrow> (if b then ''True'' else ''False'') | _ \<Rightarrow> [])"

definition shown_total :: "(real \<Rightarrow> string) \<Rightarrow> (string \<times> json) list \<Rightarrow> real \<Rightarrow> string" where
  "shown_total number kvs t =
     (if list_ex (\<lambda>kv. case snd kv of JReal _ \<Rightarrow> True | _ \<Rightarrow> False) kvs then number t else py_str_int \<lfloor>t\<rfloor>)"

fun reserve_rates :: "(real \<Rightarrow> string) \<Rightarrow> (string \<times> json) list \<Rightarrow> (string \<times> real) list config_res" where
  "reserve_rates number [] = Inr []"
| "reserve_rates number ((name, v) # rest) =
     bind_res (json_number v) (\<lambda>rate.
       bind_res (require_positive (shown_number number v) rate (''domain_reserves['' @ py_repr name @ '']'')) (\<lambda>_.
         bind_res (reserve_rates number rest) (\<lambda>rs. Inr ((name, rate) # rs))))"

definition all_checks :: "'e + unit \<Rightarrow> ('e + unit) list \<Rightarrow> 'e + unit" where
  "all_checks c cs = foldr (\<lambda>c r. bind_res c (\<lambda>_. r)) (c # cs) (Inr ())"

text \<open>\<^verbatim>\<open>__post_init__\<close>.\<close>

definition config_check :: "(real \<Rightarrow> string) \<Rightarrow> config \<Rightarrow> unit config_res" where
  "config_check number c =
     bind_res (require_positive (number (cf_global_rate c)) (cf_global_rate c) ''global_rate'') (\<lambda>_.
     bind_res (reserve_rates number (cf_domain_reserves c)) (\<lambda>rates.
     all_checks
       (let reserved_total = sum_list (map snd rates)
        in if cf_global_rate c < reserved_total
           then Inl (ConfigError (''domain_reserves sum to '' @ shown_total number (cf_domain_reserves c) reserved_total @ '', exceeding global_rate '' @ number (cf_global_rate c)))
           else Inr ())
       [require_min_workers (cf_fetch_workers c) ''fetch_workers'',
        require_min_workers (cf_project_workers c) ''project_workers'',
        require_min_workers (cf_convert_workers c) ''convert_workers'',
        require_positive (py_str_int (cf_handoff_budget_bytes c)) (of_int (cf_handoff_budget_bytes c)) ''handoff_budget_bytes'',
        require_positive (py_str_int (cf_segment_seal_bytes c)) (of_int (cf_segment_seal_bytes c)) ''segment_seal_bytes'',
        require_positive (number (cf_segment_seal_seconds c)) (cf_segment_seal_seconds c) ''segment_seal_seconds'',
        require_non_negative (py_str_int (cf_disk_free_floor_bytes c)) (of_int (cf_disk_free_floor_bytes c)) ''disk_free_floor_bytes'',
        require_positive (py_str_int (cf_batch_size c)) (of_int (cf_batch_size c)) ''batch_size'',
        require_positive (number (cf_checkpoint_interval c)) (cf_checkpoint_interval c) ''checkpoint_interval'',
        require_positive (number (cf_vacuum_interval c)) (cf_vacuum_interval c) ''vacuum_interval'',
        require_positive (number (cf_index_poll_interval c)) (cf_index_poll_interval c) ''index_poll_interval'',
        require_at_least (py_str_int (cf_max_attempts c)) (of_int (cf_max_attempts c)) 1 ''max_attempts'',
        (case cf_metrics_port c of None \<Rightarrow> Inr () | Some p \<Rightarrow> require_non_negative (py_str_int p) (of_int p) ''metrics_port''),
        require_positive (number (cf_backoff_base c)) (cf_backoff_base c) ''backoff_base'',
        (if cf_backoff_cap c < cf_backoff_base c
         then Inl (ConfigError (''backoff_cap ('' @ number (cf_backoff_cap c) @ '') must be >= backoff_base ('' @ number (cf_backoff_base c) @ '')''))
         else Inr ())]))"

definition make_config :: "(real \<Rightarrow> string) \<Rightarrow> config \<Rightarrow> config config_res" where
  "make_config number c = bind_res (config_check number c) (\<lambda>_. Inr c)"

section \<open>The environment\<close>

definition ENV_PREFIX :: string where
  "ENV_PREFIX = ''REROLL_SYNC_''"

type_synonym env = "string \<Rightarrow> string option"

text \<open>\<^verbatim>\<open>int(text)\<close>: surrounding whitespace, a sign, and digits with single underscores between them.\<close>

fun underscored_digits :: "string \<Rightarrow> string option" where
  "underscored_digits [] = None"
| "underscored_digits [c] = (if is_digit c then Some [c] else None)"
| "underscored_digits (c # d # cs) =
     (if \<not> is_digit c then None
      else map_option (Cons c) (underscored_digits (if d = CHR ''_'' then cs else d # cs)))"

definition py_int_text :: "string \<Rightarrow> int config_res" where
  "py_int_text raw =
     (let s = py_strip raw; negative = (take 1 s = ''-''); body = (if take 1 s \<in> {''-'', ''+''} then drop 1 s else s)
      in case underscored_digits body of
           None \<Rightarrow> Inl (ConfigRaises ValueError)
         | Some ds \<Rightarrow> if INT_MAX_STR_DIGITS < length ds then Inl (ConfigRaises ValueError)
                      else Inr (if negative then - digits_value ds else digits_value ds))"

definition env_str :: "env \<Rightarrow> string \<Rightarrow> string \<Rightarrow> string" where
  "env_str source suffix def = (case source (ENV_PREFIX @ suffix) of None \<Rightarrow> def | Some raw \<Rightarrow> raw)"

definition env_float :: "(string \<Rightarrow> real option) \<Rightarrow> env \<Rightarrow> string \<Rightarrow> real \<Rightarrow> real config_res" where
  "env_float float_text source suffix def =
     (case source (ENV_PREFIX @ suffix) of None \<Rightarrow> Inr def
      | Some raw \<Rightarrow> (case float_text raw of None \<Rightarrow> Inl (ConfigRaises ValueError) | Some x \<Rightarrow> Inr x))"

definition env_int :: "env \<Rightarrow> string \<Rightarrow> int \<Rightarrow> int config_res" where
  "env_int source suffix def = (case source (ENV_PREFIX @ suffix) of None \<Rightarrow> Inr def | Some raw \<Rightarrow> py_int_text raw)"

definition env_optional_int :: "env \<Rightarrow> string \<Rightarrow> int option \<Rightarrow> int option config_res" where
  "env_optional_int source suffix def =
     (case source (ENV_PREFIX @ suffix) of None \<Rightarrow> Inr def | Some raw \<Rightarrow> bind_res (py_int_text raw) (\<lambda>n. Inr (Some n)))"

record config_env =
  ce_number :: "real \<Rightarrow> string"
  ce_float_text :: "string \<Rightarrow> real option"
  ce_float_of :: "string \<Rightarrow> real"
  ce_frozen :: "json \<Rightarrow> (string \<times> json) list config_res"
  ce_cpu_count :: "int option"

definition env_reserves :: "config_env \<Rightarrow> env \<Rightarrow> (string \<times> json) list \<Rightarrow> (string \<times> json) list config_res" where
  "env_reserves ce source def =
     (case source (ENV_PREFIX @ ''DOMAIN_RESERVES'') of None \<Rightarrow> Inr def
      | Some raw \<Rightarrow> (case json_loads (ce_float_of ce) raw of None \<Rightarrow> Inl (ConfigRaises ValueError) | Some v \<Rightarrow> ce_frozen ce v))"

definition config_from_env :: "config_env \<Rightarrow> env \<Rightarrow> config config_res" where
  "config_from_env ce source =
     (case source (ENV_PREFIX @ ''USER_AGENT'') of
        None \<Rightarrow> Inl (ConfigError (ENV_PREFIX @ ''USER_AGENT is required and has no default''))
      | Some user_agent \<Rightarrow>
          if user_agent = [] then Inl (ConfigError (ENV_PREFIX @ ''USER_AGENT is required and has no default''))
          else
     bind_res (make_config (ce_number ce) (default_config (ce_cpu_count ce) ''reroll_sync.db'' ''segments'' ''reroll_sync.sock'' user_agent)) (\<lambda>defaults.
     bind_res (env_reserves ce source (cf_domain_reserves defaults)) (\<lambda>domain_reserves.
     bind_res (env_float (ce_float_text ce) source ''GLOBAL_RATE'' (cf_global_rate defaults)) (\<lambda>global_rate.
     bind_res (env_int source ''FETCH_WORKERS'' (cf_fetch_workers defaults)) (\<lambda>fetch_workers.
     bind_res (env_int source ''PROJECT_WORKERS'' (cf_project_workers defaults)) (\<lambda>project_workers.
     bind_res (env_int source ''CONVERT_WORKERS'' (cf_convert_workers defaults)) (\<lambda>convert_workers.
     bind_res (env_int source ''HANDOFF_BUDGET_BYTES'' (cf_handoff_budget_bytes defaults)) (\<lambda>handoff_budget_bytes.
     bind_res (env_int source ''BATCH_SIZE'' (cf_batch_size defaults)) (\<lambda>batch_size.
     bind_res (env_float (ce_float_text ce) source ''BATCH_INTERVAL'' (cf_batch_interval defaults)) (\<lambda>batch_interval.
     bind_res (env_float (ce_float_text ce) source ''CHECKPOINT_INTERVAL'' (cf_checkpoint_interval defaults)) (\<lambda>checkpoint_interval.
     bind_res (env_float (ce_float_text ce) source ''VACUUM_INTERVAL'' (cf_vacuum_interval defaults)) (\<lambda>vacuum_interval.
     bind_res (env_float (ce_float_text ce) source ''INDEX_POLL_INTERVAL'' (cf_index_poll_interval defaults)) (\<lambda>index_poll_interval.
     bind_res (env_int source ''MAX_ATTEMPTS'' (cf_max_attempts defaults)) (\<lambda>max_attempts.
     bind_res (env_float (ce_float_text ce) source ''BACKOFF_BASE'' (cf_backoff_base defaults)) (\<lambda>backoff_base.
     bind_res (env_float (ce_float_text ce) source ''BACKOFF_CAP'' (cf_backoff_cap defaults)) (\<lambda>backoff_cap.
     bind_res (env_int source ''SEGMENT_SEAL_BYTES'' (cf_segment_seal_bytes defaults)) (\<lambda>segment_seal_bytes.
     bind_res (env_float (ce_float_text ce) source ''SEGMENT_SEAL_SECONDS'' (cf_segment_seal_seconds defaults)) (\<lambda>segment_seal_seconds.
     bind_res (env_int source ''DISK_FREE_FLOOR_BYTES'' (cf_disk_free_floor_bytes defaults)) (\<lambda>disk_free_floor_bytes.
     bind_res (env_optional_int source ''METRICS_PORT'' (cf_metrics_port defaults)) (\<lambda>metrics_port.
       make_config (ce_number ce)
         \<lparr>cf_db_path = env_str source ''DB_PATH'' (cf_db_path defaults),
          cf_segments_dir = env_str source ''SEGMENTS_DIR'' (cf_segments_dir defaults),
          cf_socket_path = env_str source ''SOCKET_PATH'' (cf_socket_path defaults), cf_user_agent = user_agent,
          cf_global_rate = global_rate, cf_domain_reserves = domain_reserves, cf_fetch_workers = fetch_workers,
          cf_project_workers = project_workers, cf_convert_workers = convert_workers,
          cf_handoff_budget_bytes = handoff_budget_bytes, cf_batch_size = batch_size, cf_batch_interval = batch_interval,
          cf_checkpoint_interval = checkpoint_interval, cf_vacuum_interval = vacuum_interval,
          cf_index_poll_interval = index_poll_interval, cf_max_attempts = max_attempts, cf_backoff_base = backoff_base,
          cf_backoff_cap = backoff_cap, cf_segment_seal_bytes = segment_seal_bytes,
          cf_segment_seal_seconds = segment_seal_seconds, cf_disk_free_floor_bytes = disk_free_floor_bytes,
          cf_metrics_port = metrics_port\<rparr>))))))))))))))))))))"

section \<open>What an accepted configuration guarantees\<close>

lemma bind_Inr: "bind_res m f = Inr y \<longleftrightarrow> (\<exists>x. m = Inr x \<and> f x = Inr y)"
  by (cases m) (auto simp: bind_res_def)

lemma all_checks_ok: "all_checks c cs = Inr () \<longleftrightarrow> list_all (\<lambda>c. c = Inr ()) (c # cs)"
proof -
  have "foldr (\<lambda>c r. bind_res c (\<lambda>_. r)) cs (Inr ()) = Inr () \<longleftrightarrow> list_all (\<lambda>c. c = Inr ()) cs" for cs :: "('a + unit) list"
    by (induction cs) (auto simp: bind_Inr)
  from this [of "c # cs"] show ?thesis by (simp add: all_checks_def)
qed

lemma requirements [simp]:
  "require_positive shown v name = Inr () \<longleftrightarrow> 0 < v"
  "require_non_negative shown v name = Inr () \<longleftrightarrow> 0 \<le> v"
  "require_at_least shown v minimum name = Inr () \<longleftrightarrow> of_int minimum \<le> v"
  "require_min_workers n name = Inr () \<longleftrightarrow> 1 \<le> n"
  by (auto simp: require_positive_def require_non_negative_def require_at_least_def require_min_workers_def)

definition config_ok :: "config \<Rightarrow> (string \<times> real) list \<Rightarrow> bool" where
  "config_ok c rates \<longleftrightarrow> 0 < cf_global_rate c \<and> (\<forall>r \<in> set rates. 0 < snd r) \<and> sum_list (map snd rates) \<le> cf_global_rate c
     \<and> 1 \<le> cf_fetch_workers c \<and> 1 \<le> cf_project_workers c \<and> 1 \<le> cf_convert_workers c \<and> 0 < cf_handoff_budget_bytes c
     \<and> 0 < cf_segment_seal_bytes c \<and> 0 < cf_segment_seal_seconds c \<and> 0 \<le> cf_disk_free_floor_bytes c \<and> 0 < cf_batch_size c
     \<and> 0 < cf_checkpoint_interval c \<and> 0 < cf_vacuum_interval c \<and> 0 < cf_index_poll_interval c \<and> 1 \<le> cf_max_attempts c
     \<and> (\<forall>p. cf_metrics_port c = Some p \<longrightarrow> 0 \<le> p) \<and> 0 < cf_backoff_base c \<and> cf_backoff_base c \<le> cf_backoff_cap c"

lemma reserve_rates_names: "reserve_rates number kvs = Inr rates \<Longrightarrow> map fst rates = map fst kvs"
  by (induction kvs arbitrary: rates) (auto simp: bind_Inr)

lemma reserve_rates_positive: "reserve_rates number kvs = Inr rates \<Longrightarrow> \<forall>r \<in> set rates. 0 < snd r"
proof (induction kvs arbitrary: rates)
  case (Cons kv kvs)
  obtain name v where kv: "kv = (name, v)" by (cases kv)
  obtain rate rs where "0 < rate" "reserve_rates number kvs = Inr rs" "rates = (name, rate) # rs"
    using Cons.prems by (auto simp: kv bind_Inr)
  then show ?case using Cons.IH by auto
qed simp

lemma guard_ok: "(if b then Inl e else Inr ()) = Inr () \<longleftrightarrow> \<not> b"
  by simp

lemma config_check_ok:
  "config_check number c = Inr () \<longleftrightarrow> (\<exists>rates. reserve_rates number (cf_domain_reserves c) = Inr rates \<and> config_ok c rates)"
proof -
  have "config_check number c = Inr () \<longleftrightarrow> 0 < cf_global_rate c \<and> (\<exists>rates. reserve_rates number (cf_domain_reserves c) = Inr rates
      \<and> sum_list (map snd rates) \<le> cf_global_rate c
     \<and> 1 \<le> cf_fetch_workers c \<and> 1 \<le> cf_project_workers c \<and> 1 \<le> cf_convert_workers c \<and> 0 < cf_handoff_budget_bytes c
     \<and> 0 < cf_segment_seal_bytes c \<and> 0 < cf_segment_seal_seconds c \<and> 0 \<le> cf_disk_free_floor_bytes c \<and> 0 < cf_batch_size c
     \<and> 0 < cf_checkpoint_interval c \<and> 0 < cf_vacuum_interval c \<and> 0 < cf_index_poll_interval c \<and> 1 \<le> cf_max_attempts c
     \<and> (\<forall>p. cf_metrics_port c = Some p \<longrightarrow> 0 \<le> p) \<and> 0 < cf_backoff_base c \<and> cf_backoff_base c \<le> cf_backoff_cap c)"
    unfolding config_check_def bind_Inr all_checks_ok Let_def list.pred_inject guard_ok requirements not_less
    by (cases "cf_metrics_port c") (simp_all add: conj_ac)
  then show ?thesis using reserve_rates_positive by (auto simp: config_ok_def)
qed

lemma make_config_ok: "make_config number c = Inr d \<longleftrightarrow> d = c \<and> (\<exists>rates. reserve_rates number (cf_domain_reserves c) = Inr rates \<and> config_ok c rates)"
  using config_check_ok [of number c] by (auto simp: make_config_def bind_Inr)

lemma new_limiter_ok:
  assumes "0 < rate" and "\<forall>r \<in> set rates. 0 < snd r"
  shows "limiter_ok (new_limiter now rate rates)"
  using assms
  by (auto simp: limiter_ok_def new_limiter_def bucket_ok_def new_bucket_def one_second_burst_def list_all_iff)


definition demo_env :: "string \<Rightarrow> env" where
  "demo_env reserves = [ENV_PREFIX @ ''USER_AGENT'' \<mapsto> ''bot'', ENV_PREFIX @ ''DOMAIN_RESERVES'' \<mapsto> reserves]"

definition demo_frozen :: "json \<Rightarrow> (string \<times> json) list config_res" where
  "demo_frozen v = (case v of JObj kvs \<Rightarrow> Inr kvs | _ \<Rightarrow> Inl (ConfigRaises PyTypeError))"

definition demo_ce :: config_env where
  "demo_ce = \<lparr>ce_number = \<lambda>_. ''0.0'', ce_float_text = \<lambda>_. None, ce_float_of = \<lambda>_. 0, ce_frozen = demo_frozen, ce_cpu_count = Some 8\<rparr>"

lemma default_config_valid:
  "make_config number (default_config cpu_count db segs sock ua) = Inr (default_config cpu_count db segs sock ua)"
  by (simp add: make_config_ok config_ok_def default_config_def DEFAULT_DOMAIN_RESERVES_def json_number_def
      require_positive_def bind_res_def default_convert_workers_def)

text \<open>With nothing else set, the result is the defaults with the given reserves.\<close>

lemma config_from_reserves:
  assumes "env (ENV_PREFIX @ ''USER_AGENT'') = Some ua" "ua \<noteq> []"
    and "\<And>suffix. suffix \<notin> {''USER_AGENT'', ''DOMAIN_RESERVES''} \<Longrightarrow> env (ENV_PREFIX @ suffix) = None"
    and "env_reserves ce env DEFAULT_DOMAIN_RESERVES = Inr reserves"
    and "make_config (ce_number ce) (default_config (ce_cpu_count ce) ''reroll_sync.db'' ''segments'' ''reroll_sync.sock'' ua
      \<lparr>cf_domain_reserves := reserves\<rparr>) = Inr c"
  shows "config_from_env ce env = Inr c"
  using assms(2,4,5) default_config_valid [of "ce_number ce" "ce_cpu_count ce" "''reroll_sync.db''" "''segments''" "''reroll_sync.sock''" ua]
  unfolding config_from_env_def assms(1)
  by (simp add: bind_res_def env_str_def env_float_def env_int_def env_optional_int_def assms(3) default_config_def)

lemma empty_reserves_accepted:
  assumes "env (ENV_PREFIX @ ''USER_AGENT'') = Some ua" "ua \<noteq> []"
    and "\<And>suffix. suffix \<notin> {''USER_AGENT'', ''DOMAIN_RESERVES''} \<Longrightarrow> env (ENV_PREFIX @ suffix) = None"
    and "env_reserves ce env DEFAULT_DOMAIN_RESERVES = Inr []"
  shows "config_from_env ce env = Inr (default_config (ce_cpu_count ce) ''reroll_sync.db'' ''segments'' ''reroll_sync.sock'' ua
    \<lparr>cf_domain_reserves := []\<rparr>)"
proof (rule config_from_reserves [OF assms])
  show "make_config (ce_number ce) (default_config (ce_cpu_count ce) ''reroll_sync.db'' ''segments'' ''reroll_sync.sock'' ua
      \<lparr>cf_domain_reserves := []\<rparr>) = Inr (default_config (ce_cpu_count ce) ''reroll_sync.db'' ''segments'' ''reroll_sync.sock'' ua
      \<lparr>cf_domain_reserves := []\<rparr>)"
    unfolding make_config_ok by (simp add: config_ok_def default_config_def default_convert_workers_def)
qed

text \<open>
  Reserves are checked one by one, never for the hosts the daemon calls: with \<^verbatim>\<open>DOMAIN_RESERVES\<close> set to an empty
  object the configuration is accepted, and every \<^verbatim>\<open>acquire\<close> and \<^verbatim>\<open>penalize\<close> of the limiter built from it raises
  \<^verbatim>\<open>KeyError\<close>.
\<close>

theorem empty_reserves_break_requests:
  assumes "env (ENV_PREFIX @ ''USER_AGENT'') = Some ua" "ua \<noteq> []"
    and "\<And>suffix. suffix \<notin> {''USER_AGENT'', ''DOMAIN_RESERVES''} \<Longrightarrow> env (ENV_PREFIX @ suffix) = None"
    and "env_reserves ce env DEFAULT_DOMAIN_RESERVES = Inr []"
  shows "\<exists>c rates. config_from_env ce env = Inr c \<and> reserve_rates (ce_number ce) (cf_domain_reserves c) = Inr rates
    \<and> hl_attempt t name (new_limiter now (cf_global_rate c) rates) = Inl KeyError
    \<and> hl_pass deadline rd name n (new_limiter now (cf_global_rate c) rates) = Inl KeyError
    \<and> hl_penalize t name n (new_limiter now (cf_global_rate c) rates) = Inl KeyError"
  by (rule exI, rule exI [of _ "[]"], intro conjI, rule empty_reserves_accepted [OF assms])
    (simp_all add: hl_attempt_def hl_pass_def hl_penalize_def new_limiter_def)

lemma demo_reserves: "env_reserves demo_ce (demo_env ''{}'') DEFAULT_DOMAIN_RESERVES = Inr []"
  by code_simp

lemma demo_env_unset: "suffix \<notin> {''USER_AGENT'', ''DOMAIN_RESERVES''} \<Longrightarrow> demo_env r (ENV_PREFIX @ suffix) = None"
  by (auto simp: demo_env_def)

lemma demo_env_agent: "demo_env r (ENV_PREFIX @ ''USER_AGENT'') = Some ''bot''"
  by (simp add: demo_env_def)


lemma empty_reserves_break_requests_witness:
  "\<exists>c rates. config_from_env demo_ce (demo_env ''{}'') = Inr c
    \<and> hl_attempt 0 ''pypi.org'' (new_limiter 0 (cf_global_rate c) rates) = Inl KeyError"
  using empty_reserves_break_requests [OF demo_env_agent _ demo_env_unset demo_reserves, where t = 0 and now = 0 and name = "''pypi.org''"]
  by blast

end
