(* ===== verification/Cli.thy ===== *)
theory Cli
  imports Metrics Control Fsck Db Config
begin

text \<open>
  \<^verbatim>\<open>cli.py\<close>: the commands of \<^verbatim>\<open>reroll-sync\<close>, from the parsed arguments to what is printed and the exit code.
  \<open>cli_env\<close> holds what a command finds outside: the socket, the database file, the archive directory and the daemon.
\<close>

section \<open>Arguments\<close>

text \<open>\<^verbatim>\<open>argparse.Namespace\<close>: a command only has the attributes its parser declares; the others keep their blank value here.\<close>

record namespace =
  ns_command :: string
  ns_db :: string
  ns_socket :: string
  ns_segments_dir :: string
  ns_json :: bool
  ns_category :: "string option"
  ns_since :: "string option"
  ns_limit :: int
  ns_chunk :: int
  ns_segment :: "int option"
  ns_stage :: "string option"
  ns_reroll_version_below :: "string option"
  ns_state :: "string option"
  ns_project :: "string option"
  ns_skipped_only :: bool
  ns_dry_run :: bool
  ns_all :: bool
  ns_config_from_env :: bool

datatype arg_kind = Text_arg | Int_arg | Flag_arg | Positional

datatype arg_value = ANone | AText string | AInt int | AFlag bool

record arg_spec =
  as_name :: string
  as_kind :: arg_kind
  as_default :: arg_value
  as_choices :: "string list option"
  as_exclusive :: bool

definition mk_arg :: "string \<Rightarrow> arg_kind \<Rightarrow> arg_value \<Rightarrow> arg_spec" where
  "mk_arg name kind def = \<lparr>as_name = name, as_kind = kind, as_default = def, as_choices = None, as_exclusive = False\<rparr>"

definition STAGE_VALUES :: "string list" where
  "STAGE_VALUES = map stage_value [FETCH, CONVERT]"

definition STATE_NAMES :: "string list" where
  "STATE_NAMES = map state_name all_states"

definition DEFAULT_DB_PATH :: string where
  "DEFAULT_DB_PATH = ''reroll_sync.db''"

definition DEFAULT_SOCKET_PATH :: string where
  "DEFAULT_SOCKET_PATH = ''reroll_sync.sock''"

definition DEFAULT_SEGMENTS_DIR :: string where
  "DEFAULT_SEGMENTS_DIR = ''segments''"

definition DEFAULT_ERRORS_LIMIT :: int where
  "DEFAULT_ERRORS_LIMIT = 100"

definition env_default :: "env \<Rightarrow> string \<Rightarrow> string \<Rightarrow> string" where
  "env_default e name def = (case e name of None \<Rightarrow> def | Some v \<Rightarrow> v)"

definition db_arg :: "env \<Rightarrow> arg_spec" where
  "db_arg e = mk_arg ''db'' Text_arg (AText (env_default e ''REROLL_SYNC_DB'' DEFAULT_DB_PATH))"

definition socket_arg :: "env \<Rightarrow> arg_spec" where
  "socket_arg e = mk_arg ''socket'' Text_arg (AText (env_default e ''REROLL_SYNC_SOCKET_PATH'' DEFAULT_SOCKET_PATH))"

definition segments_arg :: "env \<Rightarrow> arg_spec" where
  "segments_arg e = mk_arg ''segments_dir'' Text_arg (AText (env_default e ''REROLL_SYNC_SEGMENTS_DIR'' DEFAULT_SEGMENTS_DIR))"

definition exclusive :: "arg_spec list \<Rightarrow> arg_spec list" where
  "exclusive specs = map (\<lambda>s. s\<lparr>as_exclusive := True\<rparr>) specs"

text \<open>\<^verbatim>\<open>build_parser\<close>: the arguments of every subcommand; \<open>exclusive\<close> marks a required mutually exclusive group.\<close>

definition build_parser :: "env \<Rightarrow> (string \<times> arg_spec list) list" where
  "build_parser e =
     [(''init'', [db_arg e, socket_arg e]),
      (''run'', [mk_arg ''config_from_env'' Flag_arg (AFlag False)]),
      (''status'', [db_arg e, segments_arg e, mk_arg ''json'' Flag_arg (AFlag False)]),
      (''errors'', [db_arg e, mk_arg ''category'' Text_arg ANone, mk_arg ''since'' Text_arg ANone,
         mk_arg ''limit'' Int_arg (AInt DEFAULT_ERRORS_LIMIT)]),
      (''fsck'', [db_arg e, mk_arg ''chunk'' Int_arg (AInt 1000)]),
      (''verify-archive'', [db_arg e, segments_arg e, mk_arg ''segment'' Int_arg ANone]),
      (''queue'', [db_arg e, (mk_arg ''stage'' Text_arg ANone)\<lparr>as_choices := Some STAGE_VALUES\<rparr>]),
      (''pause'', [socket_arg e, mk_arg ''stage'' Positional ANone]),
      (''resume'', [socket_arg e, mk_arg ''stage'' Positional ANone]),
      (''drain'', [socket_arg e]),
      (''reprocess'', [socket_arg e, db_arg e]
         @ exclusive [mk_arg ''reroll_version_below'' Text_arg ANone, (mk_arg ''state'' Text_arg ANone)\<lparr>as_choices := Some STATE_NAMES\<rparr>,
             mk_arg ''project'' Text_arg ANone, mk_arg ''skipped_only'' Flag_arg (AFlag False)]
         @ [mk_arg ''dry_run'' Flag_arg (AFlag False)]),
      (''unquarantine'', [socket_arg e]
         @ exclusive [(mk_arg ''stage'' Text_arg ANone)\<lparr>as_choices := Some STATE_NAMES\<rparr>, mk_arg ''project'' Text_arg ANone,
             mk_arg ''all'' Flag_arg (AFlag False)]),
      (''shutdown'', [socket_arg e])]"

definition opt_text :: "string option \<Rightarrow> arg_value" where
  "opt_text x = (case x of None \<Rightarrow> ANone | Some s \<Rightarrow> AText s)"

definition namespace_values :: "namespace \<Rightarrow> (string \<times> arg_value) list" where
  "namespace_values a =
     [(''db'', AText (ns_db a)), (''socket'', AText (ns_socket a)), (''segments_dir'', AText (ns_segments_dir a)),
      (''json'', AFlag (ns_json a)), (''category'', opt_text (ns_category a)), (''since'', opt_text (ns_since a)),
      (''limit'', AInt (ns_limit a)), (''chunk'', AInt (ns_chunk a)),
      (''segment'', (case ns_segment a of None \<Rightarrow> ANone | Some n \<Rightarrow> AInt n)), (''stage'', opt_text (ns_stage a)),
      (''reroll_version_below'', opt_text (ns_reroll_version_below a)), (''state'', opt_text (ns_state a)),
      (''project'', opt_text (ns_project a)), (''skipped_only'', AFlag (ns_skipped_only a)), (''dry_run'', AFlag (ns_dry_run a)),
      (''all'', AFlag (ns_all a)), (''config_from_env'', AFlag (ns_config_from_env a))]"

definition arg_value_of :: "namespace \<Rightarrow> arg_spec \<Rightarrow> arg_value" where
  "arg_value_of a s = (case map_of (namespace_values a) (as_name s) of None \<Rightarrow> ANone | Some v \<Rightarrow> v)"

definition is_given :: "namespace \<Rightarrow> arg_spec \<Rightarrow> bool" where
  "is_given a s = (arg_value_of a s \<noteq> as_default s)"

text \<open>The namespaces \<^verbatim>\<open>parse_args\<close> can return: values of their type and choices, positionals present, one of each group.\<close>

definition arg_ok :: "namespace \<Rightarrow> arg_spec \<Rightarrow> bool" where
  "arg_ok a s =
     ((case as_kind s of Text_arg \<Rightarrow> arg_value_of a s = ANone \<longrightarrow> as_default s = ANone
       | Int_arg \<Rightarrow> arg_value_of a s = ANone \<longrightarrow> as_default s = ANone
       | Flag_arg \<Rightarrow> True
       | Positional \<Rightarrow> arg_value_of a s \<noteq> ANone)
      \<and> (case as_choices s of None \<Rightarrow> True
         | Some cs \<Rightarrow> (case arg_value_of a s of AText v \<Rightarrow> v \<in> set cs | _ \<Rightarrow> True)))"

definition parsed :: "env \<Rightarrow> namespace \<Rightarrow> bool" where
  "parsed e a =
     (case map_of (build_parser e) (ns_command a) of None \<Rightarrow> False
      | Some specs \<Rightarrow> list_all (arg_ok a) specs
          \<and> (let group = filter as_exclusive specs in group = [] \<or> length (filter (is_given a) group) = 1))"

section \<open>Formatting\<close>

definition BYTE_UNITS :: "string list" where
  "BYTE_UNITS = [''KB'', ''MB'', ''GB'', ''TB'', ''PB'']"

text \<open>\<^verbatim>\<open>f"{n:,}"\<close>, \<^verbatim>\<open>f"{x:,.0f}"\<close>, \<^verbatim>\<open>f"{x:.1f}"\<close> and \<^verbatim>\<open>f"{n:02d}"\<close> (of a natural number).\<close>

function group_digits :: "string \<Rightarrow> string" where
  "group_digits ds = (if length ds \<le> 3 then ds else group_digits (take (length ds - 3) ds) @ '','' @ drop (length ds - 3) ds)"
  by auto
termination by (relation "measure length") auto

declare group_digits.simps [simp del]

definition thousands :: "int \<Rightarrow> string" where
  "thousands n = (if n < 0 then ''-'' else []) @ group_digits (py_str_int \<bar>n\<bar>)"

definition thousands_0f :: "real \<Rightarrow> string" where
  "thousands_0f x = (if py_round x = 0 \<and> x < 0 then ''-0'' else thousands (py_round x))"

definition format_1f :: "real \<Rightarrow> string" where
  "format_1f x =
     (let tenths = py_round (x * 10)
      in (if x < 0 then ''-'' else []) @ py_str_int (\<bar>tenths\<bar> div 10) @ ''.'' @ py_str_int (\<bar>tenths\<bar> mod 10))"

definition format_02d :: "int \<Rightarrow> string" where
  "format_02d n = zero_pad 2 (dec_digits (nat n))"

text \<open>The loop of \<^verbatim>\<open>_format_bytes\<close> leaves with the last unit when the value never falls below 1024.\<close>

fun scale_bytes :: "real \<Rightarrow> string \<Rightarrow> string list \<Rightarrow> real \<times> string" where
  "scale_bytes x unit [] = (x, unit)"
| "scale_bytes x unit (u # us) = (if x / 1024 < 1024 then (x / 1024, u) else scale_bytes (x / 1024) u us)"

definition format_bytes :: "int \<Rightarrow> string" where
  "format_bytes n =
     (if n < 1024 then py_str_int n @ '' B''
      else case scale_bytes (of_int n) (hd BYTE_UNITS) BYTE_UNITS of (x, unit) \<Rightarrow> format_1f x @ '' '' @ unit)"

definition py_trunc :: "real \<Rightarrow> int" where
  "py_trunc x = (if 0 \<le> x then \<lfloor>x\<rfloor> else \<lceil>x\<rceil>)"

definition format_duration :: "real \<Rightarrow> string" where
  "format_duration seconds =
     (let total = py_trunc seconds
      in if total < 60 then py_str_int total @ ''s''
         else let minutes = total div 60; secs = total mod 60
              in if minutes < 60 then py_str_int minutes @ ''m'' @ format_02d secs @ ''s''
                 else py_str_int (minutes div 60) @ ''h'' @ format_02d (minutes mod 60) @ ''m'')"

definition lane_list :: "stage_queue \<Rightarrow> string" where
  "lane_list q = join_with '', '' (map (\<lambda>(lane, n). ''lane'' @ py_str_int lane @ ''='' @ thousands n) (sort_key fst (sq_depth_by_lane q)))"

definition lanes_suffix :: "stage_queue \<Rightarrow> string" where
  "lanes_suffix q = (if lane_list q = [] then [] else '' ('' @ lane_list q @ '')'')"

definition lower :: "string \<Rightarrow> string" where
  "lower s = map lower_char s"

definition alarm_line :: "alarm \<Rightarrow> string" where
  "alarm_line a = ''  '' @ (if al_severity a = Critical then ''!'' else ''~'') @ '' '' @ al_message a"

definition or_none :: "string list \<Rightarrow> string \<Rightarrow> string" where
  "or_none parts sep = (if parts = [] then ''none'' else join_with sep parts)"

definition format_status :: "health \<Rightarrow> alarm list \<Rightarrow> string" where
  "format_status h found =
     (let poll = (case he_last_index_poll_at h of None \<Rightarrow> ''never'' | Some t \<Rightarrow> format_0f (he_snapshot_at h - t) @ ''s ago'');
          queue_parts = map (\<lambda>(name, q). name @ '' '' @ thousands (sq_depth q) @ lanes_suffix q) (sort_key fst (he_queues h));
          state_parts = map (\<lambda>(name, n). lower name @ '' '' @ thousands n) (filter (\<lambda>(_, n). 0 < n) (he_state_counts h));
          rate_parts = map (\<lambda>(name, snap). name @ '' '' @ thousands_0f (fst snap)) (sort_key fst (he_limiter_children h))
      in join_with newline
       ([''reroll-sync status'', []]
        @ (if found = [] then [''ALARMS: none''] else ''ALARMS'' # map alarm_line found)
        @ [[],
           ''FRESHNESS       index lag '' @ thousands (he_index_lag h) @ '' serial(s)   last poll '' @ poll,
           ''QUEUES          '' @ or_none queue_parts ''   '',
           ''STATES          '' @ or_none state_parts ''  '',
           (if rate_parts \<noteq> [] then ''RATE            '' @ join_with ''   '' rate_parts
            else ''RATE            not available (run against a live daemon'' @ [CHR 0x27] @ ''s control socket for live rate-limiter state)''),
           ''ARCHIVE         '' @ py_str_int (he_segments_sealed h) @ '' sealed ('' @ format_bytes (he_archive_bytes h) @ '')''
             @ ''  open '' @ format_bytes (he_open_segment_bytes h)
             @ (case he_open_segment_age_seconds h of None \<Rightarrow> [] | Some t \<Rightarrow> '', age '' @ format_duration t),
           ''SQLITE          db '' @ format_bytes (he_db_bytes h) @ ''  wal '' @ format_bytes (he_wal_bytes h)
             @ ''  longest read '' @ format_0f (he_longest_read_txn_ms h) @ ''ms'']))"

text \<open>\<^verbatim>\<open>json.dumps(dataclasses.asdict(health))\<close>; \<^verbatim>\<open>-inf\<close> is printed as \<^verbatim>\<open>-Infinity\<close>, integer keys become strings.\<close>

fun dumps_value :: "(real \<Rightarrow> string) \<Rightarrow> metric_value \<Rightarrow> string" where
  "dumps_value rf MNone = ''null''"
| "dumps_value rf (MBool b) = (if b then ''true'' else ''false'')"
| "dumps_value rf (MInt n) = py_str_int n"
| "dumps_value rf (MReal x) = rf x"
| "dumps_value rf MNegInf = ''-Infinity''"
| "dumps_value rf (MStr s) = dumps_string s"

definition dumps_dict :: "(string \<times> string) list \<Rightarrow> string" where
  "dumps_dict kvs = ''{'' @ join_with '', '' (map (\<lambda>(k, v). dumps_string k @ '': '' @ v) kvs) @ ''}''"

fun dumps_sub :: "(real \<Rightarrow> string) \<Rightarrow> sub_value \<Rightarrow> string" where
  "dumps_sub rf (Sub_scalar v) = dumps_value rf v"
| "dumps_sub rf (Sub_mapping kvs) = dumps_dict (map (\<lambda>(k, v). (label_text k, dumps_value rf v)) kvs)"

fun dumps_item :: "(real \<Rightarrow> string) \<Rightarrow> item_value \<Rightarrow> string" where
  "dumps_item rf (Item_scalar v) = dumps_value rf v"
| "dumps_item rf (Item_record fs) = dumps_dict (map (\<lambda>(k, v). (k, dumps_sub rf v)) fs)"

fun dumps_field :: "(real \<Rightarrow> string) \<Rightarrow> field_value \<Rightarrow> string" where
  "dumps_field rf (Field_scalar v) = dumps_value rf v"
| "dumps_field rf (Field_mapping kvs) = dumps_dict (map (\<lambda>(k, v). (k, dumps_item rf v)) kvs)"

definition health_json :: "(real \<Rightarrow> string) \<Rightarrow> health \<Rightarrow> string" where
  "health_json rf h = dumps_dict (map (\<lambda>(k, v). (k, dumps_field rf v)) (health_fields h))"

section \<open>Commands\<close>

datatype printed = Out string | Err string

text \<open>What a command prints, and its exit code or the exception that leaves it.\<close>

type_synonym cli_result = "printed list \<times> int res"

record cli_env =
  cl_connect :: "string \<Rightarrow> connect_result"
  cl_send :: "string \<Rightarrow> string \<Rightarrow> json_args \<Rightarrow> client_exn + json"
  cl_reader :: "string \<Rightarrow> string + database"
  cl_reads :: fsck_reads
  cl_catalog :: "string \<Rightarrow> catalog option"
  cl_store :: "string \<Rightarrow> archive_store option"
  cl_codec :: codec
  cl_health :: health_env
  cl_config :: "config config_res"
  cl_daemon :: "config \<Rightarrow> py_exn option"
  cl_repr_float :: "real \<Rightarrow> string"
  cl_iso_text :: "iso_time \<Rightarrow> string"
  cl_fromisoformat :: "string \<Rightarrow> string + string"
  cl_problem_text :: "verify_problem \<Rightarrow> string"

text \<open>\<open>cl_store\<close> is the archive of a directory that exists, opened with \<^verbatim>\<open>recover=False\<close>.\<close>

definition socket_is_live :: "connect_result \<Rightarrow> bool" where
  "socket_is_live c = (c = Connected)"

definition in_quotes :: "string \<Rightarrow> string" where
  "in_quotes s = [CHR 0x27] @ s @ [CHR 0x27]"

definition already_running :: "string \<Rightarrow> string \<Rightarrow> string" where
  "already_running verb socket = ''refusing to '' @ verb @ '': a daemon is already running (control socket '' @ in_quotes socket @ '' is live)''"

definition cli_init :: "cli_env \<Rightarrow> namespace \<Rightarrow> cli_result \<times> catalog option" where
  "cli_init env a =
     (if socket_is_live (cl_connect env (ns_socket a)) then (([Err (already_running ''init'' (ns_socket a))], Inr 1), cl_catalog env (ns_db a))
      else case init_db (cl_catalog env (ns_db a)) of
             (Inl e, cat) \<Rightarrow> (([Err (db_error_text e)], Inr 1), Some cat)
           | (Inr _, cat) \<Rightarrow> (([Out (''Initialized database at '' @ in_quotes (ns_db a))], Inr 0), Some cat))"

definition cli_run :: "cli_env \<Rightarrow> cli_result" where
  "cli_run env =
     (case cl_config env of
        Inl (ConfigError msg) \<Rightarrow> ([Err msg], Inr 1)
      | Inl (ConfigRaises e) \<Rightarrow> ([], Inl e)
      | Inr c \<Rightarrow>
          if socket_is_live (cl_connect env (cf_socket_path c)) then ([Err (already_running ''start'' (cf_socket_path c))], Inr 1)
          else (case cl_daemon env c of None \<Rightarrow> ([], Inr 0) | Some e \<Rightarrow> ([], Inl e)))"

definition zero_loop :: stage_health where
  "zero_loop = \<lparr>sh_paused = False, sh_last_run_at = None, sh_last_success_at = None, sh_consecutive_failures = 0\<rparr>"

definition zero_queue :: stage_metrics where
  "zero_queue = \<lparr>sm_queue_depth = 0, sm_in_flight = 0, sm_oldest_pending_age = None, sm_throughput_ema = 0,
     sm_outcome_counts = [], sm_retry_count = 0, sm_quarantine_count = 0\<rparr>"

definition empty_stage_inputs :: "(string \<times> stage_input) list" where
  "empty_stage_inputs = map (\<lambda>name. (name, \<lparr>si_loop = zero_loop, si_queue = Some zero_queue,
     si_remote_last_serial = None, si_last_change_at = None\<rparr>)) [''fetch'', ''convert'']"

definition READ_BUDGET :: real where
  "READ_BUDGET = 1 / 4"

text \<open>\<^verbatim>\<open>snapshot(reader, stages=_empty_stage_inputs(), archive_store=...)\<close>.\<close>

definition cli_snapshot :: "cli_env \<Rightarrow> archive_store option \<Rightarrow> database \<Rightarrow> health res" where
  "cli_snapshot env store db =
     fst (snapshot READ_BUDGET (cl_health env) (None :: op_value health_writer option) None [] empty_stage_inputs store False db (cl_reads env))"

definition has_critical :: "alarm list \<Rightarrow> bool" where
  "has_critical found = list_ex (\<lambda>a. al_severity a = Critical) found"

definition cli_status :: "cli_env \<Rightarrow> namespace \<Rightarrow> database \<Rightarrow> cli_result" where
  "cli_status env a db =
     (case cli_snapshot env (cl_store env (ns_segments_dir a)) db of
        Inl e \<Rightarrow> ([], Inl e)
      | Inr h \<Rightarrow>
          (let found = alarms default_limits None h
           in ([Out (if ns_json a then health_json (cl_repr_float env) h else format_status h found)],
               Inr (if has_critical found then 3 else 0))))"

definition py_or :: "string option \<Rightarrow> string \<Rightarrow> string" where
  "py_or x def = (case x of None \<Rightarrow> def | Some s \<Rightarrow> if s = [] then def else s)"

definition error_line :: "(iso_time \<Rightarrow> string) \<Rightarrow> error_row \<Rightarrow> string" where
  "error_line iso_text r =
     iso_text (er_created_at r) @ ''  wheel='' @ (case er_wheel_id r of None \<Rightarrow> ''None'' | Some n \<Rightarrow> py_str_int n)
       @ ''  '' @ er_category r @ ''/'' @ py_or (er_subcat r) ''-'' @ ''  '' @ py_or (er_details r) []
       @ ''  (reroll '' @ er_reroll_version r @ '')''"

text \<open>
  The query of \<^verbatim>\<open>_cmd_errors\<close>. Timestamps are compared as text; SQL leaves the order of equal ones open, here it is
  the order of the rows.
\<close>

definition errors_query :: "(iso_time \<Rightarrow> string) \<Rightarrow> string option \<Rightarrow> string option \<Rightarrow> int \<Rightarrow> database \<Rightarrow> error_row list" where
  "errors_query iso_text category since limit db =
     sql_limit limit (rev (sort_key (\<lambda>r. iso_text (er_created_at r)) (rev
       (filter (\<lambda>r. (category = None \<or> category = Some (er_category r)) \<and> (case since of None \<Rightarrow> True | Some t \<Rightarrow> t \<le> iso_text (er_created_at r)))
          (errors db)))))"

definition cli_errors :: "cli_env \<Rightarrow> namespace \<Rightarrow> database \<Rightarrow> cli_result" where
  "cli_errors env a db =
     (let query = (\<lambda>since. case errors_query (cl_iso_text env) (ns_category a) since (ns_limit a) db of
            [] \<Rightarrow> ([Out ''no matching errors''], Inr 0)
          | rows \<Rightarrow> (map (\<lambda>r. Out (error_line (cl_iso_text env) r)) rows, Inr 0))
      in case ns_since a of None \<Rightarrow> query None
         | Some raw \<Rightarrow> (case cl_fromisoformat env raw of
               Inl msg \<Rightarrow> ([Err (''invalid --since value '' @ py_repr raw @ '': '' @ msg)], Inr 1)
             | Inr text \<Rightarrow> query (Some text)))"

fun example_repr :: "(verify_problem \<Rightarrow> string) \<Rightarrow> fsck_value \<Rightarrow> string" where
  "example_repr pt (Row_id n) = py_str_int n"
| "example_repr pt (Sha256 s) = py_repr s"
| "example_repr pt (Segment_problem p) = py_repr (pt p)"
| "example_repr pt (Seq_mismatch db_max seq) = py_repr (''db_max='' @ py_str_int db_max @ '' writer='' @ py_str_int seq)"

definition violation_lines :: "(verify_problem \<Rightarrow> string) \<Rightarrow> violation \<Rightarrow> printed list" where
  "violation_lines pt v =
     [Out (''['' @ (if vi_informational v then ''info'' else ''FAIL'') @ ''] '' @ vi_invariant v @ '': '' @ vi_description v
        @ '' (count='' @ py_str_int (vi_count v) @ '')''),
      Out (''         examples: ['' @ join_with '', '' (map (example_repr pt) (take 5 (vi_example_ids v))) @ '']'')]"

text \<open>\<^verbatim>\<open>fsck.run\<close> with the defaults of its other arguments: 20 examples, 8 attempts, no writer and no archive.\<close>

definition cli_fsck :: "cli_env \<Rightarrow> namespace \<Rightarrow> database \<Rightarrow> cli_result" where
  "cli_fsck env a db =
     (case fst (fsck_run READ_BUDGET (ns_chunk a) 20 8 None None db (cl_reads env)) of
        Inl e \<Rightarrow> ([], Inl e)
      | Inr [] \<Rightarrow> ([Out ''fsck: clean''], Inr 0)
      | Inr violations \<Rightarrow> (concat (map (violation_lines (cl_problem_text env)) violations), Inr (if report_ok violations then 0 else 2)))"

definition cli_verify_archive :: "cli_env \<Rightarrow> namespace \<Rightarrow> database \<Rightarrow> cli_result" where
  "cli_verify_archive env a db =
     (case cl_store env (ns_segments_dir a) of
        None \<Rightarrow> ([Err (''segments directory '' @ in_quotes (ns_segments_dir a) @ '' does not exist'')], Inr 1)
      | Some store \<Rightarrow>
          (case fst (verify_archive (cl_codec env) (ns_segment a) (store\<lparr>as_db := db\<rparr>)) of
             Inl e \<Rightarrow> ([], Inl e)
           | Inr [] \<Rightarrow> ([Out ''verify-archive: clean''], Inr 0)
           | Inr problems \<Rightarrow> (map (\<lambda>p. Out (cl_problem_text env p)) problems, Inr 2)))"

text \<open>The lines printed before a name is missing in \<^verbatim>\<open>health.queues\<close> stay printed.\<close>

fun queue_lines :: "(string \<times> stage_queue) list \<Rightarrow> string list \<Rightarrow> cli_result" where
  "queue_lines queues [] = ([], Inr 0)"
| "queue_lines queues (name # names) =
     (case map_of queues name of None \<Rightarrow> ([], Inl KeyError)
      | Some q \<Rightarrow> (case queue_lines queues names of (ls, r) \<Rightarrow>
            (Out (name @ '': depth='' @ thousands (sq_depth q) @ lanes_suffix q) # ls, r)))"

definition cli_queue :: "cli_env \<Rightarrow> namespace \<Rightarrow> database \<Rightarrow> cli_result" where
  "cli_queue env a db =
     (case cli_snapshot env None db of
        Inl e \<Rightarrow> ([], Inl e)
      | Inr h \<Rightarrow> queue_lines (he_queues h) (case ns_stage a of Some name \<Rightarrow> [name] | None \<Rightarrow> sort (map fst (he_queues h))))"

section \<open>Commands over the socket\<close>

fun selector_to_args :: "selector \<Rightarrow> json_args" where
  "selector_to_args (RerollVersionBelow version) = [(''type'', JStr ''reroll_version_below''), (''version'', JStr version)]"
| "selector_to_args (ProjectSelector project) = [(''type'', JStr ''project''), (''project'', JStr project)]"
| "selector_to_args (StateSelector state) = [(''type'', JStr ''state''), (''state'', JStr (state_name state))]"
| "selector_to_args SkippedOnly = [(''type'', JStr ''skipped_only'')]"

definition state_selector :: "string \<Rightarrow> selector res" where
  "state_selector name = (case wheel_state_of_name name of None \<Rightarrow> Inl KeyError | Some s \<Rightarrow> Inr (StateSelector s))"

definition reprocess_selector_from_args :: "namespace \<Rightarrow> selector res" where
  "reprocess_selector_from_args a =
     (case ns_reroll_version_below a of Some version \<Rightarrow> Inr (RerollVersionBelow version)
      | None \<Rightarrow> (case ns_state a of Some name \<Rightarrow> state_selector name
         | None \<Rightarrow> (case ns_project a of Some project \<Rightarrow> Inr (ProjectSelector project) | None \<Rightarrow> Inr SkippedOnly)))"

definition unquarantine_selector_from_args :: "namespace \<Rightarrow> selector res" where
  "unquarantine_selector_from_args a =
     (case ns_project a of Some project \<Rightarrow> Inr (ProjectSelector project)
      | None \<Rightarrow> (case ns_stage a of Some name \<Rightarrow> state_selector name | None \<Rightarrow> Inr (StateSelector QUARANTINED)))"

text \<open>\<^verbatim>\<open>MutatingCommand\<close>. A positional \<^verbatim>\<open>stage\<close> is always present.\<close>

record mutating_command =
  mc_command :: string
  mc_build_args :: "namespace \<Rightarrow> json_args res"
  mc_format_success :: "(real \<Rightarrow> string) \<Rightarrow> json \<Rightarrow> string res"

definition stage_args :: "namespace \<Rightarrow> json_args res" where
  "stage_args a = Inr [(''stage'', (case ns_stage a of None \<Rightarrow> JNull | Some s \<Rightarrow> JStr s))]"

definition stage_done :: "string \<Rightarrow> (real \<Rightarrow> string) \<Rightarrow> json \<Rightarrow> string res" where
  "stage_done done rf r = bind_res (json_item ''stage'' r) (\<lambda>v. Inr (done @ '' stage '' @ json_repr rf v))"

definition affected_done :: "string \<Rightarrow> (real \<Rightarrow> string) \<Rightarrow> json \<Rightarrow> string res" where
  "affected_done name rf r =
     bind_res (json_item ''affected'' r) (\<lambda>v. Inr (name @ '' submitted: '' @ json_str rf v @ '' wheel(s) affected''))"

definition MUTATING :: "(string \<times> mutating_command) list" where
  "MUTATING =
     [(''pause'', \<lparr>mc_command = ''pause'', mc_build_args = stage_args, mc_format_success = stage_done ''paused''\<rparr>),
      (''resume'', \<lparr>mc_command = ''resume'', mc_build_args = stage_args, mc_format_success = stage_done ''resumed''\<rparr>),
      (''drain'', \<lparr>mc_command = ''drain'', mc_build_args = (\<lambda>_. Inr []), mc_format_success = (\<lambda>_ _. Inr ''draining'')\<rparr>),
      (''reprocess'', \<lparr>mc_command = ''reprocess'',
         mc_build_args = (\<lambda>a. bind_res (reprocess_selector_from_args a) (\<lambda>sel. Inr (selector_to_args sel))),
         mc_format_success = affected_done ''reprocess''\<rparr>),
      (''unquarantine'', \<lparr>mc_command = ''unquarantine'',
         mc_build_args = (\<lambda>a. bind_res (unquarantine_selector_from_args a) (\<lambda>sel. Inr (selector_to_args sel))),
         mc_format_success = affected_done ''unquarantine''\<rparr>),
      (''shutdown'', \<lparr>mc_command = ''shutdown'', mc_build_args = (\<lambda>_. Inr []), mc_format_success = (\<lambda>_ _. Inr ''shutdown requested'')\<rparr>)]"

text \<open>\<^verbatim>\<open>_control\<close>: only \<^verbatim>\<open>ControlClientError\<close> is turned into a message.\<close>

definition cli_control :: "cli_env \<Rightarrow> namespace \<Rightarrow> string \<Rightarrow> json_args \<Rightarrow> (json \<Rightarrow> string res) \<Rightarrow> cli_result" where
  "cli_control env a command args format_success =
     (case cl_send env (ns_socket a) command args of
        Inl (ControlClientError msg) \<Rightarrow> ([Err msg], Inr 1)
      | Inl (Client_escapes e) \<Rightarrow> ([], Inl e)
      | Inr r \<Rightarrow> (case format_success r of Inl e \<Rightarrow> ([], Inl e) | Inr text \<Rightarrow> ([Out text], Inr 0)))"

definition dispatch_mutating :: "cli_env \<Rightarrow> namespace \<Rightarrow> mutating_command \<Rightarrow> cli_result" where
  "dispatch_mutating env a spec =
     (case mc_build_args spec a of Inl e \<Rightarrow> ([], Inl e)
      | Inr args \<Rightarrow> cli_control env a (mc_command spec) args (mc_format_success spec (cl_repr_float env)))"

section \<open>Dispatch\<close>

definition dispatch_read_only :: "cli_env \<Rightarrow> namespace \<Rightarrow> (namespace \<Rightarrow> database \<Rightarrow> cli_result) \<Rightarrow> cli_result" where
  "dispatch_read_only env a handler =
     (case cl_reader env (ns_db a) of
        Inl msg \<Rightarrow> ([Err (''cannot read database '' @ in_quotes (ns_db a) @ '': '' @ msg)], Inr 1)
      | Inr db \<Rightarrow> handler a db)"

definition preview_line :: "selector_preview \<Rightarrow> string" where
  "preview_line p = ''dry run: '' @ py_str_int (pv_wheel_count p) @ '' wheel(s) would be affected, ''
     @ py_str_int (pv_skips_to_clear_count p) @ '' skips row(s) would be cleared''"

definition print_reprocess_preview :: "selector \<Rightarrow> namespace \<Rightarrow> database \<Rightarrow> cli_result" where
  "print_reprocess_preview sel a db = ([Out (preview_line (preview_selector sel db))], Inr 0)"

definition dispatch_reprocess_dry_run :: "cli_env \<Rightarrow> namespace \<Rightarrow> cli_result" where
  "dispatch_reprocess_dry_run env a =
     (case reprocess_selector_from_args a of Inl e \<Rightarrow> ([], Inl e)
      | Inr sel \<Rightarrow> dispatch_read_only env a (print_reprocess_preview sel))"

datatype command_entry = Init_class | Run_class | Read_only_class "cli_env \<Rightarrow> namespace \<Rightarrow> database \<Rightarrow> cli_result"
  | Mutating_class mutating_command

definition CLI_COMMANDS :: "(string \<times> command_entry) list" where
  "CLI_COMMANDS = [(''init'', Init_class), (''run'', Run_class), (''status'', Read_only_class cli_status),
     (''errors'', Read_only_class cli_errors), (''fsck'', Read_only_class cli_fsck),
     (''verify-archive'', Read_only_class cli_verify_archive), (''queue'', Read_only_class cli_queue)]
     @ map (\<lambda>(name, spec). (name, Mutating_class spec)) MUTATING"

text \<open>\<open>cli_main\<close> also returns the database file the command leaves; only \<^verbatim>\<open>init\<close> writes it.\<close>

definition cli_main :: "cli_env \<Rightarrow> namespace \<Rightarrow> cli_result \<times> catalog option" where
  "cli_main env a =
     (let file = cl_catalog env (ns_db a)
      in case map_of CLI_COMMANDS (ns_command a) of
           None \<Rightarrow> (([], Inl KeyError), file)
         | Some (Mutating_class spec) \<Rightarrow>
             (if ns_command a = ''reprocess'' \<and> ns_dry_run a then dispatch_reprocess_dry_run env a else dispatch_mutating env a spec, file)
         | Some (Read_only_class handler) \<Rightarrow> (dispatch_read_only env a (handler env), file)
         | Some Init_class \<Rightarrow> cli_init env a
         | Some Run_class \<Rightarrow> (cli_run env, file))"

section \<open>Selectors survive the socket\<close>

fun selector_text :: "selector \<Rightarrow> string option" where
  "selector_text (RerollVersionBelow version) = Some version"
| "selector_text (ProjectSelector project) = Some project"
| "selector_text _ = None"

definition selector_sendable :: "selector \<Rightarrow> bool" where
  "selector_sendable sel = (case selector_text sel of None \<Rightarrow> True | Some t \<Rightarrow> t \<noteq> [] \<and> ascii t)"

lemma wheel_state_name [simp]: "wheel_state_of_name (state_name s) = Some s"
  by (cases s) (simp_all add: wheel_state_of_name_def all_states_def)

lemma state_name_ascii [simp]: "ascii (state_name s)" "state_name s \<noteq> []"
  by (cases s; simp)+

lemma parse_of_args: "selector_sendable sel \<Longrightarrow> parse_selector (selector_to_args sel) = Inr sel"
  by (cases sel) (simp_all add: selector_sendable_def parse_selector_def require_str_def bind_res_def list.case_eq_if)

lemma selector_args_plain: "selector_sendable sel \<Longrightarrow> json_plain rf fo (JObj (selector_to_args sel))"
  by (cases sel) (simp_all add: selector_sendable_def code_of_Char)

text \<open>A parsed command line always names a selector: \<^verbatim>\<open>WheelState[...]\<close> never raises.\<close>

lemma state_names_known: "name \<in> set STATE_NAMES \<Longrightarrow> \<exists>s. wheel_state_of_name name = Some s"
  by (auto simp: STATE_NAMES_def)

lemma parsed_reprocess:
  assumes "parsed e a" and "ns_command a = ''reprocess''"
  shows "\<exists>sel. reprocess_selector_from_args a = Inr sel"
proof -
  have "arg_ok a ((mk_arg ''state'' Text_arg ANone)\<lparr>as_choices := Some STATE_NAMES, as_exclusive := True\<rparr>)"
    using assms by (simp add: parsed_def build_parser_def exclusive_def)
  then have "\<forall>name. ns_state a = Some name \<longrightarrow> name \<in> set STATE_NAMES"
    by (simp add: arg_ok_def mk_arg_def arg_value_of_def namespace_values_def opt_text_def split: option.splits)
  then show ?thesis
    using state_names_known by (fastforce simp: reprocess_selector_from_args_def state_selector_def split: option.split)
qed

lemma parsed_unquarantine:
  assumes "parsed e a" and "ns_command a = ''unquarantine''"
  shows "\<exists>sel. unquarantine_selector_from_args a = Inr sel"
proof -
  have "arg_ok a ((mk_arg ''stage'' Text_arg ANone)\<lparr>as_choices := Some STATE_NAMES, as_exclusive := True\<rparr>)"
    using assms by (simp add: parsed_def build_parser_def exclusive_def)
  then have "\<forall>name. ns_stage a = Some name \<longrightarrow> name \<in> set STATE_NAMES"
    by (simp add: arg_ok_def mk_arg_def arg_value_of_def namespace_values_def opt_text_def split: option.splits)
  then show ?thesis
    using state_names_known by (fastforce simp: unquarantine_selector_from_args_def state_selector_def split: option.split)
qed

section \<open>A campaign from the command line\<close>

lemma dry_run_irrelevant [simp]:
  "reprocess_selector_from_args (a\<lparr>ns_dry_run := b\<rparr>) = reprocess_selector_from_args a"
  by (simp add: reprocess_selector_from_args_def split: option.split)

lemma mutating_reprocess: "map_of CLI_COMMANDS ''reprocess'' = Some (Mutating_class
    \<lparr>mc_command = ''reprocess'', mc_build_args = (\<lambda>a. bind_res (reprocess_selector_from_args a) (\<lambda>sel. Inr (selector_to_args sel))),
     mc_format_success = affected_done ''reprocess''\<rparr>)"
  by (simp add: CLI_COMMANDS_def MUTATING_def)

lemma main_reprocess:
  assumes "ns_command a = ''reprocess''" and "reprocess_selector_from_args a = Inr sel"
  shows "cli_main env (a\<lparr>ns_dry_run := False\<rparr>)
      = (cli_control env a ''reprocess'' (selector_to_args sel) (affected_done ''reprocess'' (cl_repr_float env)), cl_catalog env (ns_db a))"
    and "cli_main env (a\<lparr>ns_dry_run := True\<rparr>)
      = (dispatch_read_only env a (print_reprocess_preview sel), cl_catalog env (ns_db a))"
  using assms
  by (simp_all add: cli_main_def mutating_reprocess dispatch_mutating_def dispatch_reprocess_dry_run_def
      cli_control_def dispatch_read_only_def print_reprocess_preview_def split: sum.split)

definition demo_je :: json_env where
  "demo_je = \<lparr>je_repr_float = (\<lambda>_. ''0.5''), je_float_of = (\<lambda>_. 1 / 2), je_error = (\<lambda>_. [])\<rparr>"

text \<open>
  C35. \<^verbatim>\<open>reroll-sync reprocess\<close> end to end: whatever the chunks the socket delivers, the daemon runs exactly the campaign
  of the selector on the command line, nothing else of the daemon changes, and the command prints the number of affected
  wheels and exits with 0. A dry run before it announces the same number and changes nothing.
\<close>

theorem reprocess_command_runs_campaign:
  assumes "ns_command a = ''reprocess''" and "reprocess_selector_from_args a = Inr sel" and "selector_sendable sel"
    and "sel \<noteq> StateSelector NEED_CONVERT" and "tables_ok (fst (ld_op d))" and "\<forall>w \<in> set (wheels (fst (ld_op d))). 0 < w_id w"
    and "length (nat_digits (card (selected sel (fst (ld_op d))))) \<le> INT_MAX_STR_DIGITS"
    and "concat chunks = client_payload je ''reprocess'' (selector_to_args sel)" and "[] \<notin> set chunks"
    and "int (length (client_payload je ''reprocess'' (selector_to_args sel))) \<le> DEFAULT_MAX_REQUEST_BYTES"
  shows "\<exists>reply st'. handle_connection je (daemon_handlers clock now wal) False DEFAULT_MAX_REQUEST_BYTES (map Data chunks) d
        = (Some reply, d\<lparr>ld_op := st'\<rparr>)
    \<and> campaign_effect to_need_convert True (clears_skip sel) (selected sel (fst (ld_op d))) (ld_op d) st'
    \<and> (\<forall>(env :: cli_env) pieces. concat pieces = reply \<and> [] \<notin> set pieces
        \<and> cl_send env (ns_socket a) ''reprocess'' (selector_to_args sel) = send_control_command je (ns_socket a) Connected None (map Data pieces)
        \<longrightarrow> cli_main env (a\<lparr>ns_dry_run := False\<rparr>)
          = (([Out (''reprocess submitted: '' @ py_str_int (int (card (selected sel (fst (ld_op d))))) @ '' wheel(s) affected'')], Inr 0),
             cl_catalog env (ns_db a)))
    \<and> (\<forall>env :: cli_env. cl_reader env (ns_db a) = Inr (fst (ld_op d))
        \<longrightarrow> (\<exists>n. cli_main env (a\<lparr>ns_dry_run := True\<rparr>)
          = (([Out (preview_line \<lparr>pv_wheel_count = int (card (selected sel (fst (ld_op d)))), pv_skips_to_clear_count = n\<rparr>)], Inr 0),
             cl_catalog env (ns_db a))))"
proof -
  obtain db seq where op: "ld_op d = (db, seq)" by (cases "ld_op d")
  let ?n = "int (card (selected sel db))" and ?h = "daemon_handlers clock now wal"
  have ok: "tables_ok db" "\<forall>w \<in> set (wheels db). 0 < w_id w" using assms(5,6) op by simp_all
  obtain k st' where c: "reprocess clock sel REPROCESS_CHUNK_SIZE (db, seq) = (k, ?n, st')"
    and eff: "campaign_effect to_need_convert True (clears_skip sel) (selected sel db) (db, seq) st'"
    using campaign_of_selector [OF ok _ assms(4), of REPROCESS_CHUNK_SIZE clock seq] by (auto simp: REPROCESS_CHUNK_SIZE_def)
  have f: "map_of COMMANDS ''reprocess'' = Some cmd_reprocess" by (simp add: COMMANDS_def)
  have run: "cmd_reprocess ?h (selector_to_args sel) d = (Inr (JObj [(''affected'', JInt ?n)]), d\<lparr>ld_op := st'\<rparr>)"
    by (simp add: cmd_reprocess_def parse_of_args [OF assms(3)] daemon_handlers_def daemon_reprocess_def op c reply_with_def)
  have "reply_plain je (Inr (JObj [(''affected'', JInt ?n)]))"
    using assms(7) op by (simp add: reply_plain_def code_of_Char)
  from request_and_reply [OF f selector_args_plain [OF assms(3)] run this assms(8-10), of "ns_socket a"]
  obtain reply where r: "handle_connection je ?h False DEFAULT_MAX_REQUEST_BYTES (map Data chunks) d = (Some reply, d\<lparr>ld_op := st'\<rparr>)"
    and got: "\<And>pieces. concat pieces = reply \<Longrightarrow> [] \<notin> set pieces
      \<Longrightarrow> send_control_command je (ns_socket a) Connected None (map Data pieces) = Inr (JObj [(''affected'', JInt ?n)])"
    by (auto simp: client_outcome_def)
  note main = main_reprocess [OF assms(1,2)]
  have "pv_wheel_count (preview_selector sel db) = ?n" by (rule preview_counts_wheels [OF ok(1)])
  then have pv: "preview_selector sel db = \<lparr>pv_wheel_count = ?n, pv_skips_to_clear_count = pv_skips_to_clear_count (preview_selector sel db)\<rparr>"
    by simp
  show ?thesis
  proof (intro exI conjI allI impI)
    show "handle_connection je ?h False DEFAULT_MAX_REQUEST_BYTES (map Data chunks) d = (Some reply, d\<lparr>ld_op := st'\<rparr>)" by (rule r)
    show "campaign_effect to_need_convert True (clears_skip sel) (selected sel (fst (ld_op d))) (ld_op d) st'" using eff op by simp
  next
    fix env :: cli_env and pieces
    assume p: "concat pieces = reply \<and> [] \<notin> set pieces
      \<and> cl_send env (ns_socket a) ''reprocess'' (selector_to_args sel) = send_control_command je (ns_socket a) Connected None (map Data pieces)"
    then show "cli_main env (a\<lparr>ns_dry_run := False\<rparr>)
        = (([Out (''reprocess submitted: '' @ py_str_int (int (card (selected sel (fst (ld_op d))))) @ '' wheel(s) affected'')], Inr 0),
           cl_catalog env (ns_db a))"
      using got by (simp add: main(1) cli_control_def affected_done_def json_item_def bind_res_def json_str_def op)
  next
    fix env :: cli_env
    assume "cl_reader env (ns_db a) = Inr (fst (ld_op d))"
    then show "cli_main env (a\<lparr>ns_dry_run := True\<rparr>)
        = (([Out (preview_line \<lparr>pv_wheel_count = int (card (selected sel (fst (ld_op d)))),
               pv_skips_to_clear_count = pv_skips_to_clear_count (preview_selector sel db)\<rparr>)], Inr 0), cl_catalog env (ns_db a))"
      using pv by (simp add: main(2) dispatch_read_only_def print_reprocess_preview_def op)
  qed
qed

section \<open>Snapshots of the command line\<close>

definition queued :: "wheel_state \<Rightarrow> database \<Rightarrow> wheel_row list" where
  "queued s db = filter (\<lambda>w. w_state w = state_int s) (wheels db)"

definition idle_queue :: "real \<Rightarrow> wheel_state \<Rightarrow> database \<Rightarrow> stage_queue" where
  "idle_queue now s db = stage_queue_of now s zero_queue (group_counts w_lane (queued s db)) (oldest_update (queued s db))"

lemma read_empty_inputs:
  assumes "quiet budget st"
  shows "\<exists>st'. read_queues budget now db empty_stage_inputs st
      = (Inr [(''fetch'', idle_queue now NEED_METADATA db), (''convert'', idle_queue now NEED_CONVERT db)], st') \<and> quiet budget st'"
proof -
  let ?r = "\<lambda>s. (group_counts w_lane (queued s db), oldest_update (queued s db))"
  obtain st1 where 1: "timed_read budget (?r NEED_METADATA) st = (Inr (?r NEED_METADATA), st1)" "has_read budget 1 st st1"
    using timed_read_quiet [OF assms] .
  obtain st2 where 2: "timed_read budget (?r NEED_CONVERT) st1 = (Inr (?r NEED_CONVERT), st2)" "has_read budget 1 st1 st2"
    using timed_read_quiet [OF has_read_quiet [OF 1(2)]] .
  show ?thesis
    using 1(1) 2(1) has_read_quiet [OF 2(2)]
    by (simp add: empty_stage_inputs_def queue_stage_state_def idle_queue_def queued_def Let_def)
qed

lemma cli_snapshot_ok:
  assumes "w_state ` set (wheels db) \<subseteq> range state_int" and "quiet READ_BUDGET (cl_reads env)"
  shows "\<exists>h. cli_snapshot env store db = Inr h
    \<and> he_queues h = [(''fetch'', idle_queue (hv_now (cl_health env)) NEED_METADATA db), (''convert'', idle_queue (hv_now (cl_health env)) NEED_CONVERT db)]
    \<and> he_wal_bytes h = file_size (cl_health env) (map_option wal_path (hv_main_file (cl_health env)))
    \<and> he_consecutive_checkpoint_failures h = 0
    \<and> he_disk_free_bytes h = (case store of None \<Rightarrow> None | Some _ \<Rightarrow> hv_disk_free (cl_health env))"
proof -
  let ?b = READ_BUDGET and ?now = "hv_now (cl_health env)"
  obtain st1 where 1: "read_freshness ?b db (cl_reads env) = (Inr (freshness_of db), st1)" "has_read ?b 1 (cl_reads env) st1"
    unfolding read_freshness_def using timed_read_quiet [OF assms(2)] .
  obtain st2 where 2: "timed_read ?b (group_counts w_state (wheels db)) st1 = (Inr (group_counts w_state (wheels db)), st2)" "has_read ?b 1 st1 st2"
    using timed_read_quiet [OF has_read_quiet [OF 1(2)]] .
  obtain c where c: "census_of db (group_counts w_state (wheels db)) = Inr c"
    by (simp add: census_of_def state_rows_counts [OF assms(1)])
  obtain st3 where 3: "read_queues ?b ?now db empty_stage_inputs st2
      = (Inr [(''fetch'', idle_queue ?now NEED_METADATA db), (''convert'', idle_queue ?now NEED_CONVERT db)], st3)" "quiet ?b st3"
    using read_empty_inputs [OF has_read_quiet [OF 2(2)]] by blast
  obtain errs st4 where 4: "read_errors ?b ?now db st3 = (Inr errs, st4)" "has_read ?b 1 st3 st4"
    unfolding read_errors_def using timed_read_quiet [OF 3(2)] .
  obtain st5 where 5: "timed_read ?b (archive_counts db) st4 = (Inr (archive_counts db), st5)" "has_read ?b 1 st4 st5"
    using timed_read_quiet [OF has_read_quiet [OF 4(2)]] .
  obtain n1 n2 n3 n4 where counts: "archive_counts db = (n1, n2, n3, n4)" by (metis prod.exhaust)
  obtain arch where 6: "read_archive ?b (cl_health env) store db st4 = (Inr arch, st5)"
    "ah_disk_free_bytes arch = (case store of None \<Rightarrow> None | Some _ \<Rightarrow> hv_disk_free (cl_health env))"
    using 5(1) by (simp add: read_archive_def counts Let_def)
  show ?thesis
    unfolding cli_snapshot_def snapshot_def 1(1) read_census_def 2(1) prod.case sum.case c 3(1) 4(1) 6(1)
    using 6(2) by (simp add: build_health_def Let_def health_wal_bytes_def)
qed

lemma critical_iff:
  "has_critical (alarms lm None h) \<longleftrightarrow> lm_wal_bytes_critical lm < he_wal_bytes h
     \<or> lm_checkpoint_failures_critical lm \<le> he_consecutive_checkpoint_failures h
     \<or> (\<exists>n. he_disk_free_bytes h = Some n \<and> n < lm_disk_free_floor_bytes lm)"
proof -
  have "has_critical (alarms lm None h) \<longleftrightarrow> filter (\<lambda>a. al_severity a = Critical) (found_alarms lm None h) \<noteq> []"
    using set_alarms [of lm None h] by (simp add: has_critical_def list_ex_iff filter_empty_conv)
  also have "\<dots> \<longleftrightarrow> wal_alarms lm h \<noteq> [] \<or> checkpoint_alarms lm h \<noteq> [] \<or> disk_alarms lm h \<noteq> []"
    unfolding filter_critical_found by simp
  finally show ?thesis
    by (auto simp: wal_alarms_def checkpoint_alarms_def disk_alarms_def split: option.splits)
qed

text \<open>
  C37. \<^verbatim>\<open>reroll-sync status\<close> on a database the program can reach prints one report and exits with 3 exactly when the
  write-ahead log is over 2 GiB or the archive directory exists with less than 20 GiB free, and with 0 otherwise: the
  third critical condition, failing checkpoints, is never seen from the command line.
\<close>

theorem status_exit_code:
  assumes "ns_command a = ''status''" and "cl_reader env (ns_db a) = Inr db" and "database_life dump dumpr db seq"
    and "\<forall>k. fr_elapsed (cl_reads env) k \<le> READ_BUDGET"
  shows "\<exists>text. cli_main env a
    = (([Out text],
        Inr (if 2 * 1024 ^ 3 < file_size (cl_health env) (map_option wal_path (hv_main_file (cl_health env)))
               \<or> (cl_store env (ns_segments_dir a) \<noteq> None \<and> (\<exists>n. hv_disk_free (cl_health env) = Some n \<and> n < 20 * 1024 ^ 3))
             then 3 else 0)), cl_catalog env (ns_db a))"
proof -
  have "w_state ` set (wheels db) \<subseteq> range state_int"
    using database_life_wf [OF assms(3)] by (auto simp: db_wf_def wheels_wf_def)
  from cli_snapshot_ok [OF this, of env "cl_store env (ns_segments_dir a)"] assms(4)
  obtain h where h: "cli_snapshot env (cl_store env (ns_segments_dir a)) db = Inr h"
    "he_wal_bytes h = file_size (cl_health env) (map_option wal_path (hv_main_file (cl_health env)))"
    "he_consecutive_checkpoint_failures h = 0"
    "he_disk_free_bytes h = (case cl_store env (ns_segments_dir a) of None \<Rightarrow> None | Some _ \<Rightarrow> hv_disk_free (cl_health env))"
    by (auto simp: quiet_def)
  have "has_critical (alarms default_limits None h) \<longleftrightarrow> 2 * 1024 ^ 3 < file_size (cl_health env) (map_option wal_path (hv_main_file (cl_health env)))
      \<or> (cl_store env (ns_segments_dir a) \<noteq> None \<and> (\<exists>n. hv_disk_free (cl_health env) = Some n \<and> n < 20 * 1024 ^ 3))"
    unfolding critical_iff h by (cases "cl_store env (ns_segments_dir a)") (simp_all add: default_limits_def)
  moreover have "map_of CLI_COMMANDS ''status'' = Some (Read_only_class cli_status)" by (simp add: CLI_COMMANDS_def)
  ultimately show ?thesis using assms(1,2) h(1) by (simp add: cli_main_def dispatch_read_only_def cli_status_def)
qed

text \<open>
  C36. \<^verbatim>\<open>reroll-sync queue\<close> prints a depth of 0 for every queue of every database, next to the right number of wheels in
  each of its lanes: the depth is taken from the empty metrics the command passes to the snapshot.
\<close>

theorem queue_depth_always_zero:
  assumes "parsed e a" and "ns_command a = ''queue''" and "cl_reader env (ns_db a) = Inr db" and "database_life dump dumpr db seq"
    and "\<forall>k. fr_elapsed (cl_reads env) k \<le> READ_BUDGET"
  shows "\<exists>fetch_queue convert_queue names. set names \<subseteq> {''fetch'', ''convert''} \<and> names \<noteq> []
    \<and> sq_depth_by_lane fetch_queue = group_counts w_lane (queued NEED_METADATA db)
    \<and> sq_depth_by_lane convert_queue = group_counts w_lane (queued NEED_CONVERT db)
    \<and> cli_main env a = ((map (\<lambda>name. Out (name @ '': depth=0'' @ lanes_suffix (if name = ''fetch'' then fetch_queue else convert_queue))) names, Inr 0),
        cl_catalog env (ns_db a))"
proof -
  let ?now = "hv_now (cl_health env)"
  let ?f = "idle_queue ?now NEED_METADATA db" and ?c = "idle_queue ?now NEED_CONVERT db"
  let ?names = "case ns_stage a of Some name \<Rightarrow> [name] | None \<Rightarrow> [''convert'', ''fetch'']"
  have "w_state ` set (wheels db) \<subseteq> range state_int"
    using database_life_wf [OF assms(4)] by (auto simp: db_wf_def wheels_wf_def)
  from cli_snapshot_ok [OF this, of env None] assms(5)
  obtain h where h: "cli_snapshot env None db = Inr h" "he_queues h = [(''fetch'', ?f), (''convert'', ?c)]"
    by (auto simp: quiet_def)
  have "arg_ok a ((mk_arg ''stage'' Text_arg ANone)\<lparr>as_choices := Some STAGE_VALUES\<rparr>)"
    using assms(1,2) by (simp add: parsed_def build_parser_def exclusive_def)
  then have names: "set ?names \<subseteq> {''fetch'', ''convert''}" "?names \<noteq> []"
    by (auto simp: arg_ok_def mk_arg_def arg_value_of_def namespace_values_def opt_text_def STAGE_VALUES_def split: option.splits)
  have depth: "sq_depth ?f = 0" "sq_depth ?c = 0"
    "sq_depth_by_lane ?f = group_counts w_lane (queued NEED_METADATA db)" "sq_depth_by_lane ?c = group_counts w_lane (queued NEED_CONVERT db)"
    by (simp_all add: idle_queue_def stage_queue_of_def zero_queue_def)
  have zero: "thousands 0 = ''0''" by code_simp
  have lines: "queue_lines [(''fetch'', ?f), (''convert'', ?c)] ns
      = (map (\<lambda>name. Out (name @ '': depth=0'' @ lanes_suffix (if name = ''fetch'' then ?f else ?c))) ns, Inr 0)"
    if "set ns \<subseteq> {''fetch'', ''convert''}" for ns
    using that by (induction ns) (auto simp: depth zero)
  have "sort [''fetch'', ''convert''] = [''convert'', ''fetch'']" by code_simp
  then have "cli_queue env a db = queue_lines (he_queues h) ?names"
    by (simp add: cli_queue_def h split: option.split)
  then have "cli_queue env a db = (map (\<lambda>name. Out (name @ '': depth=0'' @ lanes_suffix (if name = ''fetch'' then ?f else ?c))) ?names, Inr 0)"
    using lines [OF names(1)] by (simp only: h(2))
  moreover have "map_of CLI_COMMANDS ''queue'' = Some (Read_only_class cli_queue)" by (simp add: CLI_COMMANDS_def)
  ultimately have "cli_main env a = ((map (\<lambda>name. Out (name @ '': depth=0'' @ lanes_suffix (if name = ''fetch'' then ?f else ?c))) ?names, Inr 0), cl_catalog env (ns_db a))"
    using assms(2,3) by (simp add: cli_main_def dispatch_read_only_def)
  then show ?thesis using names depth(3,4) by blast
qed

section \<open>The verdict of fsck\<close>

lemma negative_row_check:
  assumes "quiet budget st"
  shows "\<exists>st'. run_row_check budget (- 1) limit db c st = (Inr None, st') \<and> quiet budget st'"
proof -
  obtain st1 where "timed_read budget ([] :: (int \<times> fsck_value) list) st = (Inr [], st1)" "has_read budget 1 st st1"
    using timed_read_quiet [OF assms] .
  then show ?thesis
    by (auto simp: run_row_check_def chunked_scan.simps [of budget "- 1"] scan_page_def keyset_page_def sql_limit_def
        intro: has_read_quiet)
qed

lemma negative_row_checks: "quiet budget st \<Longrightarrow> \<exists>st'. run_row_checks budget (- 1) limit db cs st = (Inr [], st') \<and> quiet budget st'"
proof (induction cs arbitrary: st)
  case (Cons c cs)
  obtain st1 where "run_row_check budget (- 1) limit db c st = (Inr None, st1)" "quiet budget st1"
    using negative_row_check [OF Cons.prems] by blast
  moreover obtain st2 where "run_row_checks budget (- 1) limit db cs st1 = (Inr [], st2)" "quiet budget st2"
    using Cons.IH [OF calculation(2)] by blast
  ultimately show ?case by (simp add: optional_violation_def bind_res_def)
qed simp

lemma negative_chunk_clean:
  assumes "quiet budget st"
  shows "fst (fsck_run budget (- 1) limit max_attempts None None db st) = Inr []"
proof -
  obtain st1 where rows: "run_row_checks budget (- 1) limit db (fsck_checks max_attempts) st = (Inr [], st1)" "quiet budget st1"
    using negative_row_checks [OF assms] by blast
  obtain st2 where "timed_read budget ([] :: (int \<times> int) list) st1 = (Inr [], st2)"
    using timed_read_quiet [OF rows(2), of "[] :: (int \<times> int) list"] .
  then have "scan_duplicates budget (- 1) limit db None (0, []) st1 = (Inr (0, []), st2)"
    by (simp add: scan_duplicates.simps [of budget "- 1"] change_seq_window_def sql_limit_def window_groups_def py_slice_def)
  then show ?thesis
    by (simp add: fsck_run_def rows(1) check_duplicate_change_seq_def optional_violation_def)
qed

text \<open>
  C38. \<^verbatim>\<open>reroll-sync fsck\<close> on a database the program can reach: with a positive \<^verbatim>\<open>--chunk\<close> its exit code is the verdict of
  the reference checks, 2 exactly when one of them finds more than an informational violation; with \<^verbatim>\<open>--chunk -1\<close> every
  page of every check asks for no row, and it prints \<^verbatim>\<open>fsck: clean\<close> and exits with 0 whatever is in the database.
\<close>

theorem fsck_exit_code:
  assumes "ns_command a = ''fsck''" and "cl_reader env (ns_db a) = Inr db" and "database_life dump dumpr db seq"
    and "\<forall>k. fr_elapsed (cl_reads env) k \<le> READ_BUDGET"
  shows "(0 < ns_chunk a \<longrightarrow> snd (fst (cli_main env a)) = Inr (if report_ok (fsck_reference 20 8 None db) then 0 else 2))
    \<and> (ns_chunk a = - 1 \<longrightarrow> cli_main env a = (([Out ''fsck: clean''], Inr 0), cl_catalog env (ns_db a)))"
proof -
  have "map_of CLI_COMMANDS ''fsck'' = Some (Read_only_class cli_fsck)" by (simp add: CLI_COMMANDS_def)
  then have main: "cli_main env a = (cli_fsck env a db, cl_catalog env (ns_db a))"
    using assms(1,2) by (simp add: cli_main_def dispatch_read_only_def)
  have q: "quiet READ_BUDGET (cl_reads env)" using assms(4) by (simp add: quiet_def)
  have "snd (fst (cli_main env a)) = Inr (if report_ok (fsck_reference 20 8 None db) then 0 else 2)" if "0 < ns_chunk a"
    using fsck_run_reference [OF db_wf_queries(4) [OF database_life_wf [OF assms(3)]] that q, of 20 8 None None]
    by (cases "fsck_reference 20 8 None db")
      (simp_all add: main cli_fsck_def bind_res_def sealed_violation_def optional_violation_def report_ok_def)
  moreover have "cli_main env a = (([Out ''fsck: clean''], Inr 0), cl_catalog env (ns_db a))" if "ns_chunk a = - 1"
    using negative_chunk_clean [OF q, of 20 8 db] that by (simp add: main cli_fsck_def)
  ultimately show ?thesis by blast
qed

definition demo_cli :: "database \<Rightarrow> cli_env" where
  "demo_cli db = \<lparr>cl_connect = (\<lambda>_. Connected), cl_send = (\<lambda>_ _ _. Inl (ControlClientError [])), cl_reader = (\<lambda>_. Inr db),
     cl_reads = demo_reads, cl_catalog = (\<lambda>_. None), cl_store = (\<lambda>_. None), cl_codec = demo_codec,
     cl_health = \<lparr>hv_now = 100, hv_monotonic = 5, hv_disk_free = None, hv_file_size = (\<lambda>_. None), hv_main_file = None,
       hv_freelist = 0, hv_limiter_child = (\<lambda>_. 0), hv_limiter_global = 0\<rparr>,
     cl_config = Inl (ConfigError []), cl_daemon = (\<lambda>_. None), cl_repr_float = (\<lambda>_. ''0.5''), cl_iso_text = (\<lambda>_. []),
     cl_fromisoformat = Inr, cl_problem_text = (\<lambda>_. [])\<rparr>"

definition demo_namespace :: "string \<Rightarrow> namespace" where
  "demo_namespace command = \<lparr>ns_command = command, ns_db = ''x.db'', ns_socket = ''x.sock'', ns_segments_dir = ''segments'',
     ns_json = False, ns_category = None, ns_since = None, ns_limit = 100, ns_chunk = - 1, ns_segment = None, ns_stage = None,
     ns_reroll_version_below = None, ns_state = None, ns_project = Some ''p'', ns_skipped_only = False, ns_dry_run = False,
     ns_all = False, ns_config_from_env = False\<rparr>"

definition demo_daemon :: "unit live_daemon" where
  "demo_daemon = \<lparr>ld_loops = [], ld_start_errors = [], ld_breakers = [], ld_disk_guard = new_disk_guard 0 1,
     ld_writer = writer_init campaign_db, ld_dispatcher = new_dispatcher ''1'' 8 0 None, ld_op = (campaign_db, 3),
     ld_shutdown_requested = False\<rparr>"

theorem reprocess_command_runs_campaign_witness:
  "\<exists>reply st'. handle_connection demo_je (daemon_handlers (\<lambda>_. 9) 0 0) False DEFAULT_MAX_REQUEST_BYTES
        [Data (client_payload demo_je ''reprocess'' (selector_to_args (ProjectSelector ''p'')))] demo_daemon
      = (Some reply, demo_daemon\<lparr>ld_op := st'\<rparr>)"
proof -
  let ?sel = "ProjectSelector ''p''" and ?p = "client_payload demo_je ''reprocess'' (selector_to_args (ProjectSelector ''p''))"
  have p: "?p \<noteq> []" "int (length ?p) \<le> DEFAULT_MAX_REQUEST_BYTES" by code_simp+
  have "selected ?sel campaign_db \<subseteq> {1, 2, 3}" by (auto simp: campaign_db_def demo_wheel_def)
  then have "card (selected ?sel campaign_db) \<le> 3" using card_mono [of "{1, 2, 3}" "selected ?sel campaign_db"] by simp
  then have "card (selected ?sel campaign_db) < 10" by simp
  then have n: "length (nat_digits (card (selected ?sel campaign_db))) \<le> INT_MAX_STR_DIGITS"
    by (subst nat_digits.simps) (simp add: INT_MAX_STR_DIGITS_def)
  have a: "ns_command (demo_namespace ''reprocess'') = ''reprocess''"
    "reprocess_selector_from_args (demo_namespace ''reprocess'') = Inr ?sel" "selector_sendable ?sel"
    by (simp_all add: demo_namespace_def reprocess_selector_from_args_def selector_sendable_def)
  have d: "ld_op demo_daemon = (campaign_db, 3)" by (simp add: demo_daemon_def)
  show ?thesis
    using reprocess_command_runs_campaign [OF a, where d = demo_daemon and je = demo_je and chunks = "[?p]" and clock = "\<lambda>_. 9" and now = 0 and wal = 0]
      campaign_db_ok p n by (auto simp: d)
qed

theorem status_exit_code_witness:
  "\<exists>text. cli_main (demo_cli (fst (demo_batch [demo_sync]))) (demo_namespace ''status'') = (([Out text], Inr 0), None)"
  using status_exit_code [of "demo_namespace ''status''" "demo_cli (fst (demo_batch [demo_sync]))", OF _ _ demo_sync_life]
  by (simp add: demo_cli_def demo_namespace_def demo_reads_def READ_BUDGET_def file_size_def)

lemma demo_ready_life: "demo_life (fst (demo_batch [demo_ready_sync])) (snd (demo_batch [demo_ready_sync]))"
  by (rule demo_batch_life) (simp add: demo_ready_sync_def program_body.Sync)

theorem queue_depth_always_zero_witness:
  "\<exists>fetch_queue convert_queue names. sq_depth_by_lane convert_queue = [(0, 1)] \<and> names \<noteq> []
    \<and> cli_main (demo_cli (fst (demo_batch [demo_ready_sync]))) (demo_namespace ''queue'')
      = ((map (\<lambda>name. Out (name @ '': depth=0'' @ lanes_suffix (if name = ''fetch'' then fetch_queue else convert_queue))) names, Inr 0), None)"
proof -
  have lanes: "group_counts w_lane (queued NEED_CONVERT (fst (demo_batch [demo_ready_sync]))) = [(0, 1)]" by code_simp
  have "parsed (\<lambda>_. None) (demo_namespace ''queue'')"
    by code_simp
  from queue_depth_always_zero [OF this, of "demo_cli (fst (demo_batch [demo_ready_sync]))", OF _ _ demo_ready_life]
  show ?thesis unfolding lanes by (force simp: demo_cli_def demo_namespace_def demo_reads_def READ_BUDGET_def)
qed

theorem fsck_exit_code_witness:
  "cli_main (demo_cli (fst (demo_batch [demo_sync]))) (demo_namespace ''fsck'') = (([Out ''fsck: clean''], Inr 0), None)"
  using fsck_exit_code [of "demo_namespace ''fsck''" "demo_cli (fst (demo_batch [demo_sync]))", OF _ _ demo_sync_life]
  by (simp add: demo_cli_def demo_namespace_def demo_reads_def READ_BUDGET_def)

end
