(* ===== verification/Shutdown.thy ===== *)
theory Shutdown
  imports Service
begin

text \<open>
  The shutdown sequence of \<^verbatim>\<open>daemon/service.py\<close>. What it does is a log of steps with the time of each; \<open>finish\<close> says
  when a thread ends by itself (\<^const>\<open>None\<close>: never), which is all that \<^verbatim>\<open>Thread.join(timeout=...)\<close> depends on. The clock
  moves while a join waits and not in between.
\<close>

section \<open>The sequence\<close>

datatype shutdown_step = Restrict_to_status | Set_shutdown_event | Join_returned string | Close_handoff_queue | Stop_writer
  | Stop_control_server | Stop_metrics_server | Close_pypi_client | Shutdown_fetch_pool | Shutdown_convert_pool
  | Close_open_segment | Close_connections | Set_stopped_event

type_synonym shutdown_log = "(real \<times> shutdown_step) list"

text \<open>
  The parts of the daemon that exist at the call; \<open>dw_handoff\<close> is the \<^verbatim>\<open>handoff_queue\<close>, an attribute that \<^verbatim>\<open>start\<close>
  assigns after the writer, the archive and the client.
\<close>

record daemon_view =
  dw_shutting_down :: bool
  dw_handoff :: bool
  dw_stage_threads :: "string list"
  dw_archive_thread :: bool
  dw_control_server :: bool
  dw_metrics_server :: bool
  dw_fetch_pool :: bool
  dw_convert_pool :: bool
  dw_open_segment :: bool

definition SHUTDOWN_GRACE_SECONDS :: real where
  "SHUTDOWN_GRACE_SECONDS = 30"

type_synonym thread_ends = "string \<Rightarrow> real option"

definition thread_ended :: "thread_ends \<Rightarrow> string \<Rightarrow> real \<Rightarrow> bool" where
  "thread_ended finish name now = (case finish name of None \<Rightarrow> False | Some t \<Rightarrow> t \<le> now)"

text \<open>When \<^verbatim>\<open>thread.join(timeout=max(0.0, deadline - now))\<close> returns.\<close>

definition join_thread :: "thread_ends \<Rightarrow> real \<Rightarrow> string \<Rightarrow> real \<Rightarrow> real" where
  "join_thread finish deadline name now =
     (let timeout = max 0 (deadline - now)
      in if thread_ended finish name now then now
         else (case finish name of None \<Rightarrow> now + timeout | Some t \<Rightarrow> min t (now + timeout)))"

text \<open>\<^verbatim>\<open>_join_named_stage_threads\<close>.\<close>

fun join_named_stage_threads :: "thread_ends \<Rightarrow> real \<Rightarrow> string list \<Rightarrow> string list \<Rightarrow> real \<Rightarrow> shutdown_log \<times> real" where
  "join_named_stage_threads finish deadline threads [] now = ([], now)"
| "join_named_stage_threads finish deadline threads (name # names) now =
     (if name \<notin> set threads then join_named_stage_threads finish deadline threads names now
      else let t = join_thread finish deadline name now
           in case join_named_stage_threads finish deadline threads names t of (l, u) \<Rightarrow> ((t, Join_returned name) # l, u))"

definition ARCHIVE_THREAD :: string where
  "ARCHIVE_THREAD = ''reroll-sync-archive''"

definition archive_join :: "thread_ends \<Rightarrow> real \<Rightarrow> daemon_view \<Rightarrow> real \<Rightarrow> shutdown_log \<times> real" where
  "archive_join finish deadline d now =
     (if dw_archive_thread d then let t = join_thread finish deadline ARCHIVE_THREAD now in ([(t, Join_returned ARCHIVE_THREAD)], t)
      else ([], now))"

definition only_if :: "bool \<Rightarrow> shutdown_step \<Rightarrow> shutdown_step list" where
  "only_if present s = (if present then [s] else [])"

lemma set_only_if [simp]: "x \<in> set (only_if b s) \<longleftrightarrow> b \<and> x = s"
  by (auto simp: only_if_def)

definition shutdown_tail :: "daemon_view \<Rightarrow> shutdown_step list" where
  "shutdown_tail d =
     Stop_writer # only_if (dw_control_server d) Stop_control_server @ only_if (dw_metrics_server d) Stop_metrics_server
       @ [Close_pypi_client] @ only_if (dw_fetch_pool d) Shutdown_fetch_pool @ only_if (dw_convert_pool d) Shutdown_convert_pool
       @ only_if (dw_open_segment d) Close_open_segment @ [Close_connections, Set_stopped_event]"

definition shutdown :: "thread_ends \<Rightarrow> real \<Rightarrow> daemon_view \<Rightarrow> (unit res \<times> shutdown_log) \<times> daemon_view" where
  "shutdown finish now d =
     (if dw_shutting_down d then ((Inr (), []), d)
      else let d1 = d\<lparr>dw_shutting_down := True\<rparr>;
               deadline = now + SHUTDOWN_GRACE_SECONDS;
               start = map (Pair now) (only_if (dw_control_server d) Restrict_to_status) @ [(now, Set_shutdown_event)]
           in case join_named_stage_threads finish deadline (dw_stage_threads d) [''fetch''] now of (l1, t1) \<Rightarrow>
             if \<not> dw_handoff d then ((Inl AttributeError, start @ l1), d1)
             else case join_named_stage_threads finish deadline (dw_stage_threads d) (filter (\<lambda>n. n \<noteq> ''fetch'') (dw_stage_threads d)) t1 of (l2, t2) \<Rightarrow>
               case archive_join finish deadline d t2 of (l3, t3) \<Rightarrow>
                 ((Inr (), start @ l1 @ [(t1, Close_handoff_queue)] @ l2 @ l3 @ map (Pair t3) (shutdown_tail d)), d1))"

lemma tail_steps:
  "s \<in> set (shutdown_tail d) \<Longrightarrow> s \<noteq> Join_returned n \<and> s \<noteq> Close_handoff_queue \<and> s \<noteq> Set_shutdown_event \<and> s \<noteq> Restrict_to_status"
  by (auto simp: shutdown_tail_def)

section \<open>Joins\<close>

definition timed :: "real \<Rightarrow> real \<Rightarrow> shutdown_log \<Rightarrow> bool" where
  "timed a b l \<longleftrightarrow> a \<le> b \<and> sorted (map fst l) \<and> (\<forall>e \<in> set l. a \<le> fst e \<and> fst e \<le> b)"

lemma timed_append: "timed a b xs \<Longrightarrow> timed b c ys \<Longrightarrow> timed a c (xs @ ys)"
  by (force simp: timed_def sorted_append)

lemma timed_at: "timed t t (map (Pair t) ss)"
  by (auto simp: timed_def comp_def map_replicate_const)

definition joins_only :: "shutdown_log \<Rightarrow> bool" where
  "joins_only l \<longleftrightarrow> (\<forall>e \<in> set l. \<exists>n. snd e = Join_returned n)"

lemma join_thread_facts:
  assumes "now \<le> deadline"
  shows "now \<le> join_thread finish deadline name now" "join_thread finish deadline name now \<le> deadline"
    "thread_ended finish name (join_thread finish deadline name now) \<or> join_thread finish deadline name now = deadline"
  using assms by (auto simp: join_thread_def thread_ended_def Let_def split: option.splits)

lemma thread_ended_mono: "thread_ended finish name t \<Longrightarrow> t \<le> u \<Longrightarrow> thread_ended finish name u"
  by (auto simp: thread_ended_def split: option.splits)

lemma join_named_facts:
  assumes "join_named_stage_threads finish deadline threads names now = (l, t)" and "now \<le> deadline"
  shows "timed now t l \<and> t \<le> deadline \<and> joins_only l
    \<and> (\<forall>n \<in> set names \<inter> set threads. thread_ended finish n t \<or> t = deadline)"
  using assms
proof (induction names arbitrary: now l)
  case (Cons n names)
  show ?case
  proof (cases "n \<in> set threads")
    case False
    then show ?thesis using Cons by simp
  next
    case True
    let ?u = "join_thread finish deadline n now"
    obtain l1 where l1: "join_named_stage_threads finish deadline threads names ?u = (l1, t)" "l = (?u, Join_returned n) # l1"
      using Cons.prems(1) True by (auto simp: Let_def split: prod.splits)
    note f = join_thread_facts [OF Cons.prems(2), of finish n]
    note ih = Cons.IH [OF l1(1) f(2)]
    then have "thread_ended finish n t \<or> t = deadline" using f(3) thread_ended_mono [of finish n ?u t] by (auto simp: timed_def)
    moreover have "timed now t ([(?u, Join_returned n)] @ l1)"
      by (rule timed_append [of _ ?u]) (use ih f in \<open>simp_all add: timed_def\<close>)
    ultimately show ?thesis using ih by (auto simp: l1(2) joins_only_def)
  qed
qed (simp add: timed_def joins_only_def)

lemma archive_join_facts:
  assumes "archive_join finish deadline d now = (l, t)" and "now \<le> deadline"
  shows "timed now t l \<and> t \<le> deadline \<and> joins_only l
    \<and> (dw_archive_thread d \<longrightarrow> thread_ended finish ARCHIVE_THREAD t \<or> t = deadline)"
  using assms join_thread_facts [OF assms(2), of finish ARCHIVE_THREAD]
  by (auto simp: archive_join_def Let_def timed_def joins_only_def split: if_splits)

declare join_named_stage_threads.simps [simp del]

section \<open>What a shutdown guarantees\<close>


text \<open>
  C40. A signal that arrives before \<^verbatim>\<open>start\<close> has created the handoff queue ends the shutdown thread with
  \<^verbatim>\<open>AttributeError\<close> before the writer is stopped, and every later shutdown returns at once: the event that
  \<^verbatim>\<open>run_forever\<close> waits for is never set.
\<close>

theorem shutdown_during_startup_hangs:
  assumes "\<not> dw_shutting_down d" and "\<not> dw_handoff d" and "shutdown finish now d = ((r, steps), d')"
  shows "r = Inl AttributeError \<and> (\<forall>t. (t, Stop_writer) \<notin> set steps \<and> (t, Set_stopped_event) \<notin> set steps)
    \<and> shutdown finish' later (d'\<lparr>dw_handoff := True, dw_stage_threads := threads\<rparr>) = ((Inr (), []), d'\<lparr>dw_handoff := True, dw_stage_threads := threads\<rparr>)"
proof -
  have D: "now \<le> now + SHUTDOWN_GRACE_SECONDS" by (simp add: SHUTDOWN_GRACE_SECONDS_def)
  obtain l1 t1 where 1: "join_named_stage_threads finish (now + SHUTDOWN_GRACE_SECONDS) (dw_stage_threads d) [''fetch''] now = (l1, t1)"
    by (metis prod.exhaust)
  show ?thesis using assms(3) join_named_facts [OF 1 D] by (force simp: shutdown_def assms(1,2) Let_def 1 joins_only_def)
qed

definition demo_view :: daemon_view where
  "demo_view = \<lparr>dw_shutting_down = False, dw_handoff = True, dw_stage_threads = [''gc'', ''fetch''], dw_archive_thread = True,
     dw_control_server = True, dw_metrics_server = False, dw_fetch_pool = True, dw_convert_pool = True, dw_open_segment = False\<rparr>"

lemma demo_shutdown:
  "\<exists>steps d'. shutdown (\<lambda>n. if n = ''gc'' then None else Some 3) 1 demo_view = ((Inr (), steps), d')
    \<and> (31, Stop_writer) \<in> set steps \<and> (3, Close_handoff_queue) \<in> set steps"
  by (simp add: shutdown_def demo_view_def Let_def join_named_stage_threads.simps join_thread_def thread_ended_def archive_join_def
      ARCHIVE_THREAD_def SHUTDOWN_GRACE_SECONDS_def shutdown_tail_def only_if_def)


theorem shutdown_during_startup_hangs_witness:
  "\<exists>steps d'. shutdown (\<lambda>_. None) 1 (demo_view\<lparr>dw_handoff := False\<rparr>) = ((Inl AttributeError, steps), d')
    \<and> (\<forall>t. (t, Set_stopped_event) \<notin> set steps)"
proof -
  obtain r steps d' where s: "shutdown (\<lambda>_. None) 1 (demo_view\<lparr>dw_handoff := False\<rparr>) = ((r, steps), d')" by (metis prod.exhaust)
  have "\<not> dw_shutting_down (demo_view\<lparr>dw_handoff := False\<rparr>)" "\<not> dw_handoff (demo_view\<lparr>dw_handoff := False\<rparr>)"
    by (simp_all add: demo_view_def)
  from shutdown_during_startup_hangs [OF this s] show ?thesis using s by blast
qed

end
