(* ===== verification/Spec2Isabelle.thy ===== *)
theory Spec2Isabelle
  imports Prelude Schema Sqlite_Writer Ratelimit Circuit_Breaker Disk_Guard Stage_Loop Archive_Store
    Convert Dispatcher Reprocess Pypi_Client Ingest Ingest_Effects
    Byte_Queue Fetch_Bulk Stage_Effects Startup Service Db_Inv Fsck Health Metrics Json Control Db Config Cli Shutdown
begin

text \<open>
  A verification development of reroll-sync, the daemon that mirrors the wheel metadata of PyPI: it polls the simple
  index, diffs project pages against a SQLite database, downloads the METADATA sidecars, archives their bytes in
  compressed segment files, converts them to repodata, and is operated through a unix socket and a command line. All
  paths below are under \<^verbatim>\<open>src/src/reroll_sync/\<close>.

  \<^bold>\<open>The program and its theories.\<close> Every operation of the code is a function from the state it reads to its result and
  the new state, in the order the code makes its calls; an exception is the left of a sum (\<^verbatim>\<open>py_exn\<close>), and a result that
  may block or be refused is an option or a datatype of outcomes.

  \<^item> \<^verbatim>\<open>Prelude\<close>: results, Python's slices and \<^verbatim>\<open>repr\<close>, an SQL table as a list of rows (\<^verbatim>\<open>LIMIT\<close>, \<^verbatim>\<open>UPDATE\<close>, upsert, keyset
    pages), the lemmas all components share.
  \<^item> \<^verbatim>\<open>Schema\<close> (\<^verbatim>\<open>schema.py\<close>): wheel states, transitions, table declarations with their DDL, the rows and the database record.
    The locale \<^verbatim>\<open>sql_table\<close> is interpreted on each of the nine tables. \<^verbatim>\<open>Db\<close> (\<^verbatim>\<open>db.py\<close>): the SQLite catalog, creation and
    validation. \<^verbatim>\<open>Db_Inv\<close>: the invariant of the database, kept by every write operation.
  \<^item> \<^verbatim>\<open>Sqlite_Writer\<close> (\<^verbatim>\<open>writer.py\<close>): the batching writer thread with savepoints, sequence counter, drain and fatal errors,
    the guard and the watchdog. \<^verbatim>\<open>Touch\<close>: the chunked update loop shared by the campaigns and the ingest operations.
  \<^item> \<^verbatim>\<open>Ratelimit\<close> (\<^verbatim>\<open>ratelimit.py\<close>), \<^verbatim>\<open>Circuit_Breaker\<close>, \<^verbatim>\<open>Disk_Guard\<close>, \<^verbatim>\<open>Stage_Loop\<close>, \<^verbatim>\<open>Config\<close> (\<^verbatim>\<open>daemon/*.py\<close> of these names).
  \<^item> \<^verbatim>\<open>Archive_Format\<close>, \<^verbatim>\<open>Archive_Writer\<close>, \<^verbatim>\<open>Archive_Reader\<close>, \<^verbatim>\<open>Archive_Store\<close> (\<^verbatim>\<open>archive/*.py\<close>): the bytes of a segment, the open
    segment, the cached reader, the store over directory and tables, and verification.
  \<^item> \<^verbatim>\<open>Convert\<close> (\<^verbatim>\<open>convert.py\<close>), \<^verbatim>\<open>Pypi_Client\<close> (\<^verbatim>\<open>pypi_client.py\<close>).
  \<^item> \<^verbatim>\<open>Dispatcher\<close> (\<^verbatim>\<open>dispatcher.py\<close>): claiming, outcome operations, backoff and quarantine; \<^verbatim>\<open>Reprocess\<close> (\<^verbatim>\<open>dispatcher.py\<close>,
    \<^verbatim>\<open>daemon/unquarantine.py\<close>): selector campaigns and previews.
  \<^item> \<^verbatim>\<open>Ingest\<close>, \<^verbatim>\<open>Ingest_Effects\<close> (\<^verbatim>\<open>ingest.py\<close>): polling, the diff of a page, the write operations, project backoff.
  \<^item> \<^verbatim>\<open>Byte_Queue\<close>, \<^verbatim>\<open>Fetch\<close>, \<^verbatim>\<open>Fetch_Bulk\<close> (\<^verbatim>\<open>fetch.py\<close>): the handoff queue with its threads, download, archiving, crash
    recovery, the bulk source.
  \<^item> \<^verbatim>\<open>Stages\<close>, \<^verbatim>\<open>Stage_Effects\<close> (\<^verbatim>\<open>daemon/stages/*.py\<close>), \<^verbatim>\<open>Startup\<close>, \<^verbatim>\<open>Service\<close>, \<^verbatim>\<open>Shutdown\<close> (\<^verbatim>\<open>daemon/service.py\<close>): the passes of
    the stages, archive recovery, the archive thread, the start of the stages and the shutdown sequence.
  \<^item> \<^verbatim>\<open>Fsck\<close> (\<^verbatim>\<open>fsck.py\<close>), \<^verbatim>\<open>Health\<close> (\<^verbatim>\<open>health.py\<close>), \<^verbatim>\<open>Metrics\<close> (\<^verbatim>\<open>metrics.py\<close>): the checks, the snapshot with its alarms and the
    exposition text.
  \<^item> \<^verbatim>\<open>Json\<close>: the part of Python's \<^verbatim>\<open>json\<close> that is used; \<^verbatim>\<open>Control\<close> (\<^verbatim>\<open>control.py\<close>, \<^verbatim>\<open>control_client.py\<close>): the protocol and the
    daemon's handlers; \<^verbatim>\<open>Cli\<close> (\<^verbatim>\<open>cli.py\<close>): every command from its arguments to output and exit code.

  \<^bold>\<open>How the parts meet.\<close> A wheel row moves through \<^verbatim>\<open>wheels.state\<close>; queues are queries, so the database is the only state
  the stages share. Reads go through the dispatcher's claims, writes are operations on (database, sequence counter) that
  the writer applies: \<^verbatim>\<open>batching_refines_sequential\<close> lets every other theory treat them as applied one after the other, and
  \<^verbatim>\<open>Db_Inv.database_life\<close> is the set of databases any history of such operations, failed commits, segment rows and
  restarts can reach. The archive's tables are the same database; \<^verbatim>\<open>Startup\<close> follows it over crashes. The command line
  meets the daemon in \<^verbatim>\<open>Cli.reprocess_command_runs_campaign\<close>, through printer, socket chunks, parser, dispatch and the
  campaign.

  \<^bold>\<open>What is proved.\<close> Invariants and types: the schema with its references and sequence numbers over every history, the
  queue's accounting and wakeups, the writer's ledger, the agreement of a health snapshot's numbers. Abstract
  specifications refined by the code: a page diff makes the rows mirror the page, campaigns of any chunk size have their
  one-shot effect, batches are sequential application, the paginated checks of fsck are their queries, schema validation is
  agreement with the declaration. Safety and loss: archived bytes survive any crashes and restarts and are read back,
  fetched bytes match the published digest, no claimed wheel is lost by a pass that returns. Termination and liveness:
  draining the writer, the archive thread after the queue is closed, retries, the shutdown within its grace period. Round
  trips: requests and replies over the socket, the metrics text. Bounds: the limiter's rate, the backoff, the
  configuration. The properties of kind error state what the code does where that is not what it means to do, among them
  the half-open trial that is never returned, the archive thread that ends at the first failing write, the database that
  an interrupted init leaves unusable, the queue depth that is always printed as 0, the fsck that finds nothing with a
  negative chunk, and the shutdown that hangs when it arrives during startup.

  \<^bold>\<open>Interfaces.\<close> Locales state contracts that several operations share: \<^verbatim>\<open>sql_table\<close> (frames of an update of one table),
  \<^verbatim>\<open>seq_invariant\<close> (what an operation must keep for the writer to keep it), \<^verbatim>\<open>rate_contract\<close> (bucket and limiter),
  \<^verbatim>\<open>call_gate\<close> (breaker), \<^verbatim>\<open>trigger\<close> (both triggers), \<^verbatim>\<open>chunk_campaign\<close> (the five chunk loops), \<^verbatim>\<open>line_reader\<close> (both ends
  of the socket). Each is interpreted on the model's own definitions.

  \<^bold>\<open>Abstractions and bounds.\<close> Python integers are \<^typ>\<open>int\<close>, floats are reals (exact arithmetic, no NaN; \<^verbatim>\<open>-inf\<close> is
  \<^const>\<open>None\<close>), strings are their UTF-8 bytes, bytes are 8-bit words and the archive's integers keep their width. Clock
  readings, random jitter and the order in which threads deliver results are arguments; a locked section is one step.
  A read transaction sees one database. Loops carry no fuel (but for the reference reader of labels in \<^verbatim>\<open>Metrics\<close>, the length of
  its text): they are structural or have a measure (the number of rows past
  a cursor, of queued operations, of bytes left), and a thread that may block is a step relation. zstandard, msgpack,
  the hash, httpx, the reroll package, the old corpus, float printing and parsing are parameters with
  named hypotheses.

  \<^bold>\<open>Not modelled.\<close> \<^verbatim>\<open>metrics_server.py\<close> and \<^verbatim>\<open>daemon/logging_setup.py\<close> only call the standard library; \<^verbatim>\<open>version.py\<close> and
  \<^verbatim>\<open>archive/__init__.py\<close> hold constants and re-exports. Of \<^verbatim>\<open>daemon/service.py\<close> the signal handlers and the opening of
  connections are left out, of \<^verbatim>\<open>db.py\<close> the connection pragmas, of \<^verbatim>\<open>control.py\<close> binding and accepting, of \<^verbatim>\<open>cli.py\<close> the
  parsing of \<^verbatim>\<open>argv\<close> itself. SQL's order of equal rows is the order of the table, and page counts, file sizes and free
  space are arguments.
\<close>

end
